(* ===== verification/Free_Block_Queue.thy ===== *)
theory Free_Block_Queue
  imports Prelude
begin

section \<open>KV-cache blocks and the free-block queue\<close>

text \<open>
  The class \<open>KVCacheBlock\<close> and the doubly linked \<open>FreeKVCacheBlockQueue\<close> of
  \<open>vllm/v1/core/kv_cache_utils.py\<close>. The queue stores its links inside the blocks, so the
  model is a heap: a reference is the fake head, the fake tail or the \<open>i\<close>-th block of the
  pool, and the heap maps every reference to the object it denotes. Each method is
  translated assignment by assignment. The theory ends with the refinement of this pointer
  structure to plain lists, stated as the locale \<open>free_queue\<close> and its interpretation.
\<close>

subsection \<open>Data model\<close>

datatype bref = Head | Tail | Blk nat

record kv_cache_block =
  block_id :: int
  ref_cnt :: int
  block_hash :: "bytes option"
  prev_free_block :: "bref option"
  next_free_block :: "bref option"
  is_null :: bool

type_synonym heap = "bref \<Rightarrow> kv_cache_block"

text \<open>\<open>KVCacheBlock(block_id=i)\<close>: every other field has its default.\<close>

definition new_kv_cache_block :: "int \<Rightarrow> kv_cache_block" where
  "new_kv_cache_block i =
     \<lparr>block_id = i, ref_cnt = 0, block_hash = None, prev_free_block = None,
      next_free_block = None, is_null = False\<rparr>"

definition set_prev :: "bref \<Rightarrow> bref option \<Rightarrow> heap \<Rightarrow> heap" where
  "set_prev b r h = h(b := (h b)\<lparr>prev_free_block := r\<rparr>)"

definition set_next :: "bref \<Rightarrow> bref option \<Rightarrow> heap \<Rightarrow> heap" where
  "set_next b r h = h(b := (h b)\<lparr>next_free_block := r\<rparr>)"

text \<open>The \<open>block_hash\<close> property setter asserts that no hash is set yet; \<open>reset_hash\<close>.\<close>

definition set_block_hash :: "bref \<Rightarrow> bytes \<Rightarrow> heap \<Rightarrow> heap result" where
  "set_block_hash b k h =
     (if block_hash (h b) = None then Inr (h(b := (h b)\<lparr>block_hash := Some k\<rparr>))
      else Inl AssertionError)"

definition reset_hash :: "bref \<Rightarrow> heap \<Rightarrow> heap" where
  "reset_hash b h = h(b := (h b)\<lparr>block_hash := None\<rparr>)"

definition add_ref_cnt :: "bref \<Rightarrow> int \<Rightarrow> heap \<Rightarrow> heap" where
  "add_ref_cnt b d h = h(b := (h b)\<lparr>ref_cnt := ref_cnt (h b) + d\<rparr>)"

record free_block_queue =
  fq_heap :: heap
  num_free_blocks :: int

subsection \<open>Operations\<close>

definition link_consecutive :: "bref list \<Rightarrow> heap \<Rightarrow> heap" where
  "link_consecutive bs h =
     fold (\<lambda>i h. let h1 = (if i > 0 then set_prev (bs ! i) (Some (bs ! (i - 1))) h else h)
                 in if i < length bs - 1 then set_next (bs ! i) (Some (bs ! (i + 1))) h1 else h1)
          [0..<length bs] h"

definition free_queue_init :: "heap \<Rightarrow> bref list \<Rightarrow> free_block_queue" where
  "free_queue_init h bs =
     (let h1 = link_consecutive bs h;
          h2 = h1(Head := new_kv_cache_block (- 1), Tail := new_kv_cache_block (- 1));
          h3 = (if length bs > 0
                then set_next (last bs) (Some Tail)
                       (set_prev Tail (Some (last bs))
                         (set_prev (hd bs) (Some Head)
                           (set_next Head (Some (hd bs)) h2)))
                else set_prev Tail (Some Head) (set_next Head (Some Tail) h2))
      in \<lparr>fq_heap = h3, num_free_blocks = int (length bs)\<rparr>)"

definition popleft :: "free_block_queue \<Rightarrow> (bref \<times> free_block_queue) result" where
  "popleft q =
     (let h = fq_heap q in
      case next_free_block (h Head) of
        None \<Rightarrow> rbind (rassert (num_free_blocks q = 0)) (\<lambda>_. Inl ValueError)
      | Some first \<Rightarrow>
          if first = Tail then rbind (rassert (num_free_blocks q = 0)) (\<lambda>_. Inl ValueError)
          else (case next_free_block (h first) of
                  None \<Rightarrow> Inl RuntimeError
                | Some nxt \<Rightarrow>
                    let h1 = set_next Head (Some nxt) h;
                        h2 = set_prev nxt (Some Head) h1;
                        h3 = set_prev first None (set_next first None h2)
                    in Inr (first, q\<lparr>fq_heap := h3, num_free_blocks := num_free_blocks q - 1\<rparr>)))"

fun popleft_n_loop :: "nat \<Rightarrow> bref option \<Rightarrow> heap \<Rightarrow> (bref list \<times> bref option \<times> heap) result" where
  "popleft_n_loop 0 cur h = Inr ([], cur, h)"
| "popleft_n_loop (Suc k) cur h =
     (case cur of
        None \<Rightarrow> Inl AssertionError
      | Some b \<Rightarrow>
          let nxt = next_free_block (h b);
              h1 = set_next b None (set_prev b None h)
          in rbind (popleft_n_loop k nxt h1) (\<lambda>(ret, cur', h'). Inr (b # ret, cur', h')))"

definition popleft_n :: "int \<Rightarrow> free_block_queue \<Rightarrow> (bref list \<times> free_block_queue) result" where
  "popleft_n n q =
     (if n = 0 then Inr ([], q)
      else if \<not> num_free_blocks q \<ge> n then Inl AssertionError
      else rbind (popleft_n_loop (nat n) (next_free_block (fq_heap q Head)) (fq_heap q))
        (\<lambda>(ret, cur, h).
           let h1 = (case cur of
                       None \<Rightarrow> h
                     | Some c \<Rightarrow> set_prev c (Some Head) (set_next Head (Some c) h))
           in Inr (ret, q\<lparr>fq_heap := h1, num_free_blocks := num_free_blocks q - n\<rparr>)))"

definition fq_remove :: "bref \<Rightarrow> free_block_queue \<Rightarrow> free_block_queue result" where
  "fq_remove b q =
     (let h = fq_heap q in
      case (prev_free_block (h b), next_free_block (h b)) of
        (Some p, Some n) \<Rightarrow>
          let h1 = set_next p (Some n) h;
              h2 = set_prev n (Some p) h1;
              h3 = set_prev b None (set_next b None h2)
          in Inr (q\<lparr>fq_heap := h3, num_free_blocks := num_free_blocks q - 1\<rparr>)
      | _ \<Rightarrow> Inl RuntimeError)"

definition fq_append :: "bref \<Rightarrow> free_block_queue \<Rightarrow> free_block_queue result" where
  "fq_append b q =
     (let h = fq_heap q in
      case prev_free_block (h Tail) of
        None \<Rightarrow> Inl RuntimeError
      | Some l \<Rightarrow>
          let h1 = set_prev b (Some l) (set_next l (Some b) h);
              h2 = set_prev Tail (Some b) (set_next b (Some Tail) h1)
          in Inr (q\<lparr>fq_heap := h2, num_free_blocks := num_free_blocks q + 1\<rparr>))"

text \<open>The loop shared by \<open>append_n\<close> and \<open>prepend_n\<close>: chain the blocks behind \<open>l\<close>.\<close>

fun chain_blocks :: "bref list \<Rightarrow> bref \<Rightarrow> heap \<Rightarrow> bref \<times> heap" where
  "chain_blocks [] l h = (l, h)"
| "chain_blocks (b # bs) l h = chain_blocks bs b (set_next l (Some b) (set_prev b (Some l) h))"

definition prepend_n :: "bref list \<Rightarrow> free_block_queue \<Rightarrow> free_block_queue result" where
  "prepend_n bs q =
     (if length bs = 0 then Inr q
      else case next_free_block (fq_heap q Head) of
             None \<Rightarrow> Inl AssertionError
           | Some first \<Rightarrow>
               let (l, h1) = chain_blocks bs Head (fq_heap q);
                   h2 = set_prev first (Some l) (set_next l (Some first) h1)
               in Inr (q\<lparr>fq_heap := h2, num_free_blocks := num_free_blocks q + int (length bs)\<rparr>))"

definition append_n :: "bref list \<Rightarrow> free_block_queue \<Rightarrow> free_block_queue result" where
  "append_n bs q =
     (if length bs = 0 then Inr q
      else case prev_free_block (fq_heap q Tail) of
             None \<Rightarrow> Inl AssertionError
           | Some last_block \<Rightarrow>
               let (l, h1) = chain_blocks bs last_block (fq_heap q);
                   h2 = set_prev Tail (Some l) (set_next l (Some Tail) h1)
               in Inr (q\<lparr>fq_heap := h2, num_free_blocks := num_free_blocks q + int (length bs)\<rparr>))"

text \<open>The \<open>while\<close> loop of \<open>get_all_free_blocks\<close>; on a cyclic list it would not return.\<close>

partial_function (option) walk_free :: "heap \<Rightarrow> bref \<Rightarrow> bref list \<Rightarrow> bref list option" where
  "walk_free h cur ret =
     (case next_free_block (h cur) of
        None \<Rightarrow> Some ret
      | Some n \<Rightarrow> walk_free h n (ret @ [cur]))"

definition get_all_free_blocks :: "free_block_queue \<Rightarrow> bref list result option" where
  "get_all_free_blocks q =
     (case next_free_block (fq_heap q Head) of
        None \<Rightarrow> Some (Inl RuntimeError)
      | Some c \<Rightarrow> map_option Inr (walk_free (fq_heap q) c []))"

subsection \<open>The links of a heap\<close>

definition nx :: "heap \<Rightarrow> bref \<Rightarrow> bref option" where
  "nx h b = next_free_block (h b)"

definition pv :: "heap \<Rightarrow> bref \<Rightarrow> bref option" where
  "pv h b = prev_free_block (h b)"

named_theorems link_simps \<open>links after an assignment\<close>

lemma nx_set_next [link_simps]: "nx (set_next b r h) = (nx h)(b := r)"
  by (auto simp: nx_def set_next_def)

lemma nx_set_prev [link_simps]: "nx (set_prev b r h) = nx h"
  by (auto simp: nx_def set_prev_def)

lemma pv_set_next [link_simps]: "pv (set_next b r h) = pv h"
  by (auto simp: pv_def set_next_def)

lemma pv_set_prev [link_simps]: "pv (set_prev b r h) = (pv h)(b := r)"
  by (auto simp: pv_def set_prev_def)

lemma nx_fun_upd [link_simps]: "nx (h(b := x)) = (nx h)(b := next_free_block x)"
  by (auto simp: nx_def)

lemma pv_fun_upd [link_simps]: "pv (h(b := x)) = (pv h)(b := prev_free_block x)"
  by (auto simp: pv_def)

text \<open>Everything of a block that is not a link.\<close>

definition payload :: "kv_cache_block \<Rightarrow> int \<times> int \<times> bytes option \<times> bool" where
  "payload b = (block_id b, ref_cnt b, block_hash b, is_null b)"

definition same_payload :: "heap \<Rightarrow> heap \<Rightarrow> bool" where
  "same_payload h h' \<longleftrightarrow> (\<forall>b. payload (h' b) = payload (h b))"

lemma same_payload_refl [simp]: "same_payload h h"
  by (simp add: same_payload_def)

lemma same_payload_trans: "same_payload h h' \<Longrightarrow> same_payload h' h'' \<Longrightarrow> same_payload h h''"
  by (simp add: same_payload_def)

lemma same_payload_set_next [link_simps]: "same_payload h (set_next b r h') = same_payload h h'"
  by (auto simp: same_payload_def payload_def set_next_def)

lemma same_payload_set_prev [link_simps]: "same_payload h (set_prev b r h') = same_payload h h'"
  by (auto simp: same_payload_def payload_def set_prev_def)

lemma same_payloadD:
  assumes "same_payload h h'"
  shows "block_id (h' b) = block_id (h b)" "ref_cnt (h' b) = ref_cnt (h b)"
    "block_hash (h' b) = block_hash (h b)" "is_null (h' b) = is_null (h b)"
  using assms by (auto simp: same_payload_def payload_def)

text \<open>Chains of \<open>next\<close> and \<open>prev\<close> links, over the link functions alone.\<close>

fun nxt_chain :: "(bref \<Rightarrow> bref option) \<Rightarrow> bref \<Rightarrow> bref list \<Rightarrow> bool" where
  "nxt_chain n a [] = True"
| "nxt_chain n a (b # bs) = (n a = Some b \<and> nxt_chain n b bs)"

fun prv_chain :: "(bref \<Rightarrow> bref option) \<Rightarrow> bref \<Rightarrow> bref list \<Rightarrow> bool" where
  "prv_chain p a [] = True"
| "prv_chain p a (b # bs) = (p b = Some a \<and> prv_chain p b bs)"

lemma nxt_chain_append:
  "nxt_chain n a (xs @ ys) \<longleftrightarrow> nxt_chain n a xs \<and> nxt_chain n (last (a # xs)) ys"
  by (induction xs arbitrary: a) auto

lemma prv_chain_append:
  "prv_chain p a (xs @ ys) \<longleftrightarrow> prv_chain p a xs \<and> prv_chain p (last (a # xs)) ys"
  by (induction xs arbitrary: a) auto

lemma nxt_chain_upd:
  "c \<notin> set (butlast (a # xs)) \<Longrightarrow> nxt_chain (n(c := r)) a xs = nxt_chain n a xs"
  by (induction xs arbitrary: a) auto

lemma prv_chain_upd: "c \<notin> set xs \<Longrightarrow> prv_chain (p(c := r)) a xs = prv_chain p a xs"
  by (induction xs arbitrary: a) auto

lemma nxt_chain_cong:
  "(\<And>c. c \<in> set (a # xs) \<Longrightarrow> n' c = n c) \<Longrightarrow> nxt_chain n' a xs = nxt_chain n a xs"
  by (induction xs arbitrary: a) auto

lemma prv_chain_cong: "(\<And>c. c \<in> set xs \<Longrightarrow> p' c = p c) \<Longrightarrow> prv_chain p' a xs = prv_chain p a xs"
  by (induction xs arbitrary: a) auto

subsection \<open>The abstraction relation\<close>

text \<open>
  \<open>fq_rep q xs\<close>: the queue \<open>q\<close> holds exactly the blocks \<open>xs\<close>, in this order. The links in
  both directions run from the fake head over \<open>xs\<close> to the fake tail, a block outside the
  queue has no links, and the counter is the length.
\<close>

definition fq_rep :: "free_block_queue \<Rightarrow> bref list \<Rightarrow> bool" where
  "fq_rep q xs \<longleftrightarrow>
     distinct xs \<and> Head \<notin> set xs \<and> Tail \<notin> set xs
     \<and> nxt_chain (nx (fq_heap q)) Head (xs @ [Tail])
     \<and> prv_chain (pv (fq_heap q)) Head (xs @ [Tail])
     \<and> nx (fq_heap q) Tail = None
     \<and> (\<forall>b. b \<notin> set xs \<and> b \<noteq> Head \<and> b \<noteq> Tail \<longrightarrow>
            nx (fq_heap q) b = None \<and> pv (fq_heap q) b = None)
     \<and> num_free_blocks q = int (length xs)"

lemma fq_rep_distinct: "fq_rep q xs \<Longrightarrow> distinct xs"
  by (simp add: fq_rep_def)

lemma fq_rep_real: "fq_rep q xs \<Longrightarrow> b \<in> set xs \<Longrightarrow> b \<noteq> Head \<and> b \<noteq> Tail"
  by (auto simp: fq_rep_def)

lemma fq_rep_num: "fq_rep q xs \<Longrightarrow> num_free_blocks q = int (length xs)"
  by (simp add: fq_rep_def)

lemma nxt_chain_unique:
  "nxt_chain n a (xs @ [Tail]) \<Longrightarrow> nxt_chain n a (ys @ [Tail]) \<Longrightarrow>
   Tail \<notin> set xs \<Longrightarrow> Tail \<notin> set ys \<Longrightarrow> xs = ys"
proof (induction xs arbitrary: a ys)
  case Nil
  then show ?case by (cases ys) auto
next
  case (Cons x xs)
  then show ?case by (cases ys) auto
qed

lemma fq_rep_unique: "fq_rep q xs \<Longrightarrow> fq_rep q ys \<Longrightarrow> xs = ys"
  unfolding fq_rep_def using nxt_chain_unique by blast

text \<open>The relation only reads links and the counter.\<close>

lemma fq_rep_cong:
  "nx (fq_heap q') = nx (fq_heap q) \<Longrightarrow> pv (fq_heap q') = pv (fq_heap q) \<Longrightarrow>
   num_free_blocks q' = num_free_blocks q \<Longrightarrow> fq_rep q' xs = fq_rep q xs"
  by (simp add: fq_rep_def)

subsection \<open>Cutting a segment out of the queue and splicing one in\<close>

text \<open>
  Both \<open>popleft\<close>, \<open>popleft_n\<close> and \<open>remove\<close> cut a segment \<open>mid\<close>: its blocks lose their
  links and its two neighbours are joined.
\<close>

lemma fq_rep_cut:
  assumes rep: "fq_rep q (pre @ mid @ post)"
    and nx': "nx (fq_heap q') = (\<lambda>c. if c \<in> set mid then None
                 else if c = last (Head # pre) then Some (hd (post @ [Tail])) else nx (fq_heap q) c)"
    and pv': "pv (fq_heap q') = (\<lambda>c. if c \<in> set mid then None
                 else if c = hd (post @ [Tail]) then Some (last (Head # pre)) else pv (fq_heap q) c)"
    and num: "num_free_blocks q' = num_free_blocks q - int (length mid)"
  shows "fq_rep q' (pre @ post)"
proof -
  let ?n = "nx (fq_heap q)" and ?p = "pv (fq_heap q)" and ?l = "last (Head # pre)"
  obtain r rest where r: "post @ [Tail] = r # rest" by (cases post) auto
  have d: "distinct (Head # pre @ mid @ r # rest)"
    using rep by (subst r[symmetric]) (auto simp: fq_rep_def)
  have rl: "set (r # rest) = insert Tail (set post)" by (subst r[symmetric]) auto
  have l: "?l \<in> set (Head # pre)" "?l \<notin> set (butlast (Head # pre))"
    using last_notin_butlast[of "Head # pre"] d by auto
  have old: "nxt_chain ?n Head pre" "nxt_chain ?n r rest" "prv_chain ?p Head pre" "prv_chain ?p r rest"
    using rep unfolding fq_rep_def append_assoc r
    by (auto simp: nxt_chain_append prv_chain_append)
  have "nxt_chain (nx (fq_heap q')) Head pre = nxt_chain (?n(?l := Some r)) Head pre"
    using d r unfolding nx' by (intro nxt_chain_cong) auto
  then have n1: "nxt_chain (nx (fq_heap q')) Head pre" using l old(1) by (simp add: nxt_chain_upd)
  have n2: "nxt_chain (nx (fq_heap q')) r rest"
    using old(2) d l(1) r unfolding nx' by (subst nxt_chain_cong[where n = ?n]) auto
  have p1: "prv_chain (pv (fq_heap q')) Head pre" and p2: "prv_chain (pv (fq_heap q')) r rest"
    using old(3,4) d r unfolding pv' by (subst prv_chain_cong[where p = ?p]; auto)+
  have n3: "nx (fq_heap q') ?l = Some r" "pv (fq_heap q') r = Some ?l"
    using d l(1) r by (auto simp: nx' pv')
  have out: "nx (fq_heap q') b = None \<and> pv (fq_heap q') b = None"
    if "b \<notin> set (pre @ post)" "b \<noteq> Head" "b \<noteq> Tail" for b
    using that rep l(1) r rl by (auto simp: nx' pv' fq_rep_def)
  have "nx (fq_heap q') Tail = None"
    using rep l(1) by (auto simp: nx' fq_rep_def)
  with n1 n2 n3 p1 p2 out rep num show ?thesis
    unfolding fq_rep_def append_assoc r by (auto simp: nxt_chain_append prv_chain_append)
qed

text \<open>\<open>append\<close>, \<open>append_n\<close> and \<open>prepend_n\<close> splice a chained segment between two neighbours.\<close>

lemma fq_rep_splice:
  assumes rep: "fq_rep q (pre @ post)"
    and mid: "distinct mid" "set mid \<inter> set (pre @ post) = {}" "Head \<notin> set mid" "Tail \<notin> set mid" "mid \<noteq> []"
    and nch: "nxt_chain (nx (fq_heap q')) (last (Head # pre)) (mid @ [hd (post @ [Tail])])"
    and pch: "prv_chain (pv (fq_heap q')) (last (Head # pre)) (mid @ [hd (post @ [Tail])])"
    and nfr: "\<And>c. c \<notin> set (last (Head # pre) # mid) \<Longrightarrow> nx (fq_heap q') c = nx (fq_heap q) c"
    and pfr: "\<And>c. c \<notin> set (hd (post @ [Tail]) # mid) \<Longrightarrow> pv (fq_heap q') c = pv (fq_heap q) c"
    and num: "num_free_blocks q' = num_free_blocks q + int (length mid)"
  shows "fq_rep q' (pre @ mid @ post)"
proof -
  let ?n = "nx (fq_heap q)" and ?p = "pv (fq_heap q)" and ?l = "last (Head # pre)"
  obtain r rest where r: "post @ [Tail] = r # rest" by (cases post) auto
  have rl: "set (r # rest) = insert Tail (set post)" by (subst r[symmetric]) auto
  have d: "distinct (Head # pre @ mid @ r # rest)"
    using rep mid by (subst r[symmetric]) (auto simp: fq_rep_def)
  have l: "?l \<in> set (Head # pre)" "?l \<notin> set (butlast (Head # pre))"
    using last_notin_butlast[of "Head # pre"] d by auto
  have old: "nxt_chain ?n Head pre" "nxt_chain ?n r rest" "prv_chain ?p Head pre" "prv_chain ?p r rest"
    using rep unfolding fq_rep_def append_assoc r
    by (auto simp: nxt_chain_append prv_chain_append)
  have "nxt_chain (nx (fq_heap q')) Head pre = nxt_chain (?n(?l := nx (fq_heap q') ?l)) Head pre"
    using d by (intro nxt_chain_cong) (auto intro!: nfr)
  then have n1: "nxt_chain (nx (fq_heap q')) Head pre" using l old(1) by (simp add: nxt_chain_upd)
  have n2: "nxt_chain (nx (fq_heap q')) r rest"
    using old(2) d l(1) by (subst nxt_chain_cong[where n = ?n]) (auto intro!: nfr)
  have p1: "prv_chain (pv (fq_heap q')) Head pre" and p2: "prv_chain (pv (fq_heap q')) r rest"
    using old(3,4) d r by (subst prv_chain_cong[where p = ?p]; auto intro!: pfr)+
  have out: "nx (fq_heap q') b = None \<and> pv (fq_heap q') b = None"
    if "b \<notin> set (pre @ mid @ post)" "b \<noteq> Head" "b \<noteq> Tail" for b
    using that rep l(1) r rl nfr[of b] pfr[of b] by (auto simp: fq_rep_def)
  have "?l \<noteq> Tail" using rep by (cases pre rule: rev_cases) (auto simp: fq_rep_def)
  then have "nx (fq_heap q') Tail = None"
    using rep mid(4) nfr[of Tail] by (auto simp: fq_rep_def)
  moreover have "last (Head # pre @ mid) = last (?l # mid)" by simp
  ultimately show ?thesis
    using n1 n2 p1 p2 out rep num mid nch pch r
    unfolding fq_rep_def append_assoc r by (auto simp: nxt_chain_append prv_chain_append)
qed

subsection \<open>Refinement of the queue operations\<close>

lemma popleft_empty:
  "fq_rep q [] \<Longrightarrow> popleft q = Inl ValueError"
  by (auto simp: fq_rep_def popleft_def nx_def)

lemma popleft_refines:
  assumes rep: "fq_rep q (x # xs)"
  obtains q' where "popleft q = Inr (x, q')" "fq_rep q' xs"
    "same_payload (fq_heap q) (fq_heap q')"
proof -
  let ?h = "fq_heap q" and ?n = "hd (xs @ [Tail])"
  define q' where "q' = q\<lparr>fq_heap := set_prev x None (set_next x None
      (set_prev ?n (Some Head) (set_next Head (Some ?n) ?h))),
      num_free_blocks := num_free_blocks q - 1\<rparr>"
  have n: "nx ?h x = Some ?n" "nx ?h Head = Some x" "x \<noteq> Head" "x \<noteq> Tail" "x \<noteq> ?n"
    using rep by (cases xs; auto simp: fq_rep_def)+
  have "popleft q = Inr (x, q')"
    using n by (auto simp: popleft_def nx_def q'_def Let_def)
  moreover have "fq_rep q' ([] @ xs)"
    by (rule fq_rep_cut[where mid = "[x]" and q = q])
      (use rep n in \<open>auto simp: q'_def link_simps fun_eq_iff\<close>)
  moreover have "same_payload ?h (fq_heap q')" by (simp add: q'_def link_simps)
  ultimately show thesis using that[of q'] by simp
qed

lemma popleft_n_loop_chain:
  assumes "nxt_chain n a (xs @ [r])" "n a = cur" "\<forall>c \<in> set xs. nx h c = n c" "distinct xs"
  shows "\<exists>h'. popleft_n_loop (length xs) cur h = Inr (xs, Some r, h')
    \<and> nx h' = (\<lambda>c. if c \<in> set xs then None else nx h c)
    \<and> pv h' = (\<lambda>c. if c \<in> set xs then None else pv h c) \<and> same_payload h h'"
  using assms
proof (induction xs arbitrary: a cur h)
  case Nil
  then show ?case by simp
next
  case (Cons x xs)
  let ?h1 = "set_next x None (set_prev x None h)"
  have cur: "cur = Some x" using Cons.prems(1,2) by simp
  have "\<forall>c \<in> set xs. nx ?h1 c = n c"
    using Cons.prems(3,4) by (auto simp: link_simps)
  then obtain h' where h': "popleft_n_loop (length xs) (n x) ?h1 = Inr (xs, Some r, h')"
      "nx h' = (\<lambda>c. if c \<in> set xs then None else nx ?h1 c)"
      "pv h' = (\<lambda>c. if c \<in> set xs then None else pv ?h1 c)" "same_payload ?h1 h'"
    using Cons.IH[of x "n x" ?h1] Cons.prems by auto
  have "next_free_block (h x) = n x" using Cons.prems(3) by (simp add: nx_def)
  then have "popleft_n_loop (length (x # xs)) cur h = Inr (x # xs, Some r, h')"
    using h'(1) cur by (simp add: Let_def)
  moreover have "same_payload h h'"
    using h'(4) by (rule same_payload_trans[rotated]) (simp add: link_simps)
  ultimately show ?case using h'(2,3) by (auto simp: link_simps fun_eq_iff)
qed

lemma popleft_n_refines:
  assumes rep: "fq_rep q (xs @ ys)"
  obtains q' where "popleft_n (int (length xs)) q = Inr (xs, q')" "fq_rep q' ys"
    "same_payload (fq_heap q) (fq_heap q')"
proof (cases "xs = []")
  case True
  then show ?thesis using that rep by (simp add: popleft_n_def)
next
  case False
  let ?h = "fq_heap q" and ?r = "hd (ys @ [Tail])"
  obtain rest where r: "ys @ [Tail] = ?r # rest" by (cases ys) auto
  have "nxt_chain (nx ?h) Head ((xs @ [?r]) @ rest)"
    using rep unfolding fq_rep_def append_assoc append_Cons append_Nil r[symmetric] by simp
  then have "nxt_chain (nx ?h) Head (xs @ [?r])" by (simp only: nxt_chain_append)
  then obtain h1 where h1: "popleft_n_loop (length xs) (nx ?h Head) ?h = Inr (xs, Some ?r, h1)"
      "nx h1 = (\<lambda>c. if c \<in> set xs then None else nx ?h c)"
      "pv h1 = (\<lambda>c. if c \<in> set xs then None else pv ?h c)" "same_payload ?h h1"
    using popleft_n_loop_chain[OF _ refl, of "nx ?h" Head xs ?r ?h] rep by (auto simp: fq_rep_def)
  define q' where "q' = q\<lparr>fq_heap := set_prev ?r (Some Head) (set_next Head (Some ?r) h1),
      num_free_blocks := num_free_blocks q - int (length xs)\<rparr>"
  have ne: "?r \<notin> set xs" "Head \<notin> set xs" using rep by (cases ys; auto simp: fq_rep_def)+
  have "fq_rep q' ([] @ ys)"
    by (rule fq_rep_cut[where mid = xs and q = q])
      (use rep ne in \<open>auto simp: q'_def link_simps h1(2,3) fun_eq_iff\<close>)
  moreover have "popleft_n (int (length xs)) q = Inr (xs, q')"
    using False rep h1(1) by (simp add: popleft_n_def q'_def fq_rep_def nx_def)
  moreover have "same_payload ?h (fq_heap q')" using h1(4) by (simp add: q'_def link_simps)
  ultimately show thesis using that[of q'] by simp
qed

lemma popleft_n_too_many:
  "fq_rep q xs \<Longrightarrow> int (length xs) < n \<Longrightarrow> popleft_n n q = Inl AssertionError"
  by (auto simp: popleft_n_def fq_rep_def)

lemma fq_remove_refines:
  assumes rep: "fq_rep q (xs @ b # ys)"
  obtains q' where "fq_remove b q = Inr q'" "fq_rep q' (xs @ ys)"
    "same_payload (fq_heap q) (fq_heap q')"
proof -
  let ?h = "fq_heap q" and ?l = "last (Head # xs)" and ?r = "hd (ys @ [Tail])"
  obtain rest where r: "ys @ [Tail] = ?r # rest" by (cases ys) auto
  have "nxt_chain (nx ?h) Head (xs @ b # ?r # rest)" "prv_chain (pv ?h) Head (xs @ b # ?r # rest)"
    using rep unfolding fq_rep_def append_assoc append_Cons r[symmetric] by auto
  then have lk: "nx ?h b = Some ?r" "pv ?h b = Some ?l"
    by (auto simp: nxt_chain_append prv_chain_append)
  have ne: "?l \<noteq> b" "?r \<noteq> b"
    using rep by (cases xs rule: rev_cases; auto simp: fq_rep_def) (use rep in \<open>cases ys; auto simp: fq_rep_def\<close>)
  define q' where "q' = q\<lparr>fq_heap := set_prev b None (set_next b None
      (set_prev ?r (Some ?l) (set_next ?l (Some ?r) ?h))),
      num_free_blocks := num_free_blocks q - 1\<rparr>"
  have "fq_remove b q = Inr q'"
    using lk by (simp add: fq_remove_def q'_def nx_def pv_def Let_def)
  moreover have "fq_rep q' (xs @ ys)"
    by (rule fq_rep_cut[where mid = "[b]" and q = q])
      (use rep ne in \<open>auto simp: q'_def link_simps fun_eq_iff\<close>)
  moreover have "same_payload ?h (fq_heap q')" by (simp add: q'_def link_simps)
  ultimately show thesis using that[of q'] by simp
qed

lemma fq_remove_not_member:
  "fq_rep q xs \<Longrightarrow> b \<notin> set xs \<Longrightarrow> b \<noteq> Head \<Longrightarrow> b \<noteq> Tail \<Longrightarrow> fq_remove b q = Inl RuntimeError"
  by (auto simp: fq_rep_def fq_remove_def nx_def pv_def split: option.splits)


lemma fq_append_refines:
  assumes rep: "fq_rep q xs" and b: "b \<notin> set xs" "b \<noteq> Head" "b \<noteq> Tail"
  obtains q' where "fq_append b q = Inr q'" "fq_rep q' (xs @ [b])"
    "same_payload (fq_heap q) (fq_heap q')"
proof -
  let ?h = "fq_heap q" and ?l = "last (Head # xs)"
  have lk: "pv ?h Tail = Some ?l" using rep by (simp add: fq_rep_def prv_chain_append)
  have ne: "?l \<noteq> b" using b by (cases xs rule: rev_cases) auto
  define q' where "q' = q\<lparr>fq_heap := set_prev Tail (Some b) (set_next b (Some Tail)
      (set_prev b (Some ?l) (set_next ?l (Some b) ?h))),
      num_free_blocks := num_free_blocks q + 1\<rparr>"
  have "fq_append b q = Inr q'"
    using lk by (simp add: fq_append_def q'_def pv_def Let_def)
  moreover have "fq_rep q' (xs @ [b] @ [])"
    by (rule fq_rep_splice[where q = q]) (use rep b ne in \<open>auto simp: q'_def link_simps\<close>)
  moreover have "same_payload ?h (fq_heap q')" by (simp add: q'_def link_simps)
  ultimately show thesis using that[of q'] by simp
qed

lemma chain_blocks_spec:
  assumes "distinct (l # bs)" "chain_blocks bs l h = (l', h')"
  shows "l' = last (l # bs) \<and> nxt_chain (nx h') l bs \<and> prv_chain (pv h') l bs
    \<and> (\<forall>c. c \<notin> set (butlast (l # bs)) \<longrightarrow> nx h' c = nx h c)
    \<and> (\<forall>c. c \<notin> set bs \<longrightarrow> pv h' c = pv h c) \<and> same_payload h h'"
  using assms
proof (induction bs arbitrary: l h)
  case Nil
  then show ?case by auto
next
  case (Cons b bs)
  let ?h1 = "set_next l (Some b) (set_prev b (Some l) h)"
  have ch: "chain_blocks bs b ?h1 = (l', h')" using Cons.prems by simp
  have d: "distinct (b # bs)" "l \<notin> set (b # bs)" using Cons.prems by auto
  note IH = Cons.IH[OF d(1) ch]
  have "l \<notin> set (butlast (b # bs))" using d(2) by (meson in_set_butlastD)
  then have "nx h' l = Some b" using IH by (simp add: link_simps)
  moreover have "pv h' b = Some l" using IH d by (simp add: link_simps)
  moreover have "same_payload h h'" using IH by (auto intro: same_payload_trans simp: same_payload_def
      payload_def set_next_def set_prev_def)
  ultimately show ?case using IH by (auto simp: link_simps)
qed

text \<open>Chaining a fresh segment between two neighbours, as both \<open>_n\<close> insertions do.\<close>

lemma chain_blocks_splice:
  assumes rep: "fq_rep q (pre @ post)"
    and bs: "distinct bs" "set bs \<inter> set (pre @ post) = {}" "Head \<notin> set bs" "Tail \<notin> set bs" "bs \<noteq> []"
    and ch: "chain_blocks bs (last (Head # pre)) (fq_heap q) = (l, h1)"
    and q': "q' = q\<lparr>fq_heap := set_prev (hd (post @ [Tail])) (Some l)
        (set_next l (Some (hd (post @ [Tail]))) h1),
        num_free_blocks := num_free_blocks q + int (length bs)\<rparr>"
  shows "fq_rep q' (pre @ bs @ post)" "same_payload (fq_heap q) (fq_heap q')"
proof -
  let ?a = "last (Head # pre)" and ?r = "hd (post @ [Tail])"
  have a: "?a \<notin> set bs" using bs by (cases pre rule: rev_cases) auto
  have r: "?r \<notin> set bs" using bs by (cases post) auto
  note sp = chain_blocks_spec[OF _ ch]
  have d: "distinct (?a # bs)" using a bs(1) by simp
  have l: "l = last bs" "l \<in> set bs" using sp[OF d] bs(5) by auto
  have "l \<notin> set (butlast (?a # bs))" using last_notin_butlast[OF d] sp[OF d] by simp
  then have n: "nxt_chain (nx (fq_heap q')) ?a (bs @ [?r])"
    using sp[OF d] l bs(5) by (simp add: q' link_simps nxt_chain_append nxt_chain_upd)
  have p: "prv_chain (pv (fq_heap q')) ?a (bs @ [?r])"
    using sp[OF d] l r bs(5) by (simp add: q' link_simps prv_chain_append prv_chain_upd)
  show "fq_rep q' (pre @ bs @ post)"
    by (rule fq_rep_splice[OF rep bs n p])
      (use sp[OF d] l in \<open>auto simp: q' link_simps dest: in_set_butlastD split: if_splits\<close>)
  show "same_payload (fq_heap q) (fq_heap q')"
    using sp[OF d] by (simp add: q' link_simps)
qed

lemma append_n_refines:
  assumes rep: "fq_rep q xs" and bs: "distinct bs" "set bs \<inter> set xs = {}" "Head \<notin> set bs" "Tail \<notin> set bs"
  obtains q' where "append_n bs q = Inr q'" "fq_rep q' (xs @ bs)" "same_payload (fq_heap q) (fq_heap q')"
proof (cases "bs = []")
  case True
  then show ?thesis using that rep by (simp add: append_n_def)
next
  case False
  obtain l h1 where ch: "chain_blocks bs (last (Head # xs)) (fq_heap q) = (l, h1)" by fastforce
  have "pv (fq_heap q) Tail = Some (last (Head # xs))"
    using rep by (simp add: fq_rep_def prv_chain_append)
  then have "append_n bs q = Inr (q\<lparr>fq_heap := set_prev Tail (Some l) (set_next l (Some Tail) h1),
        num_free_blocks := num_free_blocks q + int (length bs)\<rparr>)"
    using False ch by (simp add: append_n_def pv_def)
  then show thesis
    using that chain_blocks_splice[where pre = xs and post = "[]", OF _ _ _ bs(3,4) False ch refl] rep bs
    by simp
qed

lemma prepend_n_refines:
  assumes rep: "fq_rep q xs" and bs: "distinct bs" "set bs \<inter> set xs = {}" "Head \<notin> set bs" "Tail \<notin> set bs"
  obtains q' where "prepend_n bs q = Inr q'" "fq_rep q' (bs @ xs)" "same_payload (fq_heap q) (fq_heap q')"
proof (cases "bs = []")
  case True
  then show ?thesis using that rep by (simp add: prepend_n_def)
next
  case False
  obtain l h1 where ch: "chain_blocks bs (last (Head # [])) (fq_heap q) = (l, h1)" by fastforce
  have "nx (fq_heap q) Head = Some (hd (xs @ [Tail]))"
    using rep by (cases xs) (simp_all add: fq_rep_def)
  then have "prepend_n bs q = Inr (q\<lparr>fq_heap := set_prev (hd (xs @ [Tail])) (Some l)
        (set_next l (Some (hd (xs @ [Tail]))) h1),
        num_free_blocks := num_free_blocks q + int (length bs)\<rparr>)"
    using False ch by (simp add: prepend_n_def nx_def)
  then show thesis
    using that chain_blocks_splice[where pre = "[]" and post = xs, OF _ _ _ bs(3,4) False ch refl] rep bs
    by simp
qed

lemma walk_free_chain:
  "nxt_chain (nx h) a (xs @ [Tail]) \<Longrightarrow> nx h Tail = None \<Longrightarrow> nx h a = Some c \<Longrightarrow>
   walk_free h c ret = Some (ret @ xs)"
proof (induction xs arbitrary: a c ret)
  case Nil
  then show ?case by (simp add: walk_free.simps nx_def)
next
  case (Cons x xs)
  then obtain d where d: "nx h x = Some d" by (cases xs) auto
  with Cons have "walk_free h d (ret @ [x]) = Some ((ret @ [x]) @ xs)" by (intro Cons.IH[of x]) auto
  with Cons.prems d show ?case by (simp add: walk_free.simps[of h c] nx_def)
qed

lemma get_all_free_blocks_refines:
  assumes "fq_rep q xs"
  shows "get_all_free_blocks q = Some (Inr xs)"
proof -
  obtain c where c: "nx (fq_heap q) Head = Some c" using assms by (cases xs) (auto simp: fq_rep_def)
  then have "walk_free (fq_heap q) c [] = Some ([] @ xs)"
    using assms by (intro walk_free_chain[of _ Head]) (auto simp: fq_rep_def)
  with c show ?thesis by (simp add: get_all_free_blocks_def nx_def)
qed


subsection \<open>Construction\<close>

lemma nxt_chain_nth: "nxt_chain n a xs \<longleftrightarrow> (\<forall>i < length xs. n ((a # xs) ! i) = Some (xs ! i))"
proof (induction xs arbitrary: a)
  case Nil
  then show ?case by simp
next
  case (Cons x xs)
  then show ?case by (auto simp: All_less_Suc2)
qed

lemma prv_chain_nth: "prv_chain p a xs \<longleftrightarrow> (\<forall>i < length xs. p (xs ! i) = Some ((a # xs) ! i))"
proof (induction xs arbitrary: a)
  case Nil
  then show ?case by simp
next
  case (Cons x xs)
  then show ?case by (auto simp: All_less_Suc2)
qed

lemma link_consecutive_upto:
  assumes d: "distinct bs" and k: "k \<le> length bs"
  defines "step \<equiv> \<lambda>i h. let h1 = (if i > 0 then set_prev (bs ! i) (Some (bs ! (i - 1))) h else h)
                 in if i < length bs - 1 then set_next (bs ! i) (Some (bs ! (i + 1))) h1 else h1"
  shows "(\<forall>i < length bs.
      nx (fold step [0..<k] h) (bs ! i) = (if i < k \<and> i < length bs - 1 then Some (bs ! (i + 1)) else nx h (bs ! i))
    \<and> pv (fold step [0..<k] h) (bs ! i) = (if i < k \<and> i > 0 then Some (bs ! (i - 1)) else pv h (bs ! i)))
    \<and> (\<forall>c. c \<notin> set bs \<longrightarrow> nx (fold step [0..<k] h) c = nx h c \<and> pv (fold step [0..<k] h) c = pv h c)
    \<and> same_payload h (fold step [0..<k] h)"
  using k
proof (induction k)
  case 0
  then show ?case by simp
next
  case (Suc k)
  let ?g = "fold step [0..<k] h"
  have g: "fold step [0..<Suc k] h = step k ?g" by simp
  have links: "nx (step k ?g) = (if k < length bs - 1 then (nx ?g)(bs ! k := Some (bs ! (k + 1))) else nx ?g)"
    "pv (step k ?g) = (if k > 0 then (pv ?g)(bs ! k := Some (bs ! (k - 1))) else pv ?g)"
    "same_payload h (step k ?g) = same_payload h ?g"
    by (auto simp: step_def Let_def link_simps)
  have inj: "bs ! i = bs ! k \<longleftrightarrow> i = k" if "i < length bs" for i
    using d Suc.prems that by (simp add: nth_eq_iff_index_eq)
  have ne: "c \<noteq> bs ! k" if "c \<notin> set bs" for c using Suc.prems that by force
  show ?case
    using Suc.IH ne Suc.prems inj unfolding g links by (auto simp: less_Suc_eq)
qed

lemma free_queue_init_refines:
  assumes d: "distinct bs" "Head \<notin> set bs" "Tail \<notin> set bs"
    and fresh: "\<And>b. nx h b = None" "\<And>b. pv h b = None"
  shows "fq_rep (free_queue_init h bs) bs"
    "\<And>b. b \<noteq> Head \<Longrightarrow> b \<noteq> Tail \<Longrightarrow> payload (fq_heap (free_queue_init h bs) b) = payload (h b)"
proof -
  let ?h1 = "link_consecutive bs h" and ?n = "length bs"
  have lk: "\<forall>i < ?n. nx ?h1 (bs ! i) = (if i < ?n - 1 then Some (bs ! (i + 1)) else None)
      \<and> pv ?h1 (bs ! i) = (if i > 0 then Some (bs ! (i - 1)) else None)"
    and out: "\<And>c. c \<notin> set bs \<Longrightarrow> nx ?h1 c = None \<and> pv ?h1 c = None" and sp: "same_payload h ?h1"
    using link_consecutive_upto[OF d(1) order_refl, of h] fresh
    unfolding link_consecutive_def by auto
  let ?q = "free_queue_init h bs"
  have nxq: "nx (fq_heap ?q) = (if bs \<noteq> [] then (nx ?h1)(Head := Some (hd bs), Tail := None, last bs := Some Tail)
      else (nx ?h1)(Head := Some Tail, Tail := None))"
    and pvq: "pv (fq_heap ?q) = (if bs \<noteq> [] then (pv ?h1)(Head := None, hd bs := Some Head, Tail := Some (last bs))
      else (pv ?h1)(Head := None, Tail := Some Head))"
    using d by (auto simp: free_queue_init_def Let_def link_simps new_kv_cache_block_def fun_eq_iff)
  have HT: "bs ! i \<noteq> Head \<and> bs ! i \<noteq> Tail" if "i < ?n" for i using d that by (metis nth_mem)
  have eqi: "bs ! i = bs ! j \<longleftrightarrow> i = j" if "i < ?n" "j < ?n" for i j
    using d(1) that by (simp add: nth_eq_iff_index_eq)
  have ends: "hd bs = bs ! 0" "last bs = bs ! (?n - 1)" if "bs \<noteq> []"
    using that by (simp_all add: hd_conv_nth last_conv_nth)
  have "nx (fq_heap ?q) ((Head # bs @ [Tail]) ! i) = Some ((bs @ [Tail]) ! i)" if "i < Suc ?n" for i
  proof (cases i)
    case 0
    then show ?thesis using ends HT[of "?n - 1"] nxq by (cases "bs = []") (auto simp: nth_append)
  next
    case (Suc j)
    then have "j < ?n" "bs \<noteq> []" using that by auto
    then show ?thesis using Suc lk HT[of j] ends eqi[of j "?n - 1"]
      by (cases "j = ?n - 1") (auto simp: nxq nth_append)
  qed
  then have n: "nxt_chain (nx (fq_heap ?q)) Head (bs @ [Tail])" by (simp add: nxt_chain_nth)
  have "pv (fq_heap ?q) ((bs @ [Tail]) ! i) = Some ((Head # bs @ [Tail]) ! i)" if "i < Suc ?n" for i
  proof (cases "i = ?n")
    case True
    then show ?thesis using ends pvq by (cases "bs = []") (auto simp: nth_append nth_Cons')
  next
    case False
    then have "i < ?n" "bs \<noteq> []" using that by auto
    then show ?thesis using lk HT[of i] ends eqi[of i 0]
      by (cases i) (auto simp: pvq nth_append)
  qed
  then have p: "prv_chain (pv (fq_heap ?q)) Head (bs @ [Tail])" by (simp add: prv_chain_nth)
  show "fq_rep ?q bs"
    using n p d out last_in_set[of bs] hd_in_set[of bs] unfolding fq_rep_def nxq pvq
    by (cases "bs = []") (auto simp: free_queue_init_def Let_def simp del: last_in_set hd_in_set)
  show "payload (fq_heap ?q b) = payload (h b)" if "b \<noteq> Head" "b \<noteq> Tail" for b
    using sp that by (auto simp: free_queue_init_def Let_def payload_def same_payload_def
        set_next_def set_prev_def)
qed


subsection \<open>The interface of the free queue\<close>

text \<open>
  What the block pool relies on: a queue of blocks with an abstraction to lists, whose
  operations act on that list and leave everything but the links of the blocks alone
  (\<open>frame\<close>). The clients' lemmas speak about the value an operation returned.
\<close>

locale free_queue =
  fixes rep :: "'q \<Rightarrow> 'b list \<Rightarrow> bool"
    and pop_n :: "int \<Rightarrow> 'q \<Rightarrow> ('b list \<times> 'q) result"
    and rem :: "'b \<Rightarrow> 'q \<Rightarrow> 'q result"
    and app_n :: "'b list \<Rightarrow> 'q \<Rightarrow> 'q result"
    and prep_n :: "'b list \<Rightarrow> 'q \<Rightarrow> 'q result"
    and count :: "'q \<Rightarrow> int"
    and frame :: "'q \<Rightarrow> 'q \<Rightarrow> bool"
    and real :: "'b \<Rightarrow> bool"
  assumes distinct_law: "rep q xs \<Longrightarrow> distinct xs"
    and unique_law: "rep q xs \<Longrightarrow> rep q ys \<Longrightarrow> xs = ys"
    and count_law: "rep q xs \<Longrightarrow> count q = int (length xs)"
    and pop_law: "rep q (xs @ ys) \<Longrightarrow>
      \<exists>q'. pop_n (int (length xs)) q = Inr (xs, q') \<and> rep q' ys \<and> frame q q'"
    and pop_err_law: "rep q xs \<Longrightarrow> int (length xs) < n \<Longrightarrow> pop_n n q = Inl AssertionError"
    and rem_law: "rep q (xs @ b # ys) \<Longrightarrow> \<exists>q'. rem b q = Inr q' \<and> rep q' (xs @ ys) \<and> frame q q'"
    and rem_err_law: "rep q xs \<Longrightarrow> real b \<Longrightarrow> b \<notin> set xs \<Longrightarrow> rem b q = Inl RuntimeError"
    and app_law: "rep q xs \<Longrightarrow> distinct bs \<Longrightarrow> set bs \<inter> set xs = {} \<Longrightarrow> (\<forall>b \<in> set bs. real b) \<Longrightarrow>
      \<exists>q'. app_n bs q = Inr q' \<and> rep q' (xs @ bs) \<and> frame q q'"
    and prep_law: "rep q xs \<Longrightarrow> distinct bs \<Longrightarrow> set bs \<inter> set xs = {} \<Longrightarrow> (\<forall>b \<in> set bs. real b) \<Longrightarrow>
      \<exists>q'. prep_n bs q = Inr q' \<and> rep q' (bs @ xs) \<and> frame q q'"
begin

lemma pop_take:
  assumes "rep q xs" "0 \<le> n" "n \<le> int (length xs)"
  shows "\<exists>q'. pop_n n q = Inr (take (nat n) xs, q') \<and> rep q' (drop (nat n) xs) \<and> frame q q'"
  using pop_law[of q "take (nat n) xs" "drop (nat n) xs"] assms by simp

lemma pop_result:
  assumes "rep q xs" "0 \<le> n" "pop_n n q = Inr (bs, q')"
  shows "bs = take (nat n) xs \<and> rep q' (drop (nat n) xs) \<and> frame q q' \<and> n \<le> int (length xs)"
proof -
  have "n \<le> int (length xs)" using pop_err_law[OF assms(1), of n] assms(3) by force
  then show ?thesis using pop_take[OF assms(1,2)] assms(3) by auto
qed

lemma rem_result:
  assumes "rep q xs" "b \<in> set xs"
  shows "\<exists>q'. rem b q = Inr q' \<and> rep q' (remove1 b xs) \<and> frame q q'"
proof -
  obtain ys zs where s: "xs = ys @ b # zs" "b \<notin> set ys" using assms(2) by (meson split_list_first)
  then have "remove1 b xs = ys @ zs" by (simp add: remove1_append)
  then show ?thesis using rem_law[of q ys b zs] assms(1) s by simp
qed

text \<open>Allocating a batch and giving it back rotates the queue: freed blocks are reused last.\<close>

lemma pop_then_append:
  assumes "rep q (bs @ xs)" "\<forall>b \<in> set bs. real b" "pop_n (int (length bs)) q = Inr (bs', q1)"
  shows "bs' = bs \<and> (\<exists>q2. app_n bs' q1 = Inr q2 \<and> rep q2 (xs @ bs))"
proof -
  have d: "distinct (bs @ xs)" using assms(1) by (rule distinct_law)
  have "bs' = bs" "rep q1 xs" using pop_law[OF assms(1)] assms(3) by auto
  then show ?thesis using app_law[of q1 xs bs] d assms(2) by auto
qed

text \<open>Giving it back at the front restores the queue.\<close>

lemma pop_then_prepend:
  assumes "rep q (bs @ xs)" "\<forall>b \<in> set bs. real b" "pop_n (int (length bs)) q = Inr (bs', q1)"
  shows "bs' = bs \<and> (\<exists>q2. prep_n bs' q1 = Inr q2 \<and> rep q2 (bs @ xs))"
proof -
  have d: "distinct (bs @ xs)" using assms(1) by (rule distinct_law)
  have "bs' = bs" "rep q1 xs" using pop_law[OF assms(1)] assms(3) by auto
  then show ?thesis using prep_law[of q1 xs bs] d assms(2) by auto
qed

end

interpretation fbq: free_queue fq_rep popleft_n fq_remove append_n prepend_n num_free_blocks
  "\<lambda>q q'. same_payload (fq_heap q) (fq_heap q')" "\<lambda>b. b \<noteq> Head \<and> b \<noteq> Tail"
proof (unfold_locales, goal_cases)
  case (1 q xs)
  then show ?case by (rule fq_rep_distinct)
next
  case (2 q xs ys)
  then show ?case by (rule fq_rep_unique)
next
  case (3 q xs)
  then show ?case by (rule fq_rep_num)
next
  case (4 q xs ys)
  then show ?case by (metis popleft_n_refines)
next
  case (5 q xs n)
  then show ?case by (rule popleft_n_too_many)
next
  case (6 q xs b ys)
  then show ?case by (metis fq_remove_refines)
next
  case (7 q xs b)
  then show ?case using fq_remove_not_member by blast
next
  case (8 q xs bs)
  then show ?case by (metis append_n_refines)
next
  case (9 q xs bs)
  then show ?case by (metis prepend_n_refines)
qed

subsection \<open>Properties\<close>

text \<open>A queue of three blocks for the witnesses.\<close>

definition sample_queue :: free_block_queue where
  "sample_queue = free_queue_init (\<lambda>_. new_kv_cache_block 0) [Blk 1, Blk 2, Blk 3]"

lemma sample_queue_rep: "fq_rep sample_queue [Blk 1, Blk 2, Blk 3]"
  unfolding sample_queue_def
  by (rule free_queue_init_refines) (auto simp: nx_def pv_def new_kv_cache_block_def)

text \<open>
  \<open>popleft_n\<close> takes blocks from the front. If the queue holds \<open>xs\<close>, then \<open>popleft_n n\<close> returns
  the first \<open>n\<close> blocks of \<open>xs\<close> in order and leaves the others in order; asking for
  more blocks than there are raises \<open>AssertionError\<close>. Only links change.
\<close>

theorem popleft_n_takes_front:
  assumes "fq_rep q xs" "0 \<le> n"
  shows "if n \<le> int (length xs)
    then \<exists>q'. popleft_n n q = Inr (take (nat n) xs, q') \<and> get_all_free_blocks q' = Some (Inr (drop (nat n) xs))
           \<and> num_free_blocks q' = num_free_blocks q - n \<and> same_payload (fq_heap q) (fq_heap q')
    else popleft_n n q = Inl AssertionError"
proof (cases "n \<le> int (length xs)")
  case True
  then obtain q' where "popleft_n n q = Inr (take (nat n) xs, q')" "fq_rep q' (drop (nat n) xs)"
    "same_payload (fq_heap q) (fq_heap q')" using fbq.pop_take[OF assms] by blast
  then show ?thesis
    using True assms get_all_free_blocks_refines fbq.count_law by fastforce
next
  case False
  then show ?thesis using fbq.pop_err_law[OF assms(1)] by simp
qed

theorem popleft_n_takes_front_witness:
  "\<exists>q'. popleft_n 2 sample_queue = Inr (take (nat 2) [Blk 1, Blk 2, Blk 3], q')
      \<and> get_all_free_blocks q' = Some (Inr (drop (nat 2) [Blk 1, Blk 2, Blk 3]))
      \<and> num_free_blocks q' = num_free_blocks sample_queue - 2 \<and> same_payload (fq_heap sample_queue) (fq_heap q')"
  using popleft_n_takes_front[OF sample_queue_rep, of 2] by (simp del: take_Suc_Cons)

text \<open>
  \<open>remove\<close> unlinks a block from any position: the other blocks keep their order. A block
  that is not in the queue raises \<open>RuntimeError\<close>.
\<close>

theorem remove_unlinks_anywhere:
  assumes "fq_rep q xs" "b \<noteq> Head" "b \<noteq> Tail"
  shows "if b \<in> set xs
    then \<exists>q'. fq_remove b q = Inr q' \<and> get_all_free_blocks q' = Some (Inr (remove1 b xs))
           \<and> num_free_blocks q' = num_free_blocks q - 1
    else fq_remove b q = Inl RuntimeError"
proof (cases "b \<in> set xs")
  case True
  then obtain q' where q': "fq_remove b q = Inr q'" "fq_rep q' (remove1 b xs)"
    using fbq.rem_result[OF assms(1)] by blast
  have "length (remove1 b xs) + 1 = length xs" using True by (induction xs) auto
  then have "num_free_blocks q' = num_free_blocks q - 1"
    using fq_rep_num[OF q'(2)] fq_rep_num[OF assms(1)] by linarith
  then show ?thesis using True q' get_all_free_blocks_refines by auto
next
  case False
  then show ?thesis using fbq.rem_err_law[OF assms(1)] assms(2,3) by simp
qed

theorem remove_unlinks_anywhere_witness:
  "if Blk 2 \<in> set [Blk 1, Blk 2, Blk 3]
    then \<exists>q'. fq_remove (Blk 2) sample_queue = Inr q'
           \<and> get_all_free_blocks q' = Some (Inr (remove1 (Blk 2) [Blk 1, Blk 2, Blk 3]))
           \<and> num_free_blocks q' = num_free_blocks sample_queue - 1
    else fq_remove (Blk 2) sample_queue = Inl RuntimeError"
  by (rule remove_unlinks_anywhere[OF sample_queue_rep]) simp_all

text \<open>
  freed blocks are reused last. Popping a batch and appending it moves it behind all other
  free blocks; prepending it restores the queue.
\<close>

theorem freed_blocks_reused_last:
  assumes "fq_rep q (bs @ xs)" "popleft_n (int (length bs)) q = Inr (bs', q1)"
  shows "bs' = bs \<and> (\<exists>q2. append_n bs' q1 = Inr q2 \<and> get_all_free_blocks q2 = Some (Inr (xs @ bs)))
    \<and> (\<exists>q2. prepend_n bs' q1 = Inr q2 \<and> get_all_free_blocks q2 = Some (Inr (bs @ xs)))"
proof -
  have r: "\<forall>b \<in> set bs. b \<noteq> Head \<and> b \<noteq> Tail" using fq_rep_real[OF assms(1)] by auto
  show ?thesis
    using fbq.pop_then_append[OF assms(1) r assms(2)] fbq.pop_then_prepend[OF assms(1) r assms(2)]
      get_all_free_blocks_refines by blast
qed

theorem freed_blocks_reused_last_witness:
  "\<exists>q1. popleft_n (int (length [Blk 1, Blk 2])) sample_queue = Inr ([Blk 1, Blk 2], q1)
    \<and> (\<exists>q2. append_n [Blk 1, Blk 2] q1 = Inr q2 \<and> get_all_free_blocks q2 = Some (Inr ([Blk 3] @ [Blk 1, Blk 2])))
    \<and> (\<exists>q2. prepend_n [Blk 1, Blk 2] q1 = Inr q2 \<and> get_all_free_blocks q2 = Some (Inr ([Blk 1, Blk 2] @ [Blk 3])))"
proof -
  have rep: "fq_rep sample_queue ([Blk 1, Blk 2] @ [Blk 3])" using sample_queue_rep by simp
  obtain q1 where q1: "popleft_n (int (length [Blk 1, Blk 2])) sample_queue = Inr ([Blk 1, Blk 2], q1)"
    using popleft_n_refines[OF rep] by metis
  from freed_blocks_reused_last[OF rep q1] q1 show ?thesis by blast
qed

end
