(* ===== verification/Block_Hash_Map.thy ===== *)
theory Block_Hash_Map
  imports Free_Block_Queue
begin

section \<open>The map from block hashes to cached blocks\<close>

text \<open>
  \<open>BlockHashToBlockMap\<close> of \<open>vllm/v1/core/block_pool.py\<close>. A key maps to one block, or to a
  dictionary from block ids to blocks when several cached blocks have the same content.
  The class reads \<open>block_id\<close> of the blocks it is given, so the operations take the heap.
  The contract of such an index is the locale \<open>block_index\<close>.
\<close>

datatype cached_entry = OneBlock bref | ManyBlocks "(int, bref) dict"

type_synonym block_hash_map = "(bytes, cached_entry) dict"

definition empty_block_map :: block_hash_map where
  "empty_block_map = []"

fun entry_first :: "cached_entry \<Rightarrow> bref option" where
  "entry_first (OneBlock b) = Some b"
| "entry_first (ManyBlocks d) = (case d of [] \<Rightarrow> None | (_, b) # _ \<Rightarrow> Some b)"

definition get_one_block :: "bytes \<Rightarrow> block_hash_map \<Rightarrow> bref option" where
  "get_one_block key m = Option.bind (dict_get m key) entry_first"

definition map_insert :: "heap \<Rightarrow> bytes \<Rightarrow> bref \<Rightarrow> block_hash_map \<Rightarrow> block_hash_map" where
  "map_insert h key b m =
     (case dict_get m key of
        None \<Rightarrow> dict_set key (OneBlock b) m
      | Some (OneBlock c) \<Rightarrow>
          dict_set key (ManyBlocks (dict_set (block_id (h b)) b [(block_id (h c), c)])) m
      | Some (ManyBlocks d) \<Rightarrow> dict_set key (ManyBlocks (dict_set (block_id (h b)) b d)) m)"

definition map_pop :: "heap \<Rightarrow> bytes \<Rightarrow> int \<Rightarrow> block_hash_map \<Rightarrow> bref option \<times> block_hash_map" where
  "map_pop h key bid m =
     (case dict_get m key of
        None \<Rightarrow> (None, m)
      | Some (OneBlock c) \<Rightarrow>
          let m1 = dict_del key m
          in if block_id (h c) = bid then (Some c, m1) else (None, dict_set key (OneBlock c) m1)
      | Some (ManyBlocks d) \<Rightarrow>
          let m1 = dict_del key m; d' = dict_del bid d
          in (dict_get d bid, if length d' > 0 then dict_set key (ManyBlocks d') m1 else m1))"

definition map_len :: "block_hash_map \<Rightarrow> int" where
  "map_len m = int (length m)"

subsection \<open>The blocks stored under a key\<close>

fun entry_blocks :: "cached_entry \<Rightarrow> bref set" where
  "entry_blocks (OneBlock b) = {b}"
| "entry_blocks (ManyBlocks d) = snd ` set d"

definition blocks_at :: "block_hash_map \<Rightarrow> bytes \<Rightarrow> bref set" where
  "blocks_at m key = (case dict_get m key of None \<Rightarrow> {} | Some e \<Rightarrow> entry_blocks e)"

fun entry_ok :: "heap \<Rightarrow> cached_entry \<Rightarrow> bool" where
  "entry_ok h (OneBlock b) = True"
| "entry_ok h (ManyBlocks d) =
     (d \<noteq> [] \<and> dict_ok d \<and> (\<forall>(i, b) \<in> set d. i = block_id (h b)))"

definition map_ok :: "heap \<Rightarrow> block_hash_map \<Rightarrow> bool" where
  "map_ok h m \<longleftrightarrow> dict_ok m \<and> (\<forall>key e. dict_get m key = Some e \<longrightarrow> entry_ok h e)"

text \<open>Different blocks of the index have different ids.\<close>

definition ids_inj :: "heap \<Rightarrow> bref set \<Rightarrow> bool" where
  "ids_inj h B \<longleftrightarrow> inj_on (\<lambda>b. block_id (h b)) B"

lemma map_ok_empty: "map_ok h empty_block_map"
  by (simp add: map_ok_def empty_block_map_def)

lemma blocks_at_empty [simp]: "blocks_at empty_block_map key = {}"
  by (simp add: blocks_at_def empty_block_map_def)

lemma entry_ok_nonempty: "entry_ok h e \<Longrightarrow> entry_blocks e \<noteq> {}"
  by (cases e) (auto simp: neq_Nil_conv)

lemma entry_first_mem: "entry_ok h e \<Longrightarrow> \<exists>b. entry_first e = Some b \<and> b \<in> entry_blocks e"
  by (cases e) (auto split: list.splits)

lemma map_ok_heap_cong:
  assumes "map_ok h m" "\<And>b. block_id (h' b) = block_id (h b)"
  shows "map_ok h' m"
proof -
  have "entry_ok h' e" if "entry_ok h e" for e using that assms(2) by (cases e) auto
  then show ?thesis using assms(1) by (auto simp: map_ok_def)
qed

lemma map_okD: "map_ok h m \<Longrightarrow> dict_get m key = Some e \<Longrightarrow> entry_ok h e"
  by (simp add: map_ok_def)

lemma map_ok_set: "map_ok h m \<Longrightarrow> entry_ok h e \<Longrightarrow> map_ok h (dict_set key e m)"
  by (auto simp: map_ok_def split: if_splits)

lemma map_ok_del: "map_ok h m \<Longrightarrow> map_ok h (dict_del key m)"
  by (auto simp: map_ok_def split: if_splits)

lemma dict_set_values:
  assumes "dict_ok d" "\<forall>(i, b) \<in> set d. i = f b" "inj_on f (insert b (snd ` set d))"
  shows "snd ` set (dict_set (f b) b d) = insert b (snd ` set d)"
proof -
  have b: "c = b" if "(f b, c) \<in> set d" for c
  proof -
    have "f b = f c" using assms(2) that by auto
    with assms(3) that show ?thesis by (force dest: inj_onD)
  qed
  show ?thesis
  proof (rule set_eqI)
    fix c
    have "c \<in> snd ` set (dict_set (f b) b d) \<longleftrightarrow> (\<exists>i. (i, c) \<in> set (dict_set (f b) b d))" by force
    also have "\<dots> \<longleftrightarrow> c = b \<or> (\<exists>i. (i, c) \<in> set d)" unfolding dict_mem_set[OF assms(1)] using b by metis
    finally show "c \<in> snd ` set (dict_set (f b) b d) \<longleftrightarrow> c \<in> insert b (snd ` set d)" by force
  qed
qed

lemma entry_ok_insert:
  assumes "entry_ok h (ManyBlocks d)"
  shows "entry_ok h (ManyBlocks (dict_set (block_id (h b)) b d))"
proof -
  have "\<forall>(i, c) \<in> set (dict_set (block_id (h b)) b d). i = block_id (h c)"
    using assms by (auto simp: dict_mem_set split: if_splits)
  moreover have "dict_set (block_id (h b)) b d \<noteq> []"
    using dict_keys_set[of "block_id (h b)" b d] by (metis empty_not_insert image_empty list.set(1))
  ultimately show ?thesis using assms by simp
qed

lemma map_insert_ok: "map_ok h m \<Longrightarrow> map_ok h (map_insert h key b m)"
  using map_okD[of h m key] unfolding map_insert_def
  by (auto split: option.splits cached_entry.splits intro!: map_ok_set entry_ok_insert simp del: entry_ok.simps(2))
    auto

lemma blocks_at_insert:
  assumes "map_ok h m" "ids_inj h (insert b (blocks_at m key))"
  shows "blocks_at (map_insert h key b m) k = (if k = key then insert b (blocks_at m key) else blocks_at m k)"
proof (cases "dict_get m key")
  case None
  then show ?thesis by (simp add: map_insert_def blocks_at_def)
next
  case (Some e)
  have "entry_ok h e" using map_okD[OF assms(1)] Some by blast
  then show ?thesis
    using Some assms(2) dict_set_values[of "case e of ManyBlocks d \<Rightarrow> d | _ \<Rightarrow> []" "\<lambda>b. block_id (h b)" b]
    by (cases e) (auto simp: map_insert_def blocks_at_def ids_inj_def)
qed

lemma map_pop_ok: "map_ok h m \<Longrightarrow> map_ok h (snd (map_pop h key bid m))"
proof -
  assume ok: "map_ok h m"
  show ?thesis
  proof (cases "dict_get m key")
    case (Some e)
    show ?thesis
    proof (cases e)
      case (OneBlock c)
      then show ?thesis using Some ok by (auto simp: map_pop_def Let_def intro!: map_ok_set map_ok_del)
    next
      case (ManyBlocks d)
      then have "entry_ok h (ManyBlocks d)" using map_okD[OF ok] Some by blast
      then have "dict_del bid d \<noteq> [] \<Longrightarrow> entry_ok h (ManyBlocks (dict_del bid d))"
        using dict_ok_del[of d bid] by (auto simp: AList.delete_eq)
      then show ?thesis
        using Some ManyBlocks ok by (auto simp: map_pop_def Let_def intro!: map_ok_set map_ok_del simp del: entry_ok.simps)
    qed
  qed (use ok in \<open>simp add: map_pop_def\<close>)
qed

lemma dict_del_values:
  assumes "dict_ok d" "\<forall>(i, b) \<in> set d. i = f b"
  shows "snd ` set (dict_del k d) = {b \<in> snd ` set d. f b \<noteq> k}"
  using assms(2) by (force simp: AList.delete_eq)

lemma map_pop_result:
  assumes ok: "map_ok h m" and inj: "ids_inj h (insert b (blocks_at m key))"
  shows "fst (map_pop h key (block_id (h b)) m) = (if b \<in> blocks_at m key then Some b else None)"
    and "blocks_at (snd (map_pop h key (block_id (h b)) m)) k
      = (if k = key then blocks_at m key - {b} else blocks_at m k)"
proof -
  have ne: "block_id (h c) = block_id (h b) \<longleftrightarrow> c = b" if "c \<in> blocks_at m key" for c
    using inj that by (auto simp: ids_inj_def inj_on_def)
  consider (none) "dict_get m key = None" | (one) c where "dict_get m key = Some (OneBlock c)"
    | (many) d where "dict_get m key = Some (ManyBlocks d)"
    by (cases "dict_get m key"; simp) (metis cached_entry.exhaust)
  then have "fst (map_pop h key (block_id (h b)) m) = (if b \<in> blocks_at m key then Some b else None)
    \<and> blocks_at (snd (map_pop h key (block_id (h b)) m)) k = (if k = key then blocks_at m key - {b} else blocks_at m k)"
  proof cases
    case none
    then show ?thesis by (simp add: map_pop_def blocks_at_def)
  next
    case one
    then have "blocks_at m key = {c}" by (simp add: blocks_at_def)
    with one ne[of c] show ?thesis by (auto simp: map_pop_def blocks_at_def Let_def)
  next
    case many
    then have e: "entry_ok h (ManyBlocks d)" using map_okD[OF ok] by blast
    have at: "blocks_at m key = snd ` set d" using many by (simp add: blocks_at_def)
    have del: "snd ` set (dict_del (block_id (h b)) d) = blocks_at m key - {b}"
      using dict_del_values[of d "\<lambda>c. block_id (h c)" "block_id (h b)"] e ne unfolding at by auto
    have get: "dict_get d (block_id (h b)) = (if b \<in> blocks_at m key then Some b else None)"
    proof (cases "b \<in> blocks_at m key")
      case True
      then have "(block_id (h b), b) \<in> set d" using e unfolding at by force
      then show ?thesis using True e by (simp add: map_of_eq_Some_iff)
    next
      case False
      have "dict_get d (block_id (h b)) \<noteq> Some c" for c
      proof
        assume "dict_get d (block_id (h b)) = Some c"
        then have "(block_id (h b), c) \<in> set d" by (rule map_of_SomeD)
        then have "c \<in> blocks_at m key" "block_id (h c) = block_id (h b)" using e unfolding at by force+
        with ne False show False by blast
      qed
      then show ?thesis using False by (cases "dict_get d (block_id (h b))") auto
    qed
    have "blocks_at (snd (map_pop h key (block_id (h b)) m)) k
        = (if k = key then snd ` set (dict_del (block_id (h b)) d) else blocks_at m k)"
      using many by (auto simp: map_pop_def blocks_at_def Let_def)
    with many get del show ?thesis by (simp add: map_pop_def Let_def)
  qed
  then show "fst (map_pop h key (block_id (h b)) m) = (if b \<in> blocks_at m key then Some b else None)"
    "blocks_at (snd (map_pop h key (block_id (h b)) m)) k = (if k = key then blocks_at m key - {b} else blocks_at m k)"
    by blast+
qed

lemma get_one_block_none: "map_ok h m \<Longrightarrow> get_one_block key m = None \<longleftrightarrow> blocks_at m key = {}"
  using entry_first_mem[OF map_okD] entry_ok_nonempty[OF map_okD]
  by (cases "dict_get m key") (force simp: get_one_block_def blocks_at_def)+

lemma get_one_block_mem: "map_ok h m \<Longrightarrow> get_one_block key m = Some b \<Longrightarrow> b \<in> blocks_at m key"
  using entry_first_mem[OF map_okD]
  by (cases "dict_get m key") (force simp: get_one_block_def blocks_at_def)+


subsection \<open>The contract\<close>

text \<open>
  What the block pool relies on. \<open>at\<close> is the abstraction, a multimap from keys to blocks;
  \<open>known\<close> says that an index and a block are well formed together: the blocks an index
  holds and the block at hand have different ids.
\<close>

locale block_index =
  fixes at :: "'m \<Rightarrow> 'k \<Rightarrow> 'b set"
    and ok :: "'m \<Rightarrow> bool"
    and empty_index :: 'm
    and find :: "'k \<Rightarrow> 'm \<Rightarrow> 'b option"
    and ins :: "'k \<Rightarrow> 'b \<Rightarrow> 'm \<Rightarrow> 'm"
    and remove :: "'k \<Rightarrow> 'b \<Rightarrow> 'm \<Rightarrow> 'b option \<times> 'm"
    and universe :: "'b set"
  assumes empty_law: "ok empty_index" "at empty_index k = {}"
    and find_none_law: "ok m \<Longrightarrow> find k m = None \<longleftrightarrow> at m k = {}"
    and find_some_law: "ok m \<Longrightarrow> find k m = Some b \<Longrightarrow> b \<in> at m k"
    and ins_law: "ok m \<Longrightarrow> insert b (at m k) \<subseteq> universe \<Longrightarrow>
      ok (ins k b m) \<and> at (ins k b m) = (at m)(k := insert b (at m k))"
    and remove_law: "ok m \<Longrightarrow> insert b (at m k) \<subseteq> universe \<Longrightarrow>
      ok (snd (remove k b m)) \<and> at (snd (remove k b m)) = (at m)(k := at m k - {b})
      \<and> fst (remove k b m) = (if b \<in> at m k then Some b else None)"
begin

lemma find_after_insert:
  "ok m \<Longrightarrow> insert b (at m k) \<subseteq> universe \<Longrightarrow> find k (ins k b m) \<noteq> None"
  using ins_law[of m b k] find_none_law[of "ins k b m" k] by simp

text \<open>Removing what was inserted last restores the index.\<close>

lemma remove_after_insert:
  assumes "ok m" "insert b (at m k) \<subseteq> universe" "b \<notin> at m k"
  shows "fst (remove k b (ins k b m)) = Some b" "at (snd (remove k b (ins k b m))) = at m"
proof -
  note i = ins_law[OF assms(1,2)]
  have r: "insert b (at (ins k b m) k) \<subseteq> universe" using i assms(2) by simp
  show "fst (remove k b (ins k b m)) = Some b" using remove_law[OF _ r] i by simp
  show "at (snd (remove k b (ins k b m))) = at m" using remove_law[OF _ r] i assms(3) by auto
qed

text \<open>A key whose last block is removed is not found any more.\<close>

lemma find_after_last_removed:
  assumes "ok m" "at m k = {b}" "b \<in> universe"
  shows "find k (snd (remove k b m)) = None"
proof -
  have s: "insert b (at m k) \<subseteq> universe" using assms by simp
  from remove_law[OF assms(1) s] show ?thesis using find_none_law assms(2) by simp
qed

end

text \<open>The ids of the blocks of a pool with heap \<open>h\<close> tell the blocks apart.\<close>

locale numbered_heap =
  fixes h :: heap and n :: nat
  assumes id_law: "i < n \<Longrightarrow> block_id (h (Blk i)) = int i"
begin

lemma ids_inj_pool: "B \<subseteq> Blk ` {..<n} \<Longrightarrow> ids_inj h B"
proof -
  assume "B \<subseteq> Blk ` {..<n}"
  moreover have "inj_on (\<lambda>b. block_id (h b)) (Blk ` {..<n})" by (auto simp: inj_on_def id_law)
  ultimately show "ids_inj h B" unfolding ids_inj_def by (rule inj_on_subset[rotated])
qed

end

sublocale numbered_heap \<subseteq> bhm: block_index blocks_at "map_ok h" empty_block_map get_one_block "map_insert h"
  "\<lambda>k b. map_pop h k (block_id (h b))" "Blk ` {..<n}"
proof (unfold_locales, goal_cases)
  case 1
  then show ?case by (rule map_ok_empty)
next
  case (2 k)
  then show ?case by simp
next
  case (3 m k)
  then show ?case by (rule get_one_block_none)
next
  case (4 m k b)
  then show ?case by (rule get_one_block_mem)
next
  case (5 m b k)
  then show ?case using blocks_at_insert[OF _ ids_inj_pool] by (auto simp: map_insert_ok)
next
  case (6 m b k)
  then show ?case using map_pop_result[OF _ ids_inj_pool] by (auto simp: map_pop_ok)
qed

context numbered_heap
begin

lemma insert_blocks:
  "map_ok h m \<Longrightarrow> insert b (blocks_at m k) \<subseteq> Blk ` {..<n} \<Longrightarrow>
   map_ok h (map_insert h k b m) \<and> blocks_at (map_insert h k b m) = (blocks_at m)(k := insert b (blocks_at m k))"
  by (rule bhm.ins_law)

lemma pop_blocks:
  "map_ok h m \<Longrightarrow> insert b (blocks_at m k) \<subseteq> Blk ` {..<n} \<Longrightarrow>
   map_ok h (snd (map_pop h k (block_id (h b)) m))
   \<and> blocks_at (snd (map_pop h k (block_id (h b)) m)) = (blocks_at m)(k := blocks_at m k - {b})
   \<and> fst (map_pop h k (block_id (h b)) m) = (if b \<in> blocks_at m k then Some b else None)"
  by (rule bhm.remove_law)

lemma pop_after_insert:
  assumes "map_ok h m" "insert b (blocks_at m k) \<subseteq> Blk ` {..<n}" "b \<notin> blocks_at m k"
  shows "fst (map_pop h k (block_id (h b)) (map_insert h k b m)) = Some b
    \<and> blocks_at (snd (map_pop h k (block_id (h b)) (map_insert h k b m))) = blocks_at m"
  using bhm.remove_after_insert[OF assms] by blast

end

text \<open>The heap that the pool's constructor builds is numbered.\<close>

definition initial_heap :: heap where
  "initial_heap b = (case b of Blk i \<Rightarrow> new_kv_cache_block (int i) | _ \<Rightarrow> new_kv_cache_block (- 1))"

interpretation initial: numbered_heap initial_heap n for n
  by unfold_locales (simp add: initial_heap_def new_kv_cache_block_def)


subsection \<open>Properties\<close>

text \<open>
  caching a block and evicting it again restores the index: the block is found under its
  hash in between, eviction returns that block, and every other key maps to the same blocks.
\<close>

theorem cache_then_evict_restores:
  assumes "\<And>i. i < n \<Longrightarrow> block_id (h (Blk i)) = int i"
    and "map_ok h m" "insert b (blocks_at m k) \<subseteq> Blk ` {..<n}" "b \<notin> blocks_at m k"
  shows "get_one_block k (map_insert h k b m) \<noteq> None
    \<and> fst (map_pop h k (block_id (h b)) (map_insert h k b m)) = Some b
    \<and> blocks_at (snd (map_pop h k (block_id (h b)) (map_insert h k b m))) = blocks_at m"
proof -
  have nh: "numbered_heap h n" by unfold_locales (rule assms(1))
  have "map_ok h (map_insert h k b m)" "blocks_at (map_insert h k b m) k \<noteq> {}"
    using numbered_heap.insert_blocks[OF nh assms(2,3)] by auto
  then show ?thesis
    using get_one_block_none numbered_heap.pop_after_insert[OF nh assms(2-4)] by blast
qed

theorem cache_then_evict_restores_witness:
  "get_one_block [1] (map_insert initial_heap [1] (Blk 2) [([1], OneBlock (Blk 1))]) \<noteq> None
    \<and> fst (map_pop initial_heap [1] (block_id (initial_heap (Blk 2)))
          (map_insert initial_heap [1] (Blk 2) [([1], OneBlock (Blk 1))])) = Some (Blk 2)
    \<and> blocks_at (snd (map_pop initial_heap [1] (block_id (initial_heap (Blk 2)))
          (map_insert initial_heap [1] (Blk 2) [([1], OneBlock (Blk 1))]))) = blocks_at [([1], OneBlock (Blk 1))]"
  by (rule cache_then_evict_restores[where n = 3])
    (simp_all add: initial.id_law map_ok_def blocks_at_def split: if_splits)

end
