(* ===== verification/Requests.thy ===== *)
theory Requests
  imports Prelude Complex_Main "HOL-Library.List_Lexorder" "HOL-Library.Char_ord"
begin

section \<open>Requests\<close>

text \<open>
  \<open>vllm/v1/request.py\<close>: the request object that the scheduler, the KV cache manager and
  the encoder cache share, its status enumeration, its constructor and the methods that
  change it, and \<open>vllm/v1/core/sched/utils.py\<close>: the stop criteria. Floating-point times are
  exact rationals, because the code only compares and stores them. A prompt-embedding
  tensor is the list of the raw bytes of its rows. The block hasher is a parameter: a
  function from a request to the new hashes and the request with its embedding-hash
  cache updated.
\<close>

subsection \<open>Parameters and status\<close>

record repetition_detection_params =
  max_pattern_size :: int
  min_pattern_size :: int
  min_count :: int

record structured_outputs_params =
  so_json :: "string option"
  so_regex :: "string option"
  so_choice :: "string option"
  so_grammar :: "string option"
  so_json_object :: "bool option"
  so_structural_tag :: "string option"

definition all_constraints_none :: "structured_outputs_params \<Rightarrow> bool" where
  "all_constraints_none p \<longleftrightarrow>
     so_json p = None \<and> so_regex p = None \<and> so_choice p = None \<and> so_grammar p = None
     \<and> so_json_object p = None \<and> so_structural_tag p = None"

record sampling_params =
  sp_max_tokens :: "int option"
  sp_min_tokens :: int
  sp_eos_token_id :: "int option"
  sp_stop_token_ids :: "int list option"
  sp_repetition_detection :: "repetition_detection_params option"
  sp_skip_reading_prefix_cache :: "bool option"
  sp_structured_outputs :: "structured_outputs_params option"

record pooling_params =
  pp_skip_reading_prefix_cache :: "bool option"

record lora_request =
  lora_name :: string
  lora_int_id :: int

record placeholder_range =
  pr_offset :: int
  pr_length :: int
  pr_is_embed :: "bool list option"

record mm_feature =
  mm_identifier :: string
  mm_position :: placeholder_range

datatype request_status =
    WAITING
  | WAITING_FOR_STRUCTURED_OUTPUT_GRAMMAR
  | WAITING_FOR_REMOTE_KVS
  | WAITING_FOR_STREAMING_REQ
  | RUNNING
  | PREEMPTED
  | FINISHED_STOPPED
  | FINISHED_LENGTH_CAPPED
  | FINISHED_ABORTED
  | FINISHED_IGNORED
  | FINISHED_ERROR
  | FINISHED_REPETITION

datatype finish_reason = FR_STOP | FR_LENGTH | FR_ABORT | FR_ERROR | FR_REPETITION

text \<open>The integer values \<open>enum.auto()\<close> gives the members, in declaration order.\<close>

fun status_value :: "request_status \<Rightarrow> int" where
  "status_value WAITING = 1"
| "status_value WAITING_FOR_STRUCTURED_OUTPUT_GRAMMAR = 2"
| "status_value WAITING_FOR_REMOTE_KVS = 3"
| "status_value WAITING_FOR_STREAMING_REQ = 4"
| "status_value RUNNING = 5"
| "status_value PREEMPTED = 6"
| "status_value FINISHED_STOPPED = 7"
| "status_value FINISHED_LENGTH_CAPPED = 8"
| "status_value FINISHED_ABORTED = 9"
| "status_value FINISHED_IGNORED = 10"
| "status_value FINISHED_ERROR = 11"
| "status_value FINISHED_REPETITION = 12"

definition status_is_finished :: "request_status \<Rightarrow> bool" where
  "status_is_finished s \<longleftrightarrow> status_value s > status_value PREEMPTED"

definition finished_reason_map :: "(request_status, finish_reason) dict" where
  "finished_reason_map =
     [(FINISHED_STOPPED, FR_STOP), (FINISHED_LENGTH_CAPPED, FR_LENGTH), (FINISHED_ABORTED, FR_ABORT),
      (FINISHED_IGNORED, FR_LENGTH), (FINISHED_ERROR, FR_ERROR),
      (WAITING_FOR_STREAMING_REQ, FR_STOP), (FINISHED_REPETITION, FR_REPETITION)]"

definition status_finished_reason :: "request_status \<Rightarrow> finish_reason option" where
  "status_finished_reason s = dict_get finished_reason_map s"

datatype stop_reason = StopToken int | StopText string

datatype engine_core_event_type = EV_QUEUED | EV_SCHEDULED | EV_PREEMPTED

subsection \<open>The request object\<close>

record request =
  request_id :: string
  obj_id :: int
  priority :: int
  arrival_time :: rat
  req_sampling_params :: "sampling_params option"
  req_pooling_params :: "pooling_params option"
  req_lora_request :: "lora_request option"
  structured_output_request :: "structured_outputs_params option"
  status :: request_status
  events :: "(engine_core_event_type \<times> rat) list"
  stop_reason :: "stop_reason option"
  max_tokens :: int
  prompt_token_ids :: "int list option"
  prompt_embeds :: "bytes list option"
  prompt_embeds_per_block_hashes :: "(int \<times> int, bytes) dict"
  num_prompt_tokens :: int
  output_token_ids :: "int list"
  all_token_ids :: "int list"
  num_output_placeholders :: int
  async_tokens_to_discard :: int
  next_decode_eligible_step :: int
  spec_token_ids :: "int list"
  num_computed_tokens :: int
  cache_salt :: "string option"
  mm_features :: "mm_feature list"
  is_prefill_chunk :: bool
  num_preemptions :: int
  block_hashes :: "bytes list"
  skip_reading_prefix_cache :: bool
  resumable :: bool
  abort_immediately :: bool

type_synonym block_hasher = "request \<Rightarrow> (bytes list \<times> request) result"

definition num_tokens :: "request \<Rightarrow> int" where
  "num_tokens r = int (length (all_token_ids r))"

definition num_tokens_with_spec :: "request \<Rightarrow> int" where
  "num_tokens_with_spec r = int (length (all_token_ids r)) + int (length (spec_token_ids r))"

definition num_output_tokens :: "request \<Rightarrow> int" where
  "num_output_tokens r = int (length (output_token_ids r))"

definition num_encoder_inputs :: "request \<Rightarrow> int" where
  "num_encoder_inputs r = int (length (mm_features r))"

definition has_encoder_inputs :: "request \<Rightarrow> bool" where
  "has_encoder_inputs r \<longleftrightarrow> num_encoder_inputs r > 0"

definition use_structured_output :: "request \<Rightarrow> bool" where
  "use_structured_output r \<longleftrightarrow> structured_output_request r \<noteq> None"

definition req_is_finished :: "request \<Rightarrow> bool" where
  "req_is_finished r = status_is_finished (status r)"

definition get_finished_reason :: "request \<Rightarrow> finish_reason option" where
  "get_finished_reason r = status_finished_reason (status r)"

text \<open>\<open>PlaceholderRange.get_num_embeds\<close>: the last entry of the cumulative sum of the mask.\<close>

definition embeds_cumsum :: "placeholder_range \<Rightarrow> int list option" where
  "embeds_cumsum p =
     map_option (\<lambda>m. map (\<lambda>k. \<Sum>b\<leftarrow>take (Suc k) m. of_bool b) [0..<length m]) (pr_is_embed p)"

definition get_num_embeds :: "placeholder_range \<Rightarrow> int" where
  "get_num_embeds p =
     (case embeds_cumsum p of
        None \<Rightarrow> pr_length p
      | Some cs \<Rightarrow> if cs \<noteq> [] then last cs else 0)"

definition get_num_encoder_embeds :: "request \<Rightarrow> int \<Rightarrow> int result" where
  "get_num_encoder_embeds r input_id =
     rbind (rassert (input_id < int (length (mm_features r)))) (\<lambda>_.
     rbind (py_index (mm_features r) input_id) (\<lambda>f.
     Inr (get_num_embeds (mm_position f))))"

definition get_skip_reading_prefix_cache :: "request \<Rightarrow> bool" where
  "get_skip_reading_prefix_cache r =
     (case Option.bind (req_sampling_params r) sp_skip_reading_prefix_cache of
        Some b \<Rightarrow> b
      | None \<Rightarrow>
          (case Option.bind (req_pooling_params r) pp_skip_reading_prefix_cache of
             Some b \<Rightarrow> b
           | None \<Rightarrow> False))"

definition length_from_prompt_token_ids_or_embeds ::
  "int list option \<Rightarrow> bytes list option \<Rightarrow> int result" where
  "length_from_prompt_token_ids_or_embeds tids embeds =
     (case tids of
        None \<Rightarrow> (case embeds of None \<Rightarrow> Inl ValueError | Some e \<Rightarrow> Inr (int (length e)))
      | Some t \<Rightarrow>
          (case embeds of
             None \<Rightarrow> Inr (int (length t))
           | Some e \<Rightarrow> if length e \<noteq> length t then Inl ValueError else Inr (int (length t))))"

definition structured_output_from_sampling_params ::
  "sampling_params option \<Rightarrow> structured_outputs_params option" where
  "structured_output_from_sampling_params sp =
     (case sp of
        None \<Rightarrow> None
      | Some s \<Rightarrow>
          (case sp_structured_outputs s of
             None \<Rightarrow> None
           | Some p \<Rightarrow> if all_constraints_none p then None else Some p))"

text \<open>\<open>update_block_hashes\<close> extends the hashes with what the hasher computes, if there is one.\<close>

definition update_block_hashes :: "block_hasher option \<Rightarrow> request \<Rightarrow> request result" where
  "update_block_hashes hasher r =
     (case hasher of
        None \<Rightarrow> Inr r
      | Some f \<Rightarrow> rbind (f r) (\<lambda>(new, r'). Inr (r'\<lparr>block_hashes := block_hashes r' @ new\<rparr>)))"

subsection \<open>Construction\<close>

text \<open>The fields of \<open>EngineCoreRequest\<close> that \<open>Request.from_engine_core_request\<close> passes on.\<close>

record engine_core_request =
  ec_request_id :: string
  ec_prompt_token_ids :: "int list option"
  ec_mm_features :: "mm_feature list option"
  ec_sampling_params :: "sampling_params option"
  ec_pooling_params :: "pooling_params option"
  ec_arrival_time :: "rat option"
  ec_lora_request :: "lora_request option"
  ec_cache_salt :: "string option"
  ec_prompt_embeds :: "bytes list option"
  ec_priority :: int
  ec_resumable :: bool
  ec_abort_immediately :: bool

definition initial_max_tokens_status ::
  "sampling_params option \<Rightarrow> pooling_params option \<Rightarrow> bool \<Rightarrow> (int \<times> request_status) result" where
  "initial_max_tokens_status sp pp structured =
     (if pp \<noteq> None then Inr (1, WAITING)
      else case sp of
             None \<Rightarrow> Inl ValueError
           | Some s \<Rightarrow>
               (case sp_max_tokens s of
                  None \<Rightarrow> Inl AssertionError
                | Some m \<Rightarrow>
                    Inr (m, if structured then WAITING_FOR_STRUCTURED_OUTPUT_GRAMMAR else WAITING)))"

text \<open>The object as the constructor's assignments leave it before the first hashing.\<close>

definition request_fields ::
  "rat \<Rightarrow> int \<Rightarrow> engine_core_request \<Rightarrow> int \<Rightarrow> request_status \<Rightarrow> int \<Rightarrow> request" where
  "request_fields now oid e mt st npt =
     \<lparr>request_id = ec_request_id e, obj_id = oid, priority = ec_priority e,
      arrival_time = (case ec_arrival_time e of None \<Rightarrow> now | Some t \<Rightarrow> t),
      req_sampling_params = ec_sampling_params e, req_pooling_params = ec_pooling_params e,
      req_lora_request = ec_lora_request e,
      structured_output_request = structured_output_from_sampling_params (ec_sampling_params e),
      status = st, events = [], stop_reason = None, max_tokens = mt,
      prompt_token_ids = ec_prompt_token_ids e, prompt_embeds = ec_prompt_embeds e,
      prompt_embeds_per_block_hashes = [], num_prompt_tokens = npt,
      output_token_ids = [],
      all_token_ids = (case ec_prompt_token_ids e of
                         Some t \<Rightarrow> t | None \<Rightarrow> replicate (nat npt) 0),
      num_output_placeholders = 0, async_tokens_to_discard = 0,
      next_decode_eligible_step = 0, spec_token_ids = [], num_computed_tokens = 0,
      cache_salt = ec_cache_salt e,
      mm_features = (case ec_mm_features e of None \<Rightarrow> [] | Some m \<Rightarrow> m),
      is_prefill_chunk = False, num_preemptions = 0, block_hashes = [],
      skip_reading_prefix_cache = False, resumable = ec_resumable e,
      abort_immediately = ec_abort_immediately e\<rparr>"

definition request_init ::
  "block_hasher option \<Rightarrow> rat \<Rightarrow> int \<Rightarrow> engine_core_request \<Rightarrow> request result" where
  "request_init hasher now oid e =
     rbind (initial_max_tokens_status (ec_sampling_params e) (ec_pooling_params e)
              (structured_output_from_sampling_params (ec_sampling_params e) \<noteq> None))
       (\<lambda>(mt, st).
     rbind (length_from_prompt_token_ids_or_embeds (ec_prompt_token_ids e) (ec_prompt_embeds e))
       (\<lambda>npt.
     rbind (update_block_hashes hasher (request_fields now oid e mt st npt))
       (\<lambda>r. Inr (r\<lparr>skip_reading_prefix_cache := get_skip_reading_prefix_cache r\<rparr>))))"

subsection \<open>Methods that change the request\<close>

definition append_output_token_ids ::
  "block_hasher option \<Rightarrow> request \<Rightarrow> int list \<Rightarrow> request result" where
  "append_output_token_ids hasher r toks =
     update_block_hashes hasher
       (r\<lparr>output_token_ids := output_token_ids r @ toks,
          all_token_ids := all_token_ids r @ toks\<rparr>)"

definition record_event :: "engine_core_event_type \<Rightarrow> rat option \<Rightarrow> rat \<Rightarrow> request \<Rightarrow> request" where
  "record_event ty ts now r =
     r\<lparr>events := events r @ [(ty, case ts of None \<Rightarrow> now | Some t \<Rightarrow> t)]\<rparr>"

definition take_req_events ::
  "request \<Rightarrow> (engine_core_event_type \<times> rat) list option \<times> request" where
  "take_req_events r =
     (if events r = [] then (None, r) else (Some (events r), r\<lparr>events := []\<rparr>))"

text \<open>\<open>Request.__lt__\<close>, the order of priority scheduling.\<close>

definition request_lt :: "request \<Rightarrow> request \<Rightarrow> bool" where
  "request_lt a b =
     (if priority a \<noteq> priority b then priority a < priority b
      else if arrival_time a \<noteq> arrival_time b then arrival_time a < arrival_time b
      else if request_id a \<noteq> request_id b then request_id a < request_id b
      else obj_id a < obj_id b)"

subsection \<open>Stop criteria\<close>

text \<open>
  \<open>_has_repeating_pattern\<close>: the two nested \<open>for\<close> loops with their early \<open>return False\<close>;
  a token read out of range raises.
\<close>

fun pattern_column :: "int list \<Rightarrow> int \<Rightarrow> int \<Rightarrow> int \<Rightarrow> int list \<Rightarrow> bool result" where
  "pattern_column toks plen n target [] = Inr True"
| "pattern_column toks plen n target (m # ms) =
     rbind (py_index toks (- (plen * m + n))) (\<lambda>t.
       if t \<noteq> target then Inr False else pattern_column toks plen n target ms)"

fun pattern_rows :: "int list \<Rightarrow> int \<Rightarrow> int \<Rightarrow> int list \<Rightarrow> bool result" where
  "pattern_rows toks plen cnt [] = Inr True"
| "pattern_rows toks plen cnt (n # ns) =
     rbind (py_index toks (- n)) (\<lambda>target.
     rbind (pattern_column toks plen n target (py_range 1 cnt)) (\<lambda>ok.
       if ok then pattern_rows toks plen cnt ns else Inr False))"

definition has_repeating_pattern :: "int list \<Rightarrow> int \<Rightarrow> int \<Rightarrow> bool result" where
  "has_repeating_pattern toks plen cnt = pattern_rows toks plen cnt (py_range 1 (plen + 1))"

fun repetition_loop :: "int list \<Rightarrow> int \<Rightarrow> int list \<Rightarrow> bool result" where
  "repetition_loop toks cnt [] = Inr False"
| "repetition_loop toks cnt (plen # ps) =
     (if plen * cnt > int (length toks) then Inr False
      else rbind (has_repeating_pattern toks plen cnt) (\<lambda>found.
             if found then Inr True else repetition_loop toks cnt ps))"

definition check_sequence_repetition :: "int list \<Rightarrow> repetition_detection_params \<Rightarrow> bool result" where
  "check_sequence_repetition toks p =
     (let lo = (if min_pattern_size p \<le> 0 then 1 else min_pattern_size p) in
      if max_pattern_size p \<le> 0 \<or> min_count p < 2 \<or> lo > max_pattern_size p then Inr False
      else repetition_loop toks (min_count p) (py_range lo (max_pattern_size p + 1)))"

text \<open>\<open>remove_all\<close>: one item is removed in place (its first occurrence), several by filtering.\<close>

definition remove_all :: "'a list \<Rightarrow> 'a list \<Rightarrow> 'a list" where
  "remove_all lst items =
     (if items = [] then lst
      else if length items = 1 then remove1 (hd items) lst
      else filter (\<lambda>x. x \<notin> set items) lst)"

definition check_stop :: "request \<Rightarrow> int \<Rightarrow> (bool \<times> request) result" where
  "check_stop r max_model_len =
     rbind (rassert (req_pooling_params r = None)) (\<lambda>_.
     case req_sampling_params r of
       None \<Rightarrow> Inl AssertionError
     | Some sp \<Rightarrow>
         if num_output_tokens r < sp_min_tokens sp then Inr (False, r)
         else rbind (py_index (output_token_ids r) (- 1)) (\<lambda>last_token_id.
           if sp_eos_token_id sp = Some last_token_id
           then Inr (True, r\<lparr>status := FINISHED_STOPPED\<rparr>)
           else if last_token_id \<in> set (case sp_stop_token_ids sp of None \<Rightarrow> [] | Some l \<Rightarrow> l)
           then Inr (True, r\<lparr>status := FINISHED_STOPPED, stop_reason := Some (StopToken last_token_id)\<rparr>)
           else if num_tokens r \<ge> max_model_len \<or> num_output_tokens r \<ge> max_tokens r
           then Inr (True, r\<lparr>status := FINISHED_LENGTH_CAPPED\<rparr>)
           else (case sp_repetition_detection sp of
                   None \<Rightarrow> Inr (False, r)
                 | Some rd \<Rightarrow>
                     rbind (check_sequence_repetition (output_token_ids r) rd) (\<lambda>rep.
                       if rep
                       then Inr (True, r\<lparr>status := FINISHED_REPETITION,
                                  stop_reason := Some (StopText ''repetition_detected'')\<rparr>)
                       else Inr (False, r)))))"

subsection \<open>The scheduling order\<close>

lemma request_lt_irrefl: "\<not> request_lt a a"
  by (simp add: request_lt_def)

lemma request_lt_trans: "request_lt a b \<Longrightarrow> request_lt b c \<Longrightarrow> request_lt a c"
  by (auto simp: request_lt_def split: if_splits)

lemma request_lt_total: "obj_id a \<noteq> obj_id b \<Longrightarrow> request_lt a b \<or> request_lt b a"
  by (auto simp: request_lt_def)

lemma request_lt_asym: "request_lt a b \<Longrightarrow> \<not> request_lt b a"
  using request_lt_irrefl request_lt_trans by blast

subsection \<open>Token bookkeeping\<close>

text \<open>The two token lists of a request move together: the output is what follows the prompt.\<close>

definition wf_tokens :: "request \<Rightarrow> bool" where
  "wf_tokens r \<longleftrightarrow> 0 \<le> num_prompt_tokens r
     \<and> (\<exists>ps. all_token_ids r = ps @ output_token_ids r \<and> int (length ps) = num_prompt_tokens r
          \<and> (case prompt_token_ids r of None \<Rightarrow> ps = replicate (length ps) 0 | Some t \<Rightarrow> ps = t))"

text \<open>What a block hasher may change: nothing but its cache of embedding hashes.\<close>

definition hasher_frame :: "block_hasher \<Rightarrow> bool" where
  "hasher_frame f \<longleftrightarrow>
     (\<forall>r new r'. f r = Inr (new, r') \<longrightarrow>
        (\<exists>d. r' = r\<lparr>prompt_embeds_per_block_hashes := d\<rparr>))"

lemma update_block_hashes_frame:
  assumes "update_block_hashes hasher r = Inr r'" "\<forall>f. hasher = Some f \<longrightarrow> hasher_frame f"
  shows "\<exists>d h. r' = r\<lparr>prompt_embeds_per_block_hashes := d, block_hashes := block_hashes r @ h\<rparr>"
proof (cases hasher)
  case None
  then have "r' = r\<lparr>prompt_embeds_per_block_hashes := prompt_embeds_per_block_hashes r,
      block_hashes := block_hashes r @ []\<rparr>"
    using assms(1) by (simp add: update_block_hashes_def)
  then show ?thesis by blast
next
  case (Some f)
  then obtain new r1 where f: "f r = Inr (new, r1)" "r' = r1\<lparr>block_hashes := block_hashes r1 @ new\<rparr>"
    using assms(1) by (auto simp: update_block_hashes_def result_simps)
  then obtain d where "r1 = r\<lparr>prompt_embeds_per_block_hashes := d\<rparr>"
    using assms(2) Some unfolding hasher_frame_def by blast
  with f(2) show ?thesis by auto
qed

lemma length_from_prompt_ok:
  "length_from_prompt_token_ids_or_embeds t e = Inr n \<Longrightarrow>
   0 \<le> n \<and> (\<forall>l. t = Some l \<longrightarrow> n = int (length l))"
  by (auto simp: length_from_prompt_token_ids_or_embeds_def split: option.splits if_splits)

lemma request_init_wf_tokens:
  assumes "request_init hasher now oid e = Inr r" "\<forall>f. hasher = Some f \<longrightarrow> hasher_frame f"
  shows "wf_tokens r"
proof -
  obtain mt st npt r1 where
      len: "length_from_prompt_token_ids_or_embeds (ec_prompt_token_ids e) (ec_prompt_embeds e) = Inr npt"
    and upd: "update_block_hashes hasher (request_fields now oid e mt st npt) = Inr r1"
    and r: "r = r1\<lparr>skip_reading_prefix_cache := get_skip_reading_prefix_cache r1\<rparr>"
    using assms(1) by (auto simp: request_init_def result_simps)
  have "wf_tokens (request_fields now oid e mt st npt)"
    using length_from_prompt_ok[OF len] by (auto simp: wf_tokens_def request_fields_def split: option.splits)
  with r update_block_hashes_frame[OF upd assms(2)] show ?thesis
    by (auto simp: wf_tokens_def)
qed

lemma append_output_wf_tokens:
  assumes "append_output_token_ids hasher r toks = Inr r'" "\<forall>f. hasher = Some f \<longrightarrow> hasher_frame f"
    "wf_tokens r"
  shows "wf_tokens r'"
  using update_block_hashes_frame[OF assms(1)[unfolded append_output_token_ids_def] assms(2)] assms(3)
  by (auto simp: wf_tokens_def)

subsection \<open>Repetition detection\<close>

text \<open>The specification: the tokens end with \<open>c\<close> copies of a pattern of length \<open>p\<close>.\<close>

definition ends_with_repetition :: "int list \<Rightarrow> nat \<Rightarrow> nat \<Rightarrow> bool" where
  "ends_with_repetition toks p c \<longleftrightarrow> (\<exists>pre w. length w = p \<and> toks = pre @ concat (replicate c w))"

lemma concat_replicate_nth:
  "i < c * length w \<Longrightarrow> concat (replicate c w) ! i = w ! (i mod length w)"
proof (induction c arbitrary: i)
  case 0
  then show ?case by simp
next
  case (Suc c)
  show ?case
  proof (cases "i < length w")
    case True
    then show ?thesis by (simp add: nth_append)
  next
    case False
    then have "concat (replicate (Suc c) w) ! i = concat (replicate c w) ! (i - length w)"
      by (simp add: nth_append)
    also have "\<dots> = w ! ((i - length w) mod length w)" using False Suc by simp
    also have "(i - length w) mod length w = i mod length w" using False by (simp add: le_mod_geq)
    finally show ?thesis .
  qed
qed

lemma length_concat_replicate [simp]: "length (concat (replicate c w)) = c * length w"
  by (simp add: length_concat sum_list_replicate)

lemma py_index_neg:
  "1 \<le> k \<Longrightarrow> k \<le> length xs \<Longrightarrow> py_index xs (- int k) = Inr (xs ! (length xs - k))"
  by (auto simp: py_index_def Let_def nat_diff_distrib' of_nat_diff)

lemma pattern_column_eq:
  assumes "\<forall>m \<in> set ms. 1 \<le> plen * m + n \<and> plen * m + n \<le> int (length toks)"
  shows "pattern_column toks plen n t ms
    = Inr (\<forall>m \<in> set ms. toks ! (length toks - nat (plen * m + n)) = t)"
  using assms
proof (induction ms)
  case Nil
  then show ?case by simp
next
  case (Cons m ms)
  then show ?case using py_index_neg[of "nat (plen * m + n)" toks] by auto
qed

lemma pattern_rows_eq:
  assumes "\<forall>n \<in> set ns. 1 \<le> n \<and> plen * (cnt - 1) + n \<le> int (length toks)" "0 \<le> plen" "1 \<le> cnt"
  shows "pattern_rows toks plen cnt ns
    = Inr (\<forall>n \<in> set ns. \<forall>m \<in> {1..<cnt}.
        toks ! (length toks - nat (plen * m + n)) = toks ! (length toks - nat n))"
  using assms
proof (induction ns)
  case Nil
  then show ?case by simp
next
  case (Cons n ns)
  have pm: "0 \<le> plen * m" "plen * m \<le> plen * (cnt - 1)" if "m \<in> {1..<cnt}" for m
    using that Cons.prems(2) by (auto intro: mult_left_mono)
  have "0 \<le> plen * (cnt - 1)" using Cons.prems by simp
  then have "1 \<le> n" "n \<le> int (length toks)" using Cons.prems(1) by auto
  then have i: "py_index toks (- n) = Inr (toks ! (length toks - nat n))"
    using py_index_neg[of "nat n" toks] by simp
  have "\<forall>m \<in> set (py_range 1 cnt). 1 \<le> plen * m + n \<and> plen * m + n \<le> int (length toks)"
    using pm Cons.prems(1) by fastforce
  from pattern_column_eq[OF this] show ?case
    using i Cons.IH Cons.prems by auto
qed


text \<open>The positions the loops compare are the columns of the repeated pattern.\<close>

definition repetition_columns :: "int list \<Rightarrow> nat \<Rightarrow> nat \<Rightarrow> bool" where
  "repetition_columns toks p c \<longleftrightarrow>
     (\<forall>n \<in> {1..p}. \<forall>m \<in> {1..<c}. toks ! (length toks - (p * m + n)) = toks ! (length toks - n))"

lemma repetition_columns_of_repetition:
  assumes p: "0 < p" and c: "0 < c" and rep: "ends_with_repetition toks p c"
  shows "repetition_columns toks p c"
proof -
  obtain pre w where w: "length w = p" "toks = pre @ concat (replicate c w)"
    using rep by (auto simp: ends_with_repetition_def)
  have at: "toks ! (length toks - (p * m + n)) = w ! (p - n)" if n: "n \<in> {1..p}" and m: "m < c" for n m
  proof -
    obtain k where k: "c = m + Suc k" using m less_iff_Suc_add by auto
    have cp: "c * p = p * m + p * k + p" by (simp add: k algebra_simps)
    then have e: "c * p - (p * m + n) = p * k + (p - n)" and b: "p * m + n \<le> c * p"
      using n by auto
    have "length toks - (p * m + n) = length pre + (c * p - (p * m + n))"
      using w b by simp
    then have "toks ! (length toks - (p * m + n)) = concat (replicate c w) ! (c * p - (p * m + n))"
      by (simp add: w(2) nth_append)
    also have "\<dots> = w ! ((c * p - (p * m + n)) mod p)"
      using w(1) p n b by (intro concat_replicate_nth[of _ c w, unfolded w(1)]) auto
    also have "(c * p - (p * m + n)) mod p = p - n" unfolding e mod_mult_self4 using n by auto
    finally show ?thesis .
  qed
  show ?thesis
    unfolding repetition_columns_def
  proof (intro ballI)
    fix n m assume nm: "n \<in> {1..p}" "m \<in> {1..<c}"
    then show "toks ! (length toks - (p * m + n)) = toks ! (length toks - n)"
      using at[of n m] at[of n 0] c by simp
  qed
qed

lemma repetition_of_columns:
  assumes p: "0 < p" and c: "0 < c" and len: "p * c \<le> length toks" and cols: "repetition_columns toks p c"
  shows "ends_with_repetition toks p c"
proof -
  let ?L = "length toks" and ?w = "drop (length toks - p) toks"
  have pc: "p \<le> length toks" using c len by (metis le_trans mult.right_neutral mult_le_mono2 Suc_leI One_nat_def)
  then have lw: "length ?w = p" by simp
  have "drop (?L - p * c) toks = concat (replicate c ?w)"
  proof (rule nth_equalityI)
    show "length (drop (?L - p * c) toks) = length (concat (replicate c ?w))"
      using lw len by (simp add: mult.commute)
    fix i assume "i < length (drop (?L - p * c) toks)"
    then have i: "i < p * c" using len by simp
    define d r n where "d = i div p" and "r = i mod p" and "n = p - i mod p"
    have dr: "i = p * d + r" "r < p" and n: "n \<in> {1..p}" "n = p - r"
      using p by (auto simp: d_def r_def n_def Suc_le_eq)
    have "d < c" using i by (simp add: d_def less_mult_imp_div_less mult.commute)
    then obtain m where m: "c = d + Suc m" using less_iff_Suc_add by auto
    then have mc: "m < c" by simp
    have "p * c = p * d + p * m + p" by (simp add: m algebra_simps)
    then have e: "?L - p * c + i = ?L - (p * m + n)"
      using dr len n by auto
    have "drop (?L - p * c) toks ! i = toks ! (?L - (p * m + n))"
      using e by simp
    also have "\<dots> = toks ! (?L - n)" using cols[unfolded repetition_columns_def] n(1) mc by (cases "m = 0") auto
    also have "\<dots> = ?w ! (i mod p)" using len pc p by (simp add: n_def)
    also have "\<dots> = concat (replicate c ?w) ! i"
      using concat_replicate_nth[of i c ?w] i lw by (simp add: mult.commute)
    finally show "drop (?L - p * c) toks ! i = concat (replicate c ?w) ! i" .
  qed
  then show "ends_with_repetition toks p c"
    unfolding ends_with_repetition_def using lw by (metis append_take_drop_id)
qed

lemma has_repeating_pattern_eq:
  assumes p: "0 < p" and c: "0 < c" and len: "p * c \<le> int (length toks)"
  shows "has_repeating_pattern toks p c = Inr (ends_with_repetition toks (nat p) (nat c))"
proof -
  have l: "nat p * nat c \<le> length toks" using assms by (simp flip: nat_mult_distrib add: nat_le_iff)
  have b: "\<forall>n \<in> set (py_range 1 (p + 1)). 1 \<le> n \<and> p * (c - 1) + n \<le> int (length toks)"
    using len by (auto simp: algebra_simps)
  have nm: "nat (p * int m + int n) = nat p * m + n" for m n
    using p by (simp add: nat_add_distrib nat_mult_distrib)
  have "(\<forall>n \<in> set (py_range 1 (p + 1)). \<forall>m \<in> {1..<c}.
        toks ! (length toks - nat (p * m + n)) = toks ! (length toks - nat n))
      \<longleftrightarrow> repetition_columns toks (nat p) (nat c)"
  proof
    assume A: "\<forall>n \<in> set (py_range 1 (p + 1)). \<forall>m \<in> {1..<c}.
        toks ! (length toks - nat (p * m + n)) = toks ! (length toks - nat n)"
    show "repetition_columns toks (nat p) (nat c)"
      unfolding repetition_columns_def
    proof (intro ballI)
      fix n m assume "n \<in> {1..nat p}" "m \<in> {1..<nat c}"
      then show "toks ! (length toks - (nat p * m + n)) = toks ! (length toks - n)"
        using A[rule_format, of "int n" "int m"] nm by auto
    qed
  next
    assume B: "repetition_columns toks (nat p) (nat c)"
    show "\<forall>n \<in> set (py_range 1 (p + 1)). \<forall>m \<in> {1..<c}.
        toks ! (length toks - nat (p * m + n)) = toks ! (length toks - nat n)"
    proof (intro ballI)
      fix n m assume nm': "n \<in> set (py_range 1 (p + 1))" "m \<in> {1..<c}"
      then have "nat n \<in> {1..nat p}" "nat m \<in> {1..<nat c}" by auto
      then show "toks ! (length toks - nat (p * m + n)) = toks ! (length toks - nat n)"
        using B nm[of "nat m" "nat n"] nm' unfolding repetition_columns_def by simp
    qed
  qed
  also have "\<dots> \<longleftrightarrow> ends_with_repetition toks (nat p) (nat c)"
    using repetition_columns_of_repetition repetition_of_columns[OF _ _ l] p c by auto
  finally show ?thesis
    unfolding has_repeating_pattern_def using pattern_rows_eq[OF b] p c by simp
qed

lemma repetition_loop_eq:
  assumes "\<forall>p \<in> set ps. 0 < p" "sorted ps" "0 < c"
  shows "repetition_loop toks c ps
    = Inr (\<exists>p \<in> set ps. p * c \<le> int (length toks) \<and> ends_with_repetition toks (nat p) (nat c))"
  using assms
proof (induction ps)
  case Nil
  then show ?case by simp
next
  case (Cons p ps)
  show ?case
  proof (cases "p * c \<le> int (length toks)")
    case True
    then show ?thesis using Cons has_repeating_pattern_eq[of p c toks] by auto
  next
    case False
    have nb: "\<not> q * c \<le> int (length toks)" if "q \<in> set (p # ps)" for q
    proof -
      have "p * c \<le> q * c" using that Cons.prems by (intro mult_right_mono) auto
      with False show ?thesis by linarith
    qed
    from False have "repetition_loop toks c (p # ps) = Inr False" by simp
    moreover have "\<not> (\<exists>q \<in> set (p # ps). q * c \<le> int (length toks) \<and> ends_with_repetition toks (nat q) (nat c))"
      using nb by blast
    ultimately show ?thesis by simp
  qed
qed

lemma sorted_py_range [simp]: "sorted (py_range a b)"
  by (simp add: py_range_def sorted_iff_nth_mono)

lemma check_sequence_repetition_eq:
  assumes "max_pattern_size p > 0" "min_count p \<ge> 2" "max 1 (min_pattern_size p) \<le> max_pattern_size p"
  shows "check_sequence_repetition toks p
    = Inr (\<exists>k. max 1 (min_pattern_size p) \<le> k \<and> k \<le> max_pattern_size p
        \<and> k * min_count p \<le> int (length toks) \<and> ends_with_repetition toks (nat k) (nat (min_count p)))"
proof -
  let ?lo = "if min_pattern_size p \<le> 0 then 1 else min_pattern_size p"
  have lo: "?lo = max 1 (min_pattern_size p)" by auto
  have "check_sequence_repetition toks p
      = repetition_loop toks (min_count p) (py_range ?lo (max_pattern_size p + 1))"
    unfolding check_sequence_repetition_def Let_def lo by (rule if_not_P) (use assms in linarith)
  also have "\<dots> = Inr (\<exists>k \<in> set (py_range ?lo (max_pattern_size p + 1)).
      k * min_count p \<le> int (length toks) \<and> ends_with_repetition toks (nat k) (nat (min_count p)))"
    using assms by (intro repetition_loop_eq) auto
  also have "\<dots> = Inr (\<exists>k. max 1 (min_pattern_size p) \<le> k \<and> k \<le> max_pattern_size p
        \<and> k * min_count p \<le> int (length toks) \<and> ends_with_repetition toks (nat k) (nat (min_count p)))"
    unfolding lo by auto
  finally show ?thesis .
qed

subsection \<open>Stopping\<close>

text \<open>A stopped request differs from the running one in its status and stop reason only.\<close>

definition stopped_as :: "request \<Rightarrow> request_status \<Rightarrow> stop_reason option \<Rightarrow> request" where
  "stopped_as r st sr = r\<lparr>status := st, stop_reason := sr\<rparr>"

lemma stopped_as_same: "stopped_as r st (stop_reason r) = r\<lparr>status := st\<rparr>"
  by (simp add: stopped_as_def)

lemma status_stopped_as [simp]: "status (stopped_as r st sr) = st"
  by (simp add: stopped_as_def)

lemma check_stop_unfold:
  "req_pooling_params r = None \<Longrightarrow> req_sampling_params r = Some sp \<Longrightarrow> output_token_ids r \<noteq> [] \<Longrightarrow>
   check_stop r L =
     (let last_token = last (output_token_ids r) in
      if num_output_tokens r < sp_min_tokens sp then Inr (False, r)
      else if sp_eos_token_id sp = Some last_token
      then Inr (True, stopped_as r FINISHED_STOPPED (stop_reason r))
      else if last_token \<in> set (case sp_stop_token_ids sp of None \<Rightarrow> [] | Some l \<Rightarrow> l)
      then Inr (True, stopped_as r FINISHED_STOPPED (Some (StopToken last_token)))
      else if num_tokens r \<ge> L \<or> num_output_tokens r \<ge> max_tokens r
      then Inr (True, stopped_as r FINISHED_LENGTH_CAPPED (stop_reason r))
      else case sp_repetition_detection sp of
             None \<Rightarrow> Inr (False, r)
           | Some rd \<Rightarrow> rbind (check_sequence_repetition (output_token_ids r) rd) (\<lambda>rep.
               if rep then Inr (True, stopped_as r FINISHED_REPETITION
                         (Some (StopText ''repetition_detected'')))
               else Inr (False, r)))"
proof -
  assume a: "req_pooling_params r = None" "req_sampling_params r = Some sp" "output_token_ids r \<noteq> []"
  have l: "py_index (output_token_ids r) (- 1) = Inr (last (output_token_ids r))"
    using a(3) by (cases "output_token_ids r" rule: rev_cases) (auto simp: py_index_def nth_append)
  show ?thesis
    unfolding stopped_as_same unfolding check_stop_def a(1,2) stopped_as_def Let_def l rassert_def
    by (simp only: simp_thms if_True rbind.simps option.case)
qed


lemma check_stop_cases:
  assumes "req_pooling_params r = None" "req_sampling_params r = Some sp" "output_token_ids r \<noteq> []"
    and "check_stop r L = Inr (b, r')"
  shows "(\<not> b \<and> r' = r \<and> (sp_min_tokens sp \<le> num_output_tokens r \<longrightarrow>
            num_tokens r < L \<and> num_output_tokens r < max_tokens r))
       \<or> (b \<and> sp_min_tokens sp \<le> num_output_tokens r
          \<and> (\<exists>st sr. r' = stopped_as r st sr \<and> status_is_finished st))"
  using assms(4) unfolding check_stop_unfold[OF assms(1-3)] Let_def
  by (auto simp: result_simps status_is_finished_def split: option.splits if_splits)

subsection \<open>Properties\<close>

text \<open>
  \<open>Request.__lt__\<close> is a strict total order on request objects, which the heap of the priority
  queue relies on: lower priority value first, then earlier arrival, then request id.
\<close>

theorem request_order_strict_total:
  shows "(\<forall>a. \<not> request_lt a a) \<and> (\<forall>a b c. request_lt a b \<and> request_lt b c \<longrightarrow> request_lt a c)
    \<and> (\<forall>a b. obj_id a \<noteq> obj_id b \<longrightarrow> request_lt a b \<or> request_lt b a)
    \<and> (\<forall>a b. priority a < priority b \<longrightarrow> request_lt a b)
    \<and> (\<forall>a b. priority a = priority b \<and> arrival_time a < arrival_time b \<longrightarrow> request_lt a b)"
proof (intro conjI allI impI)
  fix a b c :: request
  show "\<not> request_lt a a" by (rule request_lt_irrefl)
  show "request_lt a c" if "request_lt a b \<and> request_lt b c" using that request_lt_trans by blast
  show "request_lt a b \<or> request_lt b a" if "obj_id a \<noteq> obj_id b" using that by (rule request_lt_total)
  show "request_lt a b" if "priority a < priority b" using that by (simp add: request_lt_def)
  show "request_lt a b" if "priority a = priority b \<and> arrival_time a < arrival_time b"
    using that by (simp add: request_lt_def)
qed

definition plain_request :: "int \<Rightarrow> request" where
  "plain_request oid =
     request_fields 0 oid
       \<lparr>ec_request_id = ''r'', ec_prompt_token_ids = Some [1, 2], ec_mm_features = None,
        ec_sampling_params = Some \<lparr>sp_max_tokens = Some 4, sp_min_tokens = 0, sp_eos_token_id = Some 9,
          sp_stop_token_ids = None, sp_repetition_detection = None,
          sp_skip_reading_prefix_cache = None, sp_structured_outputs = None\<rparr>,
        ec_pooling_params = None, ec_arrival_time = Some (of_int oid), ec_lora_request = None, ec_cache_salt = None,
        ec_prompt_embeds = None, ec_priority = 0, ec_resumable = False, ec_abort_immediately = False\<rparr> 4 WAITING 2"


theorem request_order_strict_total_witness:
  "request_lt (plain_request 1) (plain_request 2) \<and> \<not> request_lt (plain_request 1) (plain_request 1)
    \<and> request_lt (plain_request 2) (plain_request 3) \<and> request_lt (plain_request 1) (plain_request 3)"
proof -
  have o: "obj_id (plain_request i) = i" "priority (plain_request i) = 0" "arrival_time (plain_request i) = of_int i" for i
    by (simp_all add: plain_request_def request_fields_def)
  have s: "request_lt a b" if "priority a = priority b" "arrival_time a < arrival_time b" for a b
    using request_order_strict_total that by blast
  have "request_lt (plain_request 1) (plain_request 2)" "request_lt (plain_request 2) (plain_request 3)"
    by (rule s; simp add: o)+
  with request_order_strict_total show ?thesis by blast
qed



text \<open>
  C31: repetition detection reports exactly the token sequences that end with \<open>min_count\<close> copies
  of some pattern whose length lies between the two bounds; it never raises.
\<close>

theorem repetition_detected_iff:
  assumes "max_pattern_size p > 0" "min_count p \<ge> 2" "max 1 (min_pattern_size p) \<le> max_pattern_size p"
  shows "check_sequence_repetition toks p
    = Inr (\<exists>k. max 1 (min_pattern_size p) \<le> k \<and> k \<le> max_pattern_size p
        \<and> (\<exists>pre w. length w = nat k \<and> toks = pre @ concat (replicate (nat (min_count p)) w)))"
proof -
  have "k * min_count p \<le> int (length toks)" if k: "max 1 (min_pattern_size p) \<le> k"
    "ends_with_repetition toks (nat k) (nat (min_count p))" for k
  proof -
    obtain pre w where w: "length w = nat k" "toks = pre @ concat (replicate (nat (min_count p)) w)"
      using k(2) by (auto simp: ends_with_repetition_def)
    have "int (nat (min_count p) * nat k) = k * min_count p" using k(1) assms by simp
    moreover have "nat (min_count p) * nat k \<le> length toks" using w by simp
    ultimately show ?thesis by linarith
  qed
  then show ?thesis
    unfolding check_sequence_repetition_eq[OF assms] ends_with_repetition_def[symmetric] by auto
qed

theorem repetition_detected_iff_witness:
  "check_sequence_repetition [4, 1, 2, 1, 2] \<lparr>max_pattern_size = 3, min_pattern_size = 2, min_count = 2\<rparr>
    = Inr (\<exists>k. max 1 (min_pattern_size \<lparr>max_pattern_size = 3, min_pattern_size = 2, min_count = 2\<rparr>) \<le> k \<and> k \<le> 3
        \<and> (\<exists>pre w. length w = nat k \<and> [4, 1, 2, 1, 2 :: int] = pre @ concat (replicate (nat 2) w)))"
  using repetition_detected_iff[of "\<lparr>max_pattern_size = 3, min_pattern_size = 2, min_count = 2\<rparr>" "[4, 1, 2, 1, 2]"] by simp



end
