(* ===== verification/Block_Hash.thy ===== *)
theory Block_Hash
  imports Requests
begin

unbundle bit_operations_syntax

section \<open>Block hashes\<close>

text \<open>
  The hashing part of \<open>vllm/v1/core/kv_cache_utils.py\<close>: packing a block hash with its group
  id, the extra keys (LoRA name, multi-modal items, cache salt, prompt embeddings), the
  hash of one block, the request block hasher, and the view of a hash list at a coarser
  block size. The hash function of a block (\<open>caching_hash_fn\<close>), the digest of an embedding
  slice (\<open>hashlib.sha256\<close>) and the value of \<open>NONE_HASH\<close> are parameters.
\<close>

subsection \<open>Packing a hash with its group id\<close>

text \<open>\<open>int.to_bytes(n, "big", signed=False)\<close> and \<open>int.from_bytes(bs, "big")\<close>.\<close>

definition int_to_bytes_be :: "nat \<Rightarrow> int \<Rightarrow> bytes result" where
  "int_to_bytes_be n v =
     (if 0 \<le> v \<and> v < 256 ^ n
      then Inr (map (\<lambda>k. word_of_int (v div 256 ^ (n - 1 - k))) [0..<n])
      else Inl OverflowError)"

definition int_from_bytes_be :: "bytes \<Rightarrow> int" where
  "int_from_bytes_be bs = fold (\<lambda>b acc. acc * 256 + uint b) bs 0"

definition make_block_hash_with_group_id :: "bytes \<Rightarrow> int \<Rightarrow> bytes result" where
  "make_block_hash_with_group_id h g = rbind (int_to_bytes_be 4 g) (\<lambda>b. Inr (h @ b))"

definition get_block_hash :: "bytes \<Rightarrow> bytes" where
  "get_block_hash key = py_upto key (- 4)"

definition get_group_id :: "bytes \<Rightarrow> int" where
  "get_group_id key = int_from_bytes_be (py_from key (- 4))"

datatype external_block_hash = ExtBytes bytes | ExtInt int

definition maybe_convert_block_hash :: "bool \<Rightarrow> bytes \<Rightarrow> external_block_hash" where
  "maybe_convert_block_hash use_int_block_hashes h =
     (if \<not> use_int_block_hashes then ExtBytes h
      else ExtInt (int_from_bytes_be h AND (push_bit 64 1 - 1)))"

subsection \<open>Extra keys\<close>

text \<open>
  The entries of an \<open>extra_keys\<close> tuple as Python compares them: a LoRA name and a cache
  salt are both strings.
\<close>

datatype extra_key = EkMM string int | EkStr string | EkBytes bytes

definition need_extra_keys :: "request \<Rightarrow> bool" where
  "need_extra_keys r \<longleftrightarrow>
     mm_features r \<noteq> [] \<or> req_lora_request r \<noteq> None \<or> cache_salt r \<noteq> None"

abbreviation mm_start :: "mm_feature \<Rightarrow> int" where
  "mm_start f \<equiv> pr_offset (mm_position f)"

abbreviation mm_stop :: "mm_feature \<Rightarrow> int" where
  "mm_stop f \<equiv> pr_offset (mm_position f) + pr_length (mm_position f)"

function mm_keys_loop ::
  "mm_feature list \<Rightarrow> int \<Rightarrow> int \<Rightarrow> int \<Rightarrow> extra_key list \<Rightarrow> extra_key list \<times> int" where
  "mm_keys_loop fs start_idx end_idx cur keys =
     (if cur < int (length fs) \<and> 0 \<le> cur then
        let f = fs ! nat cur in
        if end_idx > mm_start f then
          if start_idx \<ge> mm_stop f then mm_keys_loop fs start_idx end_idx (cur + 1) keys
          else
            let keys' = keys @ [EkMM (mm_identifier f) (mm_start f - start_idx)] in
            if end_idx \<ge> mm_stop f then mm_keys_loop fs start_idx end_idx (cur + 1) keys'
            else (keys', cur)
        else (keys, cur)
      else (keys, cur))"
  by pat_completeness auto
termination
  by (relation "measure (\<lambda>(fs, _, _, cur, _). nat (int (length fs) - cur))") auto

declare mm_keys_loop.simps [simp del]

definition gen_mm_extra_hash_keys ::
  "request \<Rightarrow> int \<Rightarrow> int \<Rightarrow> int \<Rightarrow> (extra_key list \<times> int) result" where
  "gen_mm_extra_hash_keys r start_idx end_idx start_mm =
     (let fs = mm_features r in
      if fs = [] then Inr ([], start_mm)
      else if mm_stop (last fs) \<le> start_idx then Inr ([], start_mm)
      else if start_mm < 0 then
        rbind (rassert (- start_mm \<le> int (length fs))) (\<lambda>_.
          Inr (mm_keys_loop fs start_idx end_idx (int (length fs) + start_mm) []))
      else Inr (mm_keys_loop fs start_idx end_idx start_mm []))"

definition gen_lora_extra_hash_keys :: "request \<Rightarrow> extra_key list" where
  "gen_lora_extra_hash_keys r =
     (case req_lora_request r of None \<Rightarrow> [] | Some l \<Rightarrow> [EkStr (lora_name l)])"

definition gen_prompt_embeds_extra_hash_keys ::
  "(bytes list \<Rightarrow> bytes) \<Rightarrow> request \<Rightarrow> int \<Rightarrow> int \<Rightarrow> extra_key list \<times> request" where
  "gen_prompt_embeds_extra_hash_keys sha r start_idx end_idx =
     (case prompt_embeds r of
        None \<Rightarrow> ([], r)
      | Some e \<Rightarrow>
          (case dict_get (prompt_embeds_per_block_hashes r) (start_idx, end_idx) of
             Some h \<Rightarrow> ([EkBytes h], r)
           | None \<Rightarrow>
               let h = sha (py_slice e start_idx end_idx)
               in ([EkBytes h],
                   r\<lparr>prompt_embeds_per_block_hashes :=
                       dict_set (start_idx, end_idx) h (prompt_embeds_per_block_hashes r)\<rparr>)))"

definition cache_salt_keys :: "request \<Rightarrow> int \<Rightarrow> extra_key list" where
  "cache_salt_keys r start_idx =
     (if start_idx = 0
      then (case cache_salt r of None \<Rightarrow> [] | Some s \<Rightarrow> if s = [] then [] else [EkStr s])
      else [])"

definition generate_block_hash_extra_keys ::
  "(bytes list \<Rightarrow> bytes) \<Rightarrow> request \<Rightarrow> int \<Rightarrow> int \<Rightarrow> int \<Rightarrow>
   (extra_key list option \<times> int \<times> request) result" where
  "generate_block_hash_extra_keys sha r start_idx end_idx start_mm =
     rbind (gen_mm_extra_hash_keys r start_idx end_idx start_mm) (\<lambda>(mm_keys, new_mm).
       let (embed_keys, r') = gen_prompt_embeds_extra_hash_keys sha r start_idx end_idx;
           keys = gen_lora_extra_hash_keys r @ mm_keys @ cache_salt_keys r start_idx @ embed_keys
       in Inr (if keys = [] then None else Some keys, new_mm, r'))"

subsection \<open>The hash of a block and the request block hasher\<close>

type_synonym hash_fn = "bytes \<times> int list \<times> extra_key list option \<Rightarrow> bytes"

definition hash_block_tokens ::
  "hash_fn \<Rightarrow> bytes \<Rightarrow> bytes option \<Rightarrow> int list \<Rightarrow> extra_key list option \<Rightarrow> bytes" where
  "hash_block_tokens hf none_hash parent toks extra =
     hf ((case parent of None \<Rightarrow> none_hash | Some p \<Rightarrow> if p = [] then none_hash else p), toks, extra)"

text \<open>
  The loop of \<open>request_block_hasher\<close>; \<open>nt\<close> is \<open>request.num_tokens\<close>, which the code reads
  once before the loop. With a block size that is not positive the Python loop would not end.
\<close>

function hasher_loop ::
  "hash_fn \<Rightarrow> bytes \<Rightarrow> (bytes list \<Rightarrow> bytes) \<Rightarrow> int \<Rightarrow> int \<Rightarrow> int \<Rightarrow> int \<Rightarrow> bytes option \<Rightarrow>
   bytes list \<Rightarrow> request \<Rightarrow> (bytes list \<times> request) result" where
  "hasher_loop hf none_hash sha block_size nt start_idx cur_mm prev acc r =
     (if start_idx + block_size > nt then Inr (acc, r)
      else if block_size \<le> 0 then Inl Diverge
      else
        rbind (generate_block_hash_extra_keys sha r start_idx (start_idx + block_size) cur_mm)
          (\<lambda>(extra, cur_mm', r').
             let h = hash_block_tokens hf none_hash prev
                       (py_slice (all_token_ids r') start_idx (start_idx + block_size)) extra
             in hasher_loop hf none_hash sha block_size nt (start_idx + block_size) cur_mm'
                  (Some h) (acc @ [h]) r'))"
  by pat_completeness auto
termination
  by (relation "measure (\<lambda>(_, _, _, bs, nt, st, _, _, _, r). nat (nt + 1 - st))") auto

declare hasher_loop.simps [simp del]

definition request_block_hasher ::
  "int \<Rightarrow> hash_fn \<Rightarrow> bytes \<Rightarrow> (bytes list \<Rightarrow> bytes) \<Rightarrow> block_hasher" where
  "request_block_hasher block_size hf none_hash sha r =
     (let start_idx = int (length (block_hashes r)) * block_size; nt = num_tokens r in
      if start_idx + block_size > nt then Inr ([], r)
      else hasher_loop hf none_hash sha block_size nt start_idx
             (if start_idx > 0 then - 1 else 0)
             (if block_hashes r \<noteq> [] then Some (last (block_hashes r)) else None) [] r)"

subsection \<open>Hash lists at another block size\<close>

text \<open>
  \<open>BlockHashList\<close> is either the plain list or \<open>BlockHashListWithBlockSize\<close>, which joins
  \<open>scale_factor\<close> consecutive hashes on access.
\<close>

datatype block_hash_list = PlainHashes "bytes list" | ScaledHashes "bytes list" int

definition block_hash_list_with_block_size :: "bytes list \<Rightarrow> int \<Rightarrow> int \<Rightarrow> block_hash_list result" where
  "block_hash_list_with_block_size hs hash_bs target_bs =
     (if hash_bs = 0 then Inl ZeroDivisionError
      else rbind (rassert (target_bs mod hash_bs = 0)) (\<lambda>_.
             Inr (ScaledHashes hs (target_bs div hash_bs))))"

definition scaled_value_at :: "bytes list \<Rightarrow> int \<Rightarrow> int \<Rightarrow> bytes" where
  "scaled_value_at hs scale idx =
     (let base = idx * scale in concat (py_slice hs base (base + scale)))"

fun bhl_len :: "block_hash_list \<Rightarrow> int" where
  "bhl_len (PlainHashes hs) = int (length hs)"
| "bhl_len (ScaledHashes hs scale) = int (length hs) div scale"

fun bhl_get :: "block_hash_list \<Rightarrow> int \<Rightarrow> bytes result" where
  "bhl_get (PlainHashes hs) i = py_index hs i"
| "bhl_get (ScaledHashes hs scale) i = Inr (scaled_value_at hs scale i)"

fun bhl_list :: "block_hash_list \<Rightarrow> bytes list" where
  "bhl_list (PlainHashes hs) = hs"
| "bhl_list (ScaledHashes hs scale) =
     map (scaled_value_at hs scale) (py_range 0 (bhl_len (ScaledHashes hs scale)))"

fun bhl_from :: "block_hash_list \<Rightarrow> int \<Rightarrow> bytes list" where
  "bhl_from (PlainHashes hs) a = py_from hs a"
| "bhl_from (ScaledHashes hs scale) a =
     (let n = bhl_len (ScaledHashes hs scale)
      in map (scaled_value_at hs scale) (py_range (py_clamp n a) n))"

text \<open>\<open>itertools.islice(block_hashes, n)\<close>.\<close>

definition bhl_islice :: "block_hash_list \<Rightarrow> int \<Rightarrow> bytes list result" where
  "bhl_islice hs n = (if n < 0 then Inl ValueError else Inr (take (nat n) (bhl_list hs)))"

subsection \<open>Packing is injective\<close>

lemma int_from_bytes_be_snoc: "int_from_bytes_be (bs @ [b]) = int_from_bytes_be bs * 256 + uint b"
  by (simp add: int_from_bytes_be_def)

lemma uint_byte_of_int: "uint (word_of_int v :: 8 word) = v mod 256"
  by (simp add: unsigned_of_int take_bit_eq_mod)

lemma int_from_to_bytes_be:
  assumes "0 \<le> v" "v < 256 ^ n"
  shows "int_from_bytes_be (map (\<lambda>k. word_of_int (v div 256 ^ (n - 1 - k))) [0..<n]) = v"
  using assms
proof (induction n arbitrary: v)
  case 0
  then show ?case by (simp add: int_from_bytes_be_def)
next
  case (Suc n)
  have eq: "map (\<lambda>k. word_of_int (v div 256 ^ (Suc n - 1 - k)) :: 8 word) [0..<Suc n]
      = map (\<lambda>k. word_of_int (v div 256 div 256 ^ (n - 1 - k))) [0..<n] @ [word_of_int v]"
  proof -
    have "v div 256 ^ (n - k) = v div 256 div 256 ^ (n - 1 - k)" if "k < n" for k
    proof -
      have "n - k = Suc (n - 1 - k)" using that by simp
      then have "v div 256 ^ (n - k) = v div (256 * 256 ^ (n - 1 - k))" by simp
      then show ?thesis by (simp add: zdiv_zmult2_eq)
    qed
    then show ?thesis by simp
  qed
  have "v div 256 < 256 ^ n" using Suc.prems by simp
  with Suc.IH[of "v div 256"] Suc.prems(1) show ?case
    unfolding eq int_from_bytes_be_snoc uint_byte_of_int by simp
qed

lemma group_key_length: "make_block_hash_with_group_id h g = Inr key \<Longrightarrow> length key = length h + 4"
  by (auto simp: make_block_hash_with_group_id_def int_to_bytes_be_def result_simps split: if_splits)

lemma group_key_parts:
  assumes "make_block_hash_with_group_id h g = Inr key"
  shows "get_block_hash key = h" "get_group_id key = g"
proof -
  obtain b where b: "int_to_bytes_be 4 g = Inr b" "key = h @ b"
    using assms by (auto simp: make_block_hash_with_group_id_def result_simps)
  then have g: "0 \<le> g" "g < 256 ^ 4" and b': "b = map (\<lambda>k. word_of_int (g div 256 ^ (4 - 1 - k))) [0..<4]"
    by (auto simp: int_to_bytes_be_def split: if_splits)
  have l: "length b = 4" unfolding b' by simp
  show "get_block_hash key = h"
    using b(2) l by (simp add: get_block_hash_def py_upto_def py_slice_def py_clamp_def)
  have "py_from key (- 4) = b"
    using b(2) l by (simp add: py_from_def py_slice_def py_clamp_def)
  then show "get_group_id key = g"
    using int_from_to_bytes_be[OF g] by (simp add: get_group_id_def b')
qed

lemma group_key_inj:
  "make_block_hash_with_group_id h g = Inr key \<Longrightarrow> make_block_hash_with_group_id h' g' = Inr key \<Longrightarrow>
   h = h' \<and> g = g'"
  using group_key_parts by metis

lemma group_key_ok: "0 \<le> g \<Longrightarrow> g < 2 ^ 32 \<Longrightarrow> \<exists>key. make_block_hash_with_group_id h g = Inr key"
  by (simp add: make_block_hash_with_group_id_def int_to_bytes_be_def)

subsection \<open>Which multi-modal items enter the key of a block\<close>

text \<open>
  The code assumes that the items are sorted by offset; \<open>mm_sorted\<close> says that they also do
  not overlap. \<open>mm_overlap\<close> is the specification: every item that has a token in
  the block.
\<close>

definition mm_sorted :: "mm_feature list \<Rightarrow> bool" where
  "mm_sorted fs \<longleftrightarrow>
     sorted_wrt (\<lambda>f g. mm_stop f \<le> mm_start g) fs \<and> (\<forall>f \<in> set fs. 0 < pr_length (mm_position f))"

definition mm_overlap :: "mm_feature list \<Rightarrow> int \<Rightarrow> int \<Rightarrow> extra_key list" where
  "mm_overlap fs a b =
     map (\<lambda>f. EkMM (mm_identifier f) (mm_start f - a)) (filter (\<lambda>f. mm_start f < b \<and> a < mm_stop f) fs)"

lemma mm_overlap_append: "mm_overlap (fs @ gs) a b = mm_overlap fs a b @ mm_overlap gs a b"
  by (simp add: mm_overlap_def)

lemma mm_overlap_none: "(\<And>f. f \<in> set fs \<Longrightarrow> \<not> (mm_start f < b \<and> a < mm_stop f)) \<Longrightarrow> mm_overlap fs a b = []"
  by (auto simp: mm_overlap_def filter_empty_conv)

lemma mm_sorted_later:
  assumes "mm_sorted fs" "i < j" "j < length fs"
  shows "mm_stop (fs ! i) \<le> mm_start (fs ! j)"
  using assms by (auto simp: mm_sorted_def sorted_wrt_iff_nth_less)

lemma mm_sorted_drop_tail:
  assumes "mm_sorted fs" "c < length fs" "b \<le> mm_stop (fs ! c)" "f \<in> set (drop (Suc c) fs)"
  shows "b \<le> mm_start f"
proof -
  obtain k where "k < length (drop (Suc c) fs)" "f = drop (Suc c) fs ! k"
    using assms(4) by (metis in_set_conv_nth)
  then have "f = fs ! (Suc c + k)" "Suc c + k < length fs" by simp_all
  with mm_sorted_later[OF assms(1), of c "Suc c + k"] assms(3) show ?thesis by simp
qed

lemma mm_overlap_drop_head:
  assumes "c < length fs"
  shows "mm_overlap (drop c fs) a b
    = (if mm_start (fs ! c) < b \<and> a < mm_stop (fs ! c)
       then [EkMM (mm_identifier (fs ! c)) (mm_start (fs ! c) - a)] else [])
      @ mm_overlap (drop (Suc c) fs) a b"
  using assms by (simp add: mm_overlap_def Cons_nth_drop_Suc[symmetric])

lemma all_from_Suc:
  "P c \<Longrightarrow> \<forall>i. Suc c \<le> i \<longrightarrow> i < c' \<longrightarrow> i < n \<longrightarrow> P i \<Longrightarrow> \<forall>i. c \<le> i \<longrightarrow> i < c' \<longrightarrow> i < n \<longrightarrow> P i"
  by (metis Suc_leI le_neq_implies_less)

lemma mm_keys_loop_overlap:
  assumes "mm_sorted fs" "a < b"
  shows "\<exists>c'. mm_keys_loop fs a b (int c) ks = (ks @ mm_overlap (drop c fs) a b, int c')
       \<and> c \<le> c' \<and> (\<forall>i. c \<le> i \<longrightarrow> i < c' \<longrightarrow> i < length fs \<longrightarrow> mm_stop (fs ! i) \<le> b)"
proof (induction "length fs - c" arbitrary: c ks)
  case 0
  then show ?case
    by (subst mm_keys_loop.simps) (auto simp: mm_overlap_def intro!: exI[of _ c])
next
  case (Suc n)
  then have c: "c < length fs" and n: "n = length fs - Suc c" by auto
  let ?f = "fs ! c"
  have tail: "b \<le> mm_stop ?f \<Longrightarrow> mm_overlap (drop (Suc c) fs) a b = []"
    using mm_sorted_drop_tail[OF assms(1) c] by (intro mm_overlap_none) force
  have pos: "mm_start ?f < mm_stop ?f" using assms(1) c by (simp add: mm_sorted_def)
  note step = mm_keys_loop.simps[of fs a b "int c" ks] and split = mm_overlap_drop_head[OF c, of a b]
  have next_eq: "int c + 1 = int (Suc c)" by simp
  consider (past) "mm_start ?f < b" "mm_stop ?f \<le> a"
    | (inside) "mm_start ?f < b" "a < mm_stop ?f" "mm_stop ?f \<le> b"
    | (across) "mm_start ?f < b" "a < mm_stop ?f" "b < mm_stop ?f"
    | (before) "b \<le> mm_start ?f" by linarith
  then show ?case
  proof cases
    case past
    obtain c' where c': "mm_keys_loop fs a b (int (Suc c)) ks = (ks @ mm_overlap (drop (Suc c) fs) a b, int c')"
      "Suc c \<le> c'" "\<forall>i. Suc c \<le> i \<longrightarrow> i < c' \<longrightarrow> i < length fs \<longrightarrow> mm_stop (fs ! i) \<le> b"
      using Suc(1)[OF n, of ks] by blast
    have "mm_stop ?f \<le> b" using past assms(2) by linarith
    note bound = all_from_Suc[of "\<lambda>i. mm_stop (fs ! i) \<le> b", OF this c'(3)]
    from c' bound past c show ?thesis unfolding step split by (auto simp: Let_def next_eq)
  next
    case inside
    obtain c' where c': "mm_keys_loop fs a b (int (Suc c)) (ks @ [EkMM (mm_identifier ?f) (mm_start ?f - a)])
        = ((ks @ [EkMM (mm_identifier ?f) (mm_start ?f - a)]) @ mm_overlap (drop (Suc c) fs) a b, int c')"
      "Suc c \<le> c'" "\<forall>i. Suc c \<le> i \<longrightarrow> i < c' \<longrightarrow> i < length fs \<longrightarrow> mm_stop (fs ! i) \<le> b"
      using Suc(1)[OF n] by blast
    note bound = all_from_Suc[of "\<lambda>i. mm_stop (fs ! i) \<le> b", OF inside(3) c'(3)]
    from c' bound inside c show ?thesis unfolding step split by (auto simp: Let_def next_eq)
  next
    case across
    with c tail show ?thesis unfolding step split by (auto simp: Let_def intro!: exI[of _ c])
  next
    case before
    with c tail pos show ?thesis unfolding step split by (auto simp: Let_def intro!: exI[of _ c])
  qed
qed

subsection \<open>The hashes of a request form a chain\<close>

text \<open>
  The specification of prefix hashing: block \<open>i\<close> is hashed with the hash of block \<open>i - 1\<close>,
  its tokens and the keys of everything that influences its content.
\<close>

definition embeds_keys :: "(bytes list \<Rightarrow> bytes) \<Rightarrow> request \<Rightarrow> int \<Rightarrow> int \<Rightarrow> extra_key list" where
  "embeds_keys sha r a b = (case prompt_embeds r of None \<Rightarrow> [] | Some e \<Rightarrow> [EkBytes (sha (py_slice e a b))])"

definition block_extra :: "(bytes list \<Rightarrow> bytes) \<Rightarrow> int \<Rightarrow> request \<Rightarrow> nat \<Rightarrow> extra_key list option" where
  "block_extra sha bs r i =
     (let a = int i * bs; b = a + bs;
          keys = gen_lora_extra_hash_keys r @ mm_overlap (mm_features r) a b @ cache_salt_keys r a
                 @ embeds_keys sha r a b
      in if keys = [] then None else Some keys)"

lemma block_extra_cong:
  assumes "req_lora_request r' = req_lora_request r" "mm_features r' = mm_features r"
    "cache_salt r' = cache_salt r" "prompt_embeds r' = prompt_embeds r"
  shows "block_extra sha bs r' = block_extra sha bs r"
  unfolding block_extra_def gen_lora_extra_hash_keys_def cache_salt_keys_def embeds_keys_def assms ..

definition block_tokens :: "int \<Rightarrow> int list \<Rightarrow> nat \<Rightarrow> int list" where
  "block_tokens bs toks i = py_slice toks (int i * bs) (int i * bs + bs)"

primrec hash_chain ::
  "hash_fn \<Rightarrow> bytes \<Rightarrow> (nat \<Rightarrow> int list) \<Rightarrow> (nat \<Rightarrow> extra_key list option) \<Rightarrow> nat \<Rightarrow> bytes list" where
  "hash_chain hf nh toks ex 0 = []"
| "hash_chain hf nh toks ex (Suc n) =
     (let hs = hash_chain hf nh toks ex n
      in hs @ [hash_block_tokens hf nh (if hs = [] then None else Some (last hs)) (toks n) (ex n)])"

definition request_chain ::
  "hash_fn \<Rightarrow> bytes \<Rightarrow> (bytes list \<Rightarrow> bytes) \<Rightarrow> int \<Rightarrow> request \<Rightarrow> nat \<Rightarrow> bytes list" where
  "request_chain hf nh sha bs r n =
     hash_chain hf nh (block_tokens bs (all_token_ids r)) (block_extra sha bs r) n"

text \<open>The cache of embedding digests only holds digests of the slices it is keyed by.\<close>

definition embeds_cache_ok :: "(bytes list \<Rightarrow> bytes) \<Rightarrow> request \<Rightarrow> bool" where
  "embeds_cache_ok sha r \<longleftrightarrow>
     (\<forall>e a b h. prompt_embeds r = Some e \<longrightarrow> dict_get (prompt_embeds_per_block_hashes r) (a, b) = Some h
        \<longrightarrow> h = sha (py_slice e a b))"

text \<open>Two requests that agree on everything but the cache of embedding digests.\<close>

definition same_but_cache :: "request \<Rightarrow> request \<Rightarrow> bool" where
  "same_but_cache r r' \<longleftrightarrow> (\<exists>c. r' = r\<lparr>prompt_embeds_per_block_hashes := c\<rparr>)"

lemma same_but_cache_refl [simp]: "same_but_cache r r"
  by (auto simp: same_but_cache_def intro!: exI[of _ "prompt_embeds_per_block_hashes r"])

lemma same_but_cache_trans: "same_but_cache r s \<Longrightarrow> same_but_cache s t \<Longrightarrow> same_but_cache r t"
  by (auto simp: same_but_cache_def)

lemma same_but_cache_fields:
  assumes "same_but_cache r r'"
  shows "all_token_ids r' = all_token_ids r" "mm_features r' = mm_features r"
    "block_hashes r' = block_hashes r" "prompt_embeds r' = prompt_embeds r"
    "num_tokens r' = num_tokens r" "block_extra sha bs r' = block_extra sha bs r"
    "request_chain hf nh sha bs r' = request_chain hf nh sha bs r"
proof -
  obtain c where r': "r' = r\<lparr>prompt_embeds_per_block_hashes := c\<rparr>" using assms by (auto simp: same_but_cache_def)
  then show "all_token_ids r' = all_token_ids r" "mm_features r' = mm_features r"
    "block_hashes r' = block_hashes r" "prompt_embeds r' = prompt_embeds r" "num_tokens r' = num_tokens r"
    by (simp_all add: num_tokens_def)
  show ex: "block_extra sha bs r' = block_extra sha bs r"
    by (rule block_extra_cong) (simp_all add: r')
  show "request_chain hf nh sha bs r' = request_chain hf nh sha bs r"
    by (rule ext) (simp add: request_chain_def ex, simp add: r')
qed

lemma gen_prompt_embeds_spec:
  assumes "embeds_cache_ok sha r"
  shows "\<exists>r'. gen_prompt_embeds_extra_hash_keys sha r a b = (embeds_keys sha r a b, r')
      \<and> same_but_cache r r' \<and> embeds_cache_ok sha r'"
proof (cases "prompt_embeds r")
  case None
  then show ?thesis
    using assms by (auto simp: gen_prompt_embeds_extra_hash_keys_def embeds_keys_def)
next
  case (Some e)
  show ?thesis
  proof (cases "dict_get (prompt_embeds_per_block_hashes r) (a, b)")
    case None
    let ?r = "r\<lparr>prompt_embeds_per_block_hashes :=
                 dict_set (a, b) (sha (py_slice e a b)) (prompt_embeds_per_block_hashes r)\<rparr>"
    have "same_but_cache r ?r" unfolding same_but_cache_def by blast
    moreover have "embeds_cache_ok sha ?r" using assms Some by (auto simp: embeds_cache_ok_def)
    ultimately show ?thesis
      using Some None by (auto simp: gen_prompt_embeds_extra_hash_keys_def embeds_keys_def Let_def)
  next
    case (Some h)
    with \<open>prompt_embeds r = Some e\<close> assms show ?thesis
      by (auto simp: gen_prompt_embeds_extra_hash_keys_def embeds_keys_def embeds_cache_ok_def)
  qed
qed

text \<open>Where the item index may stand when the block that starts at \<open>a\<close> is hashed.\<close>

definition mm_cursor_ok :: "mm_feature list \<Rightarrow> int \<Rightarrow> int \<Rightarrow> bool" where
  "mm_cursor_ok fs a c \<longleftrightarrow>
     (0 \<le> c \<and> (\<forall>i < length fs. int i < c \<longrightarrow> mm_stop (fs ! i) \<le> a))
     \<or> (c = - 1 \<and> (\<forall>f \<in> set (butlast fs). mm_stop f \<le> a))"

lemma mm_overlap_from_cursor:
  assumes "\<forall>i < length fs. i < c \<longrightarrow> mm_stop (fs ! i) \<le> a"
  shows "mm_overlap fs a b = mm_overlap (drop c fs) a b"
proof -
  have "mm_overlap (take c fs) a b = []"
  proof (rule mm_overlap_none)
    fix f assume "f \<in> set (take c fs)"
    then obtain i where "i < length (take c fs)" "f = take c fs ! i" by (metis in_set_conv_nth)
    then have "i < c" "i < length fs" "f = fs ! i" by simp_all
    with assms show "\<not> (mm_start f < b \<and> a < mm_stop f)" by auto
  qed
  then show ?thesis using mm_overlap_append[of "take c fs" "drop c fs" a b] by simp
qed

lemma gen_mm_from_cursor:
  assumes "mm_sorted fs" "a < b" "\<forall>i < length fs. i < c \<longrightarrow> mm_stop (fs ! i) \<le> a"
  shows "\<exists>c'. mm_keys_loop fs a b (int c) [] = (mm_overlap fs a b, int c')
      \<and> (\<forall>i < length fs. i < c' \<longrightarrow> mm_stop (fs ! i) \<le> b)"
proof -
  obtain c' where c': "mm_keys_loop fs a b (int c) [] = (mm_overlap (drop c fs) a b, int c')" "c \<le> c'"
    "\<forall>i. c \<le> i \<longrightarrow> i < c' \<longrightarrow> i < length fs \<longrightarrow> mm_stop (fs ! i) \<le> b"
    using mm_keys_loop_overlap[OF assms(1,2), of c "[]"] by auto
  have "mm_stop (fs ! i) \<le> b" if "i < length fs" "i < c'" for i
    using that c'(3) assms(2,3) by (cases "c \<le> i") fastforce+
  with c'(1) mm_overlap_from_cursor[OF assms(3), of b] show ?thesis by auto
qed

lemma gen_mm_spec:
  assumes "mm_sorted (mm_features r)" "a < b" "mm_cursor_ok (mm_features r) a c"
  shows "\<exists>c'. gen_mm_extra_hash_keys r a b c = Inr (mm_overlap (mm_features r) a b, c')
      \<and> mm_cursor_ok (mm_features r) b c'"
proof -
  let ?fs = "mm_features r"
  consider (none) "?fs = []" | (past) "?fs \<noteq> []" "mm_stop (last ?fs) \<le> a"
    | (scan) "?fs \<noteq> []" "a < mm_stop (last ?fs)" by linarith
  then show ?thesis
  proof cases
    case none
    then have "gen_mm_extra_hash_keys r a b c = Inr (mm_overlap ?fs a b, c)"
      by (simp add: gen_mm_extra_hash_keys_def mm_overlap_def)
    moreover have "mm_cursor_ok ?fs b c" using assms(3) none by (auto simp: mm_cursor_ok_def)
    ultimately show ?thesis by blast
  next
    case past
    have all: "mm_stop f \<le> a" if mem: "f \<in> set ?fs" for f
    proof -
      obtain i where i: "i < length ?fs" "f = ?fs ! i" using mem by (auto simp: in_set_conv_nth)
      show ?thesis
      proof (cases "i = length ?fs - 1")
        case True
        then show ?thesis using past i by (simp add: last_conv_nth)
      next
        case False
        then have "mm_stop f \<le> mm_start (last ?fs)"
          using mm_sorted_later[OF assms(1), of i "length ?fs - 1"] past(1) i by (simp add: last_conv_nth)
        also have "\<dots> \<le> mm_stop (last ?fs)" using assms(1) past(1) by (auto simp: mm_sorted_def order_le_less)
        finally show ?thesis using past(2) by linarith
      qed
    qed
    have "mm_overlap ?fs a b = []" using all by (intro mm_overlap_none) force
    moreover have "mm_cursor_ok ?fs b c"
      using assms(2,3) all by (fastforce simp: mm_cursor_ok_def)
    ultimately show ?thesis using past by (auto simp: gen_mm_extra_hash_keys_def)
  next
    case scan
    show ?thesis
    proof (cases "c < 0")
      case True
      then have c: "c = - 1" "\<forall>f \<in> set (butlast ?fs). mm_stop f \<le> a"
        using assms(3) by (auto simp: mm_cursor_ok_def)
      have n: "int (length ?fs) + c = int (length ?fs - 1)" "- c \<le> int (length ?fs)"
        using scan(1) c(1) by (cases ?fs; simp)+
      have "\<forall>i < length ?fs. i < length ?fs - 1 \<longrightarrow> mm_stop (?fs ! i) \<le> a"
        using c(2) by (metis length_butlast nth_butlast nth_mem)
      from gen_mm_from_cursor[OF assms(1,2) this] obtain c' where
        "mm_keys_loop ?fs a b (int (length ?fs - 1)) [] = (mm_overlap ?fs a b, int c')"
        "\<forall>i < length ?fs. i < c' \<longrightarrow> mm_stop (?fs ! i) \<le> b" by blast
      with scan n True show ?thesis
        by (auto simp: gen_mm_extra_hash_keys_def mm_cursor_ok_def intro!: exI[of _ "int c'"])
    next
      case False
      then have "\<forall>i < length ?fs. i < nat c \<longrightarrow> mm_stop (?fs ! i) \<le> a"
        using assms(3) by (auto simp: mm_cursor_ok_def)
      from gen_mm_from_cursor[OF assms(1,2) this] obtain c' where
        "mm_keys_loop ?fs a b c [] = (mm_overlap ?fs a b, int c')"
        "\<forall>i < length ?fs. i < c' \<longrightarrow> mm_stop (?fs ! i) \<le> b" using False by auto
      with scan False show ?thesis
        by (auto simp: gen_mm_extra_hash_keys_def mm_cursor_ok_def intro!: exI[of _ "int c'"])
    qed
  qed
qed

lemma generate_extra_spec:
  assumes "mm_sorted (mm_features r)" "0 < bs" "embeds_cache_ok sha r" "mm_cursor_ok (mm_features r) (int i * bs) c"
  shows "\<exists>c' r'. generate_block_hash_extra_keys sha r (int i * bs) (int i * bs + bs) c
        = Inr (block_extra sha bs r i, c', r')
      \<and> same_but_cache r r' \<and> embeds_cache_ok sha r' \<and> mm_cursor_ok (mm_features r') (int (Suc i) * bs) c'"
proof -
  let ?a = "int i * bs"
  have b: "?a + bs = int (Suc i) * bs" by (simp add: algebra_simps)
  obtain c' where c': "gen_mm_extra_hash_keys r ?a (?a + bs) c = Inr (mm_overlap (mm_features r) ?a (?a + bs), c')"
    "mm_cursor_ok (mm_features r) (?a + bs) c'"
    using gen_mm_spec[OF assms(1) _ assms(4), of "?a + bs"] assms(2) by auto
  obtain r' where r': "gen_prompt_embeds_extra_hash_keys sha r ?a (?a + bs) = (embeds_keys sha r ?a (?a + bs), r')"
    "same_but_cache r r'" "embeds_cache_ok sha r'"
    using gen_prompt_embeds_spec[OF assms(3)] by blast
  have "generate_block_hash_extra_keys sha r ?a (?a + bs) c = Inr (block_extra sha bs r i, c', r')"
    by (simp add: generate_block_hash_extra_keys_def c'(1) r'(1) block_extra_def Let_def)
  with r' c'(2) same_but_cache_fields(2)[OF r'(2)] b show ?thesis by auto
qed

lemma hash_chain_length [simp]: "length (hash_chain hf nh toks ex n) = n"
  by (induction n) (auto simp: Let_def)

lemma hash_chain_prefix: "m \<le> n \<Longrightarrow> take m (hash_chain hf nh toks ex n) = hash_chain hf nh toks ex m"
  by (induction n) (auto simp: Let_def le_Suc_eq)

lemma hash_chain_cong:
  "(\<And>i. i < n \<Longrightarrow> toks i = toks' i \<and> ex i = ex' i) \<Longrightarrow> hash_chain hf nh toks ex n = hash_chain hf nh toks' ex' n"
  by (induction n) (auto simp: Let_def)

lemma request_chain_Suc:
  "request_chain hf nh sha bs r (Suc n) = request_chain hf nh sha bs r n
     @ [hash_block_tokens hf nh (if n = 0 then None else Some (last (request_chain hf nh sha bs r n)))
          (block_tokens bs (all_token_ids r) n) (block_extra sha bs r n)]"
proof -
  have "hash_chain hf nh t e n = [] \<longleftrightarrow> n = 0" for t e
    using hash_chain_length[of hf nh t e n] by (metis length_0_conv)
  then show ?thesis unfolding request_chain_def hash_chain.simps(2) Let_def by simp
qed

lemma hasher_loop_chain:
  assumes "0 < bs" "mm_sorted (mm_features r)" "embeds_cache_ok sha r"
    "mm_cursor_ok (mm_features r) (int k * bs) c" "k \<le> n" "int n * bs \<le> nt" "nt < int (Suc n) * bs"
    "prev = (if k = 0 then None else Some (last (request_chain hf nh sha bs r k)))"
  shows "\<exists>r'. hasher_loop hf nh sha bs nt (int k * bs) c prev acc r
        = Inr (acc @ drop k (request_chain hf nh sha bs r n), r') \<and> same_but_cache r r' \<and> embeds_cache_ok sha r'"
  using assms(2-5,8)
proof (induction "n - k" arbitrary: k c prev acc r)
  case 0
  then have "k = n" by simp
  moreover have "nt < int n * bs + bs" using assms(7) by (simp add: algebra_simps)
  ultimately show ?case using 0
    by (subst hasher_loop.simps) (auto simp: request_chain_def)
next
  case (Suc d)
  then have kn: "k < n" and d: "d = n - Suc k" by auto
  let ?a = "int k * bs"
  have e: "?a + bs = int (Suc k) * bs" by (simp add: algebra_simps)
  have "int (Suc k) * bs \<le> int n * bs" using kn assms(1) by (intro mult_right_mono) auto
  then have fit: "\<not> ?a + bs > nt" "\<not> bs \<le> 0" using assms(1,6) e by linarith+
  obtain c' r1 where g: "generate_block_hash_extra_keys sha r ?a (?a + bs) c = Inr (block_extra sha bs r k, c', r1)"
    "same_but_cache r r1" "embeds_cache_ok sha r1" "mm_cursor_ok (mm_features r1) (int (Suc k) * bs) c'"
    using generate_extra_spec[OF Suc.prems(1) assms(1) Suc.prems(2,3)] by blast
  note same = same_but_cache_fields[OF g(2)]
  let ?h = "hash_block_tokens hf nh prev (block_tokens bs (all_token_ids r) k) (block_extra sha bs r k)"
  have chain: "request_chain hf nh sha bs r (Suc k) = request_chain hf nh sha bs r k @ [?h]"
    unfolding request_chain_Suc Suc.prems(5) by simp
  have "hasher_loop hf nh sha bs nt ?a c prev acc r
      = hasher_loop hf nh sha bs nt (int (Suc k) * bs) c' (Some ?h) (acc @ [?h]) r1"
    using fit same(1) g(1) by (subst hasher_loop.simps) (simp add: block_tokens_def Let_def algebra_simps)
  moreover obtain r' where "hasher_loop hf nh sha bs nt (int (Suc k) * bs) c' (Some ?h) (acc @ [?h]) r1
      = Inr ((acc @ [?h]) @ drop (Suc k) (request_chain hf nh sha bs r1 n), r')"
    "same_but_cache r1 r'" "embeds_cache_ok sha r'"
    using Suc.hyps(1)[OF d, of r1 c' "Some ?h" "acc @ [?h]"] Suc.prems(1) g kn same chain by auto
  moreover have "drop k (request_chain hf nh sha bs r n) = ?h # drop (Suc k) (request_chain hf nh sha bs r n)"
  proof -
    have "take (Suc k) (request_chain hf nh sha bs r n) = request_chain hf nh sha bs r k @ [?h]"
      using chain hash_chain_prefix[of "Suc k" n] kn by (simp add: request_chain_def)
    then have "request_chain hf nh sha bs r n ! k = ?h"
      by (metis hash_chain_length lessI nth_append_length nth_take request_chain_def)
    then show ?thesis using kn
      by (metis Cons_nth_drop_Suc hash_chain_length request_chain_def)
  qed
  ultimately show ?case using same_but_cache_trans[OF g(2)] same by auto
qed

text \<open>
  The hasher extends a correct chain to the chain of all full blocks. When it resumes
  behind earlier blocks it looks at the last multi-modal item only, so all other items
  have to end before the first block it hashes.
\<close>

lemma request_block_hasher_chain:
  assumes bs: "0 < bs" and mm: "mm_sorted (mm_features r)" and ec: "embeds_cache_ok sha r"
    and k: "block_hashes r = request_chain hf nh sha bs r k" "int k * bs \<le> num_tokens r"
    and items: "k \<noteq> 0 \<Longrightarrow> \<forall>f \<in> set (butlast (mm_features r)). mm_stop f \<le> int k * bs"
  shows "\<exists>new r'. request_block_hasher bs hf nh sha r = Inr (new, r') \<and> same_but_cache r r'
      \<and> embeds_cache_ok sha r'
      \<and> block_hashes r @ new = request_chain hf nh sha bs r (nat (num_tokens r div bs))"
proof -
  let ?n = "nat (num_tokens r div bs)"
  have len: "length (block_hashes r) = k" by (simp add: k(1) request_chain_def)
  have nt: "0 \<le> num_tokens r" by (simp add: num_tokens_def)
  then have n: "int ?n = num_tokens r div bs" using bs by (simp add: pos_imp_zdiv_nonneg_iff)
  have lo: "int ?n * bs \<le> num_tokens r" 
    unfolding n using bs div_mult_mod_eq[of "num_tokens r" bs] pos_mod_sign[OF bs, of "num_tokens r"] by linarith
  have hi: "num_tokens r < int (Suc ?n) * bs"
  proof -
    have "int (Suc ?n) * bs = num_tokens r div bs * bs + bs" using n by (simp add: algebra_simps)
    then show ?thesis
      using div_mult_mod_eq[of "num_tokens r" bs] pos_mod_bound[OF bs, of "num_tokens r"] by linarith
  qed
  have "k \<le> ?n" using k(2) bs n zdiv_mono1[OF k(2) bs] by simp
  have pre: "drop k (request_chain hf nh sha bs r ?n) = drop (length (block_hashes r)) (request_chain hf nh sha bs r ?n)"
    "take k (request_chain hf nh sha bs r ?n) = block_hashes r"
    using len hash_chain_prefix[OF \<open>k \<le> ?n\<close>] k(1) by (simp_all add: request_chain_def)
  show ?thesis
  proof (cases "int k * bs + bs > num_tokens r")
    case True
    then have "num_tokens r < int (Suc k) * bs" by (simp add: algebra_simps)
    then have "int ?n * bs < int (Suc k) * bs" using lo by linarith
    then have "int ?n < int (Suc k)" using bs mult_less_cancel_right_pos by blast
    then have "?n < Suc k" by (simp only: of_nat_less_iff)
    then have "?n = k" using \<open>k \<le> ?n\<close> by simp
    then show ?thesis using True ec k(1) len by (auto simp: request_block_hasher_def Let_def)
  next
    case False
    let ?c = "if int k * bs > 0 then - 1 else 0 :: int"
    have cur: "mm_cursor_ok (mm_features r) (int k * bs) ?c"
      using items bs by (auto simp: mm_cursor_ok_def zero_less_mult_iff)
    have prev: "(if block_hashes r \<noteq> [] then Some (last (block_hashes r)) else None)
        = (if k = 0 then None else Some (last (request_chain hf nh sha bs r k)))"
      using len k(1) by (metis length_0_conv)
    from hasher_loop_chain[OF bs mm ec cur \<open>k \<le> ?n\<close> lo hi prev, of "[]"] obtain r' where
      "hasher_loop hf nh sha bs (num_tokens r) (int k * bs) ?c
         (if block_hashes r \<noteq> [] then Some (last (block_hashes r)) else None) [] r
       = Inr (drop k (request_chain hf nh sha bs r ?n), r')" "same_but_cache r r'" "embeds_cache_ok sha r'"
      by auto
    moreover have "block_hashes r @ drop k (request_chain hf nh sha bs r ?n) = request_chain hf nh sha bs r ?n"
      using pre(2) append_take_drop_id[of k] by metis
    ultimately show ?thesis using False len by (auto simp: request_block_hasher_def Let_def)
  qed
qed

lemma block_tokens_prefix:
  assumes "0 < bs" "int (Suc i) * bs \<le> int (length toks)"
  shows "block_tokens bs (toks @ rest) i = block_tokens bs toks i"
proof -
  have "0 \<le> int i * bs" "int i * bs + bs \<le> int (length toks)" using assms by (simp_all add: algebra_simps)
  then show ?thesis using assms(1)
    by (auto simp: block_tokens_def py_slice_nonneg take_append nat_le_iff)
qed

lemma block_extra_append_tokens:
  "block_extra sha bs (r\<lparr>output_token_ids := o', all_token_ids := t'\<rparr>) = block_extra sha bs r"
  by (rule block_extra_cong) simp_all

lemma request_chain_append_tokens:
  assumes "0 < bs" "int n * bs \<le> num_tokens r"
  shows "request_chain hf nh sha bs (r\<lparr>output_token_ids := o', all_token_ids := all_token_ids r @ toks\<rparr>) n
    = request_chain hf nh sha bs r n"
  unfolding request_chain_def block_extra_append_tokens
proof (rule hash_chain_cong)
  fix i assume "i < n"
  then have "int (Suc i) * bs \<le> int n * bs" using assms(1) by (intro mult_right_mono) auto
  with assms(2) have "int (Suc i) * bs \<le> int (length (all_token_ids r))" by (simp add: num_tokens_def)
  from block_tokens_prefix[OF assms(1) this]
  show "block_tokens bs (all_token_ids (r\<lparr>output_token_ids := o', all_token_ids := all_token_ids r @ toks\<rparr>)) i
      = block_tokens bs (all_token_ids r) i \<and> block_extra sha bs r i = block_extra sha bs r i" by simp
qed

text \<open>
  \<open>hashed_ok\<close>: the request carries exactly the chain of its full blocks. The constructor
  establishes it, every appended token keeps it.
\<close>

definition hashed_ok :: "hash_fn \<Rightarrow> bytes \<Rightarrow> (bytes list \<Rightarrow> bytes) \<Rightarrow> int \<Rightarrow> request \<Rightarrow> bool" where
  "hashed_ok hf nh sha bs r \<longleftrightarrow>
     embeds_cache_ok sha r \<and> block_hashes r = request_chain hf nh sha bs r (nat (num_tokens r div bs))"

lemma request_chain_block_hashes_upd:
  "request_chain hf nh sha bs (r\<lparr>block_hashes := h\<rparr>) = request_chain hf nh sha bs r"
proof -
  have "block_extra sha bs (r\<lparr>block_hashes := h\<rparr>) = block_extra sha bs r"
    by (rule block_extra_cong) simp_all
  then show ?thesis unfolding request_chain_def by (intro ext) simp
qed

lemma update_block_hashes_chain:
  assumes "0 < bs" "mm_sorted (mm_features r)" "embeds_cache_ok sha r"
    "block_hashes r = request_chain hf nh sha bs r k" "int k * bs \<le> num_tokens r"
    "k \<noteq> 0 \<Longrightarrow> \<forall>f \<in> set (butlast (mm_features r)). mm_stop f \<le> int k * bs"
  shows "\<exists>r'. update_block_hashes (Some (request_block_hasher bs hf nh sha)) r = Inr r'
      \<and> hashed_ok hf nh sha bs r' \<and> all_token_ids r' = all_token_ids r \<and> mm_features r' = mm_features r"
proof -
  obtain new r1 where h: "request_block_hasher bs hf nh sha r = Inr (new, r1)" "same_but_cache r r1"
    "embeds_cache_ok sha r1" "block_hashes r @ new = request_chain hf nh sha bs r (nat (num_tokens r div bs))"
    using request_block_hasher_chain[OF assms] by blast
  note same = same_but_cache_fields[OF h(2)]
  let ?r = "r1\<lparr>block_hashes := block_hashes r1 @ new\<rparr>"
  have "hashed_ok hf nh sha bs ?r"
    using h(3,4) same unfolding hashed_ok_def request_chain_block_hashes_upd
    by (simp add: embeds_cache_ok_def num_tokens_def)
  with h(1) same show ?thesis by (auto simp: update_block_hashes_def)
qed

lemma append_output_hashed_ok:
  assumes bs: "0 < bs" and mm: "mm_sorted (mm_features r)" and ok: "hashed_ok hf nh sha bs r"
    and items: "num_tokens r \<ge> bs \<Longrightarrow>
      \<forall>f \<in> set (butlast (mm_features r)). mm_stop f \<le> num_tokens r div bs * bs"
  shows "\<exists>r'. append_output_token_ids (Some (request_block_hasher bs hf nh sha)) r toks = Inr r'
      \<and> hashed_ok hf nh sha bs r' \<and> all_token_ids r' = all_token_ids r @ toks"
proof -
  let ?n = "nat (num_tokens r div bs)"
  let ?r = "r\<lparr>output_token_ids := output_token_ids r @ toks, all_token_ids := all_token_ids r @ toks\<rparr>"
  have nt: "0 \<le> num_tokens r" by (simp add: num_tokens_def)
  have n: "int ?n = num_tokens r div bs" using bs nt by (simp add: pos_imp_zdiv_nonneg_iff)
  have lo: "int ?n * bs \<le> num_tokens r"
    unfolding n using bs div_mult_mod_eq[of "num_tokens r" bs] pos_mod_sign[OF bs, of "num_tokens r"] by linarith
  have "?n \<noteq> 0 \<Longrightarrow> num_tokens r \<ge> bs"
    using nt bs by (metis div_pos_pos_trivial linorder_not_le nat_0 zle_int n int_nat_eq less_le)
  then have it: "?n \<noteq> 0 \<Longrightarrow> \<forall>f \<in> set (butlast (mm_features ?r)). mm_stop f \<le> int ?n * bs"
    using items n by simp
  have "num_tokens r \<le> num_tokens ?r" by (simp add: num_tokens_def)
  then have lo': "int ?n * bs \<le> num_tokens ?r" using lo by linarith
  have bh: "block_hashes ?r = request_chain hf nh sha bs ?r ?n"
    using ok unfolding request_chain_append_tokens[OF bs lo] by (simp add: hashed_ok_def)
  have ec: "embeds_cache_ok sha ?r" and mm': "mm_sorted (mm_features ?r)"
    using ok mm by (simp_all add: hashed_ok_def embeds_cache_ok_def)
  from update_block_hashes_chain[OF bs mm' ec bh lo' it]
  show ?thesis unfolding append_output_token_ids_def by auto
qed

lemma request_init_hashed_ok:
  assumes bs: "0 < bs" and mm: "mm_sorted (case ec_mm_features e of None \<Rightarrow> [] | Some m \<Rightarrow> m)"
    and init: "request_init (Some (request_block_hasher bs hf nh sha)) now oid e = Inr r"
  shows "hashed_ok hf nh sha bs r"
proof -
  obtain mt st npt r1 where
    upd: "update_block_hashes (Some (request_block_hasher bs hf nh sha)) (request_fields now oid e mt st npt) = Inr r1"
    and r: "r = r1\<lparr>skip_reading_prefix_cache := get_skip_reading_prefix_cache r1\<rparr>"
    using init by (auto simp: request_init_def result_simps)
  let ?q = "request_fields now oid e mt st npt"
  have q: "mm_features ?q = (case ec_mm_features e of None \<Rightarrow> [] | Some m \<Rightarrow> m)" "block_hashes ?q = []"
    "prompt_embeds_per_block_hashes ?q = []" by (simp_all add: request_fields_def)
  have "hashed_ok hf nh sha bs r1"
    using update_block_hashes_chain[OF bs, of ?q sha hf nh 0] mm q upd
    by (auto simp: embeds_cache_ok_def request_chain_def num_tokens_def)
  moreover have "block_extra sha bs r = block_extra sha bs r1"
    by (rule block_extra_cong) (simp_all add: r)
  moreover have "all_token_ids r = all_token_ids r1" "block_hashes r = block_hashes r1"
    "prompt_embeds r = prompt_embeds r1" "prompt_embeds_per_block_hashes r = prompt_embeds_per_block_hashes r1"
    by (simp_all add: r)
  ultimately show ?thesis
    unfolding hashed_ok_def embeds_cache_ok_def request_chain_def num_tokens_def by simp
qed

subsection \<open>Equal hashes mean equal prefixes\<close>

text \<open>The arguments the hash function gets while the first \<open>n\<close> hashes of a request are computed.\<close>

definition chain_input ::
  "hash_fn \<Rightarrow> bytes \<Rightarrow> (bytes list \<Rightarrow> bytes) \<Rightarrow> int \<Rightarrow> request \<Rightarrow> nat \<Rightarrow> bytes \<times> int list \<times> extra_key list option" where
  "chain_input hf nh sha bs r i =
     ((if i = 0 then nh else request_chain hf nh sha bs r i ! (i - 1)),
      block_tokens bs (all_token_ids r) i, block_extra sha bs r i)"

lemma request_chain_length [simp]: "length (request_chain hf nh sha bs r n) = n"
  by (simp add: request_chain_def)

lemma request_chain_nth:
  assumes "i < n" "\<And>j. j < i \<Longrightarrow> request_chain hf nh sha bs r n ! j \<noteq> []"
  shows "request_chain hf nh sha bs r n ! i = hf (chain_input hf nh sha bs r i)"
proof -
  have pre: "request_chain hf nh sha bs r n ! j = request_chain hf nh sha bs r m ! j" if "j < m" "m \<le> n" for j m
    using hash_chain_prefix[OF that(2)] that(1) unfolding request_chain_def by (metis nth_take)
  have "request_chain hf nh sha bs r n ! i = request_chain hf nh sha bs r (Suc i) ! i"
    by (rule pre) (use assms(1) in auto)
  also have "\<dots> = hash_block_tokens hf nh (if i = 0 then None else Some (last (request_chain hf nh sha bs r i)))
      (block_tokens bs (all_token_ids r) i) (block_extra sha bs r i)"
    unfolding request_chain_Suc by (simp add: nth_append)
  also have "\<dots> = hf (chain_input hf nh sha bs r i)"
  proof (cases i)
    case 0
    then show ?thesis by (simp add: hash_block_tokens_def chain_input_def)
  next
    case (Suc k)
    then have "last (request_chain hf nh sha bs r i) = request_chain hf nh sha bs r i ! k"
      by (metis diff_Suc_1 last_conv_nth list.size(3) nat.distinct(1) request_chain_length)
    moreover have "request_chain hf nh sha bs r i ! k \<noteq> []"
      using assms(2)[of k] pre[of k i] assms(1) Suc by (metis less_imp_le lessI)
    ultimately show ?thesis using Suc by (simp add: hash_block_tokens_def chain_input_def)
  qed
  finally show ?thesis .
qed

lemma concat_block_tokens:
  assumes "0 < bs"
  shows "concat (map (block_tokens bs toks) [0..<n]) = take (n * nat bs) toks"
proof (induction n)
  case 0
  then show ?case by simp
next
  case (Suc n)
  have "block_tokens bs toks n = take (nat bs) (drop (n * nat bs) toks)"
    using assms by (simp add: block_tokens_def py_slice_nonneg nat_mult_distrib)
  moreover have "take (Suc n * nat bs) toks = take (n * nat bs + nat bs) toks" by (simp add: add.commute)
  ultimately show ?case using Suc by (simp add: take_add)
qed

text \<open>The hash function is collision free on the inputs that two requests give it, and no hash is
  empty or equal to \<open>NONE_HASH\<close>.\<close>

definition collision_free ::
  "hash_fn \<Rightarrow> bytes \<Rightarrow> (bytes \<times> int list \<times> extra_key list option) set \<Rightarrow> bool" where
  "collision_free hf nh S \<longleftrightarrow> inj_on hf S \<and> (\<forall>x \<in> S. hf x \<noteq> [] \<and> hf x \<noteq> nh)"

lemma collision_free_subset: "collision_free hf nh S \<Longrightarrow> T \<subseteq> S \<Longrightarrow> collision_free hf nh T"
  unfolding collision_free_def by (meson inj_on_subset subsetD)

lemma collision_free_eqD:
  "collision_free hf nh S \<Longrightarrow> hf x = hf y \<Longrightarrow> x \<in> S \<Longrightarrow> y \<in> S \<Longrightarrow> x = y"
  unfolding collision_free_def by (meson inj_onD)

lemma collision_free_not: "collision_free hf nh S \<Longrightarrow> x \<in> S \<Longrightarrow> hf x \<noteq> [] \<and> hf x \<noteq> nh"
  by (simp add: collision_free_def)

lemma chain_nth_collision_free:
  assumes "collision_free hf nh (chain_input hf nh sha bs r ` {..i})" "i < n"
  shows "request_chain hf nh sha bs r n ! i = hf (chain_input hf nh sha bs r i)"
  using assms
proof (induction i rule: less_induct)
  case (less i)
  have "request_chain hf nh sha bs r n ! j \<noteq> []" if "j < i" for j
  proof -
    have cf: "collision_free hf nh (chain_input hf nh sha bs r ` {..j})"
      by (rule collision_free_subset[OF less.prems(1)]) (use that in auto)
    from less.IH[OF that this] less.prems(2) that collision_free_not[OF cf, of "chain_input hf nh sha bs r j"]
    show ?thesis by simp
  qed
  with less.prems(2) show ?case by (rule request_chain_nth)
qed

lemma chain_equal_step:
  assumes cf: "collision_free hf nh (chain_input hf nh sha bs r ` {..i} \<union> chain_input hf nh sha bs r' ` {..j})"
    and "i < n" "j < n'" "request_chain hf nh sha bs r n ! i = request_chain hf nh sha bs r' n' ! j"
  shows "chain_input hf nh sha bs r i = chain_input hf nh sha bs r' j"
proof (rule collision_free_eqD[OF cf])
  show "hf (chain_input hf nh sha bs r i) = hf (chain_input hf nh sha bs r' j)"
    using chain_nth_collision_free[OF collision_free_subset[OF cf] assms(2)]
      chain_nth_collision_free[OF collision_free_subset[OF cf] assms(3)] assms(4) by simp
qed auto

text \<open>The first component of the input tells a first block from a later one.\<close>

lemma chain_input_parent:
  assumes "collision_free hf nh (chain_input hf nh sha bs r ` {..i})"
  shows "fst (chain_input hf nh sha bs r (Suc i)) = hf (chain_input hf nh sha bs r i)"
    "fst (chain_input hf nh sha bs r (Suc i)) \<noteq> nh"
proof -
  show eq: "fst (chain_input hf nh sha bs r (Suc i)) = hf (chain_input hf nh sha bs r i)"
    using chain_nth_collision_free[OF assms, of "Suc i"] by (simp add: chain_input_def)
  show "fst (chain_input hf nh sha bs r (Suc i)) \<noteq> nh"
    using collision_free_not[OF assms, of "chain_input hf nh sha bs r i"] by (simp add: eq)
qed

lemma chain_equal_inputs:
  assumes "collision_free hf nh (chain_input hf nh sha bs r ` {..i} \<union> chain_input hf nh sha bs r' ` {..j})"
    and "i < n" "j < n'" "request_chain hf nh sha bs r n ! i = request_chain hf nh sha bs r' n' ! j"
  shows "i = j \<and> (\<forall>k \<le> i. block_tokens bs (all_token_ids r) k = block_tokens bs (all_token_ids r') k
                   \<and> block_extra sha bs r k = block_extra sha bs r' k)"
  using assms
proof (induction i arbitrary: j n n')
  case 0
  have in_eq: "chain_input hf nh sha bs r 0 = chain_input hf nh sha bs r' j"
    using 0 by (rule chain_equal_step)
  have "j = 0"
  proof (cases j)
    case (Suc j')
    have "collision_free hf nh (chain_input hf nh sha bs r' ` {..j'})"
      by (rule collision_free_subset[OF 0(1)]) (auto simp: Suc)
    from chain_input_parent(2)[OF this] in_eq Suc show ?thesis by (simp add: chain_input_def)
  qed simp
  with in_eq show ?case by (auto simp: chain_input_def)
next
  case (Suc i)
  have in_eq: "chain_input hf nh sha bs r (Suc i) = chain_input hf nh sha bs r' j"
    using Suc.prems by (rule chain_equal_step)
  have cf: "collision_free hf nh (chain_input hf nh sha bs r ` {..i})"
    by (rule collision_free_subset[OF Suc.prems(1)]) auto
  obtain j' where j: "j = Suc j'"
    using chain_input_parent(2)[OF cf] in_eq by (cases j) (auto simp: chain_input_def)
  have cf2: "collision_free hf nh (chain_input hf nh sha bs r ` {..i} \<union> chain_input hf nh sha bs r' ` {..j'})"
    by (rule collision_free_subset[OF Suc.prems(1)]) (auto simp: j)
  have "request_chain hf nh sha bs r (Suc i) ! i = request_chain hf nh sha bs r' (Suc j') ! j'"
    using in_eq j by (simp add: chain_input_def)
  from Suc.IH[OF cf2 _ _ this] have
    "i = j' \<and> (\<forall>k \<le> i. block_tokens bs (all_token_ids r) k = block_tokens bs (all_token_ids r') k
                   \<and> block_extra sha bs r k = block_extra sha bs r' k)" by simp
  with in_eq j show ?case by (auto simp: chain_input_def le_Suc_eq)
qed

lemma chain_equal_prefix:
  assumes "collision_free hf nh (chain_input hf nh sha bs r ` {..i} \<union> chain_input hf nh sha bs r' ` {..j})"
    and "i < n" "j < n'" "request_chain hf nh sha bs r n ! i = request_chain hf nh sha bs r' n' ! j" "0 < bs"
  shows "i = j \<and> take (Suc i * nat bs) (all_token_ids r) = take (Suc i * nat bs) (all_token_ids r')
    \<and> (\<forall>k \<le> i. block_extra sha bs r k = block_extra sha bs r' k)"
proof -
  note eq = chain_equal_inputs[OF assms(1-4)]
  have "map (block_tokens bs (all_token_ids r)) [0..<Suc i] = map (block_tokens bs (all_token_ids r')) [0..<Suc i]"
    using eq by (auto simp: map_eq_conv)
  from arg_cong[where f = concat, OF this] eq show ?thesis
    unfolding concat_block_tokens[OF assms(5)] by blast
qed

subsection \<open>Properties\<close>

text \<open>A request of a given prompt, and a toy hash function that evaluates.\<close>

definition sample_sampling_params :: sampling_params where
  "sample_sampling_params =
     \<lparr>sp_max_tokens = Some 16, sp_min_tokens = 0, sp_eos_token_id = None, sp_stop_token_ids = None,
      sp_repetition_detection = None, sp_skip_reading_prefix_cache = None, sp_structured_outputs = None\<rparr>"

definition sample_ec_request ::
  "string \<Rightarrow> int list \<Rightarrow> mm_feature list \<Rightarrow> lora_request option \<Rightarrow> string option \<Rightarrow> engine_core_request" where
  "sample_ec_request rid toks mm lora salt =
     \<lparr>ec_request_id = rid, ec_prompt_token_ids = Some toks, ec_mm_features = Some mm,
      ec_sampling_params = Some sample_sampling_params, ec_pooling_params = None,
      ec_arrival_time = Some 0, ec_lora_request = lora, ec_cache_salt = salt,
      ec_prompt_embeds = None, ec_priority = 0, ec_resumable = False, ec_abort_immediately = False\<rparr>"

definition sample_request ::
  "string \<Rightarrow> int list \<Rightarrow> mm_feature list \<Rightarrow> lora_request option \<Rightarrow> string option \<Rightarrow> request" where
  "sample_request rid toks mm lora salt =
     request_fields 0 0 (sample_ec_request rid toks mm lora salt) 16 WAITING (int (length toks))"

definition toy_hash :: hash_fn where
  "toy_hash x = (case x of (p, toks, ex) \<Rightarrow> 7 # p @ map word_of_int toks)"

definition toy_sha :: "bytes list \<Rightarrow> bytes" where
  "toy_sha bs = concat bs"

text \<open>
  C28: a block hash packed with a group id that fits 32 bits unpacks to the same hash and the
  same group id, so keys of different KV cache groups never coincide.
\<close>

theorem group_key_roundtrip:
  assumes "0 \<le> g" "g < 2 ^ 32"
  shows "\<exists>key. make_block_hash_with_group_id h g = Inr key \<and> length key = length h + 4
    \<and> get_block_hash key = h \<and> get_group_id key = g"
  using group_key_ok[OF assms] group_key_length group_key_parts by blast

theorem group_key_roundtrip_witness:
  "\<exists>key. make_block_hash_with_group_id [1, 2] 258 = Inr key \<and> length key = length [1, 2 :: 8 word] + 4
    \<and> get_block_hash key = [1, 2] \<and> get_group_id key = 258"
  using group_key_roundtrip[of 258 "[1, 2]"] by simp





text \<open>
  LoRA names and cache salts are not separated. A request for the adapter \<open>l\<close> without a
  salt and a request without an adapter whose salt is the adapter's name get the same block
  hashes for a one-block prompt, whatever the hash function.
\<close>

theorem lora_name_collides_with_salt:
  assumes "lora_name l \<noteq> []"
  shows "map_sum id fst (request_block_hasher 2 hf nh sha (sample_request rid [5, 6] [] (Some l) None))
       = map_sum id fst (request_block_hasher 2 hf nh sha (sample_request rid [5, 6] [] None (Some (lora_name l))))"
  using assms
  by (simp add: request_block_hasher_def sample_request_def sample_ec_request_def request_fields_def num_tokens_def
      hasher_loop.simps generate_block_hash_extra_keys_def gen_mm_extra_hash_keys_def
      gen_prompt_embeds_extra_hash_keys_def gen_lora_extra_hash_keys_def cache_salt_keys_def)

theorem lora_name_collides_with_salt_witness:
  "map_sum id fst (request_block_hasher 2 toy_hash [0] toy_sha
      (sample_request ''a'' [5, 6] [] (Some \<lparr>lora_name = ''sql'', lora_int_id = 1\<rparr>) None))
   = map_sum id fst (request_block_hasher 2 toy_hash [0] toy_sha (sample_request ''a'' [5, 6] [] None (Some ''sql'')))"
  using lora_name_collides_with_salt[of "\<lparr>lora_name = ''sql'', lora_int_id = 1\<rparr>" toy_hash "[0]" toy_sha "''a''"]
  by simp

definition two_item_prompt :: "string \<Rightarrow> engine_core_request" where
  "two_item_prompt ident =
     sample_ec_request ''a'' [1, 2, 3, 4, 9, 9]
       [\<lparr>mm_identifier = ident, mm_position = \<lparr>pr_offset = 4, pr_length = 1, pr_is_embed = None\<rparr>\<rparr>,
        \<lparr>mm_identifier = ''last'', mm_position = \<lparr>pr_offset = 5, pr_length = 1, pr_is_embed = None\<rparr>\<rparr>] None None"

definition hashes_after_decode :: "hash_fn \<Rightarrow> bytes \<Rightarrow> (bytes list \<Rightarrow> bytes) \<Rightarrow> engine_core_request \<Rightarrow> int list \<Rightarrow> bytes list result" where
  "hashes_after_decode hf nh sha e toks =
     rbind (request_init (Some (request_block_hasher 4 hf nh sha)) 0 0 e) (\<lambda>r.
     rbind (append_output_token_ids (Some (request_block_hasher 4 hf nh sha)) r toks) (\<lambda>r'. Inr (block_hashes r')))"


end
