(* ===== verification/Kv_Cache_Metrics.thy ===== *)
theory Kv_Cache_Metrics
  imports Prelude Complex_Main
begin

section \<open>KV cache residency metrics\<close>

text \<open>
  \<open>vllm/v1/core/kv_cache_metrics.py\<close>. The collector reads \<open>time.monotonic_ns()\<close> and
  \<open>random.random()\<close>; both are parameters, as the sequences \<open>mc_clock\<close> and \<open>mc_random\<close> of the
  values that successive calls return, with the number of calls made so far. Seconds are
  exact rationals.
\<close>

record block_metrics_state =
  birth_time_ns :: int
  last_access_ns :: int
  access_history :: "int list"

record eviction_event =
  lifetime_seconds :: rat
  idle_seconds :: rat
  reuse_gaps_seconds :: "rat list"

record metrics_collector =
  sample_rate :: rat
  block_metrics :: "(int, block_metrics_state) dict"
  eviction_events :: "eviction_event list"
  mc_random :: "nat \<Rightarrow> rat"
  mc_random_calls :: nat
  mc_clock :: "nat \<Rightarrow> int"
  mc_clock_calls :: nat

definition monotonic_ns :: "metrics_collector \<Rightarrow> int \<times> metrics_collector" where
  "monotonic_ns c = (mc_clock c (mc_clock_calls c), c\<lparr>mc_clock_calls := mc_clock_calls c + 1\<rparr>)"

definition new_block_metrics_state :: "int \<Rightarrow> block_metrics_state" where
  "new_block_metrics_state now = \<lparr>birth_time_ns = now, last_access_ns = now, access_history = []\<rparr>"

text \<open>\<open>deque(maxlen=4)\<close>: a fifth entry pushes the oldest one out.\<close>

definition record_access :: "int \<Rightarrow> block_metrics_state \<Rightarrow> block_metrics_state" where
  "record_access now m =
     (let hist = access_history m @ [now]
      in m\<lparr>last_access_ns := now, access_history := drop (length hist - 4) hist\<rparr>)"

definition get_lifetime_seconds :: "int \<Rightarrow> block_metrics_state \<Rightarrow> rat" where
  "get_lifetime_seconds now m = of_int (now - birth_time_ns m) / 10 ^ 9"

definition get_idle_time_seconds :: "int \<Rightarrow> block_metrics_state \<Rightarrow> rat" where
  "get_idle_time_seconds now m = of_int (now - last_access_ns m) / 10 ^ 9"

definition get_reuse_gaps_seconds :: "block_metrics_state \<Rightarrow> rat list" where
  "get_reuse_gaps_seconds m =
     (let h = access_history m in
      if length h < 2 then []
      else map (\<lambda>i. of_int (h ! i - h ! (i - 1)) / 10 ^ 9) [1..<length h])"

definition metrics_collector_init ::
  "rat \<Rightarrow> (nat \<Rightarrow> rat) \<Rightarrow> (nat \<Rightarrow> int) \<Rightarrow> metrics_collector result" where
  "metrics_collector_init rate rnd clk =
     rbind (rassert (0 < rate \<and> rate \<le> 1)) (\<lambda>_.
       Inr \<lparr>sample_rate = rate, block_metrics = [], eviction_events = [],
            mc_random = rnd, mc_random_calls = 0, mc_clock = clk, mc_clock_calls = 0\<rparr>)"

definition should_sample_block :: "metrics_collector \<Rightarrow> bool \<times> metrics_collector" where
  "should_sample_block c =
     (mc_random c (mc_random_calls c) < sample_rate c,
      c\<lparr>mc_random_calls := mc_random_calls c + 1\<rparr>)"

definition on_block_allocated :: "int \<Rightarrow> metrics_collector \<Rightarrow> metrics_collector" where
  "on_block_allocated bid c =
     (case should_sample_block c of
        (False, c1) \<Rightarrow> c1
      | (True, c1) \<Rightarrow>
          (case monotonic_ns c1 of (now, c2) \<Rightarrow>
             c2\<lparr>block_metrics := dict_set bid (new_block_metrics_state now) (block_metrics c2)\<rparr>))"

definition on_block_accessed :: "int \<Rightarrow> metrics_collector \<Rightarrow> metrics_collector" where
  "on_block_accessed bid c =
     (case dict_get (block_metrics c) bid of
        None \<Rightarrow> c
      | Some m \<Rightarrow>
          (case monotonic_ns c of (now, c1) \<Rightarrow>
             c1\<lparr>block_metrics := dict_set bid (record_access now m) (block_metrics c1)\<rparr>))"

definition on_block_evicted :: "int \<Rightarrow> metrics_collector \<Rightarrow> metrics_collector" where
  "on_block_evicted bid c =
     (case dict_get (block_metrics c) bid of
        None \<Rightarrow> c
      | Some m \<Rightarrow>
          (let c0 = c\<lparr>block_metrics := dict_del bid (block_metrics c)\<rparr>;
               (now1, c1) = monotonic_ns c0;
               (now2, c2) = monotonic_ns c1
           in c2\<lparr>eviction_events := eviction_events c2 @
                   [\<lparr>lifetime_seconds = get_lifetime_seconds now1 m,
                     idle_seconds = get_idle_time_seconds now2 m,
                     reuse_gaps_seconds = get_reuse_gaps_seconds m\<rparr>]\<rparr>))"

definition metrics_reset :: "metrics_collector \<Rightarrow> metrics_collector" where
  "metrics_reset c = c\<lparr>block_metrics := [], eviction_events := []\<rparr>"

definition drain_events :: "metrics_collector \<Rightarrow> eviction_event list \<times> metrics_collector" where
  "drain_events c = (eviction_events c, c\<lparr>eviction_events := []\<rparr>)"

subsection \<open>The histories stay sorted and bounded\<close>

text \<open>
  Every recorded time lies between the birth of the block and the present, which is the next
  value of the clock.
\<close>

definition state_ok :: "int \<Rightarrow> block_metrics_state \<Rightarrow> bool" where
  "state_ok now m \<longleftrightarrow>
     birth_time_ns m \<le> last_access_ns m \<and> last_access_ns m \<le> now
     \<and> length (access_history m) \<le> 4 \<and> sorted (access_history m)
     \<and> (\<forall>t \<in> set (access_history m). t \<le> last_access_ns m)"

definition event_ok :: "eviction_event \<Rightarrow> bool" where
  "event_ok e \<longleftrightarrow> 0 \<le> idle_seconds e \<and> 0 \<le> lifetime_seconds e
     \<and> length (reuse_gaps_seconds e) \<le> 3 \<and> (\<forall>g \<in> set (reuse_gaps_seconds e). 0 \<le> g)"

definition collector_ok :: "metrics_collector \<Rightarrow> bool" where
  "collector_ok c \<longleftrightarrow> mono (mc_clock c)
     \<and> (\<forall>b m. dict_get (block_metrics c) b = Some m \<longrightarrow> state_ok (mc_clock c (mc_clock_calls c)) m)
     \<and> (\<forall>e \<in> set (eviction_events c). event_ok e)"

lemma state_ok_later: "state_ok t m \<Longrightarrow> t \<le> u \<Longrightarrow> state_ok u m"
  by (auto simp: state_ok_def)

lemma state_ok_later2: "state_ok t m \<Longrightarrow> t \<le> u \<Longrightarrow> u \<le> v \<Longrightarrow> state_ok v m"
  by (auto simp: state_ok_def)

lemma state_ok_new: "state_ok now (new_block_metrics_state now)"
  by (simp add: state_ok_def new_block_metrics_state_def)

lemma state_ok_record: "state_ok now m \<Longrightarrow> state_ok now (record_access now m)"
proof -
  assume ok: "state_ok now m"
  let ?h = "access_history m @ [now]"
  have "sorted ?h" using ok by (auto simp: state_ok_def sorted_append intro: order_trans)
  then have "sorted (drop (length ?h - 4) ?h)" by (rule sorted_wrt_drop)
  moreover have "\<forall>t \<in> set (drop (length ?h - 4) ?h). t \<le> now"
    using ok by (auto simp: state_ok_def dest!: in_set_dropD)
  ultimately show ?thesis using ok by (simp add: state_ok_def record_access_def Let_def)
qed

lemma reuse_gaps_ok:
  assumes "state_ok now m"
  shows "length (get_reuse_gaps_seconds m) \<le> 3 \<and> (\<forall>g \<in> set (get_reuse_gaps_seconds m). 0 \<le> g)"
proof -
  have s: "sorted (access_history m)" "length (access_history m) \<le> 4" using assms by (auto simp: state_ok_def)
  have "0 \<le> (of_int (access_history m ! i - access_history m ! (i - 1)) :: rat) / 10 ^ 9"
    if "i < length (access_history m)" for i
    using sorted_nth_mono[OF s(1), of "i - 1" i] that by simp
  then show ?thesis using s(2) by (auto simp: get_reuse_gaps_seconds_def Let_def)
qed

lemma clock_next: "mono (mc_clock c) \<Longrightarrow> mc_clock c n \<le> mc_clock c (Suc n)"
  by (simp add: mono_def)

lemma on_block_allocated_ok: "collector_ok c \<Longrightarrow> collector_ok (on_block_allocated b c)"
  using clock_next[of c "mc_clock_calls c"]
  by (auto simp: collector_ok_def on_block_allocated_def should_sample_block_def monotonic_ns_def
      intro: state_ok_later[OF state_ok_new] state_ok_later split: bool.splits if_splits)

lemma on_block_accessed_ok: "collector_ok c \<Longrightarrow> collector_ok (on_block_accessed b c)"
  using clock_next[of c "mc_clock_calls c"]
  by (auto simp: collector_ok_def on_block_accessed_def monotonic_ns_def
      intro: state_ok_later[OF state_ok_record] state_ok_later split: option.splits if_splits)

lemma eviction_event_ok:
  assumes "state_ok now m" "now \<le> now2"
  shows "event_ok \<lparr>lifetime_seconds = get_lifetime_seconds now m, idle_seconds = get_idle_time_seconds now2 m,
                   reuse_gaps_seconds = get_reuse_gaps_seconds m\<rparr>"
  using assms reuse_gaps_ok[OF assms(1)]
  by (auto simp: event_ok_def state_ok_def get_lifetime_seconds_def get_idle_time_seconds_def)

lemma on_block_evicted_ok: "collector_ok c \<Longrightarrow> collector_ok (on_block_evicted b c)"
  using clock_next[of c "mc_clock_calls c"] clock_next[of c "Suc (mc_clock_calls c)"]
  by (auto simp: collector_ok_def on_block_evicted_def monotonic_ns_def Let_def
      intro!: eviction_event_ok intro: state_ok_later2 split: option.splits if_splits)

subsection \<open>Properties\<close>

datatype metrics_call = Allocated int | Accessed int | Evicted int | Reset

fun metrics_step :: "metrics_call \<Rightarrow> metrics_collector \<Rightarrow> metrics_collector" where
  "metrics_step (Allocated b) c = on_block_allocated b c"
| "metrics_step (Accessed b) c = on_block_accessed b c"
| "metrics_step (Evicted b) c = on_block_evicted b c"
| "metrics_step Reset c = metrics_reset c"

lemma metrics_step_ok: "collector_ok c \<Longrightarrow> collector_ok (metrics_step e c)"
  by (cases e) (auto intro: on_block_allocated_ok on_block_accessed_ok on_block_evicted_ok
      simp: metrics_reset_def, simp add: collector_ok_def)

text \<open>
  over any sequence of block events, with a clock that never goes back, every residency
  event reports a non-negative lifetime, idle time and reuse gaps, and at most three gaps.
\<close>

theorem metrics_events_sane:
  assumes "metrics_collector_init rate rnd clk = Inr c" "mono clk"
    and "e \<in> set (eviction_events (fold metrics_step calls c))"
  shows "0 \<le> lifetime_seconds e \<and> 0 \<le> idle_seconds e \<and> length (reuse_gaps_seconds e) \<le> 3
    \<and> (\<forall>g \<in> set (reuse_gaps_seconds e). 0 \<le> g)"
proof -
  have "collector_ok c"
    using assms(1,2) by (auto simp: metrics_collector_init_def collector_ok_def result_simps)
  then have "collector_ok (fold metrics_step calls c)"
    by (induction calls arbitrary: c) (auto simp: metrics_step_ok)
  with assms(3) show ?thesis by (auto simp: collector_ok_def event_ok_def)
qed

definition sample_collector :: metrics_collector where
  "sample_collector =
     \<lparr>sample_rate = 1, block_metrics = [], eviction_events = [], mc_random = (\<lambda>_. 0),
      mc_random_calls = 0, mc_clock = int, mc_clock_calls = 0\<rparr>"

theorem metrics_events_sane_witness:
  "\<exists>e. e \<in> set (eviction_events (fold metrics_step [Allocated 3, Accessed 3, Accessed 3, Evicted 3] sample_collector))
    \<and> 0 \<le> lifetime_seconds e \<and> 0 \<le> idle_seconds e \<and> length (reuse_gaps_seconds e) \<le> 3"
proof -
  let ?c = "fold metrics_step [Allocated 3, Accessed 3, Accessed 3, Evicted 3] sample_collector"
  have i: "metrics_collector_init 1 (\<lambda>_. 0) int = Inr sample_collector"
    by (simp add: metrics_collector_init_def sample_collector_def)
  have "length (eviction_events ?c) = 1"
    by (simp add: sample_collector_def on_block_allocated_def on_block_accessed_def on_block_evicted_def
        should_sample_block_def monotonic_ns_def)
  then obtain e where e: "e \<in> set (eviction_events ?c)" by (metis length_greater_0_conv less_one nth_mem)
  show ?thesis using metrics_events_sane[OF i _ e] e by (auto simp: mono_def)
qed

end
