(* ===== verification/Block_Pool.thy ===== *)
theory Block_Pool
  imports Block_Hash_Map Block_Hash Kv_Cache_Metrics
begin

section \<open>The block pool\<close>

text \<open>
  \<open>BlockPool\<close> of \<open>vllm/v1/core/block_pool.py\<close>: allocation, reference counts, prefix-cache
  registration and eviction of KV cache blocks. The blocks live in the heap of the free
  queue; \<open>blocks[i]\<close> is the reference \<open>Blk i\<close>. The setting
  \<open>VLLM_KV_EVENTS_USE_INT_BLOCK_HASHES\<close> and \<open>hashlib.sha256\<close> are the fields \<open>env_int_hashes\<close>
  and \<open>env_sha256\<close>. Python's \<open>==\<close> on blocks compares fields; block ids are unique, so it is
  equality of references.
\<close>

subsection \<open>State\<close>

record block_stored =
  ev_block_hashes :: "external_block_hash list"
  ev_parent_block_hash :: "external_block_hash option"
  ev_token_ids :: "int list"
  ev_block_size :: int
  ev_lora_id :: "int option"
  ev_lora_name :: "string option"
  ev_extra_keys :: "extra_key list option list option"
  ev_group_idx :: int

datatype kv_cache_event =
    BlockStored block_stored
  | BlockRemoved "external_block_hash list" int
  | AllBlocksCleared

record block_pool =
  num_gpu_blocks :: int
  enable_caching :: bool
  hash_block_size :: int
  pool_queue :: free_block_queue
  cached_block_hash_to_block :: block_hash_map
  null_block :: bref
  enable_kv_cache_events :: bool
  kv_event_queue :: "kv_cache_event list"
  metrics_collector :: "metrics_collector option"
  env_int_hashes :: bool
  env_sha256 :: "bytes list \<Rightarrow> bytes"

abbreviation pool_heap :: "block_pool \<Rightarrow> heap" where
  "pool_heap p \<equiv> fq_heap (pool_queue p)"

definition set_heap :: "heap \<Rightarrow> block_pool \<Rightarrow> block_pool" where
  "set_heap h p = p\<lparr>pool_queue := (pool_queue p)\<lparr>fq_heap := h\<rparr>\<rparr>"

definition block_pool_init ::
  "int \<Rightarrow> bool \<Rightarrow> int \<Rightarrow> bool \<Rightarrow> metrics_collector option \<Rightarrow> bool \<Rightarrow> (bytes list \<Rightarrow> bytes) \<Rightarrow> block_pool result" where
  "block_pool_init n caching hbs kv_events mc ints sha =
     rbind (rassert (n > 0)) (\<lambda>_.
       let blocks = map Blk [0..<nat n];
           q = free_queue_init initial_heap blocks
       in rbind (popleft q) (\<lambda>(nb, q').
            let h = fq_heap q'
            in Inr \<lparr>num_gpu_blocks = n, enable_caching = caching, hash_block_size = hbs,
                    pool_queue = q'\<lparr>fq_heap := h(nb := (h nb)\<lparr>is_null := True\<rparr>)\<rparr>,
                    cached_block_hash_to_block = empty_block_map, null_block = nb,
                    enable_kv_cache_events = kv_events, kv_event_queue = [], metrics_collector = mc,
                    env_int_hashes = ints, env_sha256 = sha\<rparr>))"

definition with_metrics :: "(metrics_collector \<Rightarrow> metrics_collector) \<Rightarrow> block_pool \<Rightarrow> block_pool" where
  "with_metrics f p = p\<lparr>metrics_collector := map_option f (metrics_collector p)\<rparr>"

definition get_num_free_blocks :: "block_pool \<Rightarrow> int" where
  "get_num_free_blocks p = num_free_blocks (pool_queue p)"

subsection \<open>Lookup and registration\<close>

fun get_cached_block :: "block_pool \<Rightarrow> bytes \<Rightarrow> int list \<Rightarrow> bref list option result" where
  "get_cached_block p h [] = Inr (Some [])"
| "get_cached_block p h (g # gs) =
     rbind (make_block_hash_with_group_id h g) (\<lambda>key.
       case get_one_block key (cached_block_hash_to_block p) of
         None \<Rightarrow> Inr None
       | Some b \<Rightarrow> rbind (get_cached_block p h gs) (\<lambda>r. Inr (map_option ((#) b) r)))"

text \<open>
  The registration loop of \<open>cache_full_blocks\<close>. \<open>ijs\<close> pairs each block with its index; the
  accumulator holds the hashes reported in the event.
\<close>

definition skip_block :: "block_pool \<Rightarrow> bool list option \<Rightarrow> nat \<Rightarrow> bref \<Rightarrow> bool" where
  "skip_block p bmask i b \<longleftrightarrow>
     is_null (pool_heap p b) \<or> (case bmask of None \<Rightarrow> False | Some m \<Rightarrow> \<not> m ! i)"

definition register_block ::
  "bytes list \<Rightarrow> int \<Rightarrow> bool list option \<Rightarrow> nat \<times> bref \<Rightarrow> block_pool \<times> external_block_hash list \<Rightarrow>
   (block_pool \<times> external_block_hash list) result" where
  "register_block new_hashes gid bmask ib st =
     (case ib of (i, b) \<Rightarrow> case st of (p, acc) \<Rightarrow>
        if skip_block p bmask i b then Inr (p, acc)
        else
          rbind (rassert (block_hash (pool_heap p b) = None)) (\<lambda>_.
          rbind (py_index new_hashes (int i)) (\<lambda>h.
          rbind (make_block_hash_with_group_id h gid) (\<lambda>key.
          rbind (set_block_hash b key (pool_heap p)) (\<lambda>hp.
            Inr ((set_heap hp p)\<lparr>cached_block_hash_to_block :=
                    map_insert hp key b (cached_block_hash_to_block p)\<rparr>,
                 acc @ [maybe_convert_block_hash (env_int_hashes p) h]))))))"

text \<open>The loop over the block indices that collects the extra keys of the event.\<close>

definition extra_keys_step ::
  "block_pool \<Rightarrow> bref list \<Rightarrow> int \<Rightarrow> int \<Rightarrow> bool list option \<Rightarrow> int \<Rightarrow>
   request \<times> int \<times> extra_key list option list \<Rightarrow> (request \<times> int \<times> extra_key list option list) result" where
  "extra_keys_step p blocks num_cached block_size bmask i st =
     (case st of (r, cur_mm, acc) \<Rightarrow>
        rbind (py_index blocks i) (\<lambda>b.
          if skip_block p bmask (nat (i - num_cached)) b then Inr (r, cur_mm, acc)
          else rbind (generate_block_hash_extra_keys (env_sha256 p) r (i * block_size)
                        (i * block_size + block_size) cur_mm) (\<lambda>(ek, cur_mm', r').
                 Inr (r', cur_mm', acc @ [ek]))))"

definition block_stored_event ::
  "block_pool \<Rightarrow> request \<Rightarrow> bref list \<Rightarrow> block_hash_list \<Rightarrow> external_block_hash list \<Rightarrow> int \<Rightarrow> int \<Rightarrow> int \<Rightarrow>
   int \<Rightarrow> bool list option \<Rightarrow> (request \<times> kv_cache_event) result" where
  "block_stored_event p r blocks bhs new_hashes num_cached num_full block_size gid bmask =
     rbind (if num_cached = 0 then Inr None
            else rbind (bhl_get bhs (num_cached - 1)) (\<lambda>h.
                   Inr (Some (maybe_convert_block_hash (env_int_hashes p) h)))) (\<lambda>parent.
     rbind (rfold (extra_keys_step p blocks num_cached block_size bmask)
              (py_range num_cached num_full) (r, 0, [])) (\<lambda>(r', _, eks).
       Inr (r', BlockStored
         \<lparr>ev_block_hashes = new_hashes, ev_parent_block_hash = parent,
          ev_token_ids = py_slice (all_token_ids r') (num_cached * block_size) (num_full * block_size),
          ev_block_size = block_size,
          ev_lora_id = map_option lora_int_id (req_lora_request r'),
          ev_lora_name = map_option lora_name (req_lora_request r'),
          ev_extra_keys = (if eks \<noteq> [] then Some eks else None),
          ev_group_idx = gid\<rparr>)))"

definition cache_full_blocks ::
  "request \<Rightarrow> bref list \<Rightarrow> int \<Rightarrow> int \<Rightarrow> int \<Rightarrow> int \<Rightarrow> bool list option \<Rightarrow> block_pool \<Rightarrow>
   (request \<times> block_pool) result" where
  "cache_full_blocks r blocks num_cached num_full block_size gid bmask p =
     (if num_cached \<ge> num_full then Inr (r, p)
      else
        let new_full = py_slice blocks num_cached num_full in
        rbind (rassert (int (length (block_hashes r)) \<ge> num_full)) (\<lambda>_.
        rbind (rassert (case bmask of None \<Rightarrow> True | Some m \<Rightarrow> length m = length new_full)) (\<lambda>_.
        rbind (if block_size = hash_block_size p then Inr (PlainHashes (block_hashes r))
               else if hash_block_size p = 0 then Inl ZeroDivisionError
               else rbind (rassert (block_size mod hash_block_size p = 0)) (\<lambda>_.
                      block_hash_list_with_block_size (block_hashes r) (hash_block_size p) block_size))
          (\<lambda>bhs.
        rbind (rfold (register_block (bhl_from bhs num_cached) gid bmask)
                 (enumerate 0 new_full) (p, [])) (\<lambda>(p1, new_hashes).
          if enable_kv_cache_events p1 then
            rbind (block_stored_event p1 r blocks bhs new_hashes num_cached num_full block_size gid bmask)
              (\<lambda>(r', ev). Inr (r', p1\<lparr>kv_event_queue := kv_event_queue p1 @ [ev]\<rparr>))
          else Inr (r, p1))))))"

subsection \<open>Eviction and allocation\<close>

definition maybe_evict_cached_block :: "bref \<Rightarrow> block_pool \<Rightarrow> bool \<times> block_pool" where
  "maybe_evict_cached_block b p0 =
     (let p = with_metrics (on_block_evicted (block_id (pool_heap p0 b))) p0 in
      case block_hash (pool_heap p b) of
        None \<Rightarrow> (False, p)
      | Some key \<Rightarrow>
          (case map_pop (pool_heap p) key (block_id (pool_heap p b)) (cached_block_hash_to_block p) of
             (None, m) \<Rightarrow> (False, p\<lparr>cached_block_hash_to_block := m\<rparr>)
           | (Some _, m) \<Rightarrow>
               let p1 = set_heap (reset_hash b (pool_heap p)) (p\<lparr>cached_block_hash_to_block := m\<rparr>)
               in (True,
                   if enable_kv_cache_events p1
                   then p1\<lparr>kv_event_queue := kv_event_queue p1 @
                          [BlockRemoved [maybe_convert_block_hash (env_int_hashes p1) (get_block_hash key)]
                             (get_group_id key)]\<rparr>
                   else p1)))"

definition alloc_block :: "bref \<Rightarrow> block_pool \<Rightarrow> block_pool result" where
  "alloc_block b p =
     (let p1 = (if enable_caching p then snd (maybe_evict_cached_block b p) else p) in
      rbind (rassert (ref_cnt (pool_heap p1 b) = 0)) (\<lambda>_.
        Inr (with_metrics (on_block_allocated (block_id (pool_heap p1 b)))
               (set_heap (add_ref_cnt b 1 (pool_heap p1)) p1))))"

definition get_new_blocks :: "int \<Rightarrow> block_pool \<Rightarrow> (bref list \<times> block_pool) result" where
  "get_new_blocks n p =
     (if n > get_num_free_blocks p then Inl ValueError
      else rbind (popleft_n n (pool_queue p)) (\<lambda>(ret, q).
             rbind (rfold alloc_block ret (p\<lparr>pool_queue := q\<rparr>)) (\<lambda>p'. Inr (ret, p'))))"

definition touch_block :: "bref \<Rightarrow> block_pool \<Rightarrow> block_pool result" where
  "touch_block b p =
     rbind (if ref_cnt (pool_heap p b) = 0 \<and> \<not> is_null (pool_heap p b)
            then fq_remove b (pool_queue p) else Inr (pool_queue p)) (\<lambda>q.
       let p1 = p\<lparr>pool_queue := q\<rparr>
       in Inr (with_metrics (on_block_accessed (block_id (pool_heap p1 b)))
                 (set_heap (add_ref_cnt b 1 (pool_heap p1)) p1)))"

definition touch :: "bref list \<Rightarrow> block_pool \<Rightarrow> block_pool result" where
  "touch blocks p = rfold touch_block blocks p"

definition free_blocks :: "bref list \<Rightarrow> bool \<Rightarrow> block_pool \<Rightarrow> block_pool result" where
  "free_blocks blocks prepend p =
     (let h = fold (\<lambda>b h. add_ref_cnt b (- 1) h) blocks (pool_heap p);
          freed = filter (\<lambda>b. ref_cnt (h b) = 0 \<and> \<not> is_null (h b)) blocks;
          q = (pool_queue p)\<lparr>fq_heap := h\<rparr>
      in rbind (if prepend then prepend_n freed q else append_n freed q) (\<lambda>q'.
           Inr (p\<lparr>pool_queue := q'\<rparr>)))"

text \<open>\<open>evict_blocks\<close> iterates over a set; the list is the order of that iteration.\<close>

definition evict_block_id :: "int \<Rightarrow> block_pool \<Rightarrow> block_pool result" where
  "evict_block_id i p =
     rbind (rassert (i < num_gpu_blocks p)) (\<lambda>_.
     rbind (py_index (map Blk [0..<nat (num_gpu_blocks p)]) i) (\<lambda>b.
       Inr (snd (maybe_evict_cached_block b p))))"

definition evict_blocks :: "int list \<Rightarrow> block_pool \<Rightarrow> block_pool result" where
  "evict_blocks ids p = rfold evict_block_id ids p"

definition reset_prefix_cache :: "block_pool \<Rightarrow> bool \<times> block_pool" where
  "reset_prefix_cache p =
     (if num_gpu_blocks p - get_num_free_blocks p \<noteq> 1 then (False, p)
      else
        let h = fold reset_hash (map Blk [0..<nat (num_gpu_blocks p)]) (pool_heap p);
            p1 = with_metrics metrics_reset
                   (set_heap h (p\<lparr>cached_block_hash_to_block := empty_block_map\<rparr>))
        in (True, if enable_kv_cache_events p1
                  then p1\<lparr>kv_event_queue := kv_event_queue p1 @ [AllBlocksCleared]\<rparr> else p1))"

definition get_usage :: "block_pool \<Rightarrow> rat" where
  "get_usage p =
     (let total = num_gpu_blocks p - 1
      in if total = 0 then 0 else 1 - of_int (get_num_free_blocks p) / of_int total)"

definition take_events :: "block_pool \<Rightarrow> kv_cache_event list \<times> block_pool" where
  "take_events p =
     (if \<not> enable_kv_cache_events p then ([], p)
      else (kv_event_queue p, p\<lparr>kv_event_queue := []\<rparr>))"

subsection \<open>The pool invariant\<close>

text \<open>
  \<open>refc\<close> and \<open>bhash\<close> are the two fields of a block that the pool is about. \<open>core_ok\<close>: ids and
  null flag are as constructed, and the index holds exactly the blocks that carry a hash, under
  that hash. \<open>pool_rep p xs\<close> adds that the free queue is \<open>xs\<close> and that \<open>xs\<close> are exactly the
  blocks without a reference.
\<close>

definition refc :: "block_pool \<Rightarrow> bref \<Rightarrow> int" where
  "refc p b = ref_cnt (pool_heap p b)"

definition bhash :: "block_pool \<Rightarrow> bref \<Rightarrow> bytes option" where
  "bhash p b = block_hash (pool_heap p b)"

definition real_blocks :: "block_pool \<Rightarrow> bref set" where
  "real_blocks p = Blk ` {1..<nat (num_gpu_blocks p)}"

definition core_ok :: "block_pool \<Rightarrow> bool" where
  "core_ok p \<longleftrightarrow> num_gpu_blocks p > 0 \<and> null_block p = Blk 0
     \<and> (\<forall>i < nat (num_gpu_blocks p). block_id (pool_heap p (Blk i)) = int i
          \<and> (is_null (pool_heap p (Blk i)) \<longleftrightarrow> i = 0))
     \<and> map_ok (pool_heap p) (cached_block_hash_to_block p)
     \<and> (\<forall>k. blocks_at (cached_block_hash_to_block p) k = {b \<in> real_blocks p. bhash p b = Some k})
     \<and> bhash p (Blk 0) = None"

definition pool_rep :: "block_pool \<Rightarrow> bref list \<Rightarrow> bool" where
  "pool_rep p xs \<longleftrightarrow> core_ok p \<and> fq_rep (pool_queue p) xs
     \<and> set xs = {b \<in> real_blocks p. refc p b = 0} \<and> (\<forall>b \<in> real_blocks p. 0 \<le> refc p b)"

definition pool_inv :: "block_pool \<Rightarrow> bool" where
  "pool_inv p \<longleftrightarrow> (\<exists>xs. pool_rep p xs)"

text \<open>What no operation changes.\<close>

definition same_config :: "block_pool \<Rightarrow> block_pool \<Rightarrow> bool" where
  "same_config p p' \<longleftrightarrow> num_gpu_blocks p' = num_gpu_blocks p \<and> enable_caching p' = enable_caching p
     \<and> hash_block_size p' = hash_block_size p \<and> null_block p' = null_block p
     \<and> enable_kv_cache_events p' = enable_kv_cache_events p \<and> env_int_hashes p' = env_int_hashes p
     \<and> env_sha256 p' = env_sha256 p"

lemma same_config_refl [simp]: "same_config p p"
  by (simp add: same_config_def)

lemma same_config_trans: "same_config p q \<Longrightarrow> same_config q r \<Longrightarrow> same_config p r"
  by (simp add: same_config_def)

lemma same_config_real: "same_config p p' \<Longrightarrow> real_blocks p' = real_blocks p"
  by (simp add: same_config_def real_blocks_def)

lemma real_blocks_not_special: "b \<in> real_blocks p \<Longrightarrow> b \<noteq> Head \<and> b \<noteq> Tail \<and> b \<noteq> Blk 0"
  by (auto simp: real_blocks_def)

lemma finite_real_blocks [simp]: "finite (real_blocks p)"
  by (simp add: real_blocks_def)

lemma with_metrics_simps [simp]:
  "pool_queue (with_metrics f p) = pool_queue p" "num_gpu_blocks (with_metrics f p) = num_gpu_blocks p"
  "cached_block_hash_to_block (with_metrics f p) = cached_block_hash_to_block p"
  "null_block (with_metrics f p) = null_block p" "same_config q (with_metrics f p) = same_config q p"
  "enable_caching (with_metrics f p) = enable_caching p"
  "refc (with_metrics f p) = refc p" "bhash (with_metrics f p) = bhash p"
  by (simp_all add: with_metrics_def same_config_def refc_def bhash_def fun_eq_iff)

lemma set_heap_simps [simp]:
  "pool_heap (set_heap h p) = h" "num_gpu_blocks (set_heap h p) = num_gpu_blocks p"
  "cached_block_hash_to_block (set_heap h p) = cached_block_hash_to_block p"
  "null_block (set_heap h p) = null_block p" "same_config q (set_heap h p) = same_config q p"
  "enable_caching (set_heap h p) = enable_caching p"
  by (simp_all add: set_heap_def same_config_def)

lemma core_ok_numbered: "core_ok p \<Longrightarrow> numbered_heap (pool_heap p) (nat (num_gpu_blocks p))"
  by (auto simp: core_ok_def numbered_heap_def)

lemma core_ok_real: "core_ok p \<Longrightarrow> b \<in> real_blocks p \<Longrightarrow> \<not> is_null (pool_heap p b)"
  by (auto simp: core_ok_def real_blocks_def)

lemma core_ok_null: "core_ok p \<Longrightarrow> is_null (pool_heap p (Blk 0)) \<and> null_block p = Blk 0"
  by (auto simp: core_ok_def)

lemma core_ok_with_metrics [simp]: "core_ok (with_metrics f p) = core_ok p"
  by (simp add: core_ok_def real_blocks_def)

text \<open>The core only depends on the payload of the blocks other than their reference counts.\<close>

lemma core_ok_cong:
  assumes "core_ok p" "same_config p p'" "cached_block_hash_to_block p' = cached_block_hash_to_block p"
    "\<And>b. block_id (pool_heap p' b) = block_id (pool_heap p b)"
    "\<And>b. is_null (pool_heap p' b) = is_null (pool_heap p b)" "\<And>b. bhash p' b = bhash p b"
  shows "core_ok p'"
  using assms same_config_real[OF assms(2)] map_ok_heap_cong[of "pool_heap p" _ "pool_heap p'"]
  unfolding core_ok_def by (simp add: same_config_def)

lemma core_ok_queue_upd:
  assumes "core_ok p" "same_payload (pool_heap p) (fq_heap q)"
  shows "core_ok (p\<lparr>pool_queue := q\<rparr>)" "refc (p\<lparr>pool_queue := q\<rparr>) = refc p" "bhash (p\<lparr>pool_queue := q\<rparr>) = bhash p"
proof -
  show "refc (p\<lparr>pool_queue := q\<rparr>) = refc p" "bhash (p\<lparr>pool_queue := q\<rparr>) = bhash p"
    using same_payloadD[OF assms(2)] by (auto simp: refc_def bhash_def)
  then show "core_ok (p\<lparr>pool_queue := q\<rparr>)"
    using same_payloadD[OF assms(2)] by (intro core_ok_cong[OF assms(1)]) (auto simp: same_config_def)
qed

lemma core_ok_add_ref:
  assumes "core_ok p"
  shows "core_ok (set_heap (add_ref_cnt b d (pool_heap p)) p)"
    "refc (set_heap (add_ref_cnt b d (pool_heap p)) p) = (refc p)(b := refc p b + d)"
    "bhash (set_heap (add_ref_cnt b d (pool_heap p)) p) = bhash p"
  by (rule core_ok_cong[OF assms]) (auto simp: refc_def bhash_def add_ref_cnt_def)

lemma fq_rep_add_ref:
  "fq_rep (pool_queue (set_heap (add_ref_cnt b d (pool_heap p)) p)) xs = fq_rep (pool_queue p) xs"
  by (rule fq_rep_cong) (auto simp: set_heap_def add_ref_cnt_def nx_def pv_def fun_eq_iff)

lemma fq_rep_reset_hash:
  "fq_rep (pool_queue (set_heap (reset_hash b (pool_heap p)) p)) xs = fq_rep (pool_queue p) xs"
  by (rule fq_rep_cong) (auto simp: set_heap_def reset_hash_def nx_def pv_def fun_eq_iff)

subsection \<open>Eviction\<close>

lemma core_ok_blocks_at: "core_ok p \<Longrightarrow> blocks_at (cached_block_hash_to_block p) k = {b \<in> real_blocks p. bhash p b = Some k}"
  by (simp add: core_ok_def)

lemma real_blocks_subset: "real_blocks p \<subseteq> Blk ` {..<nat (num_gpu_blocks p)}"
  by (auto simp: real_blocks_def)

lemma core_ok_reset_hash:
  assumes ok: "core_ok p" and m: "map_ok (pool_heap p) m"
    and at: "\<And>k. blocks_at m k = blocks_at (cached_block_hash_to_block p) k - (if bhash p b = Some k then {b} else {})"
  shows "core_ok (set_heap (reset_hash b (pool_heap p)) (p\<lparr>cached_block_hash_to_block := m\<rparr>))"
    "refc (set_heap (reset_hash b (pool_heap p)) (p\<lparr>cached_block_hash_to_block := m\<rparr>)) = refc p"
    "bhash (set_heap (reset_hash b (pool_heap p)) (p\<lparr>cached_block_hash_to_block := m\<rparr>)) = (bhash p)(b := None)"
proof -
  let ?p = "set_heap (reset_hash b (pool_heap p)) (p\<lparr>cached_block_hash_to_block := m\<rparr>)"
  show r: "refc ?p = refc p" and h: "bhash ?p = (bhash p)(b := None)"
    by (auto simp: refc_def bhash_def reset_hash_def)
  have "map_ok (reset_hash b (pool_heap p)) m" by (rule map_ok_heap_cong[OF m]) (simp add: reset_hash_def)
  moreover have "real_blocks ?p = real_blocks p" by (simp add: real_blocks_def)
  moreover have "blocks_at m k = {c \<in> real_blocks p. ((bhash p)(b := None)) c = Some k}" for k
    unfolding at core_ok_blocks_at[OF ok] by auto
  ultimately show "core_ok ?p"
    using ok h unfolding core_ok_def by (auto simp: reset_hash_def)
qed

lemma event_queue_simps [simp]:
  "core_ok (p\<lparr>kv_event_queue := evs\<rparr>) = core_ok p" "refc (p\<lparr>kv_event_queue := evs\<rparr>) = refc p"
  "bhash (p\<lparr>kv_event_queue := evs\<rparr>) = bhash p" "same_config q (p\<lparr>kv_event_queue := evs\<rparr>) = same_config q p"
  by (simp_all add: core_ok_def refc_def bhash_def real_blocks_def same_config_def fun_eq_iff)

lemma maybe_evict_spec:
  assumes ok: "core_ok p" and b: "b \<in> insert (Blk 0) (real_blocks p)"
    and res: "maybe_evict_cached_block b p = (e, p')"
  shows "core_ok p'" "refc p' = refc p" "bhash p' = (bhash p)(b := None)" "e \<longleftrightarrow> bhash p b \<noteq> None"
    "same_config p p'" "fq_rep (pool_queue p') xs = fq_rep (pool_queue p) xs"
proof -
  let ?q = "with_metrics (on_block_evicted (block_id (pool_heap p b))) p"
  let ?m = "cached_block_hash_to_block p"
  have "core_ok p' \<and> refc p' = refc p \<and> bhash p' = (bhash p)(b := None) \<and> (e \<longleftrightarrow> bhash p b \<noteq> None)
    \<and> same_config p p' \<and> fq_rep (pool_queue p') xs = fq_rep (pool_queue p) xs"
  proof (cases "bhash p b")
    case None
    then have "e = False" "p' = ?q" using res by (simp_all add: maybe_evict_cached_block_def bhash_def)
    with ok None show ?thesis by auto
  next
    case (Some key)
    let ?pop = "map_pop (pool_heap p) key (block_id (pool_heap p b)) ?m"
    have bne: "b \<in> real_blocks p" using Some b ok by (auto simp: core_ok_def)
    then have mem: "b \<in> blocks_at ?m key" using Some by (simp add: core_ok_blocks_at[OF ok])
    have "insert b (blocks_at ?m key) \<subseteq> Blk ` {..<nat (num_gpu_blocks p)}"
      using bne real_blocks_subset[of p] by (auto simp: core_ok_blocks_at[OF ok])
    from numbered_heap.pop_blocks[OF core_ok_numbered[OF ok] _ this]
    have pop: "map_ok (pool_heap p) (snd ?pop)" "blocks_at (snd ?pop) = (blocks_at ?m)(key := blocks_at ?m key - {b})"
      "fst ?pop = Some b" using ok mem by (auto simp: core_ok_def)
    define p1 where "p1 = set_heap (reset_hash b (pool_heap ?q)) (?q\<lparr>cached_block_hash_to_block := snd ?pop\<rparr>)"
    have p1: "core_ok p1" "refc p1 = refc p" "bhash p1 = (bhash p)(b := None)"
      using core_ok_reset_hash[of ?q "snd ?pop" b] ok pop Some unfolding p1_def by auto
    have rep1: "fq_rep (pool_queue p1) xs = fq_rep (pool_queue p) xs"
      by (rule fq_rep_cong) (auto simp: p1_def set_heap_def reset_hash_def nx_def pv_def fun_eq_iff)
    define ev where "ev = (if enable_kv_cache_events p1 then [BlockRemoved
        [maybe_convert_block_hash (env_int_hashes p1) (get_block_hash key)] (get_group_id key)] else [])"
    have "maybe_evict_cached_block b p = (True, p1\<lparr>kv_event_queue := kv_event_queue p1 @ ev\<rparr>)"
      using Some pop(3) by (cases ?pop) (simp add: maybe_evict_cached_block_def bhash_def p1_def ev_def Let_def)
    then have "e" "p' = p1\<lparr>kv_event_queue := kv_event_queue p1 @ ev\<rparr>" using res by auto
    moreover have "same_config p p1" by (simp add: p1_def same_config_def with_metrics_def set_heap_def)
    ultimately show ?thesis using p1 rep1 Some by simp
  qed
  then show "core_ok p'" "refc p' = refc p" "bhash p' = (bhash p)(b := None)" "e \<longleftrightarrow> bhash p b \<noteq> None"
    "same_config p p'" "fq_rep (pool_queue p') xs = fq_rep (pool_queue p) xs" by blast+
qed

subsection \<open>Allocation\<close>

lemma alloc_block_spec:
  assumes ok: "core_ok p" and b: "b \<in> real_blocks p" "refc p b = 0"
  shows "\<exists>p'. alloc_block b p = Inr p' \<and> core_ok p' \<and> same_config p p'
    \<and> refc p' = (refc p)(b := 1) \<and> bhash p' = (if enable_caching p then (bhash p)(b := None) else bhash p)
    \<and> (\<forall>xs. fq_rep (pool_queue p') xs = fq_rep (pool_queue p) xs)"
proof -
  define p1 where "p1 = (if enable_caching p then snd (maybe_evict_cached_block b p) else p)"
  have b': "b \<in> insert (Blk 0) (real_blocks p)" using b by simp
  have p1: "core_ok p1" "same_config p p1" "refc p1 = refc p"
    "bhash p1 = (if enable_caching p then (bhash p)(b := None) else bhash p)"
    "\<And>xs. fq_rep (pool_queue p1) xs = fq_rep (pool_queue p) xs"
    using ok maybe_evict_spec[OF ok b' surjective_pairing] by (auto simp: p1_def)
  let ?p2 = "with_metrics (on_block_allocated (block_id (pool_heap p1 b)))
               (set_heap (add_ref_cnt b 1 (pool_heap p1)) p1)"
  have "alloc_block b p = Inr ?p2"
    using b(2) p1(3) by (simp add: alloc_block_def p1_def[symmetric] refc_def fun_eq_iff rassert_def)
  moreover have "core_ok ?p2" "refc ?p2 = (refc p)(b := 1)" "bhash ?p2 = bhash p1"
    using core_ok_add_ref[OF p1(1)] p1(3) b(2) by simp_all
  moreover have "same_config p ?p2" using p1(2) by simp
  moreover have "fq_rep (pool_queue ?p2) xs = fq_rep (pool_queue p) xs" for xs
    using p1(5) fq_rep_add_ref by simp
  ultimately show ?thesis using p1(4) by auto
qed

lemma alloc_blocks_spec:
  assumes "core_ok p" "distinct bs" "set bs \<subseteq> {b \<in> real_blocks p. refc p b = 0}"
  shows "\<exists>p'. rfold alloc_block bs p = Inr p' \<and> core_ok p' \<and> same_config p p'
    \<and> refc p' = (\<lambda>b. if b \<in> set bs then 1 else refc p b)
    \<and> bhash p' = (\<lambda>b. if enable_caching p \<and> b \<in> set bs then None else bhash p b)
    \<and> (\<forall>xs. fq_rep (pool_queue p') xs = fq_rep (pool_queue p) xs)"
  using assms
proof (induction bs arbitrary: p)
  case Nil
  then show ?case by (auto simp: fun_eq_iff)
next
  case (Cons b bs)
  obtain p1 where p1: "alloc_block b p = Inr p1" "core_ok p1" "same_config p p1" "refc p1 = (refc p)(b := 1)"
    "bhash p1 = (if enable_caching p then (bhash p)(b := None) else bhash p)"
    "\<forall>xs. fq_rep (pool_queue p1) xs = fq_rep (pool_queue p) xs"
    using alloc_block_spec[of p b] Cons.prems by auto
  have "set bs \<subseteq> {b \<in> real_blocks p1. refc p1 b = 0}"
    using Cons.prems p1(4) same_config_real[OF p1(3)] by auto
  then obtain p2 where p2: "rfold alloc_block bs p1 = Inr p2" "core_ok p2" "same_config p1 p2"
    "refc p2 = (\<lambda>b. if b \<in> set bs then 1 else refc p1 b)"
    "bhash p2 = (\<lambda>b. if enable_caching p1 \<and> b \<in> set bs then None else bhash p1 b)"
    "\<forall>xs. fq_rep (pool_queue p2) xs = fq_rep (pool_queue p1) xs"
    using Cons.IH[of p1] p1(2) Cons.prems(2) by auto
  have e: "enable_caching p1 = enable_caching p" using p1(3) by (simp add: same_config_def)
  have "refc p2 = (\<lambda>c. if c \<in> set (b # bs) then 1 else refc p c)"
    "bhash p2 = (\<lambda>c. if enable_caching p \<and> c \<in> set (b # bs) then None else bhash p c)"
    unfolding p2(4,5) p1(4,5) e by auto
  with p1(1,6) p2(1,2,6) same_config_trans[OF p1(3) p2(3)] show ?case by auto
qed

text \<open>
  Allocation takes the first \<open>n\<close> blocks of the free queue, gives each one reference and, when
  caching is on, drops their hashes.
\<close>

lemma get_new_blocks_spec:
  assumes rep: "pool_rep p xs" and n: "0 \<le> n" "n \<le> int (length xs)"
  shows "\<exists>p'. get_new_blocks n p = Inr (take (nat n) xs, p') \<and> pool_rep p' (drop (nat n) xs) \<and> same_config p p'
    \<and> refc p' = (\<lambda>b. if b \<in> set (take (nat n) xs) then 1 else refc p b)
    \<and> bhash p' = (\<lambda>b. if enable_caching p \<and> b \<in> set (take (nat n) xs) then None else bhash p b)"
proof -
  let ?bs = "take (nat n) xs" and ?ys = "drop (nat n) xs"
  have core: "core_ok p" and q: "fq_rep (pool_queue p) xs" using rep by (auto simp: pool_rep_def)
  have d: "distinct xs" using q by (rule fq_rep_distinct)
  obtain q1 where q1: "popleft_n n (pool_queue p) = Inr (?bs, q1)" "fq_rep q1 ?ys" "same_payload (pool_heap p) (fq_heap q1)"
    using fbq.pop_take[OF q n] by auto
  let ?p1 = "p\<lparr>pool_queue := q1\<rparr>"
  note p1 = core_ok_queue_upd[OF core q1(3)]
  have c1: "same_config p ?p1" by (simp add: same_config_def)
  have "set ?bs \<subseteq> {b \<in> real_blocks ?p1. refc ?p1 b = 0}"
    using rep p1(2) same_config_real[OF c1] by (auto simp: pool_rep_def dest!: in_set_takeD)
  then obtain p2 where p2: "rfold alloc_block ?bs ?p1 = Inr p2" "core_ok p2" "same_config ?p1 p2"
    "refc p2 = (\<lambda>b. if b \<in> set ?bs then 1 else refc ?p1 b)"
    "bhash p2 = (\<lambda>b. if enable_caching ?p1 \<and> b \<in> set ?bs then None else bhash ?p1 b)"
    "\<forall>xs. fq_rep (pool_queue p2) xs = fq_rep (pool_queue ?p1) xs"
    using alloc_blocks_spec[OF p1(1), of ?bs] d by auto
  have sp: "set xs = set ?bs \<union> set ?ys" "set ?bs \<inter> set ?ys = {}"
    using d by (simp_all flip: set_append add: set_take_disj_set_drop_if_distinct)
  have rb: "real_blocks p2 = real_blocks p" using same_config_real[OF same_config_trans[OF c1 p2(3)]] .
  have zero: "set xs = {b \<in> real_blocks p. refc p b = 0}" and nn: "\<forall>b \<in> real_blocks p. 0 \<le> refc p b"
    using rep by (auto simp: pool_rep_def)
  have "set ?ys = {b \<in> real_blocks p2. refc p2 b = 0}"
    using sp zero unfolding rb p2(4) p1(2) by auto
  then have "pool_rep p2 ?ys"
    using p2(2,6) q1(2) nn unfolding pool_rep_def rb p2(4) p1(2) by auto
  moreover have "get_new_blocks n p = Inr (?bs, p2)"
    using n(2) fq_rep_num[OF q] q1(1) p2(1) by (simp add: get_new_blocks_def get_num_free_blocks_def)
  ultimately show ?thesis
    using p2(4,5) p1(2,3) same_config_trans[OF c1 p2(3)] by auto
qed

lemma get_new_blocks_too_many:
  "pool_rep p xs \<Longrightarrow> int (length xs) < n \<Longrightarrow> get_new_blocks n p = Inl ValueError"
  by (auto simp: get_new_blocks_def get_num_free_blocks_def pool_rep_def fq_rep_num)

lemma get_num_free_blocks_eq: "pool_rep p xs \<Longrightarrow> get_num_free_blocks p = int (length xs)"
  by (auto simp: get_num_free_blocks_def pool_rep_def fq_rep_num)

subsection \<open>Touching blocks\<close>

lemma count_list_distinct: "distinct xs \<Longrightarrow> count_list xs b = (if b \<in> set xs then 1 else 0)"
  by (induction xs) auto

lemma touch_block_spec:
  assumes rep: "pool_rep p xs" and b: "b \<in> insert (Blk 0) (real_blocks p)"
  shows "\<exists>p'. touch_block b p = Inr p' \<and> pool_rep p' (remove1 b xs) \<and> same_config p p'
    \<and> refc p' = (refc p)(b := refc p b + 1) \<and> bhash p' = bhash p"
proof -
  have core: "core_ok p" and q: "fq_rep (pool_queue p) xs" and
    zero: "set xs = {b \<in> real_blocks p. refc p b = 0}" and nn: "\<forall>b \<in> real_blocks p. 0 \<le> refc p b"
    using rep by (auto simp: pool_rep_def)
  have null: "is_null (pool_heap p b) \<longleftrightarrow> b = Blk 0"
    using b core_ok_null[OF core] core_ok_real[OF core] real_blocks_not_special by blast
  have free: "ref_cnt (pool_heap p b) = 0 \<and> \<not> is_null (pool_heap p b) \<longleftrightarrow> b \<in> set xs"
    unfolding null zero using b real_blocks_not_special by (auto simp: refc_def)
  obtain q1 where q1: "(if b \<in> set xs then fq_remove b (pool_queue p) else Inr (pool_queue p)) = Inr q1"
    "fq_rep q1 (remove1 b xs)" "same_payload (pool_heap p) (fq_heap q1)"
    using fbq.rem_result[OF q, of b] q by (cases "b \<in> set xs") (auto simp: remove1_idem)
  let ?p1 = "p\<lparr>pool_queue := q1\<rparr>"
  note p1 = core_ok_queue_upd[OF core q1(3)]
  let ?p2 = "with_metrics (on_block_accessed (block_id (pool_heap ?p1 b)))
                (set_heap (add_ref_cnt b 1 (pool_heap ?p1)) ?p1)"
  have "touch_block b p = Inr ?p2"
    using q1(1) unfolding touch_block_def free by (simp add: Let_def)
  moreover have c: "same_config p ?p2" by (simp, simp add: same_config_def)
  moreover have r: "refc ?p2 = (refc p)(b := refc p b + 1)" "bhash ?p2 = bhash p" "core_ok ?p2"
    using core_ok_add_ref[OF p1(1), of b 1] p1(2,3) by (auto simp: fun_eq_iff)
  moreover have "fq_rep (pool_queue ?p2) (remove1 b xs)" using q1(2) fq_rep_add_ref[of b 1 ?p1] by simp
  moreover have "set (remove1 b xs) = {c \<in> real_blocks p. refc ?p2 c = 0}"
  proof -
    have "set (remove1 b xs) = set xs - {b}" using fq_rep_distinct[OF q] by (rule set_remove1_eq)
    then show ?thesis unfolding r zero using b nn by auto
  qed
  ultimately show ?thesis
    using nn same_config_real[OF c] unfolding pool_rep_def by auto
qed

lemma touch_spec:
  assumes "pool_rep p xs" "set bs \<subseteq> insert (Blk 0) (real_blocks p)"
  shows "\<exists>p'. touch bs p = Inr p' \<and> pool_rep p' (filter (\<lambda>b. b \<notin> set bs) xs) \<and> same_config p p'
    \<and> refc p' = (\<lambda>b. refc p b + int (count_list bs b)) \<and> bhash p' = bhash p"
  using assms
proof (induction bs arbitrary: p xs)
  case Nil
  then show ?case by (simp add: touch_def)
next
  case (Cons b bs)
  obtain p1 where p1: "touch_block b p = Inr p1" "pool_rep p1 (remove1 b xs)" "same_config p p1"
    "refc p1 = (refc p)(b := refc p b + 1)" "bhash p1 = bhash p"
    using touch_block_spec[OF Cons.prems(1), of b] Cons.prems(2) by auto
  obtain p2 where p2: "touch bs p1 = Inr p2" "pool_rep p2 (filter (\<lambda>c. c \<notin> set bs) (remove1 b xs))"
    "same_config p1 p2" "refc p2 = (\<lambda>c. refc p1 c + int (count_list bs c))" "bhash p2 = bhash p1"
    using Cons.IH[OF p1(2)] Cons.prems(2) same_config_real[OF p1(3)] by auto
  have "distinct xs" using Cons.prems(1) by (auto simp: pool_rep_def dest: fq_rep_distinct)
  then have "filter (\<lambda>c. c \<notin> set bs) (remove1 b xs) = filter (\<lambda>c. c \<notin> set (b # bs)) xs"
    by (simp add: distinct_remove1_removeAll removeAll_filter_not_eq conj_commute) (metis (no_types, lifting))
  moreover have "refc p2 = (\<lambda>c. refc p c + int (count_list (b # bs) c))"
    unfolding p2(4) p1(4) by auto
  ultimately show ?case
    using p1(1,5) p2 same_config_trans[OF p1(3) p2(3)] by (auto simp: touch_def)
qed

subsection \<open>Freeing blocks\<close>

lemma fold_sub_ref:
  "fold (\<lambda>b h. add_ref_cnt b (- 1) h) bs h
     = (\<lambda>c. (h c)\<lparr>ref_cnt := ref_cnt (h c) - int (count_list bs c)\<rparr>)"
  by (induction bs arbitrary: h) (auto simp: add_ref_cnt_def fun_eq_iff)

lemma free_blocks_spec:
  assumes rep: "pool_rep p xs"
    and bs: "\<And>b. b \<in> set bs \<Longrightarrow> b = Blk 0 \<or> b \<in> real_blocks p \<and> 1 \<le> refc p b"
    and d: "distinct (filter (\<lambda>b. b \<noteq> Blk 0) bs)"
  defines "freed \<equiv> filter (\<lambda>b. b \<noteq> Blk 0 \<and> refc p b = 1) bs"
  shows "\<exists>p'. free_blocks bs prepend p = Inr p' \<and> pool_rep p' (if prepend then freed @ xs else xs @ freed)
    \<and> same_config p p' \<and> refc p' = (\<lambda>b. refc p b - int (count_list bs b)) \<and> bhash p' = bhash p"
proof -
  have core: "core_ok p" and q: "fq_rep (pool_queue p) xs" and
    zero: "set xs = {b \<in> real_blocks p. refc p b = 0}" and nn: "\<forall>b \<in> real_blocks p. 0 \<le> refc p b"
    using rep by (auto simp: pool_rep_def)
  define h where "h = fold (\<lambda>b h. add_ref_cnt b (- 1) h) bs (pool_heap p)"
  have hv: "h c = (pool_heap p c)\<lparr>ref_cnt := refc p c - int (count_list bs c)\<rparr>" for c
    unfolding h_def fold_sub_ref by (simp add: refc_def)
  have one: "count_list bs b = 1" if "b \<in> set bs" "b \<noteq> Blk 0" for b
  proof -
    have "count_list bs b = count_list (filter (\<lambda>b. b \<noteq> Blk 0) bs) b"
      using that(2) by (induction bs) auto
    then show ?thesis using that d by (simp add: count_list_distinct)
  qed
  have fr: "filter (\<lambda>b. ref_cnt (h b) = 0 \<and> \<not> is_null (h b)) bs = freed"
    unfolding freed_def
  proof (rule filter_cong[OF refl])
    fix b assume m: "b \<in> set bs"
    show "(ref_cnt (h b) = 0 \<and> \<not> is_null (h b)) = (b \<noteq> Blk 0 \<and> refc p b = 1)"
      using bs[OF m] one[OF m] core_ok_null[OF core] core_ok_real[OF core, of b] real_blocks_not_special[of b p]
      by (auto simp: hv)
  qed
  let ?q = "(pool_queue p)\<lparr>fq_heap := h\<rparr>"
  have q': "fq_rep ?q xs"
    using q by (subst fq_rep_cong[of _ "pool_queue p"]) (auto simp: hv nx_def pv_def fun_eq_iff)
  have fd: "distinct freed" using distinct_filter[OF d, of "\<lambda>b. refc p b = 1"] by (simp add: freed_def conj_commute)
  have fx: "set freed \<inter> set xs = {}" unfolding zero by (auto simp: freed_def)
  have fs: "\<forall>b \<in> set freed. b \<noteq> Head \<and> b \<noteq> Tail"
    using bs real_blocks_not_special by (fastforce simp: freed_def)
  obtain q1 where q1: "(if prepend then prepend_n freed ?q else append_n freed ?q) = Inr q1"
    "fq_rep q1 (if prepend then freed @ xs else xs @ freed)" "same_payload h (fq_heap q1)"
    using fbq.prep_law[OF q' fd fx fs] fbq.app_law[OF q' fd fx fs] by (cases prepend) auto
  let ?p1 = "p\<lparr>pool_queue := q1\<rparr>"
  have c: "same_config p ?p1" by (simp add: same_config_def)
  have r: "refc ?p1 = (\<lambda>b. refc p b - int (count_list bs b))" "bhash ?p1 = bhash p"
    using same_payloadD[OF q1(3)] by (auto simp: refc_def bhash_def hv)
  have "core_ok ?p1"
    using same_payloadD[OF q1(3)] r(2) by (intro core_ok_cong[OF core c]) (auto simp: hv)
  moreover have "set (if prepend then freed @ xs else xs @ freed) = {b \<in> real_blocks p. refc ?p1 b = 0}"
  proof -
    have "b \<in> set freed \<union> set xs \<longleftrightarrow> b \<in> real_blocks p \<and> refc p b - int (count_list bs b) = 0" for b
    proof (cases "b \<in> set bs")
      case True
      then show ?thesis using bs[OF True] one[OF True] real_blocks_not_special[of b p]
        by (auto simp: freed_def zero)
    next
      case False
      then show ?thesis by (auto simp: freed_def zero)
    qed
    then show ?thesis unfolding r by auto
  qed
  moreover have "\<forall>b \<in> real_blocks p. 0 \<le> refc ?p1 b"
  proof
    fix b assume b: "b \<in> real_blocks p"
    then show "0 \<le> refc ?p1 b"
      using bs[of b] one[of b] nn real_blocks_not_special[OF b] unfolding r by (cases "b \<in> set bs") auto
  qed
  moreover have "free_blocks bs prepend p = Inr ?p1"
    using q1(1) unfolding free_blocks_def Let_def h_def[symmetric] fr by simp
  ultimately show ?thesis
    using q1(2) r c same_config_real[OF c] unfolding pool_rep_def by auto
qed

subsection \<open>Evicting by id and resetting\<close>

lemma evict_blocks_spec:
  assumes "pool_rep p xs" "\<forall>i \<in> set ids. 0 \<le> i \<and> i < num_gpu_blocks p"
  shows "\<exists>p'. evict_blocks ids p = Inr p' \<and> pool_rep p' xs \<and> same_config p p' \<and> refc p' = refc p
    \<and> bhash p' = (\<lambda>b. if b \<in> (Blk \<circ> nat) ` set ids then None else bhash p b)"
  using assms
proof (induction ids arbitrary: p)
  case Nil
  then show ?case by (simp add: evict_blocks_def)
next
  case (Cons i ids)
  obtain e p1 where ev: "maybe_evict_cached_block (Blk (nat i)) p = (e, p1)" by fastforce
  have core: "core_ok p" and b: "Blk (nat i) \<in> insert (Blk 0) (real_blocks p)"
    using Cons.prems by (auto simp: pool_rep_def real_blocks_def)
  note p1 = maybe_evict_spec[OF core b ev]
  have c: "num_gpu_blocks p1 = num_gpu_blocks p" using p1(5) by (simp add: same_config_def)
  have "pool_rep p1 xs"
    using Cons.prems(1) p1 same_config_real[OF p1(5)] unfolding pool_rep_def by simp
  then obtain p2 where p2: "evict_blocks ids p1 = Inr p2" "pool_rep p2 xs" "same_config p1 p2" "refc p2 = refc p1"
    "bhash p2 = (\<lambda>b. if b \<in> (Blk \<circ> nat) ` set ids then None else bhash p1 b)"
    using Cons.IH[of p1] Cons.prems(2) c by auto
  have "evict_block_id i p = Inr p1"
    using Cons.prems(2) ev by (simp add: evict_block_id_def rassert_def py_index_nonneg)
  then have "evict_blocks (i # ids) p = Inr p2" using p2(1) by (simp add: evict_blocks_def)
  moreover have "bhash p2 = (\<lambda>b. if b \<in> (Blk \<circ> nat) ` set (i # ids) then None else bhash p b)"
    unfolding p2(5) p1(3) by auto
  ultimately show ?case using p2 p1(2) same_config_trans[OF p1(5) p2(3)] by auto
qed

lemma fold_reset_hash:
  "fold reset_hash bs h = (\<lambda>b. if b \<in> set bs then (h b)\<lparr>block_hash := None\<rparr> else h b)"
  by (induction bs arbitrary: h) (auto simp: reset_hash_def fun_eq_iff)

text \<open>The reset succeeds exactly when no block but the null block is in use.\<close>

lemma pool_rep_all_free_iff:
  assumes "pool_rep p xs"
  shows "num_gpu_blocks p - get_num_free_blocks p = 1 \<longleftrightarrow> (\<forall>b \<in> real_blocks p. refc p b = 0)"
proof -
  let ?n = "nat (num_gpu_blocks p)"
  have n: "0 < num_gpu_blocks p" using assms by (auto simp: pool_rep_def core_ok_def)
  have cR: "card (real_blocks p) = ?n - 1"
    by (simp add: real_blocks_def card_image inj_on_def)
  have xs: "distinct xs" "set xs = {b \<in> real_blocks p. refc p b = 0}"
    using assms by (auto simp: pool_rep_def dest: fq_rep_distinct)
  have "num_gpu_blocks p - get_num_free_blocks p = 1 \<longleftrightarrow> length xs = ?n - 1"
    using n get_num_free_blocks_eq[OF assms] by linarith
  also have "\<dots> \<longleftrightarrow> card (set xs) = card (real_blocks p)" using cR xs(1) by (simp add: distinct_card)
  also have "\<dots> \<longleftrightarrow> set xs = real_blocks p"
    using xs(2) by (metis (no_types, lifting) card_subset_eq finite_real_blocks mem_Collect_eq subsetI)
  also have "\<dots> \<longleftrightarrow> (\<forall>b \<in> real_blocks p. refc p b = 0)" using xs(2) by auto
  finally show ?thesis .
qed

lemma reset_prefix_cache_spec:
  assumes rep: "pool_rep p xs" and res: "reset_prefix_cache p = (ok, p')"
  shows "ok \<longleftrightarrow> (\<forall>b \<in> real_blocks p. refc p b = 0)" "pool_rep p' xs" "refc p' = refc p" "same_config p p'"
    "\<not> ok \<Longrightarrow> p' = p" "ok \<Longrightarrow> b \<in> real_blocks p \<Longrightarrow> bhash p' b = None"
proof -
  show okk: "ok \<longleftrightarrow> (\<forall>b \<in> real_blocks p. refc p b = 0)"
    using res pool_rep_all_free_iff[OF rep] by (auto simp: reset_prefix_cache_def Let_def split: if_splits)
  let ?all = "map Blk [0..<nat (num_gpu_blocks p)]"
  let ?h = "fold reset_hash ?all (pool_heap p)"
  let ?p1 = "with_metrics metrics_reset (set_heap ?h (p\<lparr>cached_block_hash_to_block := empty_block_map\<rparr>))"
  have all: "real_blocks p \<subseteq> set ?all" "Blk 0 \<in> set ?all"
    using rep by (auto simp: real_blocks_def pool_rep_def core_ok_def)
  have p1: "refc ?p1 = refc p" "bhash ?p1 = (\<lambda>b. if b \<in> set ?all then None else bhash p b)"
    "same_config p ?p1" "real_blocks ?p1 = real_blocks p"
    by (auto simp: refc_def bhash_def fold_reset_hash fun_eq_iff real_blocks_def)
      (simp add: same_config_def)
  have "core_ok ?p1"
    using rep all p1(2,4) unfolding pool_rep_def core_ok_def
    by (auto simp: map_ok_empty fold_reset_hash)
  moreover have "fq_rep (pool_queue ?p1) xs"
    using rep by (subst fq_rep_cong[of _ "pool_queue p"])
      (auto simp: pool_rep_def set_heap_def fold_reset_hash nx_def pv_def fun_eq_iff)
  ultimately have rep1: "pool_rep ?p1 xs" using rep p1 unfolding pool_rep_def by simp
  have cases: "(\<not> ok \<and> p' = p) \<or> (ok \<and> (\<exists>evs. p' = ?p1\<lparr>kv_event_queue := evs\<rparr>))"
    using res by (auto simp: reset_prefix_cache_def Let_def split: if_splits
        intro: exI[of _ "kv_event_queue ?p1"])
  have ev: "pool_rep (q\<lparr>kv_event_queue := evs\<rparr>) xs = pool_rep q xs" for q evs
    by (simp add: pool_rep_def real_blocks_def)
  show "pool_rep p' xs" "refc p' = refc p" "same_config p p'"
    using cases rep rep1 p1(1,3) ev by (auto simp only: event_queue_simps same_config_refl)
  show "\<not> ok \<Longrightarrow> p' = p" using cases by blast
  show "ok \<Longrightarrow> b \<in> real_blocks p \<Longrightarrow> bhash p' b = None"
    using cases all p1(2) by (auto simp only: event_queue_simps) auto
qed

subsection \<open>Registering full blocks\<close>

lemma register_block_step:
  assumes ok: "core_ok p" and b: "b \<in> insert (Blk 0) (real_blocks p)"
    and res: "register_block hs gid bm (i, b) (p, acc) = Inr (p', acc')"
  shows "core_ok p' \<and> same_config p p' \<and> refc p' = refc p \<and> (\<forall>xs. fq_rep (pool_queue p') xs = fq_rep (pool_queue p) xs)
    \<and> (if skip_block p bm i b then bhash p' = bhash p
       else bhash p b = None \<and> i < length hs
            \<and> (\<exists>key. make_block_hash_with_group_id (hs ! i) gid = Inr key \<and> bhash p' = (bhash p)(b := Some key)))"
proof (cases "skip_block p bm i b")
  case True
  then show ?thesis using ok res by (simp add: register_block_def)
next
  case False
  obtain h key hp where st: "bhash p b = None" "py_index hs (int i) = Inr h"
    "make_block_hash_with_group_id h gid = Inr key" "set_block_hash b key (pool_heap p) = Inr hp"
    "p' = (set_heap hp p)\<lparr>cached_block_hash_to_block := map_insert hp key b (cached_block_hash_to_block p)\<rparr>"
    using res False by (auto simp: register_block_def result_simps bhash_def)
  have h: "i < length hs" "h = hs ! i" using st(2) by (auto simp: py_index_def Let_def split: if_splits)
  have hp: "hp = (pool_heap p)(b := (pool_heap p b)\<lparr>block_hash := Some key\<rparr>)"
    using st(4) by (auto simp: set_block_hash_def split: if_splits)
  have bne: "b \<in> real_blocks p" using b False core_ok_null[OF ok] by (auto simp: skip_block_def)
  let ?m = "cached_block_hash_to_block p"
  have ids: "block_id (hp c) = block_id (pool_heap p c)" "is_null (hp c) = is_null (pool_heap p c)" for c
    by (simp_all add: hp)
  have nh: "numbered_heap hp (nat (num_gpu_blocks p))"
    using core_ok_numbered[OF ok] ids by (simp add: numbered_heap_def)
  have "map_ok hp ?m" using ok ids by (auto simp: core_ok_def intro: map_ok_heap_cong)
  moreover have "insert b (blocks_at ?m key) \<subseteq> Blk ` {..<nat (num_gpu_blocks p)}"
    using bne real_blocks_subset[of p] by (auto simp: core_ok_blocks_at[OF ok])
  ultimately have ins: "map_ok hp (map_insert hp key b ?m)"
    "blocks_at (map_insert hp key b ?m) = (blocks_at ?m)(key := insert b (blocks_at ?m key))"
    using numbered_heap.insert_blocks[OF nh] by blast+
  have r: "refc p' = refc p" "bhash p' = (bhash p)(b := Some key)" "real_blocks p' = real_blocks p"
    "pool_heap p' = hp" "num_gpu_blocks p' = num_gpu_blocks p" "null_block p' = null_block p"
    by (auto simp: st(5) refc_def bhash_def hp real_blocks_def)
  have "blocks_at (map_insert hp key b ?m) k = {c \<in> real_blocks p. ((bhash p)(b := Some key)) c = Some k}" for k
    unfolding ins(2) using st(1) bne by (auto simp: core_ok_blocks_at[OF ok])
  moreover have "b \<noteq> Blk 0" using real_blocks_not_special[OF bne] by simp
  ultimately have "core_ok p'"
    using ok ins(1) ids unfolding core_ok_def r by (simp add: st(5))
  moreover have "same_config p p'" by (simp add: st(5) same_config_def set_heap_def)
  moreover have "fq_rep (pool_queue p') xs = fq_rep (pool_queue p) xs" for xs
    by (rule fq_rep_cong) (auto simp: st(5) set_heap_def hp nx_def pv_def fun_eq_iff)
  ultimately show ?thesis using False st(1,3) h r by auto
qed

text \<open>
  What registering does to the hashes: every block that is neither null nor masked gets the
  key of its hash, no other block is touched, and no block had a hash before.
\<close>

definition registered :: "block_pool \<Rightarrow> bytes list \<Rightarrow> int \<Rightarrow> bool list option \<Rightarrow> nat \<Rightarrow> bref list \<Rightarrow> block_pool \<Rightarrow> bool" where
  "registered p hs gid bm k bs p' \<longleftrightarrow>
     (\<forall>b. b \<notin> set bs \<longrightarrow> bhash p' b = bhash p b)
     \<and> (\<forall>j < length bs. if skip_block p bm (k + j) (bs ! j) then True
          else bhash p (bs ! j) = None \<and> k + j < length hs
               \<and> (\<exists>key. make_block_hash_with_group_id (hs ! (k + j)) gid = Inr key
                      \<and> bhash p' (bs ! j) = Some key))
     \<and> (\<forall>b. bhash p b \<noteq> None \<longrightarrow> bhash p' b = bhash p b)"

lemma skip_block_same: "same_config p p' \<Longrightarrow> core_ok p \<Longrightarrow> core_ok p' \<Longrightarrow> b \<in> insert (Blk 0) (real_blocks p) \<Longrightarrow>
   skip_block p' bm i b = skip_block p bm i b"
  using core_ok_null core_ok_real same_config_real by (fastforce simp: skip_block_def)

lemma register_blocks_spec:
  assumes "core_ok p" "set bs \<subseteq> insert (Blk 0) (real_blocks p)"
    "rfold (register_block hs gid bm) (enumerate k bs) (p, acc) = Inr (p', acc')"
  shows "core_ok p' \<and> same_config p p' \<and> refc p' = refc p
    \<and> (\<forall>xs. fq_rep (pool_queue p') xs = fq_rep (pool_queue p) xs) \<and> registered p hs gid bm k bs p'"
  using assms
proof (induction bs arbitrary: k p acc)
  case Nil
  then show ?case by (simp add: registered_def)
next
  case (Cons b bs)
  obtain p1 acc1 where s: "register_block hs gid bm (k, b) (p, acc) = Inr (p1, acc1)"
    "rfold (register_block hs gid bm) (enumerate (Suc k) bs) (p1, acc1) = Inr (p', acc')"
    using Cons.prems(3) by (auto simp: result_simps)
  have b: "b \<in> insert (Blk 0) (real_blocks p)" using Cons.prems(2) by simp
  note p1 = register_block_step[OF Cons.prems(1) b s(1)]
  have ih: "core_ok p'" "same_config p1 p'" "refc p' = refc p1"
    "\<forall>xs. fq_rep (pool_queue p') xs = fq_rep (pool_queue p1) xs" "registered p1 hs gid bm (Suc k) bs p'"
    using Cons.IH[OF _ _ s(2)] p1 Cons.prems(2) same_config_real[of p p1] by auto
  have skip: "skip_block p1 bm i c = skip_block p bm i c" if "c \<in> set bs" for c i
    using skip_block_same[of p p1 c bm i] p1 Cons.prems(1,2) that by auto
  have mono: "\<forall>c. bhash p c \<noteq> None \<longrightarrow> bhash p1 c = bhash p c"
    using p1 by (auto split: if_splits)
  have "registered p hs gid bm k (b # bs) p'"
    unfolding registered_def
  proof (intro conjI allI impI)
    fix c assume "c \<notin> set (b # bs)"
    then show "bhash p' c = bhash p c" using ih(5) p1 by (auto simp: registered_def split: if_splits)
  next
    fix c assume "bhash p c \<noteq> None"
    then show "bhash p' c = bhash p c" using ih(5) mono by (auto simp: registered_def)
  next
    fix j assume j: "j < length (b # bs)"
    show "if skip_block p bm (k + j) ((b # bs) ! j) then True
          else bhash p ((b # bs) ! j) = None \<and> k + j < length hs
               \<and> (\<exists>key. make_block_hash_with_group_id (hs ! (k + j)) gid = Inr key
                      \<and> bhash p' ((b # bs) ! j) = Some key)"
    proof (cases j)
      case 0
      then show ?thesis using p1 ih(5) by (auto simp: registered_def split: if_splits)
    next
      case (Suc j')
      then have "bs ! j' \<in> set bs" using j by simp
      then show ?thesis using ih(5) j Suc skip mono
        by (auto simp: registered_def split: if_splits) (metis option.exhaust)+
    qed
  qed
  with p1 ih same_config_trans[of p p1 p'] show ?case by auto
qed

lemma generate_extra_keys_frame:
  "generate_block_hash_extra_keys sha r a b c = Inr (ek, c', r') \<Longrightarrow> same_but_cache r r'"
  by (auto simp: generate_block_hash_extra_keys_def gen_prompt_embeds_extra_hash_keys_def result_simps
      same_but_cache_def[symmetric] Let_def split: option.splits) (auto simp: same_but_cache_def)

lemma extra_keys_fold_frame:
  assumes "rfold (extra_keys_step p blocks nc bs bm) is (r, c, acc) = Inr (r', c', acc')"
  shows "same_but_cache r r'"
proof -
  have "same_but_cache r (fst (r', c', acc'))"
    by (rule rfold_invariant[OF assms, of "\<lambda>s. same_but_cache r (fst s)"])
      (auto simp: extra_keys_step_def result_simps split: if_splits
        intro: same_but_cache_trans dest!: generate_extra_keys_frame)
  then show ?thesis by simp
qed

text \<open>The list of hashes the registered blocks take, at the granularity of the block size.\<close>

definition group_hashes :: "request \<Rightarrow> int \<Rightarrow> int \<Rightarrow> block_hash_list" where
  "group_hashes r hbs bs = (if bs = hbs then PlainHashes (block_hashes r) else ScaledHashes (block_hashes r) (bs div hbs))"

lemma cache_full_blocks_spec:
  assumes rep: "pool_rep p xs" and bl: "set blocks \<subseteq> insert (Blk 0) (real_blocks p)"
    and res: "cache_full_blocks r blocks nc nf bs gid bm p = Inr (r', p')"
  shows "pool_rep p' xs \<and> refc p' = refc p \<and> same_config p p' \<and> same_but_cache r r'
    \<and> (\<forall>b. bhash p b \<noteq> None \<longrightarrow> bhash p' b = bhash p b)
    \<and> (nc < nf \<longrightarrow> registered p (bhl_from (group_hashes r (hash_block_size p) bs) nc) gid bm 0 (py_slice blocks nc nf) p')"
proof (cases "nc < nf")
  case False
  then show ?thesis using rep res by (simp add: cache_full_blocks_def)
next
  case True
  have core: "core_ok p" using rep by (simp add: pool_rep_def)
  let ?bhs = "group_hashes r (hash_block_size p) bs"
  obtain bhs p1 acc where hl: "(if bs = hash_block_size p then Inr (PlainHashes (block_hashes r))
               else if hash_block_size p = 0 then Inl ZeroDivisionError
               else rbind (rassert (bs mod hash_block_size p = 0)) (\<lambda>_.
                      block_hash_list_with_block_size (block_hashes r) (hash_block_size p) bs)) = Inr bhs"
    and f0: "rfold (register_block (bhl_from bhs nc) gid bm) (enumerate 0 (py_slice blocks nc nf)) (p, []) = Inr (p1, acc)"
    and ev: "(if enable_kv_cache_events p1 then
            rbind (block_stored_event p1 r blocks bhs acc nc nf bs gid bm)
              (\<lambda>(r', ev). Inr (r', p1\<lparr>kv_event_queue := kv_event_queue p1 @ [ev]\<rparr>))
          else Inr (r, p1)) = Inr (r', p')"
    using res True unfolding cache_full_blocks_def Let_def rbind_eq_Inr_iff by (simp add: rbind_eq_Inr_iff) blast
  have bhs: "bhs = ?bhs"
    using hl by (auto simp: group_hashes_def block_hash_list_with_block_size_def result_simps split: if_splits)
  note f = f0[unfolded bhs]
  have c: "(r', p') = (r, p1) \<or> (\<exists>e. block_stored_event p1 r blocks ?bhs acc nc nf bs gid bm = Inr (r', e)
        \<and> p' = p1\<lparr>kv_event_queue := kv_event_queue p1 @ [e]\<rparr>)"
  proof (cases "enable_kv_cache_events p1")
    case True
    then have "rbind (block_stored_event p1 r blocks ?bhs acc nc nf bs gid bm)
        (\<lambda>(r', e). Inr (r', p1\<lparr>kv_event_queue := kv_event_queue p1 @ [e]\<rparr>)) = Inr (r', p')"
      using ev bhs by (simp only: if_True)
    then obtain re where "block_stored_event p1 r blocks ?bhs acc nc nf bs gid bm = Inr re"
      "(case re of (r', e) \<Rightarrow> Inr (r', p1\<lparr>kv_event_queue := kv_event_queue p1 @ [e]\<rparr>)) = (Inr (r', p') :: (request \<times> block_pool) result)"
      unfolding rbind_eq_Inr_iff by blast
    then show ?thesis by (cases re) (simp only: prod.case sum.inject prod.inject, blast)
  next
    case False
    then show ?thesis using ev by simp
  qed
  have sl: "set (py_slice blocks nc nf) \<subseteq> insert (Blk 0) (real_blocks p)"
    by (rule subset_trans[OF set_py_slice_subset bl])
  note p1 = register_blocks_spec[OF core sl f]
  have rep1: "pool_rep p1 xs"
    using rep p1 same_config_real[of p p1] unfolding pool_rep_def by auto
  have rep1': "pool_rep (p1\<lparr>kv_event_queue := evs\<rparr>) xs" for evs
    using rep1 by (simp add: pool_rep_def real_blocks_def)
  have reg: "registered p hs gid bm 0 bs' p' = registered p hs gid bm 0 bs' p1" for hs bs'
    using c by (auto simp: registered_def)
  have "same_but_cache r r'"
    using c by (auto simp: block_stored_event_def result_simps dest!: extra_keys_fold_frame split: if_splits)
  with c rep1 rep1' p1 show ?thesis unfolding reg by (auto simp: registered_def)
qed

subsection \<open>Lookup\<close>

lemma get_cached_block_spec:
  assumes "core_ok p" "get_cached_block p h gs = Inr (Some bs)"
  shows "list_all2 (\<lambda>g b. b \<in> real_blocks p \<and> (\<exists>key. make_block_hash_with_group_id h g = Inr key \<and> bhash p b = Some key)) gs bs"
  using assms(2)
proof (induction gs arbitrary: bs)
  case Nil
  then show ?case by simp
next
  case (Cons g gs)
  obtain key b bs' where k: "make_block_hash_with_group_id h g = Inr key"
    "get_one_block key (cached_block_hash_to_block p) = Some b" "get_cached_block p h gs = Inr (Some bs')" "bs = b # bs'"
    using Cons.prems by (auto simp: result_simps split: option.splits)
  have "b \<in> blocks_at (cached_block_hash_to_block p) key"
    using get_one_block_mem[OF _ k(2)] assms(1) by (auto simp: core_ok_def)
  then show ?case using k Cons.IH[OF k(3)] by (auto simp: core_ok_blocks_at[OF assms(1)])
qed

lemma get_cached_block_found:
  assumes "core_ok p" "b \<in> real_blocks p" "make_block_hash_with_group_id h g = Inr key" "bhash p b = Some key"
  shows "\<exists>c. get_cached_block p h [g] = Inr (Some [c]) \<and> c \<in> real_blocks p \<and> bhash p c = Some key"
proof -
  have "b \<in> blocks_at (cached_block_hash_to_block p) key" using assms by (simp add: core_ok_blocks_at)
  then obtain c where c: "get_one_block key (cached_block_hash_to_block p) = Some c"
    using get_one_block_none[of "pool_heap p"] assms(1) by (fastforce simp: core_ok_def)
  then have "get_cached_block p h [g] = Inr (Some [c])" using assms(3) by simp
  with get_cached_block_spec[OF assms(1) this] assms(3) show ?thesis by auto
qed

lemma get_cached_block_ok:
  "\<forall>g \<in> set gs. 0 \<le> g \<and> g < 2 ^ 32 \<Longrightarrow> \<exists>res. get_cached_block p h gs = Inr res"
proof (induction gs)
  case (Cons g gs)
  then obtain key where "make_block_hash_with_group_id h g = Inr key" using group_key_ok[of g h] by auto
  with Cons show ?case by (auto split: option.splits)
qed simp

subsection \<open>Construction\<close>

lemma block_pool_init_spec:
  assumes n: "0 < n"
  shows "\<exists>p. block_pool_init n caching hbs evs mc ints sha = Inr p \<and> pool_rep p (map Blk [1..<nat n])
    \<and> num_gpu_blocks p = n \<and> enable_caching p = caching \<and> hash_block_size p = hbs
    \<and> (\<forall>b \<in> real_blocks p. refc p b = 0 \<and> bhash p b = None)"
proof -
  let ?bs = "map Blk [0..<nat n]" and ?rest = "map Blk [1..<nat n]"
  let ?q = "free_queue_init initial_heap ?bs"
  have split: "?bs = Blk 0 # ?rest" using n by (simp add: upt_rec)
  have nil: "nx initial_heap b = None" "pv initial_heap b = None" for b
    by (simp_all add: nx_def pv_def initial_heap_def new_kv_cache_block_def split: bref.splits)
  have q: "fq_rep ?q ?bs" and pay: "\<And>b. b \<noteq> Head \<Longrightarrow> b \<noteq> Tail \<Longrightarrow> payload (fq_heap ?q b) = payload (initial_heap b)"
    using free_queue_init_refines[of ?bs initial_heap] nil by (auto simp: distinct_map inj_on_def)
  obtain q1 where q1: "popleft ?q = Inr (Blk 0, q1)" "fq_rep q1 ?rest" "same_payload (fq_heap ?q) (fq_heap q1)"
    using popleft_refines[of ?q "Blk 0" ?rest] q unfolding split by blast
  let ?h = "fq_heap q1"
  have v: "block_id (?h (Blk i)) = int i" "ref_cnt (?h (Blk i)) = 0" "block_hash (?h (Blk i)) = None" "\<not> is_null (?h (Blk i))" for i
    using pay[of "Blk i"] same_payloadD[OF q1(3), of "Blk i"]
    by (auto simp: payload_def initial_heap_def new_kv_cache_block_def)
  define p where "p = \<lparr>num_gpu_blocks = n, enable_caching = caching, hash_block_size = hbs,
                    pool_queue = q1\<lparr>fq_heap := ?h(Blk 0 := (?h (Blk 0))\<lparr>is_null := True\<rparr>)\<rparr>,
                    cached_block_hash_to_block = empty_block_map, null_block = Blk 0,
                    enable_kv_cache_events = evs, kv_event_queue = [], metrics_collector = mc,
                    env_int_hashes = ints, env_sha256 = sha\<rparr>"
  have init: "block_pool_init n caching hbs evs mc ints sha = Inr p"
    using n q1(1) by (simp add: block_pool_init_def rassert_def p_def Let_def)
  have rb: "real_blocks p = set ?rest" by (simp add: real_blocks_def p_def)
  have "refc p (Blk i) = 0" "bhash p (Blk i) = None" for i
    by (simp_all add: refc_def bhash_def p_def v)
  then have rz: "\<forall>b \<in> set ?rest. refc p b = 0 \<and> bhash p b = None" "bhash p (Blk 0) = None" by auto
  have "core_ok p" unfolding core_ok_def rb using n rz by (auto simp: p_def v map_ok_empty)
  moreover have "fq_rep (pool_queue p) ?rest"
    using q1(2) by (subst fq_rep_cong[of _ q1]) (auto simp: p_def nx_def pv_def fun_eq_iff)
  ultimately have "pool_rep p ?rest" unfolding pool_rep_def rb using rz by auto
  moreover have "num_gpu_blocks p = n" "enable_caching p = caching" "hash_block_size p = hbs"
    by (simp_all add: p_def)
  ultimately show ?thesis using init rz(1) unfolding rb[symmetric] by blast
qed

subsection \<open>Registration succeeds\<close>

lemma register_blocks_ok:
  assumes "core_ok p" "set bs \<subseteq> insert (Blk 0) (real_blocks p)" "k + length bs \<le> length hs" "0 \<le> gid" "gid < 2 ^ 32"
    and "\<And>j. j < length bs \<Longrightarrow> \<not> skip_block p bm (k + j) (bs ! j) \<Longrightarrow> bhash p (bs ! j) = None"
    and "distinct (filter (\<lambda>b. b \<noteq> Blk 0) bs)"
  shows "\<exists>p' acc'. rfold (register_block hs gid bm) (enumerate k bs) (p, acc) = Inr (p', acc')"
  using assms
proof (induction bs arbitrary: k p acc)
  case Nil
  then show ?case by simp
next
  case (Cons b bs)
  obtain p1 acc1 where s: "register_block hs gid bm (k, b) (p, acc) = Inr (p1, acc1)"
  proof (cases "skip_block p bm k b")
    case True
    then show ?thesis using that by (simp add: register_block_def)
  next
    case False
    then have "block_hash (pool_heap p b) = None" using Cons.prems(6)[of 0] by (simp add: bhash_def)
    moreover obtain key where "make_block_hash_with_group_id (hs ! k) gid = Inr key"
      using group_key_ok[OF Cons.prems(4,5)] by blast
    ultimately show ?thesis using that False Cons.prems(3)
      by (simp add: register_block_def rassert_def set_block_hash_def)
  qed
  have b: "b \<in> insert (Blk 0) (real_blocks p)" using Cons.prems(2) by simp
  note p1 = register_block_step[OF Cons.prems(1) b s]
  have "bhash p1 (bs ! j) = None" if j: "j < length bs" "\<not> skip_block p1 bm (Suc k + j) (bs ! j)" for j
  proof -
    have m: "bs ! j \<in> insert (Blk 0) (real_blocks p)" using nth_mem[OF j(1)] Cons.prems(2) by auto
    then have ns: "\<not> skip_block p bm (k + Suc j) ((b # bs) ! Suc j)"
      using j(2) skip_block_same[of p p1 "bs ! j" bm "Suc k + j"] p1 Cons.prems(1) by simp
    then have none: "bhash p (bs ! j) = None" using Cons.prems(6)[of "Suc j"] j(1) by simp
    have "bs ! j \<noteq> Blk 0" using ns core_ok_null[OF Cons.prems(1)] by (auto simp: skip_block_def)
    then have "bs ! j \<noteq> b \<or> skip_block p bm k b"
      using Cons.prems(7) j(1) by (auto split: if_splits)
    then show ?thesis using p1 none by (auto split: if_splits)
  qed
  moreover have "real_blocks p1 = real_blocks p" using p1 same_config_real by blast
  moreover have "distinct (filter (\<lambda>b. b \<noteq> Blk 0) bs)" using Cons.prems(7) by (auto split: if_splits)
  ultimately show ?case
    using Cons.IH[of p1 "Suc k" acc1] p1 Cons.prems s by auto
qed

lemma mm_keys_loop_cursor_nonneg: "0 \<le> c \<Longrightarrow> 0 \<le> snd (mm_keys_loop fs a b c ks)"
proof (induction fs a b c ks rule: mm_keys_loop.induct)
  case (1 fs a b c ks)
  then show ?case by (subst mm_keys_loop.simps) (auto simp: Let_def)
qed

lemma generate_extra_keys_ok:
  assumes "0 \<le> c"
  shows "\<exists>ek c' r'. generate_block_hash_extra_keys sha r a b c = Inr (ek, c', r') \<and> 0 \<le> c'"
proof -
  have "\<exists>ks c'. gen_mm_extra_hash_keys r a b c = Inr (ks, c') \<and> 0 \<le> c'"
    using assms mm_keys_loop_cursor_nonneg[OF assms, of "mm_features r" a b "[]"]
    by (cases "mm_keys_loop (mm_features r) a b c []") (auto simp: gen_mm_extra_hash_keys_def Let_def)
  then obtain ks c' where "gen_mm_extra_hash_keys r a b c = Inr (ks, c')" "0 \<le> c'" by blast
  moreover obtain ek r' where "gen_prompt_embeds_extra_hash_keys sha r a b = (ek, r')" by fastforce
  ultimately show ?thesis by (simp add: generate_block_hash_extra_keys_def Let_def)
qed

lemma extra_keys_fold_ok:
  assumes "\<forall>i \<in> set is. 0 \<le> i \<and> i < int (length blocks)" "0 \<le> c"
  shows "\<exists>r' c' acc'. rfold (extra_keys_step p blocks nc bs bm) is (r, c, acc) = Inr (r', c', acc')"
  using assms
proof (induction "is" arbitrary: r c acc)
  case Nil
  then show ?case by simp
next
  case (Cons i "is")
  obtain r1 c1 acc1 where "extra_keys_step p blocks nc bs bm i (r, c, acc) = Inr (r1, c1, acc1)" "0 \<le> c1"
  proof (cases "skip_block p bm (nat (i - nc)) (blocks ! nat i)")
    case True
    then show ?thesis using that Cons.prems by (simp add: extra_keys_step_def py_index_nonneg)
  next
    case False
    obtain ek c' r' where "generate_block_hash_extra_keys (env_sha256 p) r (i * bs) (i * bs + bs) c = Inr (ek, c', r')" "0 \<le> c'"
      using generate_extra_keys_ok[OF Cons.prems(2)] by blast
    with that False Cons.prems show ?thesis by (simp add: extra_keys_step_def py_index_nonneg)
  qed
  with Cons show ?case by simp
qed

lemma length_bhl_from:
  assumes "0 \<le> nc" "nc \<le> bhl_len bhs"
  shows "int (length (bhl_from bhs nc)) = bhl_len bhs - nc"
  using assms by (cases bhs) (auto simp: py_from_nonneg Let_def py_clamp_def)

lemma bhl_get_ok: "0 \<le> i \<Longrightarrow> i < bhl_len bhs \<Longrightarrow> \<exists>h. bhl_get bhs i = Inr h"
  by (cases bhs) (auto simp: py_index_nonneg)

text \<open>
  The registration of the blocks \<open>nc .. nf - 1\<close> of a request cannot fail: the hashes exist, and
  the blocks to register are different blocks that carry no hash yet.
\<close>

lemma cache_full_blocks_ok:
  assumes rep: "pool_rep p xs" and bl: "set blocks \<subseteq> insert (Blk 0) (real_blocks p)"
    and nc: "0 \<le> nc" "nc < nf" "nf \<le> int (length blocks)" "nf \<le> int (length (block_hashes r))"
    and bs: "hash_block_size p \<noteq> 0" "bs mod hash_block_size p = 0" "nf \<le> bhl_len (group_hashes r (hash_block_size p) bs)"
    and gid: "0 \<le> gid" "gid < 2 ^ 32"
    and bm: "\<And>m. bm = Some m \<Longrightarrow> int (length m) = nf - nc"
    and fresh: "\<And>j. j < length (py_slice blocks nc nf) \<Longrightarrow> \<not> skip_block p bm j (py_slice blocks nc nf ! j) \<Longrightarrow>
                  bhash p (py_slice blocks nc nf ! j) = None"
    and d: "distinct (filter (\<lambda>b. b \<noteq> Blk 0) (py_slice blocks nc nf))"
  shows "\<exists>r' p'. cache_full_blocks r blocks nc nf bs gid bm p = Inr (r', p')"
proof -
  let ?bhs = "group_hashes r (hash_block_size p) bs" and ?sl = "py_slice blocks nc nf"
  have core: "core_ok p" using rep by (simp add: pool_rep_def)
  have sl: "set ?sl \<subseteq> insert (Blk 0) (real_blocks p)" by (rule subset_trans[OF set_py_slice_subset bl])
  have len: "int (length ?sl) = nf - nc" using nc by (simp add: py_slice_nonneg)
  have hl: "0 + length ?sl \<le> length (bhl_from ?bhs nc)"
    using length_bhl_from[of nc ?bhs] nc bs(3) len by simp
  have "\<exists>p1 acc. rfold (register_block (bhl_from ?bhs nc) gid bm) (enumerate 0 ?sl) (p, []) = Inr (p1, acc)"
    by (rule register_blocks_ok[OF core sl hl gid _ d]) (use fresh in simp)
  then obtain p1 acc where reg: "rfold (register_block (bhl_from ?bhs nc) gid bm) (enumerate 0 ?sl) (p, []) = Inr (p1, acc)"
    by blast
  have ev: "\<exists>r' e. block_stored_event p1 r blocks ?bhs acc nc nf bs gid bm = Inr (r', e)"
  proof -
    obtain r' c' eks where f: "rfold (extra_keys_step p1 blocks nc bs bm) (py_range nc nf) (r, 0, []) = Inr (r', c', eks)"
      using extra_keys_fold_ok[of "py_range nc nf" blocks 0 p1 nc bs bm r "[]"] nc by auto
    obtain h where "nc \<noteq> 0 \<Longrightarrow> bhl_get ?bhs (nc - 1) = Inr h"
      using bhl_get_ok[of "nc - 1" ?bhs] nc bs(3) by fastforce
    with f show ?thesis by (simp add: block_stored_event_def)
  qed
  have hlist: "(if bs = hash_block_size p then Inr (PlainHashes (block_hashes r))
               else if hash_block_size p = 0 then Inl ZeroDivisionError
               else rbind (rassert (bs mod hash_block_size p = 0)) (\<lambda>_.
                      block_hash_list_with_block_size (block_hashes r) (hash_block_size p) bs)) = Inr ?bhs"
    using bs by (simp add: group_hashes_def block_hash_list_with_block_size_def rassert_def)
  have m: "(case bm of None \<Rightarrow> True | Some m \<Rightarrow> length m = length ?sl)" using bm len by (cases bm) auto
  have a: "rassert (int (length (block_hashes r)) \<ge> nf) = Inr ()"
    "rassert (case bm of None \<Rightarrow> True | Some m \<Rightarrow> length m = length ?sl) = Inr ()" using nc(4) m by simp_all
  show ?thesis
    using ev nc(2) unfolding cache_full_blocks_def Let_def a rbind.simps hlist reg by auto
qed

subsection \<open>Clients of the pool\<close>

text \<open>
  The pool as its clients use it: \<open>owned\<close> counts the references that clients hold. A client
  frees and registers only what it holds; it touches any block it found in the cache.
\<close>

inductive pool_reach :: "block_pool \<Rightarrow> bref multiset \<Rightarrow> bool" where
  reach_init: "block_pool_init n caching hbs evs mc ints sha = Inr p \<Longrightarrow> pool_reach p {#}"
| reach_alloc: "pool_reach p own \<Longrightarrow> 0 \<le> n \<Longrightarrow> get_new_blocks n p = Inr (bs, p') \<Longrightarrow> pool_reach p' (own + mset bs)"
| reach_touch: "pool_reach p own \<Longrightarrow> get_cached_block p h gs = Inr (Some bs) \<Longrightarrow> touch bs p = Inr p' \<Longrightarrow>
    pool_reach p' (own + mset bs)"
| reach_free: "pool_reach p own \<Longrightarrow> distinct bs \<Longrightarrow> mset bs \<subseteq># own \<Longrightarrow> free_blocks bs prep p = Inr p' \<Longrightarrow>
    pool_reach p' (own - mset bs)"
| reach_cache: "pool_reach p own \<Longrightarrow> set blocks \<subseteq> insert (null_block p) (set_mset own) \<Longrightarrow>
    cache_full_blocks r blocks nc nf bs gid bm p = Inr (r', p') \<Longrightarrow> pool_reach p' own"
| reach_evict: "pool_reach p own \<Longrightarrow> \<forall>i \<in> set ids. 0 \<le> i \<Longrightarrow> evict_blocks ids p = Inr p' \<Longrightarrow> pool_reach p' own"
| reach_reset: "pool_reach p own \<Longrightarrow> reset_prefix_cache p = (ok, p') \<Longrightarrow> pool_reach p' own"

lemma evict_blocks_ids: "evict_blocks ids p = Inr p' \<Longrightarrow> core_ok p \<Longrightarrow> \<forall>i \<in> set ids. 0 \<le> i \<Longrightarrow>
   \<forall>i \<in> set ids. 0 \<le> i \<and> i < num_gpu_blocks p"
proof (induction ids arbitrary: p)
  case (Cons i ids)
  obtain e p1 where ev: "maybe_evict_cached_block (Blk (nat i)) p = (e, p1)" by fastforce
  have i: "0 \<le> i" "i < num_gpu_blocks p" using Cons.prems by (auto simp: evict_blocks_def evict_block_id_def result_simps)
  have b: "Blk (nat i) \<in> insert (Blk 0) (real_blocks p)" using i by (auto simp: real_blocks_def)
  note p1 = maybe_evict_spec[OF Cons.prems(2) b ev]
  have "evict_blocks ids p1 = Inr p'"
    using Cons.prems(1) i ev by (simp add: evict_blocks_def evict_block_id_def py_index_nonneg rassert_def)
  with Cons.IH[of p1] p1 Cons.prems(3) i show ?case by (simp add: same_config_def)
qed simp

text \<open>The reference count of every block is the number of references that clients hold.\<close>

lemma pool_reach_inv:
  "pool_reach p own \<Longrightarrow> pool_inv p \<and> set_mset own \<subseteq> real_blocks p \<and> (\<forall>b \<in> real_blocks p. refc p b = int (count own b))"
proof (induction rule: pool_reach.induct)
  case (reach_init n caching hbs evs mc ints sha p)
  then have "0 < n" by (auto simp: block_pool_init_def result_simps)
  from block_pool_init_spec[OF this, of caching hbs evs mc ints sha] reach_init
  have "pool_rep p (map Blk [1..<nat n])" "\<forall>b \<in> real_blocks p. refc p b = 0" by auto
  then show ?case by (auto simp: pool_inv_def)
next
  case (reach_alloc p own n bs p')
  then obtain xs where rep: "pool_rep p xs" by (auto simp: pool_inv_def)
  have "n \<le> int (length xs)"
    using get_new_blocks_too_many[OF rep, of n] reach_alloc(3) by force
  from get_new_blocks_spec[OF rep reach_alloc(2) this] reach_alloc(3)
  have p': "pool_rep p' (drop (nat n) xs)" "same_config p p'" "bs = take (nat n) xs"
    "refc p' = (\<lambda>b. if b \<in> set bs then 1 else refc p b)" by auto
  have d: "distinct bs" "set bs \<subseteq> {b \<in> real_blocks p. refc p b = 0}"
    using rep unfolding p'(3) pool_rep_def by (auto dest: fq_rep_distinct in_set_takeD)
  have "count own b = 0" if "b \<in> set bs" for b using d(2) that reach_alloc(4) by auto
  then have "refc p' b = int (count (own + mset bs) b)" if "b \<in> real_blocks p" for b
    using reach_alloc(4) that d(1) unfolding p'(4) by (auto simp: count_list_distinct count_mset)
  with p' d(2) reach_alloc(4) same_config_real[OF p'(2)] show ?case by (auto simp: pool_inv_def)
next
  case (reach_touch p own h gs bs p')
  then obtain xs where rep: "pool_rep p xs" by (auto simp: pool_inv_def)
  have "list_all2 (\<lambda>g b. b \<in> real_blocks p \<and> (\<exists>key. make_block_hash_with_group_id h g = Inr key \<and> bhash p b = Some key)) gs bs"
    using get_cached_block_spec[OF _ reach_touch(2)] rep by (auto simp: pool_rep_def)
  then have bs: "set bs \<subseteq> real_blocks p" by (auto simp: list_all2_conv_all_nth in_set_conv_nth)
  then have "set bs \<subseteq> insert (Blk 0) (real_blocks p)" by auto
  from touch_spec[OF rep this] reach_touch(3) obtain p'':
    "pool_rep p' (filter (\<lambda>b. b \<notin> set bs) xs)" "same_config p p'" "refc p' = (\<lambda>b. refc p b + int (count_list bs b))"
    by auto
  then show ?case using reach_touch(4) bs same_config_real[of p p'] by (auto simp: pool_inv_def count_mset)
next
  case (reach_free p own bs prep p')
  then obtain xs where rep: "pool_rep p xs" by (auto simp: pool_inv_def)
  have own: "count (mset bs) b \<le> count own b" for b using reach_free(3) by (rule mset_subset_eq_count)
  have ref: "b \<in> real_blocks p \<and> 1 \<le> refc p b" if b: "b \<in> set bs" for b
  proof -
    have "0 < count own b" using b own[of b] by (metis count_greater_zero_iff in_multiset_in_set le_zero_eq neq0_conv)
    then show ?thesis using reach_free(5) by (auto simp: count_greater_zero_iff)
  qed
  have d: "distinct (filter (\<lambda>b. b \<noteq> Blk 0) bs)" using reach_free(2) by simp
  from free_blocks_spec[OF rep _ d, of prep] ref reach_free(4)
  have p': "pool_inv p'" "same_config p p'" "refc p' = (\<lambda>b. refc p b - int (count_list bs b))"
    by (auto simp: pool_inv_def)
  have "set_mset (own - mset bs) \<subseteq> real_blocks p" using reach_free(5) by (meson in_diffD subset_iff)
  moreover have "refc p' b = int (count (own - mset bs) b)" if "b \<in> real_blocks p" for b
    using reach_free(5) that own[of b] unfolding p'(3) by (simp add: count_mset of_nat_diff)
  ultimately show ?case using p'(1) same_config_real[OF p'(2)] by auto
next
  case (reach_cache p own blocks r nc nf bs gid bm r' p')
  then obtain xs where rep: "pool_rep p xs" by (auto simp: pool_inv_def)
  have "set blocks \<subseteq> insert (Blk 0) (real_blocks p)"
    using reach_cache(2,4) rep by (auto simp: pool_rep_def core_ok_def)
  from cache_full_blocks_spec[OF rep this reach_cache(3)] reach_cache(4) same_config_real[of p p']
  show ?case by (auto simp: pool_inv_def)
next
  case (reach_evict p own ids p')
  then obtain xs where rep: "pool_rep p xs" by (auto simp: pool_inv_def)
  then have "\<forall>i \<in> set ids. 0 \<le> i \<and> i < num_gpu_blocks p"
    using evict_blocks_ids[OF reach_evict(3)] reach_evict(2) by (simp add: pool_rep_def)
  from evict_blocks_spec[OF rep this] reach_evict(3,4) same_config_real[of p p'] show ?case by (auto simp: pool_inv_def)
next
  case (reach_reset p own ok p')
  then obtain xs where rep: "pool_rep p xs" by (auto simp: pool_inv_def)
  note p' = reset_prefix_cache_spec[OF rep reach_reset(2)]
  show ?case using p'(2,3) same_config_real[OF p'(4)] reach_reset(3) by (auto simp: pool_inv_def)
qed

subsection \<open>Properties\<close>

lemma pool_reach_rep:
  assumes "pool_reach p own"
  obtains xs where "pool_rep p xs" "set xs = real_blocks p - set_mset own" "get_all_free_blocks (pool_queue p) = Some (Inr xs)"
    "distinct xs"
proof -
  obtain xs where xs: "pool_rep p xs" using pool_reach_inv[OF assms] by (auto simp: pool_inv_def)
  then have q: "fq_rep (pool_queue p) xs" by (simp add: pool_rep_def)
  have "set xs = real_blocks p - set_mset own"
    using xs pool_reach_inv[OF assms] by (auto simp: pool_rep_def count_eq_zero_iff)
  with that[OF xs] get_all_free_blocks_refines[OF q] fq_rep_distinct[OF q] show thesis by blast
qed

lemma fresh_pool:
  obtains p where "pool_reach p {#}" "num_gpu_blocks p = 4" "enable_caching p" "hash_block_size p = 2"
    "pool_rep p [Blk 1, Blk 2, Blk 3]"
proof -
  obtain p where "block_pool_init 4 True 2 True None False toy_sha = Inr p" "pool_rep p (map Blk [1..<nat 4])"
    "num_gpu_blocks p = 4" "enable_caching p" "hash_block_size p = 2"
    using block_pool_init_spec[of 4 True 2 True None False toy_sha] by auto
  moreover have "map Blk [1..<nat 4] = [Blk 1, Blk 2, Blk 3]" by (simp add: upt_rec)
  ultimately show thesis using that[of p] reach_init by metis
qed

lemma two_blocks_owned:
  obtains p where "pool_reach p {#Blk 1, Blk 2#}" "num_gpu_blocks p = 4" "enable_caching p" "hash_block_size p = 2"
    "pool_rep p [Blk 3]" "\<forall>b. bhash p b = None \<or> b \<notin> {Blk 1, Blk 2}"
proof -
  obtain p where p: "pool_reach p {#}" "num_gpu_blocks p = 4" "enable_caching p" "hash_block_size p = 2"
    "pool_rep p [Blk 1, Blk 2, Blk 3]" by (rule fresh_pool)
  obtain p' where p': "get_new_blocks 2 p = Inr ([Blk 1, Blk 2], p')" "pool_rep p' [Blk 3]" "same_config p p'"
    "bhash p' = (\<lambda>b. if enable_caching p \<and> b \<in> {Blk 1, Blk 2} then None else bhash p b)"
    using get_new_blocks_spec[OF p(5), of 2] by (auto simp: numeral_2_eq_2)
  have "pool_reach p' ({#} + mset [Blk 1, Blk 2])" using reach_alloc[OF p(1) _ p'(1)] by simp
  then have "pool_reach p' {#Blk 1, Blk 2#}" by simp
  with that[of p'] p p' show thesis by (auto simp: same_config_def)
qed

text \<open>
  C13: accounting of the pool. In every state that clients can reach, the reference count of a
  block is the number of references they hold, the free queue lists each unreferenced block
  exactly once and no other, and its counter is the pool size less the null block and the
  blocks in use.
\<close>

theorem pool_accounting:
  assumes "pool_reach p own"
  shows "(\<forall>b \<in> real_blocks p. refc p b = int (count own b))
    \<and> (\<exists>xs. get_all_free_blocks (pool_queue p) = Some (Inr xs) \<and> distinct xs \<and> set xs = real_blocks p - set_mset own)
    \<and> get_num_free_blocks p = num_gpu_blocks p - 1 - int (card (set_mset own))"
proof -
  obtain xs where xs: "pool_rep p xs" "set xs = real_blocks p - set_mset own"
    "get_all_free_blocks (pool_queue p) = Some (Inr xs)" "distinct xs" using pool_reach_rep[OF assms] .
  have own: "set_mset own \<subseteq> real_blocks p" using pool_reach_inv[OF assms] by blast
  have n: "0 < num_gpu_blocks p" using xs(1) by (auto simp: pool_rep_def core_ok_def)
  have "length xs = card (real_blocks p) - card (set_mset own)"
    using xs(2,4) own by (metis card_Diff_subset distinct_card finite_set_mset)
  moreover have "card (real_blocks p) = nat (num_gpu_blocks p) - 1"
    by (simp add: real_blocks_def card_image inj_on_def)
  moreover have "card (set_mset own) \<le> card (real_blocks p)" using own by (simp add: card_mono)
  ultimately have "int (length xs) = num_gpu_blocks p - 1 - int (card (set_mset own))" using n by linarith
  then show ?thesis
    using xs pool_reach_inv[OF assms] get_num_free_blocks_eq[OF xs(1)] by auto
qed

theorem pool_accounting_witness:
  "\<exists>p. refc p (Blk 1) = int (count {#Blk 1, Blk 2#} (Blk 1)) \<and> refc p (Blk 3) = int (count {#Blk 1, Blk 2#} (Blk 3))
    \<and> (\<exists>xs. get_all_free_blocks (pool_queue p) = Some (Inr xs) \<and> distinct xs
          \<and> set xs = real_blocks p - set_mset {#Blk 1, Blk 2#})
    \<and> get_num_free_blocks p = num_gpu_blocks p - 1 - int (card (set_mset {#Blk 1, Blk 2#}))"
proof -
  obtain p where p: "pool_reach p {#Blk 1, Blk 2#}" "num_gpu_blocks p = 4" by (rule two_blocks_owned)
  have "Blk 1 \<in> real_blocks p" "Blk 3 \<in> real_blocks p" using p(2) by (auto simp: real_blocks_def)
  with pool_accounting[OF p(1)] show ?thesis by blast
qed

text \<open>
  C14: allocation. With enough free blocks \<open>get_new_blocks\<close> returns \<open>n\<close> different blocks that no
  client holds, and with caching none of them is found in the cache any more; with too few it
  raises \<open>ValueError\<close>.
\<close>

theorem alloc_never_gives_owned_block:
  assumes "pool_reach p own" "0 \<le> n"
  shows "if n \<le> get_num_free_blocks p
    then \<exists>bs p'. get_new_blocks n p = Inr (bs, p') \<and> int (length bs) = n \<and> distinct bs
           \<and> set bs \<subseteq> real_blocks p - set_mset own \<and> (enable_caching p \<longrightarrow> (\<forall>b \<in> set bs. bhash p' b = None))
    else get_new_blocks n p = Inl ValueError"
proof -
  obtain xs where xs: "pool_rep p xs" "set xs = real_blocks p - set_mset own" "distinct xs"
    using pool_reach_rep[OF assms(1)] by metis
  have f: "get_num_free_blocks p = int (length xs)" by (rule get_num_free_blocks_eq[OF xs(1)])
  show ?thesis
  proof (cases "n \<le> get_num_free_blocks p")
    case True
    from get_new_blocks_spec[OF xs(1) assms(2)] True f obtain p' where
      p': "get_new_blocks n p = Inr (take (nat n) xs, p')"
      "bhash p' = (\<lambda>b. if enable_caching p \<and> b \<in> set (take (nat n) xs) then None else bhash p b)" by auto
    then show ?thesis
      using True f xs(2,3) assms(2) by (auto dest!: in_set_takeD intro!: exI[of _ "take (nat n) xs"] exI[of _ p'])
  next
    case False
    then show ?thesis by (simp add: get_new_blocks_def)
  qed
qed

theorem alloc_never_gives_owned_block_witness:
  "\<exists>p bs p'. pool_reach p {#Blk 1, Blk 2#} \<and> get_new_blocks 1 p = Inr (bs, p') \<and> int (length bs) = 1 \<and> distinct bs
     \<and> set bs \<subseteq> real_blocks p - set_mset {#Blk 1, Blk 2#}"
proof -
  obtain p where p: "pool_reach p {#Blk 1, Blk 2#}" "pool_rep p [Blk 3]" by (rule two_blocks_owned)
  have "1 \<le> get_num_free_blocks p" using get_num_free_blocks_eq[OF p(2)] by simp
  with alloc_never_gives_owned_block[OF p(1), of 1] p(1) show ?thesis by auto
qed

text \<open>
  C17: freeing. A client that frees different blocks it holds never gets an error; exactly the
  blocks whose last reference this was join the free queue, in the given order, at its end (or
  its front with \<open>prepend\<close>), and they keep their hashes, so they can still be hit.
\<close>

theorem free_returns_last_references:
  assumes "pool_reach p own" "distinct bs" "mset bs \<subseteq># own"
  shows "\<exists>p' xs. free_blocks bs prep p = Inr p' \<and> get_all_free_blocks (pool_queue p) = Some (Inr xs)
    \<and> get_all_free_blocks (pool_queue p')
        = Some (Inr (if prep then filter (\<lambda>b. count own b = 1) bs @ xs else xs @ filter (\<lambda>b. count own b = 1) bs))
    \<and> bhash p' = bhash p"
proof -
  obtain xs where xs: "pool_rep p xs" "get_all_free_blocks (pool_queue p) = Some (Inr xs)"
    using pool_reach_rep[OF assms(1)] by metis
  have own: "set bs \<subseteq> set_mset own" using assms(3) set_mset_mono by fastforce
  have inv: "set_mset own \<subseteq> real_blocks p" "\<forall>b \<in> real_blocks p. refc p b = int (count own b)"
    using pool_reach_inv[OF assms(1)] by auto
  have ref: "b \<in> real_blocks p \<and> refc p b = int (count own b) \<and> 1 \<le> refc p b \<and> b \<noteq> Blk 0" if "b \<in> set bs" for b
    using that own inv real_blocks_not_special by (force simp: Suc_le_eq)
  have fl: "filter (\<lambda>b. b \<noteq> Blk 0 \<and> refc p b = 1) bs = filter (\<lambda>b. count own b = 1) bs"
    by (rule filter_cong[OF refl]) (use ref in auto)
  have d: "distinct (filter (\<lambda>b. b \<noteq> Blk 0) bs)" using assms(2) by simp
  from free_blocks_spec[OF xs(1) _ d, of prep] ref obtain p' where
    p': "free_blocks bs prep p = Inr p'" "bhash p' = bhash p"
    "pool_rep p' (if prep then filter (\<lambda>b. count own b = 1) bs @ xs else xs @ filter (\<lambda>b. count own b = 1) bs)"
    unfolding fl by blast
  from get_all_free_blocks_refines[of "pool_queue p'"] p'(3) have
    "get_all_free_blocks (pool_queue p')
        = Some (Inr (if prep then filter (\<lambda>b. count own b = 1) bs @ xs else xs @ filter (\<lambda>b. count own b = 1) bs))"
    by (simp add: pool_rep_def)
  with p' xs show ?thesis by blast
qed

theorem free_returns_last_references_witness:
  "\<exists>p p' xs. free_blocks [Blk 2, Blk 1] False p = Inr p' \<and> get_all_free_blocks (pool_queue p) = Some (Inr xs)
    \<and> get_all_free_blocks (pool_queue p')
        = Some (Inr (if False then filter (\<lambda>b. count {#Blk 1, Blk 2#} b = 1) [Blk 2, Blk 1] @ xs
                     else xs @ filter (\<lambda>b. count {#Blk 1, Blk 2#} b = 1) [Blk 2, Blk 1]))
    \<and> bhash p' = bhash p"
proof -
  obtain p where p: "pool_reach p {#Blk 1, Blk 2#}" by (rule two_blocks_owned)
  from free_returns_last_references[OF p, of "[Blk 2, Blk 1]" False] show ?thesis by (auto simp: add_mset_commute)
qed

text \<open>
  C16: a cached block is found. After full blocks of a request were registered, looking up the hash
  of any of them that is neither the null block nor masked returns a block that carries this
  hash; a lookup never returns a block with another hash or of another group.
\<close>

theorem registered_block_is_found:
  assumes "pool_reach p own" "set blocks \<subseteq> insert (null_block p) (set_mset own)"
    and "cache_full_blocks r blocks nc nf bs gid bm p = Inr (r', p')" "nc < nf"
    and "j < length (py_slice blocks nc nf)" "\<not> skip_block p bm j (py_slice blocks nc nf ! j)"
  shows "\<exists>key c. make_block_hash_with_group_id (bhl_from (group_hashes r (hash_block_size p) bs) nc ! j) gid = Inr key
    \<and> get_cached_block p' (bhl_from (group_hashes r (hash_block_size p) bs) nc ! j) [gid] = Inr (Some [c])
    \<and> bhash p' c = Some key \<and> bhash p' (py_slice blocks nc nf ! j) = Some key"
proof -
  obtain xs where rep: "pool_rep p xs" using pool_reach_rep[OF assms(1)] by metis
  have core: "core_ok p" using rep by (simp add: pool_rep_def)
  have sub: "set blocks \<subseteq> insert (Blk 0) (real_blocks p)"
    using assms(2) pool_reach_inv[OF assms(1)] core by (auto simp: core_ok_def)
  note c = cache_full_blocks_spec[OF rep sub assms(3)]
  let ?b = "py_slice blocks nc nf ! j"
  have "?b \<in> set blocks" using assms(5) nth_mem set_py_slice_subset by (metis subsetD)
  moreover have "?b \<noteq> Blk 0" using assms(6) core_ok_null[OF core] by (auto simp: skip_block_def)
  moreover have rb: "real_blocks p' = real_blocks p" using c same_config_real by blast
  ultimately have b: "?b \<in> real_blocks p'" using sub by auto
  have "registered p (bhl_from (group_hashes r (hash_block_size p) bs) nc) gid bm 0 (py_slice blocks nc nf) p'"
    using c assms(4) by blast
  then obtain key where key: "make_block_hash_with_group_id (bhl_from (group_hashes r (hash_block_size p) bs) nc ! j) gid = Inr key"
    "bhash p' ?b = Some key"
    unfolding registered_def using assms(5,6) by fastforce
  moreover have "core_ok p'" using c by (simp add: pool_rep_def)
  ultimately show ?thesis using get_cached_block_found[OF _ b key] by blast
qed

lemma request_blocks_cached:
  obtains p r' p' where "pool_reach p {#Blk 1, Blk 2#}" "null_block p = Blk 0"
    "cache_full_blocks (sample_request ''a'' [5, 6, 9] [] None None\<lparr>block_hashes := [[7, 0, 5, 6]]\<rparr>)
       [Blk 1, Blk 2] 0 1 2 3 None p = Inr (r', p')"
    "\<not> skip_block p None 0 (Blk 1)"
proof -
  obtain p where p: "pool_reach p {#Blk 1, Blk 2#}" "num_gpu_blocks p = 4" "hash_block_size p = 2"
    "pool_rep p [Blk 3]" "\<forall>b. bhash p b = None \<or> b \<notin> {Blk 1, Blk 2}" by (rule two_blocks_owned)
  have core: "core_ok p" using p(4) by (simp add: pool_rep_def)
  have rb: "real_blocks p = Blk ` {1, 2, 3}" using p(2) by (auto simp: real_blocks_def)
  have sl: "py_slice [Blk 1, Blk 2] 0 1 = [Blk 1]" by (simp add: py_slice_def py_clamp_def)
  let ?r = "sample_request ''a'' [5, 6, 9] [] None None\<lparr>block_hashes := [[7, 0, 5, 6]]\<rparr>"
  have "\<exists>r' p'. cache_full_blocks ?r [Blk 1, Blk 2] 0 1 2 3 None p = Inr (r', p')"
    by (rule cache_full_blocks_ok[OF p(4)]) (use p rb in \<open>auto simp: sl[unfolded One_nat_def] group_hashes_def\<close>)
  moreover have "\<not> is_null (pool_heap p (Blk 1))" using core_ok_real[OF core] rb by auto
  ultimately show thesis using that[OF p(1)] core_ok_null[OF core] by (auto simp: skip_block_def)
qed

theorem registered_block_is_found_witness:
  "\<exists>p r' p' key c. cache_full_blocks (sample_request ''a'' [5, 6, 9] [] None None\<lparr>block_hashes := [[7, 0, 5, 6]]\<rparr>)
       [Blk 1, Blk 2] 0 1 2 3 None p = Inr (r', p')
    \<and> get_cached_block p' (bhl_from (group_hashes (sample_request ''a'' [5, 6, 9] [] None None\<lparr>block_hashes := [[7, 0, 5, 6]]\<rparr>)
          (hash_block_size p) 2) 0 ! 0) [3] = Inr (Some [c])
    \<and> bhash p' c = Some key"
proof -
  obtain p r' p' where p: "pool_reach p {#Blk 1, Blk 2#}" "null_block p = Blk 0"
    "cache_full_blocks (sample_request ''a'' [5, 6, 9] [] None None\<lparr>block_hashes := [[7, 0, 5, 6]]\<rparr>)
       [Blk 1, Blk 2] 0 1 2 3 None p = Inr (r', p')"
    "\<not> skip_block p None 0 (Blk 1)" by (rule request_blocks_cached)
  have sl: "py_slice [Blk 1, Blk 2] 0 1 = [Blk 1]" by (simp add: py_slice_def py_clamp_def)
  have sub: "set [Blk 1, Blk 2] \<subseteq> insert (null_block p) (set_mset {#Blk 1, Blk 2#})" by auto
  have j: "0 < length (py_slice [Blk 1, Blk 2] 0 1)" "\<not> skip_block p None 0 (py_slice [Blk 1, Blk 2] 0 1 ! 0)"
    unfolding sl using p(4) by simp_all
  from registered_block_is_found[OF p(1) sub p(3) zero_less_one j] p(3) show ?thesis by blast
qed

text \<open>
  C27: a hit is a hit. Whatever blocks a lookup of hash \<open>h\<close> over groups \<open>gs\<close> returns, it returns
  one block per group, and the block of group \<open>g\<close> was registered under exactly \<open>(h, g)\<close>.
\<close>

theorem lookup_sound:
  assumes "pool_reach p own" "get_cached_block p h gs = Inr (Some bs)"
  shows "list_all2 (\<lambda>g b. b \<in> real_blocks p
    \<and> (\<exists>key. bhash p b = Some key \<and> get_block_hash key = h \<and> get_group_id key = g)) gs bs"
proof -
  obtain xs where "pool_rep p xs" using pool_reach_rep[OF assms(1)] by metis
  then have "core_ok p" by (simp add: pool_rep_def)
  from get_cached_block_spec[OF this assms(2)] show ?thesis
    by (rule list_all2_mono) (metis group_key_parts)
qed

theorem lookup_sound_witness:
  "\<exists>p h c. list_all2 (\<lambda>g b. b \<in> real_blocks p
    \<and> (\<exists>key. bhash p b = Some key \<and> get_block_hash key = h \<and> get_group_id key = g)) [3] [c]"
proof -
  let ?r = "sample_request ''a'' [5, 6, 9] [] None None\<lparr>block_hashes := [[7, 0, 5, 6]]\<rparr>"
  obtain p r' p' where p: "pool_reach p {#Blk 1, Blk 2#}" "null_block p = Blk 0"
    "cache_full_blocks ?r [Blk 1, Blk 2] 0 1 2 3 None p = Inr (r', p')"
    "\<not> skip_block p None 0 (Blk 1)" by (rule request_blocks_cached)
  have sub: "set [Blk 1, Blk 2] \<subseteq> insert (null_block p) (set_mset {#Blk 1, Blk 2#})" by auto
  have sl: "py_slice [Blk 1, Blk 2] 0 1 = [Blk 1]" by (simp add: py_slice_def py_clamp_def)
  have r: "pool_reach p' {#Blk 1, Blk 2#}" by (rule reach_cache[OF p(1) sub p(3)])
  obtain xs where rep: "pool_rep p xs" using pool_reach_rep[OF p(1)] by metis
  have sub': "set [Blk 1, Blk 2] \<subseteq> insert (Blk 0) (real_blocks p)" using sub p(2) pool_reach_inv[OF p(1)] by auto
  note c = cache_full_blocks_spec[OF rep sub' p(3)]
  have reg: "registered p (bhl_from (group_hashes ?r (hash_block_size p) 2) 0) 3 None 0 (py_slice [Blk 1, Blk 2] 0 1) p'"
    using c zero_less_one by blast
  obtain key where key: "make_block_hash_with_group_id (bhl_from (group_hashes ?r (hash_block_size p) 2) 0 ! 0) 3 = Inr key"
    "bhash p' (Blk 1) = Some key" using p(4) reg unfolding registered_def sl by auto
  moreover have "core_ok p'" "Blk 1 \<in> real_blocks p'"
    using c sub' same_config_real[of p p'] by (auto simp: pool_rep_def)
  ultimately obtain b where "get_cached_block p' (bhl_from (group_hashes ?r (hash_block_size p) 2) 0 ! 0) [3] = Inr (Some [b])"
    using get_cached_block_found by blast
  from lookup_sound[OF r this] show ?thesis by blast
qed

text \<open>
  resetting the prefix cache succeeds exactly when no client holds a block; afterwards no
  lookup hits, and the free queue and the reference counts are as before.
\<close>

theorem reset_iff_unused:
  assumes "pool_reach p own" "reset_prefix_cache p = (ok, p')" "0 \<le> g" "g < 2 ^ 32"
  shows "(ok \<longleftrightarrow> own = {#}) \<and> (ok \<longrightarrow> get_cached_block p' h (g # gs) = Inr None)
    \<and> get_all_free_blocks (pool_queue p') = get_all_free_blocks (pool_queue p) \<and> refc p' = refc p"
proof -
  obtain xs where xs: "pool_rep p xs" "get_all_free_blocks (pool_queue p) = Some (Inr xs)"
    using pool_reach_rep[OF assms(1)] by metis
  note r = reset_prefix_cache_spec[OF xs(1) assms(2)]
  have inv: "set_mset own \<subseteq> real_blocks p" "\<forall>b \<in> real_blocks p. refc p b = int (count own b)"
    using pool_reach_inv[OF assms(1)] by auto
  have "(\<forall>b \<in> real_blocks p. refc p b = 0) \<longleftrightarrow> own = {#}"
  proof
    assume z: "\<forall>b \<in> real_blocks p. refc p b = 0"
    have "b \<notin># own" for b using z inv by (cases "b \<in> real_blocks p") (auto simp: count_eq_zero_iff)
    then show "own = {#}" by (simp add: multiset_eq_iff not_in_iff)
  qed (use inv in simp)
  moreover have "get_cached_block p' h (g # gs) = Inr None" if ok
  proof -
    have core: "core_ok p'" using r(2) by (simp add: pool_rep_def)
    obtain key where "make_block_hash_with_group_id h g = Inr key" using group_key_ok[OF assms(3,4)] by blast
    moreover have "blocks_at (cached_block_hash_to_block p') key = {}" for key
      using r(6)[OF that] same_config_real[OF r(4)] by (auto simp: core_ok_blocks_at[OF core])
    moreover have "map_ok (pool_heap p') (cached_block_hash_to_block p')" using core by (simp add: core_ok_def)
    ultimately show ?thesis using get_one_block_none[of "pool_heap p'" "cached_block_hash_to_block p'" key] by simp
  qed
  moreover have "get_all_free_blocks (pool_queue p') = Some (Inr xs)"
    using r(2) get_all_free_blocks_refines by (simp add: pool_rep_def)
  ultimately show ?thesis using r(1,3) xs(2) by auto
qed

theorem reset_iff_unused_witness:
  "\<exists>p ok p'. reset_prefix_cache p = (ok, p') \<and>
    ok \<and> get_cached_block p' [1] (0 # []) = Inr None
    \<and> get_all_free_blocks (pool_queue p') = get_all_free_blocks (pool_queue p) \<and> refc p' = refc p"
proof -
  obtain p where p: "pool_reach p {#}" by (rule fresh_pool)
  obtain ok p' where r: "reset_prefix_cache p = (ok, p')" by fastforce
  from reset_iff_unused[OF p r, of 0 "[1]" "[]"] r show ?thesis by auto
qed

text \<open>
  eviction by id only touches the cache: the evicted blocks lose their hashes, so no lookup
  returns them, all other hashes, the reference counts and the free queue stay.
\<close>

theorem evict_blocks_only_unregisters:
  assumes "pool_reach p own" "\<forall>i \<in> set ids. 0 \<le> i \<and> i < num_gpu_blocks p"
  shows "\<exists>p'. evict_blocks ids p = Inr p' \<and> refc p' = refc p
    \<and> get_all_free_blocks (pool_queue p') = get_all_free_blocks (pool_queue p)
    \<and> bhash p' = (\<lambda>b. if b \<in> (Blk \<circ> nat) ` set ids then None else bhash p b)
    \<and> (\<forall>h gs bs. get_cached_block p' h gs = Inr (Some bs) \<longrightarrow> set bs \<inter> (Blk \<circ> nat) ` set ids = {})"
proof -
  obtain xs where xs: "pool_rep p xs" "get_all_free_blocks (pool_queue p) = Some (Inr xs)"
    using pool_reach_rep[OF assms(1)] by metis
  obtain p' where p': "evict_blocks ids p = Inr p'" "pool_rep p' xs" "refc p' = refc p"
    "bhash p' = (\<lambda>b. if b \<in> (Blk \<circ> nat) ` set ids then None else bhash p b)"
    using evict_blocks_spec[OF xs(1) assms(2)] by blast
  have core: "core_ok p'" using p'(2) by (simp add: pool_rep_def)
  have "set bs \<inter> (Blk \<circ> nat) ` set ids = {}" if hit: "get_cached_block p' h gs = Inr (Some bs)" for h gs bs
  proof -
    have "bhash p' b \<noteq> None" if "b \<in> set bs" for b
      using get_cached_block_spec[OF core hit] that by (auto simp: list_all2_conv_all_nth in_set_conv_nth)
    then show ?thesis unfolding p'(4) by (auto split: if_splits) (metis option.distinct(1) image_eqI comp_apply)
  qed
  moreover have "get_all_free_blocks (pool_queue p') = Some (Inr xs)"
    using p'(2) get_all_free_blocks_refines by (simp add: pool_rep_def)
  ultimately show ?thesis using p' xs(2) by auto
qed

theorem evict_blocks_only_unregisters_witness:
  "\<exists>p p'. evict_blocks [1] p = Inr p' \<and> refc p' = refc p
    \<and> get_all_free_blocks (pool_queue p') = get_all_free_blocks (pool_queue p)
    \<and> bhash p' = (\<lambda>b. if b \<in> (Blk \<circ> nat) ` set [1] then None else bhash p b)"
proof -
  obtain p where p: "pool_reach p {#}" "num_gpu_blocks p = 4" by (rule fresh_pool)
  from evict_blocks_only_unregisters[OF p(1), of "[1]"] p(2) show ?thesis by auto
qed

end
