(* ===== verification/Math_Utils.thy ===== *)
theory Math_Utils
  imports Prelude
begin

section \<open>Integer helpers\<close>

text \<open>
  \<open>vllm/utils/math_utils.py\<close>: ceiling division and rounding, over Python's unbounded
  integers. \<open>//\<close> is floor division, which \<open>div\<close> on \<open>int\<close> is too. A zero divisor raises.
\<close>

unbundle bit_operations_syntax

definition cdiv :: "int \<Rightarrow> int \<Rightarrow> int" where
  "cdiv a b = - (a div (- b))"

text \<open>\<open>int.bit_length\<close> of a non-negative integer.\<close>

function bit_length :: "int \<Rightarrow> nat" where
  "bit_length n = (if n \<le> 0 then 0 else Suc (bit_length (n div 2)))"
  by pat_completeness auto
termination
  by (relation "measure nat") auto

declare bit_length.simps [simp del]

definition next_power_of_2 :: "int \<Rightarrow> int" where
  "next_power_of_2 n = (if n < 1 then 1 else push_bit (bit_length (n - 1)) 1)"

definition round_up :: "int \<Rightarrow> int \<Rightarrow> int" where
  "round_up x y = ((x + y - 1) div y) * y"

definition round_down :: "int \<Rightarrow> int \<Rightarrow> int" where
  "round_down x y = (x div y) * y"

definition largest_power_of_2_divisor :: "int \<Rightarrow> int" where
  "largest_power_of_2_divisor n = n AND (- n)"

subsection \<open>Bounds\<close>

lemma le_div_iff_mult_le_pos:
  fixes a b q :: int
  assumes "0 < b"
  shows "q \<le> a div b \<longleftrightarrow> q * b \<le> a"
proof
  assume "q \<le> a div b"
  then have "q * b \<le> a div b * b" using assms by simp
  also have "\<dots> \<le> a" using div_mult_mod_eq[of a b] pos_mod_sign[OF assms, of a] by linarith
  finally show "q * b \<le> a" .
next
  assume "q * b \<le> a"
  then show "q \<le> a div b" using zdiv_mono1[of "q * b" a b] assms by simp
qed

lemma cdiv_le_iff:
  assumes "0 < b"
  shows "cdiv a b \<le> q \<longleftrightarrow> a \<le> q * b"
proof -
  have "a div (- b) = (- a) div b" by (metis div_minus_minus minus_minus)
  then have "cdiv a b \<le> q \<longleftrightarrow> - q \<le> (- a) div b" by (auto simp: cdiv_def)
  also have "\<dots> \<longleftrightarrow> - q * b \<le> - a" by (rule le_div_iff_mult_le_pos[OF assms])
  finally show ?thesis by simp
qed

lemma cdiv_upper: "0 < b \<Longrightarrow> a \<le> cdiv a b * b"
  using cdiv_le_iff[of b a "cdiv a b"] by simp

lemma cdiv_lower: "0 < b \<Longrightarrow> (cdiv a b - 1) * b < a"
  using cdiv_le_iff[of b a "cdiv a b - 1"] by simp

lemma cdiv_nonneg: "0 < b \<Longrightarrow> 0 \<le> a \<Longrightarrow> 0 \<le> cdiv a b"
  by (metis add.inverse_neutral cdiv_def div_minus_right neg_0_le_iff_le neg_imp_zdiv_nonneg_iff
      neg_less_0_iff_less div_nonneg_neg_le0)

lemma cdiv_mono: "0 < b \<Longrightarrow> a \<le> a' \<Longrightarrow> cdiv a b \<le> cdiv a' b"
  using cdiv_le_iff[of b a "cdiv a' b"] cdiv_upper[of b a'] by linarith

lemma cdiv_mult [simp]: "0 < b \<Longrightarrow> cdiv (k * b) b = k"
  using cdiv_le_iff[of b "k * b" k] cdiv_upper[of b "k * b"] by simp

lemma div_le_cdiv:
  assumes "0 < b"
  shows "a div b \<le> cdiv a b"
proof -
  have "a div b * b \<le> cdiv a b * b"
    using cdiv_upper[OF assms, of a] div_mult_mod_eq[of a b] pos_mod_sign[OF assms, of a] by linarith
  then show ?thesis using assms by simp
qed

lemma round_down_le: "0 < y \<Longrightarrow> round_down x y \<le> x \<and> x < round_down x y + y"
  unfolding round_down_def
  using div_mult_mod_eq[of x y] pos_mod_sign[of y x] pos_mod_bound[of y x] by linarith

lemma round_up_eq_cdiv:
  assumes "0 < y"
  shows "round_up x y = cdiv x y * y"
proof -
  have "cdiv x y = (x + y - 1) div y"
  proof (rule order_antisym)
    show "cdiv x y \<le> (x + y - 1) div y"
      unfolding cdiv_le_iff[OF assms]
      using div_mult_mod_eq[of "x + y - 1" y] pos_mod_bound[OF assms, of "x + y - 1"] by linarith
    have "x + y - 1 < (cdiv x y + 1) * y" using cdiv_upper[OF assms, of x] by (simp add: algebra_simps)
    then show "(x + y - 1) div y \<le> cdiv x y"
      using le_div_iff_mult_le_pos[OF assms, of "cdiv x y + 1" "x + y - 1"] by linarith
  qed
  then show ?thesis by (simp add: round_up_def)
qed

lemma bit_length_0 [simp]: "n \<le> 0 \<Longrightarrow> bit_length n = 0"
  by (simp add: bit_length.simps)

lemma bit_length_pos: "0 < n \<Longrightarrow> bit_length n = Suc (bit_length (n div 2))"
  by (subst bit_length.simps) simp

lemma bit_length_bound: "0 \<le> n \<Longrightarrow> n < 2 ^ bit_length n"
proof (induction n rule: bit_length.induct)
  case (1 n)
  show ?case
  proof (cases "n \<le> 0")
    case True
    then show ?thesis using 1 by simp
  next
    case False
    with 1 have "n div 2 < 2 ^ bit_length (n div 2)" by simp
    then show ?thesis using False bit_length_pos[of n] by simp
  qed
qed

lemma bit_length_tight: "0 < n \<Longrightarrow> 2 ^ (bit_length n - 1) \<le> n"
proof (induction n rule: bit_length.induct)
  case (1 n)
  show ?case
  proof (cases "n div 2 \<le> 0")
    case True
    then have "bit_length n = 1" using bit_length_pos[OF 1(2)] by simp
    then show ?thesis using 1(2) by simp
  next
    case False
    then have "2 ^ (bit_length (n div 2) - 1) \<le> n div 2" "bit_length (n div 2) \<noteq> 0"
      using 1 bit_length_pos[of "n div 2"] by auto
    then have "2 * 2 ^ (bit_length (n div 2) - 1) \<le> n" by linarith
    then have "2 ^ bit_length (n div 2) \<le> n"
      using \<open>bit_length (n div 2) \<noteq> 0\<close> by (cases "bit_length (n div 2)") simp_all
    then show ?thesis using bit_length_pos[OF 1(2)] by simp
  qed
qed

subsection \<open>Properties\<close>

text \<open>
  the next power of two is a power of two that is at least \<open>n\<close>, and less than \<open>2 * n\<close>, so it
  is the least one.
\<close>

theorem next_power_of_2_least:
  assumes "1 \<le> n"
  shows "\<exists>k. next_power_of_2 n = 2 ^ k \<and> n \<le> 2 ^ k \<and> 2 ^ k < 2 * n"
proof (cases "n = 1")
  case True
  then have "next_power_of_2 n = 2 ^ 0" by (simp add: next_power_of_2_def)
  with True show ?thesis by (intro exI[of _ 0]) simp
next
  case False
  let ?k = "bit_length (n - 1)"
  have "?k \<noteq> 0" using bit_length_pos[of "n - 1"] False assms by simp
  then have "2 ^ ?k = 2 * (2 :: int) ^ (?k - 1)" by (cases ?k) simp_all
  then have "2 ^ ?k < 2 * n" using bit_length_tight[of "n - 1"] False assms by linarith
  moreover have "n \<le> 2 ^ ?k" using bit_length_bound[of "n - 1"] assms by linarith
  moreover have "next_power_of_2 n = 2 ^ ?k" using assms by (simp add: next_power_of_2_def push_bit_eq_mult)
  ultimately show ?thesis by blast
qed

theorem next_power_of_2_least_witness:
  "\<exists>k. next_power_of_2 5 = 2 ^ k \<and> 5 \<le> (2 :: int) ^ k \<and> 2 ^ k < 2 * (5 :: int)"
  using next_power_of_2_least[of 5] by simp

end
