(* ===== verification/Kv_Cache_Spec.thy ===== *)
theory Kv_Cache_Spec
  imports Math_Utils
begin

section \<open>KV cache specifications\<close>

text \<open>
  \<open>vllm/v1/kv_cache_interface.py\<close>: the classes that say which KV cache a layer needs, their page
  sizes, their memory bounds and how the specifications of several layers are merged into one.
  One constructor of \<open>kv_cache_spec\<close> per class; \<open>isinstance\<close> goes through the class hierarchy
  \<open>spec_mro\<close>. A torch \<open>dtype\<close> is its name, and \<open>get_dtype_size\<close>, which asks torch, is the
  parameter \<open>dsz\<close>.
\<close>

subsection \<open>Quantisation modes\<close>

datatype kv_quant_mode = Q_NONE | FP8_PER_TENSOR | INT8_PER_TOKEN_HEAD | FP8_PER_TOKEN_HEAD | NVFP4

definition is_per_token_head :: "kv_quant_mode \<Rightarrow> bool" where
  "is_per_token_head q \<longleftrightarrow> q \<in> {INT8_PER_TOKEN_HEAD, FP8_PER_TOKEN_HEAD}"

definition is_nvfp4 :: "kv_quant_mode \<Rightarrow> bool" where
  "is_nvfp4 q \<longleftrightarrow> q = NVFP4"

definition get_kv_quant_mode :: "string \<Rightarrow> kv_quant_mode" where
  "get_kv_quant_mode s =
     (if s = ''int8_per_token_head'' then INT8_PER_TOKEN_HEAD
      else if s = ''fp8_per_token_head'' then FP8_PER_TOKEN_HEAD
      else if s = ''nvfp4'' then NVFP4
      else if take 3 s = ''fp8'' then FP8_PER_TENSOR
      else Q_NONE)"

definition is_quantized_kv_cache :: "string \<Rightarrow> bool" where
  "is_quantized_kv_cache s \<longleftrightarrow> get_kv_quant_mode s \<noteq> Q_NONE"

definition kv_cache_uses_per_token_head_scales :: "string \<Rightarrow> bool" where
  "kv_cache_uses_per_token_head_scales s = is_per_token_head (get_kv_quant_mode s)"

definition nvfp4_kv_cache_full_dim :: "int \<Rightarrow> int" where
  "nvfp4_kv_cache_full_dim head_size = head_size div 2 + head_size div 16"

subsection \<open>The specification classes\<close>

text \<open>
  \<open>attention_spec\<close> holds the fields of \<open>KVCacheSpec\<close> and \<open>AttentionSpec\<close>, \<open>full_fields\<close> those
  that \<open>FullAttentionSpec\<close> adds and \<open>mla_fields\<close> those the two MLA classes add.
\<close>

record attention_spec =
  as_block_size :: int
  num_kv_heads :: int
  head_size :: int
  as_dtype :: string
  quant_mode :: kv_quant_mode
  page_size_padded :: "int option"

record full_fields =
  head_size_v :: int
  ff_sliding_window :: "int option"
  ff_attention_chunk_size :: "int option"

record mla_fields =
  cache_dtype_str :: "string option"
  mla_alignment :: "int option"
  compress_ratio :: int
  model_version :: "string option"

record mamba_spec =
  ms_block_size :: int
  ms_shapes :: "int list list"
  ms_dtypes :: "string list"
  ms_page_size_padded :: "int option"
  ms_mamba_type :: string
  ms_cache_mode :: string
  ms_num_speculative_blocks :: int

datatype kv_cache_spec =
    FullAttentionSpec attention_spec full_fields
  | TQFullAttentionSpec attention_spec full_fields int
  | MLAAttentionSpec attention_spec full_fields mla_fields
  | HiddenStateCacheSpec attention_spec full_fields mla_fields
  | SinkFullAttentionSpec attention_spec full_fields "int option"
  | ChunkedLocalAttentionSpec attention_spec int
  | SlidingWindowSpec attention_spec int int
  | SlidingWindowMLASpec attention_spec int "int option" mla_fields
  | MambaSpec mamba_spec
  | EncoderOnlyAttentionSpec attention_spec
  | CrossAttentionSpec attention_spec
  | UniformTypeKVCacheSpecs int "(string \<times> kv_cache_spec) list"

text \<open>
  \<open>__post_init__\<close>: the value head size defaults to the head size.
\<close>

definition full_post_init :: "attention_spec \<Rightarrow> int option \<Rightarrow> int option \<Rightarrow> int option \<Rightarrow> full_fields" where
  "full_post_init a hv w c =
     \<lparr>head_size_v = (case hv of None \<Rightarrow> head_size a | Some v \<Rightarrow> v), ff_sliding_window = w,
      ff_attention_chunk_size = c\<rparr>"

definition sliding_post_init :: "attention_spec \<Rightarrow> int \<Rightarrow> int option \<Rightarrow> kv_cache_spec" where
  "sliding_post_init a w hv = SlidingWindowSpec a w (case hv of None \<Rightarrow> head_size a | Some v \<Rightarrow> v)"

fun block_size :: "kv_cache_spec \<Rightarrow> int" where
  "block_size (FullAttentionSpec a _) = as_block_size a"
| "block_size (TQFullAttentionSpec a _ _) = as_block_size a"
| "block_size (MLAAttentionSpec a _ _) = as_block_size a"
| "block_size (HiddenStateCacheSpec a _ _) = as_block_size a"
| "block_size (SinkFullAttentionSpec a _ _) = as_block_size a"
| "block_size (ChunkedLocalAttentionSpec a _) = as_block_size a"
| "block_size (SlidingWindowSpec a _ _) = as_block_size a"
| "block_size (SlidingWindowMLASpec a _ _ _) = as_block_size a"
| "block_size (MambaSpec s) = ms_block_size s"
| "block_size (EncoderOnlyAttentionSpec a) = as_block_size a"
| "block_size (CrossAttentionSpec a) = as_block_size a"
| "block_size (UniformTypeKVCacheSpecs n _) = n"

definition set_as_block_size :: "int \<Rightarrow> attention_spec \<Rightarrow> attention_spec" where
  "set_as_block_size n a = a\<lparr>as_block_size := n\<rparr>"

subsection \<open>Class hierarchy\<close>

datatype spec_class =
    C_KVCacheSpec | C_AttentionSpec | C_FullAttentionSpec | C_TQFullAttentionSpec | C_MLAAttentionSpec
  | C_HiddenStateCacheSpec | C_SinkFullAttentionSpec | C_ChunkedLocalAttentionSpec | C_SlidingWindowSpec
  | C_SlidingWindowMLASpec | C_MambaSpec | C_EncoderOnlyAttentionSpec | C_CrossAttentionSpec
  | C_UniformTypeKVCacheSpecs

fun spec_type :: "kv_cache_spec \<Rightarrow> spec_class" where
  "spec_type (FullAttentionSpec _ _) = C_FullAttentionSpec"
| "spec_type (TQFullAttentionSpec _ _ _) = C_TQFullAttentionSpec"
| "spec_type (MLAAttentionSpec _ _ _) = C_MLAAttentionSpec"
| "spec_type (HiddenStateCacheSpec _ _ _) = C_HiddenStateCacheSpec"
| "spec_type (SinkFullAttentionSpec _ _ _) = C_SinkFullAttentionSpec"
| "spec_type (ChunkedLocalAttentionSpec _ _) = C_ChunkedLocalAttentionSpec"
| "spec_type (SlidingWindowSpec _ _ _) = C_SlidingWindowSpec"
| "spec_type (SlidingWindowMLASpec _ _ _ _) = C_SlidingWindowMLASpec"
| "spec_type (MambaSpec _) = C_MambaSpec"
| "spec_type (EncoderOnlyAttentionSpec _) = C_EncoderOnlyAttentionSpec"
| "spec_type (CrossAttentionSpec _) = C_CrossAttentionSpec"
| "spec_type (UniformTypeKVCacheSpecs _ _) = C_UniformTypeKVCacheSpecs"

text \<open>\<open>__mro__\<close> of each class, without \<open>object\<close>.\<close>

fun spec_mro :: "spec_class \<Rightarrow> spec_class list" where
  "spec_mro C_KVCacheSpec = [C_KVCacheSpec]"
| "spec_mro C_AttentionSpec = [C_AttentionSpec, C_KVCacheSpec]"
| "spec_mro C_FullAttentionSpec = [C_FullAttentionSpec, C_AttentionSpec, C_KVCacheSpec]"
| "spec_mro C_TQFullAttentionSpec = [C_TQFullAttentionSpec, C_FullAttentionSpec, C_AttentionSpec, C_KVCacheSpec]"
| "spec_mro C_MLAAttentionSpec = [C_MLAAttentionSpec, C_FullAttentionSpec, C_AttentionSpec, C_KVCacheSpec]"
| "spec_mro C_HiddenStateCacheSpec =
     [C_HiddenStateCacheSpec, C_MLAAttentionSpec, C_FullAttentionSpec, C_AttentionSpec, C_KVCacheSpec]"
| "spec_mro C_SinkFullAttentionSpec = [C_SinkFullAttentionSpec, C_FullAttentionSpec, C_AttentionSpec, C_KVCacheSpec]"
| "spec_mro C_ChunkedLocalAttentionSpec = [C_ChunkedLocalAttentionSpec, C_AttentionSpec, C_KVCacheSpec]"
| "spec_mro C_SlidingWindowSpec = [C_SlidingWindowSpec, C_AttentionSpec, C_KVCacheSpec]"
| "spec_mro C_SlidingWindowMLASpec = [C_SlidingWindowMLASpec, C_SlidingWindowSpec, C_AttentionSpec, C_KVCacheSpec]"
| "spec_mro C_MambaSpec = [C_MambaSpec, C_KVCacheSpec]"
| "spec_mro C_EncoderOnlyAttentionSpec = [C_EncoderOnlyAttentionSpec, C_AttentionSpec, C_KVCacheSpec]"
| "spec_mro C_CrossAttentionSpec = [C_CrossAttentionSpec, C_AttentionSpec, C_KVCacheSpec]"
| "spec_mro C_UniformTypeKVCacheSpecs = [C_UniformTypeKVCacheSpecs, C_KVCacheSpec]"

definition issubclass :: "spec_class \<Rightarrow> spec_class \<Rightarrow> bool" where
  "issubclass c d \<longleftrightarrow> d \<in> set (spec_mro c)"

definition isinstance :: "kv_cache_spec \<Rightarrow> spec_class \<Rightarrow> bool" where
  "isinstance s c = issubclass (spec_type s) c"

subsection \<open>Page sizes\<close>

definition attention_real_page_size :: "(string \<Rightarrow> int) \<Rightarrow> attention_spec \<Rightarrow> int" where
  "attention_real_page_size dsz a =
     (if is_nvfp4 (quant_mode a)
      then 2 * as_block_size a * num_kv_heads a * nvfp4_kv_cache_full_dim (head_size a) * dsz (as_dtype a)
      else 2 * as_block_size a * num_kv_heads a * head_size a * dsz (as_dtype a))"

definition full_real_page_size :: "(string \<Rightarrow> int) \<Rightarrow> attention_spec \<Rightarrow> int \<Rightarrow> int" where
  "full_real_page_size dsz a hv =
     (if is_nvfp4 (quant_mode a)
      then as_block_size a * num_kv_heads a
             * (nvfp4_kv_cache_full_dim (head_size a) + nvfp4_kv_cache_full_dim hv) * dsz (as_dtype a)
      else as_block_size a * num_kv_heads a * (head_size a + hv) * dsz (as_dtype a))"

definition sliding_real_page_size :: "(string \<Rightarrow> int) \<Rightarrow> attention_spec \<Rightarrow> int \<Rightarrow> int" where
  "sliding_real_page_size dsz a hv =
     (if is_nvfp4 (quant_mode a)
      then as_block_size a * num_kv_heads a
             * (nvfp4_kv_cache_full_dim (head_size a) + nvfp4_kv_cache_full_dim hv) * dsz (as_dtype a)
      else as_block_size a * num_kv_heads a * (head_size a + hv) * dsz (as_dtype a))"

definition tq_real_page_size :: "(string \<Rightarrow> int) \<Rightarrow> attention_spec \<Rightarrow> int \<Rightarrow> int \<Rightarrow> int" where
  "tq_real_page_size dsz a hv slot =
     (if slot > 0 then as_block_size a * num_kv_heads a * slot else full_real_page_size dsz a hv)"

definition mla_storage_block_size :: "attention_spec \<Rightarrow> mla_fields \<Rightarrow> int" where
  "mla_storage_block_size a f = as_block_size a div compress_ratio f"

definition mla_real_page_size :: "(string \<Rightarrow> int) \<Rightarrow> attention_spec \<Rightarrow> mla_fields \<Rightarrow> int" where
  "mla_real_page_size dsz a f =
     (if cache_dtype_str f = Some ''fp8_ds_mla'' then
        (if model_version f = Some ''deepseek_v4'' then mla_storage_block_size a f * 584
         else as_block_size a * 656)
      else mla_storage_block_size a f * num_kv_heads a * head_size a * dsz (as_dtype a))"

definition sliding_mla_real_page_size :: "(string \<Rightarrow> int) \<Rightarrow> attention_spec \<Rightarrow> mla_fields \<Rightarrow> int result" where
  "sliding_mla_real_page_size dsz a f =
     (if model_version f = Some ''deepseek_v4'' \<and> cache_dtype_str f = Some ''fp8_ds_mla''
      then Inr (mla_storage_block_size a f * 584)
      else rbind (rassert (model_version f \<in> {None, Some ''deepseek_v4''})) (\<lambda>_.
             Inr (mla_storage_block_size a f * num_kv_heads a * head_size a * dsz (as_dtype a))))"

text \<open>\<open>AttentionSpec.page_size_bytes\<close>, given the real page size of the class.\<close>

definition attention_page_size :: "(string \<Rightarrow> int) \<Rightarrow> attention_spec \<Rightarrow> int \<Rightarrow> int result" where
  "attention_page_size dsz a real0 =
     (let real = (if is_per_token_head (quant_mode a)
                  then real0 + 2 * as_block_size a * num_kv_heads a * dsz ''float32'' else real0)
      in case page_size_padded a of
           None \<Rightarrow> Inr real
         | Some padded \<Rightarrow> rbind (rassert (padded \<ge> real)) (\<lambda>_. Inr padded))"

definition mamba_page_size :: "(string \<Rightarrow> int) \<Rightarrow> mamba_spec \<Rightarrow> int result" where
  "mamba_page_size dsz s =
     (let page = sum_list (map2 (\<lambda>shape dt. prod_list shape * dsz dt) (ms_shapes s) (ms_dtypes s))
      in case ms_page_size_padded s of
           None \<Rightarrow> Inr page
         | Some padded \<Rightarrow> rbind (rassert (padded \<ge> page)) (\<lambda>_. Inr padded))"

lemma size_uniform_member: "(k, s) \<in> set ss \<Longrightarrow> size s < size_list (size_prod g size) ss"
  by (induction ss) force+

fun page_size_bytes :: "(string \<Rightarrow> int) \<Rightarrow> kv_cache_spec \<Rightarrow> int result" where
  "page_size_bytes dsz (FullAttentionSpec a f) = attention_page_size dsz a (full_real_page_size dsz a (head_size_v f))"
| "page_size_bytes dsz (TQFullAttentionSpec a f slot) =
     attention_page_size dsz a (tq_real_page_size dsz a (head_size_v f) slot)"
| "page_size_bytes dsz (MLAAttentionSpec a f m) = attention_page_size dsz a (mla_real_page_size dsz a m)"
| "page_size_bytes dsz (HiddenStateCacheSpec a f m) = attention_page_size dsz a (mla_real_page_size dsz a m)"
| "page_size_bytes dsz (SinkFullAttentionSpec a f _) = attention_page_size dsz a (full_real_page_size dsz a (head_size_v f))"
| "page_size_bytes dsz (ChunkedLocalAttentionSpec a _) = attention_page_size dsz a (attention_real_page_size dsz a)"
| "page_size_bytes dsz (SlidingWindowSpec a _ hv) = attention_page_size dsz a (sliding_real_page_size dsz a hv)"
| "page_size_bytes dsz (SlidingWindowMLASpec a _ _ m) =
     rbind (sliding_mla_real_page_size dsz a m) (attention_page_size dsz a)"
| "page_size_bytes dsz (MambaSpec s) = mamba_page_size dsz s"
| "page_size_bytes dsz (EncoderOnlyAttentionSpec a) = attention_page_size dsz a (attention_real_page_size dsz a)"
| "page_size_bytes dsz (CrossAttentionSpec a) = attention_page_size dsz a (attention_real_page_size dsz a)"
| "page_size_bytes dsz (UniformTypeKVCacheSpecs _ ss) =
     rbind (rmap (page_size_bytes dsz) (map snd ss)) (\<lambda>ps. Inr (sum_list ps))"

text \<open>\<open>_apply_alignment_padding\<close> and the constructors of the MLA classes, which call it.\<close>

definition apply_alignment_padding :: "int option \<Rightarrow> int \<Rightarrow> attention_spec \<Rightarrow> attention_spec" where
  "apply_alignment_padding align actual a =
     (case align of
        None \<Rightarrow> a
      | Some al \<Rightarrow> (let padded = round_up actual al
                    in if padded \<noteq> actual then a\<lparr>page_size_padded := Some padded\<rparr> else a))"

definition mla_post_init ::
  "(string \<Rightarrow> int) \<Rightarrow> attention_spec \<Rightarrow> int option \<Rightarrow> int option \<Rightarrow> int option \<Rightarrow> mla_fields \<Rightarrow> kv_cache_spec" where
  "mla_post_init dsz a hv w c m =
     MLAAttentionSpec (apply_alignment_padding (mla_alignment m) (mla_real_page_size dsz a m) a)
       (full_post_init a hv w c) m"

definition sliding_mla_post_init ::
  "(string \<Rightarrow> int) \<Rightarrow> attention_spec \<Rightarrow> int \<Rightarrow> int option \<Rightarrow> mla_fields \<Rightarrow> kv_cache_spec result" where
  "sliding_mla_post_init dsz a w hv m =
     (if mla_alignment m = None then Inr (SlidingWindowMLASpec a w hv m)
      else rbind (sliding_mla_real_page_size dsz a m) (\<lambda>actual.
             Inr (SlidingWindowMLASpec (apply_alignment_padding (mla_alignment m) actual a) w hv m)))"

subsection \<open>Memory bounds\<close>

text \<open>
  \<open>max_admission_blocks_per_request\<close> of the two window classes, and \<open>max_memory_usage_bytes\<close>. A
  record holds the fields of \<open>VllmConfig\<close> that are read.
\<close>

record mem_config =
  cfg_max_model_len :: int
  cfg_max_num_batched_tokens :: int
  cfg_dcp_size :: int
  cfg_pcp_size :: int
  cfg_mamba_cache_mode :: string
  cfg_max_num_encoder_input_tokens :: int

definition chunked_max_admission_blocks :: "attention_spec \<Rightarrow> int \<Rightarrow> int \<Rightarrow> int \<Rightarrow> int" where
  "chunked_max_admission_blocks a chunk max_batched max_len =
     cdiv (min (chunk + max_batched) max_len) (as_block_size a)"

definition sliding_max_admission_blocks :: "attention_spec \<Rightarrow> int \<Rightarrow> int \<Rightarrow> int \<Rightarrow> int" where
  "sliding_max_admission_blocks a window max_batched max_len =
     cdiv (min (window - 1 + max_batched) max_len) (as_block_size a) + 1"

definition full_max_memory :: "mem_config \<Rightarrow> int \<Rightarrow> int \<Rightarrow> int" where
  "full_max_memory cfg bs page =
     (let world = cfg_dcp_size cfg * cfg_pcp_size cfg;
          len = (if world > 1 then cdiv (cfg_max_model_len cfg) world else cfg_max_model_len cfg)
      in cdiv len bs * page)"

definition chunked_max_memory :: "mem_config \<Rightarrow> attention_spec \<Rightarrow> int \<Rightarrow> int \<Rightarrow> int" where
  "chunked_max_memory cfg a chunk page =
     chunked_max_admission_blocks a chunk (cfg_max_num_batched_tokens cfg) (cfg_max_model_len cfg) * page"

definition sliding_max_memory :: "mem_config \<Rightarrow> attention_spec \<Rightarrow> int \<Rightarrow> int \<Rightarrow> int" where
  "sliding_max_memory cfg a window page =
     sliding_max_admission_blocks a window (cfg_max_num_batched_tokens cfg) (cfg_max_model_len cfg) * page"

definition mamba_max_memory :: "mem_config \<Rightarrow> mamba_spec \<Rightarrow> int \<Rightarrow> int" where
  "mamba_max_memory cfg s page =
     (if cfg_mamba_cache_mode cfg = ''all''
      then (cdiv (cfg_max_model_len cfg) (ms_block_size s) + ms_num_speculative_blocks s) * page
      else if cfg_mamba_cache_mode cfg = ''align'' then page * (2 + ms_num_speculative_blocks s)
      else page * (1 + ms_num_speculative_blocks s))"

definition cross_max_memory :: "mem_config \<Rightarrow> attention_spec \<Rightarrow> int \<Rightarrow> int" where
  "cross_max_memory cfg a page = cdiv (cfg_max_num_encoder_input_tokens cfg) (as_block_size a) * page"

text \<open>\<open>max(...)\<close> of a sequence: it raises \<open>ValueError\<close> when the sequence is empty.\<close>

definition py_max :: "int list \<Rightarrow> int result" where
  "py_max xs = (if xs = [] then Inl ValueError else Inr (Max (set xs)))"

definition uniform_max_pages :: "(kv_cache_spec \<Rightarrow> int result) \<Rightarrow> (kv_cache_spec \<Rightarrow> int result) \<Rightarrow> kv_cache_spec list \<Rightarrow> int result" where
  "uniform_max_pages mem page ss =
     rbind (rmap (\<lambda>s. rbind (mem s) (\<lambda>m. rbind (page s) (\<lambda>pg.
              if pg = 0 then Inl ZeroDivisionError else Inr (cdiv m pg)))) ss) py_max"

lemma uniform_max_pages_cong [fundef_cong]:
  "ss = ts \<Longrightarrow> page = page' \<Longrightarrow> (\<And>s. s \<in> set ts \<Longrightarrow> mem s = mem' s) \<Longrightarrow>
   uniform_max_pages mem page ss = uniform_max_pages mem' page' ts"
  unfolding uniform_max_pages_def by (auto intro!: arg_cong2[where f = rbind] rmap_cong)

definition layer_max_memory :: "(string \<Rightarrow> int) \<Rightarrow> mem_config \<Rightarrow> kv_cache_spec \<Rightarrow> int result" where
  "layer_max_memory dsz cfg s =
     (case s of
        EncoderOnlyAttentionSpec a \<Rightarrow> Inr 0
      | ChunkedLocalAttentionSpec a chunk \<Rightarrow>
          rbind (page_size_bytes dsz s) (\<lambda>page. Inr (chunked_max_memory cfg a chunk page))
      | SlidingWindowSpec a w _ \<Rightarrow>
          rbind (rassert (cfg_dcp_size cfg = 1)) (\<lambda>_.
          rbind (page_size_bytes dsz s) (\<lambda>page. Inr (sliding_max_memory cfg a w page)))
      | SlidingWindowMLASpec a w _ _ \<Rightarrow>
          rbind (rassert (cfg_dcp_size cfg = 1)) (\<lambda>_.
          rbind (page_size_bytes dsz s) (\<lambda>page. Inr (sliding_max_memory cfg a w page)))
      | MambaSpec ms \<Rightarrow> rbind (page_size_bytes dsz s) (\<lambda>page. Inr (mamba_max_memory cfg ms page))
      | CrossAttentionSpec a \<Rightarrow> rbind (page_size_bytes dsz s) (\<lambda>page. Inr (cross_max_memory cfg a page))
      | _ \<Rightarrow> rbind (page_size_bytes dsz s) (\<lambda>page. Inr (full_max_memory cfg (block_size s) page)))"

lemma is_uniform_iff: "spec_type s = C_UniformTypeKVCacheSpecs \<longleftrightarrow> (\<exists>n ss. s = UniformTypeKVCacheSpecs n ss)"
  by (cases s) auto

function max_memory_usage_bytes :: "(string \<Rightarrow> int) \<Rightarrow> mem_config \<Rightarrow> kv_cache_spec \<Rightarrow> int result" where
  "max_memory_usage_bytes dsz cfg (UniformTypeKVCacheSpecs n ss) =
     rbind (uniform_max_pages (max_memory_usage_bytes dsz cfg) (page_size_bytes dsz) (map snd ss)) (\<lambda>pages.
     rbind (page_size_bytes dsz (UniformTypeKVCacheSpecs n ss)) (\<lambda>page. Inr (pages * page)))"
| "spec_type s \<noteq> C_UniformTypeKVCacheSpecs \<Longrightarrow> max_memory_usage_bytes dsz cfg s = layer_max_memory dsz cfg s"
proof -
  fix P :: bool and x :: "(string \<Rightarrow> int) \<times> mem_config \<times> kv_cache_spec"
  assume 1: "\<And>dsz cfg n ss. x = (dsz, cfg, UniformTypeKVCacheSpecs n ss) \<Longrightarrow> P"
    and 2: "\<And>s dsz cfg. spec_type s \<noteq> C_UniformTypeKVCacheSpecs \<Longrightarrow> x = (dsz, cfg, s) \<Longrightarrow> P"
  obtain dsz cfg s where x: "x = (dsz, cfg, s)" by (cases x) auto
  show P using 1 2 x is_uniform_iff[of s] by blast
qed auto
termination
  by (relation "measure (\<lambda>(_, _, s). size s)") (auto dest!: size_uniform_member[where g = "\<lambda>_. 0"])

subsection \<open>Merging the specifications of a group\<close>

definition merge_window_sizes :: "int set \<Rightarrow> int option result" where
  "merge_window_sizes ws =
     (if ws = {} then Inr None else if card ws = 1 then Inr (Some (Max ws)) else Inl ValueError)"

text \<open>The fields of a \<open>FullAttentionSpec\<close> or of one of its subclasses.\<close>

definition full_parts :: "kv_cache_spec \<Rightarrow> (attention_spec \<times> full_fields) option" where
  "full_parts s =
     (case s of
        FullAttentionSpec a f \<Rightarrow> Some (a, f)
      | TQFullAttentionSpec a f _ \<Rightarrow> Some (a, f)
      | MLAAttentionSpec a f _ \<Rightarrow> Some (a, f)
      | HiddenStateCacheSpec a f _ \<Rightarrow> Some (a, f)
      | SinkFullAttentionSpec a f _ \<Rightarrow> Some (a, f)
      | _ \<Rightarrow> None)"

definition some_values :: "('a \<Rightarrow> 'b option) \<Rightarrow> 'a list \<Rightarrow> 'b set" where
  "some_values f xs = set (List.map_filter f xs)"

text \<open>
  The part of \<open>FullAttentionSpec.merge\<close> that \<open>SinkFullAttentionSpec.merge\<close> repeats: the merged
  attention fields and window fields.
\<close>

definition merge_full_parts :: "kv_cache_spec list \<Rightarrow> (attention_spec \<times> full_fields) result" where
  "merge_full_parts specs =
     rbind (rassert (\<forall>s \<in> set specs. isinstance s C_FullAttentionSpec)) (\<lambda>_.
       let parts = List.map_filter full_parts specs;
           windows = some_values (ff_sliding_window \<circ> snd) parts;
           chunks = some_values (ff_attention_chunk_size \<circ> snd) parts
       in rbind (rassert (\<forall>s \<in> set specs. \<not> isinstance s C_MLAAttentionSpec)) (\<lambda>_.
          rbind (py_index parts 0) (\<lambda>(a0, f0).
          rbind (merge_window_sizes windows) (\<lambda>w.
          rbind (merge_window_sizes chunks) (\<lambda>c.
          let f = \<lparr>head_size_v = head_size_v f0, ff_sliding_window = w, ff_attention_chunk_size = c\<rparr>
          in rbind (rassert (\<forall>(a, _) \<in> set parts. a = a0)) (\<lambda>_.
             rbind (rassert (\<not> (w \<noteq> None \<and> c \<noteq> None))) (\<lambda>_. Inr (a0, f))))))))"

definition tq_slot :: "kv_cache_spec \<Rightarrow> int result" where
  "tq_slot s =
     (case s of
        TQFullAttentionSpec _ _ slot \<Rightarrow> Inr slot
      | _ \<Rightarrow> Inl AttributeError)"

definition merge_tq :: "kv_cache_spec list \<Rightarrow> kv_cache_spec result" where
  "merge_tq specs =
     rbind (merge_full_parts specs) (\<lambda>(a, f).
     rbind (rbind (py_index specs 0) tq_slot) (\<lambda>slot0.
     rbind (rall (\<lambda>s. rbind (tq_slot s) (\<lambda>slot. Inr (slot = slot0))) specs) (\<lambda>same.
     rbind (rassert same) (\<lambda>_. Inr (TQFullAttentionSpec a f slot0)))))"

definition sink_len_of :: "kv_cache_spec \<Rightarrow> int option result" where
  "sink_len_of s =
     (case s of
        SinkFullAttentionSpec _ _ sink \<Rightarrow> Inr sink
      | _ \<Rightarrow> Inl AttributeError)"

definition merge_sink :: "kv_cache_spec list \<Rightarrow> kv_cache_spec result" where
  "merge_sink specs =
     rbind (merge_full_parts specs) (\<lambda>(a, f).
     rbind (rbind (py_index specs 0) sink_len_of) (\<lambda>sink. Inr (SinkFullAttentionSpec a f sink)))"

definition mla_parts :: "kv_cache_spec \<Rightarrow> (attention_spec \<times> mla_fields) option" where
  "mla_parts s =
     (case s of
        MLAAttentionSpec a _ m \<Rightarrow> Some (a, m)
      | HiddenStateCacheSpec a _ m \<Rightarrow> Some (a, m)
      | _ \<Rightarrow> None)"

definition merge_mla_fields :: "mla_fields list \<Rightarrow> mla_fields result" where
  "merge_mla_fields ms =
     rbind (rassert (card (set (map cache_dtype_str ms)) = 1 \<and> card (set (map compress_ratio ms)) = 1
                     \<and> card (set (map model_version ms)) = 1)) (\<lambda>_.
     rbind (py_index ms 0) (\<lambda>m. Inr (m\<lparr>mla_alignment := None\<rparr>)))"

definition merge_mla :: "bool \<Rightarrow> kv_cache_spec list \<Rightarrow> kv_cache_spec result" where
  "merge_mla hidden specs =
     rbind (rassert (\<forall>s \<in> set specs. isinstance s C_MLAAttentionSpec)) (\<lambda>_.
     let parts = List.map_filter mla_parts specs in
     rbind (merge_mla_fields (map snd parts)) (\<lambda>m.
     rbind (py_index parts 0) (\<lambda>(a, _).
       let f = full_post_init a None None None
       in Inr (if hidden then HiddenStateCacheSpec a f m else MLAAttentionSpec a f m))))"

definition sliding_mla_parts :: "kv_cache_spec \<Rightarrow> (attention_spec \<times> int \<times> mla_fields) option" where
  "sliding_mla_parts s =
     (case s of
        SlidingWindowMLASpec a w _ m \<Rightarrow> Some (a, w, m)
      | _ \<Rightarrow> None)"

text \<open>\<open>SlidingWindowMLASpec.merge\<close> does not pass \<open>kv_quant_mode\<close> on: the merged spec gets the default.\<close>

definition merge_sliding_mla :: "kv_cache_spec list \<Rightarrow> kv_cache_spec result" where
  "merge_sliding_mla specs =
     rbind (rassert (\<forall>s \<in> set specs. isinstance s C_SlidingWindowMLASpec)) (\<lambda>_.
     let parts = List.map_filter sliding_mla_parts specs in
     rbind (rassert (card (set (map (fst \<circ> snd) parts)) = 1)) (\<lambda>_.
     rbind (merge_mla_fields (map (snd \<circ> snd) parts)) (\<lambda>m.
     rbind (py_index parts 0) (\<lambda>(a, w, _).
       Inr (SlidingWindowMLASpec (a\<lparr>quant_mode := Q_NONE\<rparr>) w None m)))))"

definition merge_base :: "kv_cache_spec list \<Rightarrow> kv_cache_spec result" where
  "merge_base specs =
     rbind (rassert (\<forall>s \<in> set (tl specs). s = hd specs)) (\<lambda>_. py_index specs 0)"

text \<open>\<open>specs[0].merge(specs)\<close>: the method of the class of the first spec.\<close>

definition spec_merge :: "kv_cache_spec list \<Rightarrow> kv_cache_spec result" where
  "spec_merge specs =
     rbind (py_index specs 0) (\<lambda>s.
       case spec_type s of
         C_FullAttentionSpec \<Rightarrow> rbind (merge_full_parts specs) (\<lambda>(a, f). Inr (FullAttentionSpec a f))
       | C_TQFullAttentionSpec \<Rightarrow> merge_tq specs
       | C_SinkFullAttentionSpec \<Rightarrow> merge_sink specs
       | C_MLAAttentionSpec \<Rightarrow> merge_mla False specs
       | C_HiddenStateCacheSpec \<Rightarrow> merge_mla True specs
       | C_SlidingWindowMLASpec \<Rightarrow> merge_sliding_mla specs
       | _ \<Rightarrow> merge_base specs)"

subsection \<open>The registry of specification classes\<close>

text \<open>
  \<open>vllm/v1/kv_cache_spec_registry.py\<close> and the built-in registrations at the end of
  \<open>single_type_kv_cache_manager.py\<close>. The registry is a dictionary from classes to metadata; the
  platform's hook \<open>register_custom_kv_cache_specs\<close> is a parameter.
\<close>

datatype manager_class =
    M_FullAttentionManager | M_SlidingWindowManager | M_ChunkedLocalAttentionManager | M_MambaManager
  | M_CrossAttentionManager | M_SinkFullAttentionManager

record spec_metadata =
  kvcache_spec_cls :: spec_class
  md_manager_class :: manager_class
  uniform_type_base_spec :: spec_class

type_synonym spec_registry = "(spec_class, spec_metadata) dict"

definition register_spec ::
  "spec_class \<Rightarrow> manager_class option \<Rightarrow> spec_class option \<Rightarrow> spec_registry \<Rightarrow> spec_registry result" where
  "register_spec cls mgr base reg =
     (case mgr of
        None \<Rightarrow> Inl AssertionError
      | Some mc \<Rightarrow>
          let b = (case base of None \<Rightarrow> cls | Some c \<Rightarrow> c) in
          rbind (rassert (issubclass cls b)) (\<lambda>_.
          rbind (case dict_get reg cls of
                   None \<Rightarrow> Inr ()
                 | Some md \<Rightarrow> rassert (mc = md_manager_class md \<and> b = uniform_type_base_spec md)) (\<lambda>_.
            Inr (dict_set cls \<lparr>kvcache_spec_cls = cls, md_manager_class = mc, uniform_type_base_spec = b\<rparr> reg))))"

definition builtin_specs :: "(spec_class \<times> manager_class \<times> spec_class) list" where
  "builtin_specs =
     [(C_FullAttentionSpec, M_FullAttentionManager, C_FullAttentionSpec),
      (C_SlidingWindowSpec, M_SlidingWindowManager, C_SlidingWindowSpec),
      (C_SlidingWindowMLASpec, M_SlidingWindowManager, C_SlidingWindowMLASpec),
      (C_MambaSpec, M_MambaManager, C_MambaSpec),
      (C_ChunkedLocalAttentionSpec, M_ChunkedLocalAttentionManager, C_ChunkedLocalAttentionSpec),
      (C_CrossAttentionSpec, M_CrossAttentionManager, C_CrossAttentionSpec),
      (C_TQFullAttentionSpec, M_FullAttentionManager, C_FullAttentionSpec),
      (C_MLAAttentionSpec, M_FullAttentionManager, C_FullAttentionSpec),
      (C_HiddenStateCacheSpec, M_FullAttentionManager, C_FullAttentionSpec),
      (C_SinkFullAttentionSpec, M_SinkFullAttentionManager, C_FullAttentionSpec)]"

definition register_all_kvcache_specs :: "(spec_registry \<Rightarrow> spec_registry result) \<Rightarrow> spec_registry \<Rightarrow> spec_registry result" where
  "register_all_kvcache_specs custom reg =
     rbind (rfold (\<lambda>(c, m, b). register_spec c (Some m) (Some b)) builtin_specs reg) custom"

definition ensure_registered :: "(spec_registry \<Rightarrow> spec_registry result) \<Rightarrow> spec_registry \<Rightarrow> spec_registry result" where
  "ensure_registered custom reg = (if reg \<noteq> [] then Inr reg else register_all_kvcache_specs custom reg)"

text \<open>The walk up the \<open>__mro__\<close>: the first registered class wins.\<close>

fun first_registered :: "spec_registry \<Rightarrow> spec_class list \<Rightarrow> spec_metadata option" where
  "first_registered reg [] = None"
| "first_registered reg (c # cs) = (case dict_get reg c of None \<Rightarrow> first_registered reg cs | Some md \<Rightarrow> Some md)"

definition get_manager_class :: "spec_registry \<Rightarrow> kv_cache_spec \<Rightarrow> manager_class option" where
  "get_manager_class reg s = map_option md_manager_class (first_registered reg (spec_mro (spec_type s)))"

definition get_uniform_type_base_spec :: "spec_registry \<Rightarrow> kv_cache_spec \<Rightarrow> spec_class option" where
  "get_uniform_type_base_spec reg s = map_option uniform_type_base_spec (first_registered reg (spec_mro (spec_type s)))"

definition check_kv_cache_spec_registry :: "spec_registry \<Rightarrow> (string, kv_cache_spec) dict \<Rightarrow> unit result" where
  "check_kv_cache_spec_registry reg specs =
     rfold (\<lambda>(_, s) _. if get_uniform_type_base_spec reg s = None then Inl ValueError
                       else if get_manager_class reg s = None then Inl ValueError else Inr ()) specs ()"

subsection \<open>Uniform specifications\<close>

fun sliding_window_of :: "kv_cache_spec \<Rightarrow> int option" where
  "sliding_window_of (SlidingWindowSpec _ w _) = Some w"
| "sliding_window_of (SlidingWindowMLASpec _ w _ _) = Some w"
| "sliding_window_of _ = None"

text \<open>\<open>is_uniform_with_collection\<close>, by the class of the receiver.\<close>

definition is_uniform_with_collection :: "spec_registry \<Rightarrow> kv_cache_spec \<Rightarrow> kv_cache_spec list \<Rightarrow> bool result" where
  "is_uniform_with_collection reg s specs =
     (case s of
        ChunkedLocalAttentionSpec _ chunk \<Rightarrow>
          Inr (list_all (\<lambda>t. case t of ChunkedLocalAttentionSpec _ c \<Rightarrow> c = chunk | _ \<Rightarrow> False) specs)
      | SlidingWindowSpec _ w _ \<Rightarrow>
          Inr (list_all (\<lambda>t. isinstance t C_SlidingWindowSpec \<and> sliding_window_of t = Some w) specs)
      | SlidingWindowMLASpec _ w _ _ \<Rightarrow>
          Inr (list_all (\<lambda>t. isinstance t C_SlidingWindowMLASpec \<and> sliding_window_of t = Some w) specs)
      | MambaSpec ms \<Rightarrow>
          Inr (list_all (\<lambda>t. case t of MambaSpec mt \<Rightarrow>
                 ms_num_speculative_blocks mt = ms_num_speculative_blocks ms | _ \<Rightarrow> False) specs)
      | _ \<Rightarrow> (case get_uniform_type_base_spec reg s of
                None \<Rightarrow> Inl AssertionError
              | Some base \<Rightarrow> Inr (list_all (\<lambda>t. isinstance t base) specs)))"

text \<open>\<open>next(iter(...))\<close> of an empty dictionary raises; the model's error is \<open>IndexError\<close>.\<close>

definition is_uniform_type :: "spec_registry \<Rightarrow> (string, kv_cache_spec) dict \<Rightarrow> bool result" where
  "is_uniform_type reg specs =
     (let ss = map snd specs
      in if card (set (map block_size ss)) > 1 then Inr False
         else rbind (py_index ss 0) (\<lambda>s. is_uniform_with_collection reg s ss))"

definition uniform_from_specs :: "spec_registry \<Rightarrow> (string, kv_cache_spec) dict \<Rightarrow> kv_cache_spec option result" where
  "uniform_from_specs reg specs =
     rbind (is_uniform_type reg specs) (\<lambda>uniform.
       if uniform
       then rbind (py_index (map snd specs) 0) (\<lambda>s. Inr (Some (UniformTypeKVCacheSpecs (block_size s) specs)))
       else Inr None)"

definition get_page_sizes :: "(string \<Rightarrow> int) \<Rightarrow> (string, kv_cache_spec) dict \<Rightarrow> int set result" where
  "get_page_sizes dsz specs = rbind (rmap (page_size_bytes dsz) (map snd specs)) (\<lambda>ps. Inr (set ps))"

definition get_num_layer_tuples :: "(string \<Rightarrow> int) \<Rightarrow> (string, kv_cache_spec) dict \<Rightarrow> int result" where
  "get_num_layer_tuples dsz specs =
     rbind (rmap (page_size_bytes dsz) (map snd specs)) (\<lambda>ps.
       if ps = [] then Inl IndexError else Inr (Max (set (map (\<lambda>q. int (count_list ps q)) ps))))"

definition max_memory_usage_pages :: "(string \<Rightarrow> int) \<Rightarrow> mem_config \<Rightarrow> (string, kv_cache_spec) dict \<Rightarrow> int result" where
  "max_memory_usage_pages dsz cfg specs =
     uniform_max_pages (max_memory_usage_bytes dsz cfg) (page_size_bytes dsz) (map snd specs)"

subsection \<open>Kinds, groups and configurations\<close>

datatype spec_kind =
    K_FULL_ATTENTION | K_MLA_ATTENTION | K_SLIDING_WINDOW | K_SLIDING_WINDOW_MLA | K_MAMBA
  | K_CHUNKED_LOCAL_ATTENTION | K_SINK_FULL_ATTENTION | K_ENCODER_ONLY_ATTENTION | K_CROSS_ATTENTION | K_UNKNOWN

definition layer_spec_kind :: "kv_cache_spec \<Rightarrow> spec_kind" where
  "layer_spec_kind s =
     (if isinstance s C_SlidingWindowMLASpec then K_SLIDING_WINDOW_MLA
      else if isinstance s C_MLAAttentionSpec then K_MLA_ATTENTION
      else if isinstance s C_SinkFullAttentionSpec then K_SINK_FULL_ATTENTION
      else if isinstance s C_FullAttentionSpec then K_FULL_ATTENTION
      else if isinstance s C_ChunkedLocalAttentionSpec then K_CHUNKED_LOCAL_ATTENTION
      else if isinstance s C_SlidingWindowSpec then K_SLIDING_WINDOW
      else if isinstance s C_MambaSpec then K_MAMBA
      else if isinstance s C_EncoderOnlyAttentionSpec then K_ENCODER_ONLY_ATTENTION
      else if isinstance s C_CrossAttentionSpec then K_CROSS_ATTENTION
      else K_UNKNOWN)"

definition only_value :: "'a list \<Rightarrow> 'a option" where
  "only_value xs = (case remdups xs of [x] \<Rightarrow> Some x | _ \<Rightarrow> None)"

function (sequential) get_kv_cache_spec_kind :: "kv_cache_spec \<Rightarrow> spec_kind" where
  "get_kv_cache_spec_kind (UniformTypeKVCacheSpecs _ ss) =
     (case only_value (map (\<lambda>(_, s). get_kv_cache_spec_kind s) ss) of None \<Rightarrow> K_UNKNOWN | Some k \<Rightarrow> k)"
| "get_kv_cache_spec_kind s = layer_spec_kind s"
  by pat_completeness auto
termination
  by (relation "measure size") (auto dest!: size_uniform_member[where g = "\<lambda>_. 0"])

function (sequential) get_kv_cache_spec_sliding_window :: "kv_cache_spec \<Rightarrow> int option" where
  "get_kv_cache_spec_sliding_window (UniformTypeKVCacheSpecs _ ss) =
     (case only_value (map (\<lambda>(_, s). get_kv_cache_spec_sliding_window s) ss) of None \<Rightarrow> None | Some w \<Rightarrow> w)"
| "get_kv_cache_spec_sliding_window s = sliding_window_of s"
  by pat_completeness auto
termination
  by (relation "measure size") (auto dest!: size_uniform_member[where g = "\<lambda>_. 0"])

record kv_cache_tensor =
  kt_size :: int
  kt_shared_by :: "string list"

record kv_cache_group_spec =
  layer_names :: "string list"
  group_spec :: kv_cache_spec
  is_eagle_group :: bool

record kv_cache_config =
  num_blocks :: int
  kv_cache_tensors :: "kv_cache_tensor list"
  kv_cache_groups :: "kv_cache_group_spec list"

definition has_mamba_layers :: "kv_cache_config \<Rightarrow> bool" where
  "has_mamba_layers cfg = list_ex (\<lambda>g. isinstance (group_spec g) C_MambaSpec) (kv_cache_groups cfg)"

definition needs_kv_cache_zeroing :: "kv_cache_config \<Rightarrow> bool" where
  "needs_kv_cache_zeroing cfg = has_mamba_layers cfg"

subsection \<open>The admission cap\<close>

text \<open>
  A request that has computed \<open>c\<close> tokens and gets \<open>n\<close> more holds the blocks from the first one
  that is not skipped entirely up to the last one it needs: \<open>window_blocks\<close> of them, where
  \<open>skipped\<close> tokens lie outside the attention window.
\<close>

definition window_blocks :: "int \<Rightarrow> int \<Rightarrow> int \<Rightarrow> int \<Rightarrow> int" where
  "window_blocks bs skipped c n = cdiv (c + n) bs - skipped div bs"

lemma cdiv_add_mult: "0 < b \<Longrightarrow> cdiv (a + k * b) b = cdiv a b + k"
proof (rule antisym)
  assume b: "0 < b"
  show "cdiv (a + k * b) b \<le> cdiv a b + k"
    unfolding cdiv_le_iff[OF b] using cdiv_upper[OF b, of a] by (simp add: distrib_right)
  have "cdiv a b \<le> cdiv (a + k * b) b - k"
    unfolding cdiv_le_iff[OF b] using cdiv_upper[OF b, of "a + k * b"] by (simp add: left_diff_distrib)
  then show "cdiv a b + k \<le> cdiv (a + k * b) b" by simp
qed

lemma window_blocks_le:
  assumes b: "0 < bs" and s: "0 \<le> s"
  shows "window_blocks bs s c n \<le> cdiv (c + n - s) bs + 1"
    and "bs dvd s \<Longrightarrow> window_blocks bs s c n = cdiv (c + n - s) bs"
proof -
  have "s - (s div bs) * bs < bs" using b by (simp add: minus_div_mult_eq_mod)
  then have "c + n - (s div bs) * bs \<le> (c + n - s) + 1 * bs" by simp
  then have le: "cdiv (c + n - (s div bs) * bs) bs \<le> cdiv (c + n - s) bs + 1"
    using cdiv_mono[OF b] cdiv_add_mult[OF b, of "c + n - s" 1] by metis
  have eq: "window_blocks bs s c n = cdiv (c + n - (s div bs) * bs) bs"
    unfolding window_blocks_def using cdiv_add_mult[OF b, of "c + n" "- (s div bs)"] by simp
  show "window_blocks bs s c n \<le> cdiv (c + n - s) bs + 1" using eq le by simp
  show "window_blocks bs s c n = cdiv (c + n - s) bs" if "bs dvd s" using eq that by simp
qed


definition sample_attention :: "int \<Rightarrow> kv_quant_mode \<Rightarrow> attention_spec" where
  "sample_attention bs q =
     \<lparr>as_block_size = bs, num_kv_heads = 8, head_size = 128, as_dtype = ''bfloat16'', quant_mode = q,
      page_size_padded = None\<rparr>"


text \<open>
  Without the divisibility the chunked cap is one block short: with blocks of 4 tokens, chunks of 6
  and 11 computed tokens, 2 more tokens make the request hold three blocks where the cap is two.
\<close>

lemma chunked_cap_too_small:
  "window_blocks 4 (11 div 6 * 6) 11 2 = 3 \<and> chunked_max_admission_blocks (sample_attention 4 Q_NONE) 6 2 8192 = 2"
  by (simp add: window_blocks_def chunked_max_admission_blocks_def sample_attention_def cdiv_def)

subsection \<open>Merging\<close>

lemma isinstance_sliding_mla: "isinstance (SlidingWindowMLASpec a w hv m) C_SlidingWindowMLASpec"
  by (simp add: isinstance_def issubclass_def)

text \<open>
  merging a single \<open>SlidingWindowMLASpec\<close> that uses per-token-head scales succeeds, but the
  merged spec has lost the quantisation mode and, unless a padded size is set, its page is smaller
  by the bytes of the scales.
\<close>

theorem sliding_mla_merge_shrinks_page:
  assumes "is_per_token_head (quant_mode a)" "page_size_padded a = None" "model_version m = None"
    "0 < as_block_size a" "0 < num_kv_heads a" "0 < dsz ''float32''"
  shows "\<exists>merged p p'. spec_merge [SlidingWindowMLASpec a w hv m] = Inr merged
    \<and> page_size_bytes dsz (SlidingWindowMLASpec a w hv m) = Inr p \<and> page_size_bytes dsz merged = Inr p'
    \<and> p = p' + 2 * as_block_size a * num_kv_heads a * dsz ''float32'' \<and> p' < p"
proof -
  have "spec_merge [SlidingWindowMLASpec a w hv m]
        = Inr (SlidingWindowMLASpec (a\<lparr>quant_mode := Q_NONE\<rparr>) w None (m\<lparr>mla_alignment := None\<rparr>))"
    by (simp add: spec_merge_def py_index_def merge_sliding_mla_def isinstance_sliding_mla sliding_mla_parts_def
        merge_mla_fields_def List.map_filter_def)
  moreover have "0 < 2 * as_block_size a * num_kv_heads a * dsz ''float32''" using assms by simp
  ultimately show ?thesis using assms
    by (simp add: sliding_mla_real_page_size_def attention_page_size_def mla_storage_block_size_def
        is_per_token_head_def Let_def)
qed

definition no_mla_fields :: mla_fields where
  "no_mla_fields = \<lparr>cache_dtype_str = None, mla_alignment = None, compress_ratio = 1, model_version = None\<rparr>"

theorem sliding_mla_merge_shrinks_page_witness:
  "\<exists>merged p p'. spec_merge [SlidingWindowMLASpec (sample_attention 16 FP8_PER_TOKEN_HEAD) 1024 None no_mla_fields] = Inr merged
    \<and> page_size_bytes (\<lambda>_. 4) (SlidingWindowMLASpec (sample_attention 16 FP8_PER_TOKEN_HEAD) 1024 None no_mla_fields) = Inr p
    \<and> page_size_bytes (\<lambda>_. 4) merged = Inr p' \<and> p = p' + 1024 \<and> p' < p"
  using sliding_mla_merge_shrinks_page[of "sample_attention 16 FP8_PER_TOKEN_HEAD" no_mla_fields "\<lambda>_. 4" 1024 None]
  by (simp add: sample_attention_def no_mla_fields_def is_per_token_head_def)

end
