(* ===== verification/Cache_Hits.thy ===== *)
theory Cache_Hits
  imports Block_Pool Kv_Cache_Spec
begin

section \<open>Prefix-cache lookup\<close>

text \<open>
  The class methods \<open>find_longest_cache_hit\<close> of \<open>single_type_kv_cache_manager.py\<close>, one per manager
  class, and the mask of the blocks a sliding-window hit can reach. A result has one list of
  blocks per KV cache group; the lists have the same length.
\<close>

subsection \<open>Shared steps\<close>

text \<open>A lookup result is used as a condition: \<open>None\<close> and the empty list both count as a miss.\<close>

definition hit_of :: "block_pool \<Rightarrow> int list \<Rightarrow> bytes \<Rightarrow> bref list option result" where
  "hit_of p gs h = rbind (get_cached_block p h gs) (\<lambda>r. Inr (if r = Some [] then None else r))"

definition append_hits :: "bref list list \<Rightarrow> bref list \<Rightarrow> bref list list" where
  "append_hits computed cached = map2 (\<lambda>c b. c @ [b]) computed cached"

definition pop_all :: "bref list list \<Rightarrow> bref list list result" where
  "pop_all computed = (if [] \<in> set computed then Inl IndexError else Inr (map butlast computed))"

lemma pop_all_shorter:
  "py_index cs 0 = Inr c \<Longrightarrow> pop_all cs = Inr cs' \<Longrightarrow> length (hd cs') < length (hd cs)"
  by (cases cs) (auto simp: pop_all_def py_index_def split: if_splits)

text \<open>The loop that pops blocks until the hit is aligned.\<close>

function pop_align :: "int \<Rightarrow> int \<Rightarrow> bref list list \<Rightarrow> bref list list result" where
  "pop_align bs al cs =
     (if bs = al then Inr cs
      else rbind (py_index cs 0) (\<lambda>c.
             if al = 0 then Inl ZeroDivisionError
             else if int (length c) * bs mod al \<noteq> 0 then rbind (pop_all cs) (pop_align bs al)
             else Inr cs))"
  by pat_completeness auto
termination
  by (relation "measure (\<lambda>(_, _, cs). length (hd cs))") (auto dest: pop_all_shorter)

declare pop_align.simps [simp del]

text \<open>\<open>if drop_eagle_block and computed_blocks[0]\<close>: pop the last block of every list.\<close>

definition drop_last_if :: "bool \<Rightarrow> bref list list \<Rightarrow> bref list list result" where
  "drop_last_if drop_eagle cs =
     (if drop_eagle then rbind (py_index cs 0) (\<lambda>c. if c \<noteq> [] then pop_all cs else Inr cs) else Inr cs)"

subsection \<open>Full attention\<close>

fun full_hit_loop :: "block_pool \<Rightarrow> int list \<Rightarrow> bytes list \<Rightarrow> bref list list \<Rightarrow> bref list list result" where
  "full_hit_loop p gs [] computed = Inr computed"
| "full_hit_loop p gs (h # hs) computed =
     rbind (hit_of p gs h) (\<lambda>r.
       case r of None \<Rightarrow> Inr computed
       | Some cached \<Rightarrow> full_hit_loop p gs hs (append_hits computed cached))"

definition full_find_longest_cache_hit ::
  "block_pool \<Rightarrow> block_hash_list \<Rightarrow> int \<Rightarrow> int list \<Rightarrow> kv_cache_spec \<Rightarrow> bool \<Rightarrow> int \<Rightarrow> int \<Rightarrow> int \<Rightarrow> bref list list result" where
  "full_find_longest_cache_hit p hs max_length gs spec drop_eagle al dcp pcp =
     rbind (rassert (isinstance spec C_FullAttentionSpec \<or> isinstance spec C_ChunkedLocalAttentionSpec)) (\<lambda>_.
     let bs = (if dcp * pcp > 1 then block_size spec * (dcp * pcp) else block_size spec) in
     rbind (bhl_islice hs (max_length div bs)) (\<lambda>hashes.
     rbind (full_hit_loop p gs hashes (map (\<lambda>_. []) gs)) (\<lambda>cs.
     rbind (drop_last_if drop_eagle cs) (pop_align bs al))))"

subsection \<open>Sliding windows\<close>

definition contiguous_blocks_for_hit :: "int \<Rightarrow> int \<Rightarrow> bool \<Rightarrow> int" where
  "contiguous_blocks_for_hit window bs use_eagle =
     cdiv (window - 1) bs + (if use_eagle then 1 else 0)"

text \<open>
  The search from right to left; the first argument that shrinks is the number of positions left.
  The result says whether a match was found, with the lists trimmed behind the match.
\<close>

fun sliding_hit_loop ::
  "block_pool \<Rightarrow> int list \<Rightarrow> block_hash_list \<Rightarrow> int \<Rightarrow> int \<Rightarrow> bool \<Rightarrow> int \<Rightarrow> nat \<Rightarrow> bref list list \<Rightarrow> nat \<Rightarrow>
   (bref list list \<times> nat \<times> bool) result" where
  "sliding_hit_loop p gs hs bs al drop_eagle need 0 computed contiguous = Inr (computed, contiguous, False)"
| "sliding_hit_loop p gs hs bs al drop_eagle need (Suc i) computed contiguous =
     rbind (bhl_get hs (int i)) (\<lambda>h.
     rbind (hit_of p gs h) (\<lambda>r.
       case r of
         None \<Rightarrow> sliding_hit_loop p gs hs bs al drop_eagle need i computed 0
       | Some cached \<Rightarrow>
           if contiguous = 0 \<and> bs \<noteq> al \<and> al = 0 then Inl ZeroDivisionError
           else if contiguous = 0 \<and> bs \<noteq> al \<and> (int (if drop_eagle then i else i + 1) * bs) mod al \<noteq> 0
           then sliding_hit_loop p gs hs bs al drop_eagle need i computed contiguous
           else
             let computed' = map2 (\<lambda>c b. c[i := b]) computed cached
             in if int (contiguous + 1) \<ge> need
                then Inr (map (take (i + (contiguous + 1))) computed', contiguous + 1, True)
                else sliding_hit_loop p gs hs bs al drop_eagle need i computed' (contiguous + 1)))"

definition sliding_find_longest_cache_hit ::
  "block_pool \<Rightarrow> block_hash_list \<Rightarrow> int \<Rightarrow> int list \<Rightarrow> kv_cache_spec \<Rightarrow> bool \<Rightarrow> int \<Rightarrow> int \<Rightarrow> int \<Rightarrow> bref list list result" where
  "sliding_find_longest_cache_hit p hs max_length gs spec drop_eagle al dcp pcp =
     (case sliding_window_of spec of
        None \<Rightarrow> Inl AssertionError
      | Some window \<Rightarrow>
          rbind (rassert (dcp = 1)) (\<lambda>_.
          rbind (rassert (pcp = 1)) (\<lambda>_.
          let bs = block_size spec;
              need = contiguous_blocks_for_hit window bs drop_eagle;
              max_num = max_length div bs
          in rbind (sliding_hit_loop p gs hs bs al drop_eagle need (nat max_num)
                      (map (\<lambda>_. replicate (nat max_num) (null_block p)) gs) 0) (\<lambda>(cs, contiguous, found).
             rbind (if found then Inr cs else pop_align bs al (map (take contiguous) cs)) (\<lambda>cs1.
             if drop_eagle
             then rbind (py_index cs1 0) (\<lambda>c. if c \<noteq> [] then rbind (pop_all cs1) (pop_align bs al) else Inr cs1)
             else Inr cs1)))))"

subsection \<open>Chunked local attention\<close>

fun chunked_hit_loop ::
  "block_pool \<Rightarrow> int list \<Rightarrow> block_hash_list \<Rightarrow> int list \<Rightarrow> bref list list \<Rightarrow> bref list list result" where
  "chunked_hit_loop p gs hs [] computed = Inr computed"
| "chunked_hit_loop p gs hs (i # is) computed =
     rbind (bhl_get hs i) (\<lambda>h.
     rbind (hit_of p gs h) (\<lambda>r.
       case r of None \<Rightarrow> Inr computed
       | Some cached \<Rightarrow> chunked_hit_loop p gs hs is (append_hits computed cached)))"

definition chunked_find_longest_cache_hit ::
  "block_pool \<Rightarrow> block_hash_list \<Rightarrow> int \<Rightarrow> int list \<Rightarrow> kv_cache_spec \<Rightarrow> bool \<Rightarrow> int \<Rightarrow> int \<Rightarrow> int \<Rightarrow> bref list list result" where
  "chunked_find_longest_cache_hit p hs max_length gs spec drop_eagle al dcp pcp =
     (case spec of
        ChunkedLocalAttentionSpec a chunk \<Rightarrow>
          rbind (rassert (\<not> drop_eagle)) (\<lambda>_.
          rbind (rassert (dcp = 1)) (\<lambda>_.
          rbind (rassert (pcp = 1)) (\<lambda>_.
          rbind (rassert (as_block_size a = al)) (\<lambda>_.
          let bs = as_block_size a;
              start_idx = (if max_length > 0 then max_length div chunk * chunk else 0);
              start_block = start_idx div bs
          in chunked_hit_loop p gs hs (py_range start_block (max_length div bs))
               (map (\<lambda>_. replicate (nat start_block) (null_block p)) gs)))))
      | _ \<Rightarrow> Inl AssertionError)"

subsection \<open>Mamba\<close>

fun mamba_hit_loop ::
  "block_pool \<Rightarrow> int list \<Rightarrow> block_hash_list \<Rightarrow> int \<Rightarrow> int \<Rightarrow> nat \<Rightarrow> bref list list \<Rightarrow> bref list list result" where
  "mamba_hit_loop p gs hs bs al 0 computed = Inr computed"
| "mamba_hit_loop p gs hs bs al (Suc i) computed =
     rbind (bhl_get hs (int i)) (\<lambda>h.
     rbind (hit_of p gs h) (\<lambda>r.
       case r of
         None \<Rightarrow> mamba_hit_loop p gs hs bs al i computed
       | Some cached \<Rightarrow>
           if bs \<noteq> al \<and> al = 0 then Inl ZeroDivisionError
           else if bs \<noteq> al \<and> (int (i + 1) * bs) mod al \<noteq> 0 then mamba_hit_loop p gs hs bs al i computed
           else Inr (append_hits (map (\<lambda>c. c @ replicate i (null_block p)) computed) cached)))"

definition mamba_find_longest_cache_hit ::
  "block_pool \<Rightarrow> block_hash_list \<Rightarrow> int \<Rightarrow> int list \<Rightarrow> kv_cache_spec \<Rightarrow> bool \<Rightarrow> int \<Rightarrow> int \<Rightarrow> int \<Rightarrow> bref list list result" where
  "mamba_find_longest_cache_hit p hs max_length gs spec drop_eagle al dcp pcp =
     rbind (rassert (isinstance spec C_MambaSpec)) (\<lambda>_.
     rbind (rassert (dcp = 1)) (\<lambda>_.
     rbind (rassert (pcp = 1)) (\<lambda>_.
     let bs = block_size spec
     in mamba_hit_loop p gs hs bs al (nat (max_length div bs)) (map (\<lambda>_. []) gs))))"

subsection \<open>Cross attention and dispatch\<close>

definition cross_find_longest_cache_hit :: "kv_cache_spec \<Rightarrow> bref list list result" where
  "cross_find_longest_cache_hit spec =
     rbind (rassert (isinstance spec C_CrossAttentionSpec)) (\<lambda>_. Inl NotImplementedError)"

fun find_longest_cache_hit ::
  "manager_class \<Rightarrow> block_pool \<Rightarrow> block_hash_list \<Rightarrow> int \<Rightarrow> int list \<Rightarrow> kv_cache_spec \<Rightarrow> bool \<Rightarrow> int \<Rightarrow> int \<Rightarrow> int \<Rightarrow>
   bref list list result" where
  "find_longest_cache_hit M_FullAttentionManager = full_find_longest_cache_hit"
| "find_longest_cache_hit M_SinkFullAttentionManager = full_find_longest_cache_hit"
| "find_longest_cache_hit M_SlidingWindowManager = sliding_find_longest_cache_hit"
| "find_longest_cache_hit M_ChunkedLocalAttentionManager = chunked_find_longest_cache_hit"
| "find_longest_cache_hit M_MambaManager = mamba_find_longest_cache_hit"
| "find_longest_cache_hit M_CrossAttentionManager =
     (\<lambda>_ _ _ _ spec _ _ _ _. cross_find_longest_cache_hit spec)"

subsection \<open>The blocks a sliding-window hit can reach\<close>

text \<open>
  \<open>reachable_block_mask\<close>: only the blocks at the end of a segment can serve a hit. \<open>None\<close> means
  that every block is cached.
\<close>

definition mask_set :: "bool list \<Rightarrow> int \<Rightarrow> int list \<Rightarrow> bool list" where
  "mask_set m start is = fold (\<lambda>i m. m[nat (i - start) := True]) is m"

definition sliding_reachable_block_mask ::
  "int \<Rightarrow> int \<Rightarrow> int option \<Rightarrow> kv_cache_spec \<Rightarrow> bool \<Rightarrow> int option \<Rightarrow> int option \<Rightarrow> bool list option result" where
  "sliding_reachable_block_mask start_block end_block alignment spec use_eagle retention num_prompt =
     (case sliding_window_of spec of
        None \<Rightarrow> Inl AssertionError
      | Some window \<Rightarrow>
        (case alignment of
           None \<Rightarrow> Inr None
         | Some al \<Rightarrow>
             let bs = block_size spec in
             rbind (rassert (al mod bs = 0)) (\<lambda>_.
             let need = contiguous_blocks_for_hit window bs use_eagle;
                 shift = (if use_eagle then 1 else 0);
                 m0 = replicate (nat (end_block - start_block)) False;
                 segment = (case retention of None \<Rightarrow> Some al | Some r \<Rightarrow> if r = 0 then None else Some r)
             in
             if (case segment of None \<Rightarrow> False | Some seg \<Rightarrow> need \<ge> seg div bs) then Inr None
             else
               let m1 = (case segment of None \<Rightarrow> m0
                         | Some seg \<Rightarrow> mask_set m0 start_block
                             (filter (\<lambda>i. i \<ge> shift \<and> (i - shift) mod (seg div bs) \<ge> seg div bs - need)
                                (py_range start_block end_block)));
                   m2 = (case (retention, num_prompt) of
                           (Some _, Some np) \<Rightarrow>
                             let latest = (np - 1) div al * al;
                                 prompt_end = latest div bs + shift
                             in mask_set m1 start_block
                                  (py_range (max start_block (prompt_end - need)) (min end_block prompt_end))
                         | _ \<Rightarrow> m1)
               in Inr (Some m2))))"

subsection \<open>Rows and columns\<close>

text \<open>
  A result holds one list per group; the proofs look at it the other way round, as one row per
  block position that holds the blocks of all groups.
\<close>

definition columns :: "nat \<Rightarrow> bref list list \<Rightarrow> bref list list" where
  "columns k rows = map (\<lambda>j. map (\<lambda>r. r ! j) rows) [0..<k]"

named_theorems column_simps \<open>the list operations of the lookups on columns\<close>

lemma columns_Nil [column_simps]: "map (\<lambda>_. []) gs = columns (length gs) []"
  by (rule nth_equalityI) (auto simp: columns_def)

lemma columns_replicate [column_simps]:
  "map (\<lambda>_. replicate n b) gs = columns (length gs) (replicate n (replicate (length gs) b))"
  by (rule nth_equalityI) (auto simp: columns_def)

lemma append_hits_columns [column_simps]: "length r = k \<Longrightarrow> append_hits (columns k rows) r = columns k (rows @ [r])"
  by (rule nth_equalityI) (auto simp: columns_def append_hits_def)

lemma update_columns [column_simps]:
  "length r = k \<Longrightarrow> map2 (\<lambda>c b. c[i := b]) (columns k rows) r = columns k (rows[i := r])"
  by (rule nth_equalityI) (auto simp: columns_def map_update)

lemma take_columns [column_simps]: "map (take n) (columns k rows) = columns k (take n rows)"
  by (simp add: columns_def take_map)

lemma pop_all_columns [column_simps]: "rows \<noteq> [] \<Longrightarrow> pop_all (columns k rows) = Inr (columns k (butlast rows))"
  by (auto simp: pop_all_def columns_def map_butlast)

lemma extend_columns [column_simps]:
  "map (\<lambda>c. c @ replicate i b) (columns k rows) = columns k (rows @ replicate i (replicate k b))"
  by (rule nth_equalityI) (auto simp: columns_def)

lemma index_columns [column_simps]: "0 < k \<Longrightarrow> py_index (columns k rows) 0 = Inr (map (\<lambda>r. r ! 0) rows)"
  by (simp add: py_index_def columns_def)

lemma length_columns [simp]: "length (columns k rows) = k"
  by (simp add: columns_def)

lemma nth_columns: "j < k \<Longrightarrow> columns k rows ! j = map (\<lambda>r. r ! j) rows"
  by (simp add: columns_def)

text \<open>The alignment loop leaves the longest aligned prefix.\<close>

fun align_down :: "int \<Rightarrow> int \<Rightarrow> nat \<Rightarrow> nat" where
  "align_down bs al 0 = 0"
| "align_down bs al (Suc n) = (if (int (Suc n) * bs) mod al = 0 then Suc n else align_down bs al n)"

lemma align_down_le: "align_down bs al n \<le> n"
  by (induction n) auto

lemma align_down_aligned: "(int (align_down bs al n) * bs) mod al = 0"
  by (induction n) auto

lemma align_down_greatest: "m \<le> n \<Longrightarrow> (int m * bs) mod al = 0 \<Longrightarrow> m \<le> align_down bs al n"
  by (induction n) (auto simp: le_Suc_eq)

lemma align_down_fix: "(int n * bs) mod al = 0 \<Longrightarrow> align_down bs al n = n"
  by (metis align_down_greatest align_down_le le_antisym order_refl)

lemma pop_align_columns:
  assumes "0 < k" "al \<noteq> 0"
  shows "pop_align bs al (columns k rows) = Inr (columns k (take (align_down bs al (length rows)) rows))"
proof (induction "length rows" arbitrary: rows)
  case 0
  then show ?case using assms by (subst pop_align.simps) (simp add: index_columns)
next
  case (Suc n)
  then have ne: "rows \<noteq> []" and n: "n = length (butlast rows)" by auto
  show ?case
  proof (cases "(int (length rows) * bs) mod al = 0")
    case True
    then show ?thesis using assms by (subst pop_align.simps) (simp add: index_columns align_down_fix)
  next
    case False
    then have "bs \<noteq> al" by auto
    with False have "pop_align bs al (columns k rows) = pop_align bs al (columns k (butlast rows))"
      using assms ne by (subst pop_align.simps) (simp add: index_columns pop_all_columns)
    also have "\<dots> = Inr (columns k (take (align_down bs al n) (butlast rows)))" using Suc(1)[OF n] n by simp
    also have "take (align_down bs al n) (butlast rows) = take (align_down bs al n) rows"
      using align_down_le[of bs al n] Suc(2) by (metis diff_Suc_1 min.absorb1 take_butlast take_take butlast_conv_take)
    also have "align_down bs al n = align_down bs al (length rows)" using False Suc(2) by (metis align_down.simps(2))
    finally show ?thesis .
  qed
qed

subsection \<open>Lookups do not fail\<close>

definition valid_groups :: "int list \<Rightarrow> bool" where
  "valid_groups gs \<longleftrightarrow> gs \<noteq> [] \<and> (\<forall>g \<in> set gs. 0 \<le> g \<and> g < 2 ^ 32)"

definition hit_blocks :: "block_pool \<Rightarrow> int list \<Rightarrow> bytes \<Rightarrow> bref list option" where
  "hit_blocks p gs h = (case hit_of p gs h of Inl _ \<Rightarrow> None | Inr r \<Rightarrow> r)"

lemma get_cached_block_length: "get_cached_block p h gs = Inr (Some bs) \<Longrightarrow> length bs = length gs"
  by (induction gs arbitrary: bs) (auto simp: result_simps split: option.splits)

lemma hit_of_ok: "valid_groups gs \<Longrightarrow> hit_of p gs h = Inr (hit_blocks p gs h)"
  using get_cached_block_ok[of gs p h] by (auto simp: valid_groups_def hit_blocks_def hit_of_def)

lemma hit_blocks_length: "hit_blocks p gs h = Some r \<Longrightarrow> length r = length gs"
  by (auto simp: hit_blocks_def hit_of_def result_simps dest!: get_cached_block_length split: sum.splits if_splits
      elim!: rbind.elims)

lemma hit_blocks_iff: "valid_groups gs \<Longrightarrow> hit_blocks p gs h = Some r \<longleftrightarrow> get_cached_block p h gs = Inr (Some r)"
  using get_cached_block_ok[of gs p h] get_cached_block_length[of p h gs "[]"]
  by (auto simp: valid_groups_def hit_blocks_def hit_of_def split: if_splits)

subsection \<open>Full attention\<close>

text \<open>The rows of the leading hits: what a left-to-right scan of the hashes finds.\<close>

definition leading_hits :: "block_pool \<Rightarrow> int list \<Rightarrow> bytes list \<Rightarrow> bref list list" where
  "leading_hits p gs hs = map (\<lambda>h. the (hit_blocks p gs h)) (takeWhile (\<lambda>h. hit_blocks p gs h \<noteq> None) hs)"

lemma full_hit_loop_eq:
  assumes "valid_groups gs"
  shows "full_hit_loop p gs hs (columns (length gs) rows) = Inr (columns (length gs) (rows @ leading_hits p gs hs))"
proof (induction hs arbitrary: rows)
  case Nil
  then show ?case by (simp add: leading_hits_def)
next
  case (Cons h hs)
  then show ?case
    by (cases "hit_blocks p gs h")
      (simp_all add: hit_of_ok[OF assms] append_hits_columns hit_blocks_length leading_hits_def)
qed

lemma drop_last_if_columns:
  "0 < k \<Longrightarrow> drop_last_if de (columns k rows) = Inr (columns k (take (length rows - (if de then 1 else 0)) rows))"
  by (auto simp: drop_last_if_def column_simps butlast_conv_take)

lemma full_find_eq:
  fixes p :: block_pool and hs :: block_hash_list and de :: bool
  assumes "valid_groups gs" "isinstance spec C_FullAttentionSpec" "0 \<le> max_length" "0 < al"
    and bs: "bs = (if dcp * pcp > 1 then block_size spec * (dcp * pcp) else block_size spec)" "0 < bs"
  defines "rows \<equiv> leading_hits p gs (take (nat (max_length div bs)) (bhl_list hs))"
  defines "n \<equiv> align_down bs al (length rows - (if de then 1 else 0))"
  shows "full_find_longest_cache_hit p hs max_length gs spec de al dcp pcp = Inr (columns (length gs) (take n rows))"
proof -
  have k: "0 < length gs" using assms(1) by (auto simp: valid_groups_def)
  have "0 \<le> max_length div bs" using assms(3) bs(2) by (simp add: pos_imp_zdiv_nonneg_iff)
  then have isl: "bhl_islice hs (max_length div bs) = Inr (take (nat (max_length div bs)) (bhl_list hs))"
    by (simp add: bhl_islice_def)
  let ?m = "length rows - (if de then 1 else 0)"
  have "pop_align bs al (columns (length gs) (take ?m rows)) = Inr (columns (length gs) (take n rows))"
    unfolding n_def using pop_align_columns[OF k, of al bs "take ?m rows"] assms(4) align_down_le[of bs al ?m]
    by (simp add: min_absorb2 min_absorb1)
  then show ?thesis
    unfolding full_find_longest_cache_hit_def bs(1)[symmetric] Let_def
    using assms(2) isl full_hit_loop_eq[OF assms(1), of p _ "[]"] drop_last_if_columns[OF k, of de rows]
    by (simp add: columns_Nil rows_def)
qed

lemma leading_hits_nth:
  assumes "i < length (leading_hits p gs hs)"
  shows "i < length hs" "hit_blocks p gs (hs ! i) = Some (leading_hits p gs hs ! i)"
proof -
  let ?t = "takeWhile (\<lambda>h. hit_blocks p gs h \<noteq> None) hs"
  have i: "i < length ?t" using assms by (simp add: leading_hits_def)
  then show "i < length hs" using length_takeWhile_le order_less_le_trans by blast
  have "?t ! i \<in> set ?t" using i by simp
  then have "hit_blocks p gs (?t ! i) \<noteq> None" using set_takeWhileD by fast
  then show "hit_blocks p gs (hs ! i) = Some (leading_hits p gs hs ! i)"
    using i takeWhile_nth[OF i] by (auto simp: leading_hits_def)
qed

lemma leading_hits_maximal:
  assumes "m \<le> length hs" "\<And>i. i < m \<Longrightarrow> hit_blocks p gs (hs ! i) \<noteq> None"
  shows "m \<le> length (leading_hits p gs hs)"
proof (rule ccontr)
  let ?t = "takeWhile (\<lambda>h. hit_blocks p gs h \<noteq> None) hs"
  assume "\<not> ?thesis"
  then have "length ?t < m" by (simp add: leading_hits_def)
  then show False using nth_length_takeWhile[of "\<lambda>h. hit_blocks p gs h \<noteq> None" hs] assms by fastforce
qed

subsection \<open>Sliding windows\<close>

text \<open>The hit row at position \<open>i\<close>, and the condition under which a run may end at \<open>e\<close>.\<close>

definition hit_row :: "block_pool \<Rightarrow> int list \<Rightarrow> block_hash_list \<Rightarrow> nat \<Rightarrow> bref list option" where
  "hit_row p gs hs i = (case bhl_get hs (int i) of Inl _ \<Rightarrow> None | Inr h \<Rightarrow> hit_blocks p gs h)"

definition hit_rows :: "block_pool \<Rightarrow> int list \<Rightarrow> block_hash_list \<Rightarrow> nat \<Rightarrow> nat \<Rightarrow> bref list list" where
  "hit_rows p gs hs i j = map (\<lambda>x. the (hit_row p gs hs x)) [i..<j]"

lemma length_hit_rows [simp]: "length (hit_rows p gs hs i j) = j - i"
  by (simp add: hit_rows_def)

definition run_end :: "int \<Rightarrow> int \<Rightarrow> bool \<Rightarrow> nat \<Rightarrow> bool" where
  "run_end bs al de e \<longleftrightarrow> (int (if de then e - 1 else e) * bs) mod al = 0"

text \<open>No longer run: every possible later end has a miss within the blocks it needs.\<close>

definition no_run_after :: "block_pool \<Rightarrow> int list \<Rightarrow> block_hash_list \<Rightarrow> int \<Rightarrow> int \<Rightarrow> bool \<Rightarrow> nat \<Rightarrow> nat \<Rightarrow> nat \<Rightarrow> bool" where
  "no_run_after p gs hs bs al de need N e \<longleftrightarrow>
     (\<forall>e'. e < e' \<and> e' \<le> N \<and> run_end bs al de e' \<longrightarrow> (\<exists>j < e'. e' - need \<le> j \<and> hit_row p gs hs j = None))"

text \<open>The loop state: \<open>i\<close> positions to go, the last \<open>c\<close> rows scanned are a run of hits.\<close>

definition run_state ::
  "block_pool \<Rightarrow> int list \<Rightarrow> block_hash_list \<Rightarrow> int \<Rightarrow> int \<Rightarrow> bool \<Rightarrow> nat \<Rightarrow> nat \<Rightarrow> nat \<Rightarrow> nat \<Rightarrow> bref list list \<Rightarrow> bool" where
  "run_state p gs hs bs al de need N i c rows \<longleftrightarrow>
     i + c \<le> N \<and> take (i + c) rows = replicate i (replicate (length gs) (null_block p)) @ hit_rows p gs hs i (i + c)
     \<and> i + c \<le> length rows
     \<and> (\<forall>j. i \<le> j \<and> j < i + c \<longrightarrow> hit_row p gs hs j \<noteq> None) \<and> (0 < c \<longrightarrow> run_end bs al de (i + c))
     \<and> no_run_after p gs hs bs al de need N (i + c)"

lemma take_replicate_Suc_append: "take i (replicate (Suc i) x @ ys) = replicate i x"
  by (simp del: replicate_Suc)

lemma run_state_miss:
  assumes st: "run_state p gs hs bs al de need N (Suc i) c rows" and c: "c < need" and miss: "hit_row p gs hs i = None"
  shows "run_state p gs hs bs al de need N i 0 rows"
proof -
  have tk: "take (Suc i + c) rows = replicate (Suc i) (replicate (length gs) (null_block p)) @ hit_rows p gs hs (Suc i) (Suc i + c)"
    using st by (simp add: run_state_def)
  have "take i rows = take i (take (Suc i + c) rows)" by (simp add: min_absorb1)
  also have "\<dots> = replicate i (replicate (length gs) (null_block p))" unfolding tk by (rule take_replicate_Suc_append)
  finally have "take i rows = replicate i (replicate (length gs) (null_block p))" .
  moreover have "no_run_after p gs hs bs al de need N i"
    unfolding no_run_after_def
  proof (intro allI impI)
    fix e' assume e: "i < e' \<and> e' \<le> N \<and> run_end bs al de e'"
    show "\<exists>j < e'. e' - need \<le> j \<and> hit_row p gs hs j = None"
    proof (cases "Suc i + c < e'")
      case True
      then show ?thesis using st e by (auto simp: run_state_def no_run_after_def)
    next
      case False
      then show ?thesis using miss e c by (intro exI[of _ i]) auto
    qed
  qed
  ultimately show ?thesis using st by (simp add: run_state_def hit_rows_def)
qed

lemma run_state_skip:
  assumes st: "run_state p gs hs bs al de need N (Suc i) 0 rows" and "\<not> run_end bs al de (Suc i)"
  shows "run_state p gs hs bs al de need N i 0 rows"
proof -
  have tk: "take (Suc i) rows = replicate (Suc i) (replicate (length gs) (null_block p)) @ []"
    using st by (simp add: run_state_def hit_rows_def)
  have "take i rows = take i (take (Suc i) rows)" by (simp add: min_absorb1)
  also have "\<dots> = replicate i (replicate (length gs) (null_block p))" unfolding tk by (rule take_replicate_Suc_append)
  finally have "take i rows = replicate i (replicate (length gs) (null_block p))" .
  moreover have "no_run_after p gs hs bs al de need N i"
    using assms unfolding run_state_def no_run_after_def by (metis Suc_lessI add.right_neutral)
  ultimately show ?thesis using st by (simp add: run_state_def hit_rows_def)
qed

lemma run_state_hit:
  assumes st: "run_state p gs hs bs al de need N (Suc i) c rows" and "hit_row p gs hs i = Some r"
    and "c = 0 \<Longrightarrow> run_end bs al de (Suc i)"
  shows "run_state p gs hs bs al de need N i (Suc c) (rows[i := r])"
proof -
  let ?nr = "replicate (length gs) (null_block p)"
  have "take (Suc i + c) (rows[i := r]) = (take (Suc i + c) rows)[i := r]" by (simp add: take_update_swap)
  also have "\<dots> = replicate i ?nr @ r # hit_rows p gs hs (Suc i) (Suc i + c)"
    using st by (simp add: run_state_def list_update_append replicate_append_same[symmetric])
  also have "r # hit_rows p gs hs (Suc i) (Suc i + c) = hit_rows p gs hs i (Suc i + c)"
    using assms(2) by (simp add: hit_rows_def upt_conv_Cons del: upt_Suc)
  finally have "take (i + Suc c) (rows[i := r]) = replicate i ?nr @ hit_rows p gs hs i (i + Suc c)" by simp
  moreover have "hit_row p gs hs j \<noteq> None" if "i \<le> j" "j < i + Suc c" for j
    using st that assms(2) by (cases "j = i") (auto simp: run_state_def)
  ultimately show ?thesis using st assms(3) by (cases "c = 0") (auto simp: run_state_def)
qed

lemma sliding_hit_loop_spec:
  assumes g: "valid_groups gs" and al: "al \<noteq> 0" and hs: "\<And>j. j < i \<Longrightarrow> is_ok (bhl_get hs (int j))"
    and need': "need' = nat (max 1 need)"
    and st: "run_state p gs hs bs al de need' N i c rows" "c < need'"
  shows "\<exists>rows' c' found i'. sliding_hit_loop p gs hs bs al de need i (columns (length gs) rows) c
      = Inr (columns (length gs) rows', c', found)
    \<and> run_state p gs hs bs al de need' N i' c' rows'
    \<and> (if found then length rows' = i' + c' \<and> c' = need' else i' = 0 \<and> c' < need')"
  using hs st
proof (induction i arbitrary: c rows)
  case 0
  then show ?case by auto
next
  case (Suc i)
  obtain h where h: "bhl_get hs (int i) = Inr h" using Suc.prems(1)[of i] by (auto simp: is_ok_iff)
  then have row: "hit_row p gs hs i = hit_blocks p gs h" by (simp add: hit_row_def)
  note look = hit_of_ok[OF g, of p h]
  show ?case
  proof (cases "hit_blocks p gs h")
    case None
    have "run_state p gs hs bs al de need' N i 0 rows"
      using run_state_miss[OF Suc.prems(2,3)] row None by simp
    from Suc.IH[OF _ this] Suc.prems(1,3) show ?thesis using h look None by (auto simp: need')
  next
    case (Some r)
    have len: "length r = length gs" by (rule hit_blocks_length[OF Some])
    have bad: "(bs \<noteq> al \<and> (int (if de then i else i + 1) * bs) mod al \<noteq> 0) \<longleftrightarrow> \<not> run_end bs al de (Suc i)"
      by (auto simp: run_end_def)
    show ?thesis
    proof (cases "c = 0 \<and> \<not> run_end bs al de (Suc i)")
      case True
      have "run_state p gs hs bs al de need' N i 0 rows" using run_state_skip Suc.prems(2) True by blast
      from Suc.IH[OF _ this] Suc.prems(1,3) show ?thesis
        using h look Some True bad al by (simp add: need')
    next
      case False
      let ?rows = "rows[i := r]"
      have st': "run_state p gs hs bs al de need' N i (Suc c) ?rows"
        using run_state_hit[OF Suc.prems(2)] row Some False by auto
      have nz: "\<not> (c = 0 \<and> bs \<noteq> al \<and> al = 0)" using al by simp
      have nb: "\<not> (c = 0 \<and> bs \<noteq> al \<and> (int (if de then i else i + 1) * bs) mod al \<noteq> 0)"
        using False bad by blast
      have step: "sliding_hit_loop p gs hs bs al de need (Suc i) (columns (length gs) rows) c
        = (if int (c + 1) \<ge> need then Inr (columns (length gs) (take (i + (c + 1)) ?rows), c + 1, True)
           else sliding_hit_loop p gs hs bs al de need i (columns (length gs) ?rows) (c + 1))"
        unfolding sliding_hit_loop.simps h rbind.simps look Some option.case if_not_P[OF nz] if_not_P[OF nb]
        by (simp add: column_simps len Let_def)
      show ?thesis
      proof (cases "int (c + 1) \<ge> need")
        case True
        have "Suc c = need'" using True Suc.prems(3) need' by simp
        moreover have "run_state p gs hs bs al de need' N i (Suc c) (take (i + Suc c) ?rows)"
          using st' by (simp add: run_state_def)
        moreover have "length (take (i + Suc c) ?rows) = i + Suc c" using st' by (simp add: run_state_def)
        ultimately show ?thesis using step True by (intro exI[of _ "take (i + Suc c) ?rows"] exI[of _ "Suc c"] exI[of _ True] exI[of _ i]) simp
      next
        case False
        then have "Suc c < need'" using need' by simp
        from Suc.IH[OF _ st' this] Suc.prems(1) show ?thesis using step False by simp
      qed
    qed
  qed
qed


lemma take_hit_rows: "n \<le> j \<Longrightarrow> i \<le> n \<Longrightarrow>
    take n (replicate i x @ hit_rows p gs hs i j) = replicate i x @ hit_rows p gs hs i n"
  by (simp add: hit_rows_def take_map take_upt)

text \<open>
  What a lookup returns, for every setting: null rows, then hit rows; the hit is aligned, covers the
  window, and with EAGLE the block behind it was matched too.
\<close>

lemma sliding_find_sound:
  fixes de :: bool
  assumes g: "valid_groups gs" and w: "sliding_window_of spec = Some w" and bs: "0 < block_size spec" and al: "0 < al"
    and hs: "\<forall>j < nat (max_length div block_size spec). is_ok (bhl_get hs (int j))"
  defines "need \<equiv> nat (max 1 (contiguous_blocks_for_hit w (block_size spec) de))"
  defines "N \<equiv> nat (max_length div block_size spec)"
  shows "\<exists>i n. sliding_find_longest_cache_hit p hs max_length gs spec de al 1 1
        = Inr (columns (length gs) (replicate i (replicate (length gs) (null_block p)) @ hit_rows p gs hs i n))
      \<and> i \<le> n \<and> n \<le> N \<and> (\<forall>j. i \<le> j \<and> j < n \<longrightarrow> hit_row p gs hs j \<noteq> None) \<and> (int n * block_size spec) mod al = 0
      \<and> i \<le> n - (need - (if de then 1 else 0))
      \<and> (if de then 0 < n \<longrightarrow> hit_row p gs hs n \<noteq> None
         else no_run_after p gs hs (block_size spec) al de need N n)"
proof -
  let ?bs = "block_size spec" and ?k = "length gs" and ?nr = "replicate (length gs) (null_block p)"
  let ?need = "contiguous_blocks_for_hit w ?bs de"
  have k: "0 < ?k" using g by (auto simp: valid_groups_def)
  have start: "run_state p gs hs ?bs al de need N N 0 (replicate N ?nr)"
    by (auto simp: run_state_def hit_rows_def no_run_after_def)
  obtain rows c found i where loop: "sliding_hit_loop p gs hs ?bs al de ?need N (columns ?k (replicate N ?nr)) 0
      = Inr (columns ?k rows, c, found)" and st: "run_state p gs hs ?bs al de need N i c rows"
    and fin: "if found then length rows = i + c \<and> c = need else i = 0 \<and> c < need"
    using sliding_hit_loop_spec[OF g _ _ need_def[THEN meta_eq_to_obj_eq] start] al hs N_def need_def by fastforce
  let ?e = "i + c"
  have tk: "take ?e rows = replicate i ?nr @ hit_rows p gs hs i ?e" and le: "?e \<le> N"
    and hits: "\<forall>j. i \<le> j \<and> j < ?e \<longrightarrow> hit_row p gs hs j \<noteq> None"
    and "end": "0 < c \<longrightarrow> run_end ?bs al de ?e" and later: "no_run_after p gs hs ?bs al de need N ?e"
    using st by (auto simp: run_state_def)
  have c0: "0 < c" if found using fin that need_def by auto
  define m where "m = (if found then ?e else align_down ?bs al c)"
  have m: "m \<le> ?e" "i \<le> m" using fin align_down_le[of ?bs al c] by (auto simp: m_def split: if_splits)
  define rows1 where "rows1 = replicate i ?nr @ hit_rows p gs hs i m"
  have r1: "(if found then Inr (columns ?k rows) else pop_align ?bs al (map (take c) (columns ?k rows)))
      = Inr (columns ?k rows1)"
  proof (cases found)
    case True
    then have "rows = take ?e rows" using fin by simp
    then show ?thesis unfolding rows1_def m_def using True tk by simp
  next
    case False
    then have "take c rows = hit_rows p gs hs 0 c" "i = 0" using fin tk by auto
    moreover have "take (align_down ?bs al c) (hit_rows p gs hs 0 c) = hit_rows p gs hs 0 (align_down ?bs al c)"
      using take_hit_rows[of "align_down ?bs al c" c 0] align_down_le by simp
    ultimately show ?thesis using False pop_align_columns[OF k, of al ?bs "take c rows"] al
      by (simp add: take_columns m_def rows1_def)
  qed
  have find: "sliding_find_longest_cache_hit p hs max_length gs spec de al 1 1
      = (if de then rbind (py_index (columns ?k rows1) 0) (\<lambda>c. if c \<noteq> [] then rbind (pop_all (columns ?k rows1)) (pop_align ?bs al)
               else Inr (columns ?k rows1)) else Inr (columns ?k rows1))"
    using loop r1 w by (simp add: sliding_find_longest_cache_hit_def Let_def columns_replicate N_def[symmetric])
  show ?thesis
  proof (cases de)
    case False
    have al_m: "(int m * ?bs) mod al = 0"
      using "end" c0 False align_down_aligned[of ?bs al c] by (auto simp: m_def run_end_def)
    have "m = ?e"
    proof (cases "found \<or> c = 0")
      case True
      then show ?thesis using fin by (auto simp: m_def)
    next
      case F: False
      then show ?thesis using "end" fin False by (simp add: m_def run_end_def align_down_fix)
    qed
    then show ?thesis
      using find False hits le later al_m m fin
      by (intro exI[of _ i] exI[of _ m]) (auto simp: rows1_def split: if_splits)
  next
    case True
    define n where "n = align_down ?bs al (m - 1)"
    have "sliding_find_longest_cache_hit p hs max_length gs spec de al 1 1
        = Inr (columns ?k (take n rows1))"
    proof (cases "m = 0")
      case True
      then show ?thesis using find m \<open>de\<close> k by (simp add: rows1_def index_columns n_def hit_rows_def)
    next
      case F: False
      have len: "length rows1 = m" using m by (simp add: rows1_def)
      then have ne: "rows1 \<noteq> []" using F by auto
      have "take n (butlast rows1) = take n rows1"
        using align_down_le[of ?bs al "m - 1"] len F n_def by (simp add: take_butlast)
      then show ?thesis using find ne True k pop_align_columns[OF k, of al ?bs "butlast rows1"] al len
        by (simp add: index_columns pop_all_columns n_def)
    qed
    moreover have nm: "n \<le> m - 1" by (simp add: n_def align_down_le)
    moreover have ni: "i \<le> n \<and> n = m - 1" if found
    proof -
      have "run_end ?bs al de ?e" using "end" c0 that by blast
      then have "n = m - 1" using that True by (auto simp: n_def m_def run_end_def intro: align_down_fix)
      then show ?thesis using that fin c0 by (auto simp: m_def)
    qed
    moreover have i0: "i = 0" if "\<not> found" using fin that by simp
    ultimately have find': "sliding_find_longest_cache_hit p hs max_length gs spec de al 1 1
        = Inr (columns ?k (take n rows1))" and ile: "i \<le> n"
      by (blast, cases found) auto
    have "take n rows1 = replicate i ?nr @ hit_rows p gs hs i n"
      unfolding rows1_def using ile nm by (intro take_hit_rows) auto
    moreover have "hit_row p gs hs n \<noteq> None" if "0 < n" using that nm hits m ile by auto
    moreover have "i \<le> n - (need - 1)" using ni i0 fin by (cases found) (auto simp: m_def)
    moreover have "n \<le> N" "\<forall>j. i \<le> j \<and> j < n \<longrightarrow> hit_row p gs hs j \<noteq> None" using nm m le hits by auto
    moreover have "(int n * ?bs) mod al = 0" unfolding n_def by (rule align_down_aligned)
    ultimately show ?thesis using True find' ile by (intro exI[of _ i] exI[of _ n]) simp
  qed
qed

subsection \<open>Chunked local attention and Mamba\<close>

lemma chunked_hit_loop_eq:
  assumes g: "valid_groups gs" and "a \<le> b" and hs: "\<And>j. a \<le> j \<Longrightarrow> j < b \<Longrightarrow> is_ok (bhl_get hs (int j))"
  shows "\<exists>n. a \<le> n \<and> n \<le> b \<and> chunked_hit_loop p gs hs (map int [a..<b]) (columns (length gs) rows)
      = Inr (columns (length gs) (rows @ hit_rows p gs hs a n))
    \<and> (\<forall>j. a \<le> j \<and> j < n \<longrightarrow> hit_row p gs hs j \<noteq> None) \<and> (n = b \<or> hit_row p gs hs n = None)"
  using assms(2) hs
proof (induction "b - a" arbitrary: a rows)
  case 0
  then show ?case by (intro exI[of _ a]) (auto simp: hit_rows_def)
next
  case (Suc d)
  then have ab: "a < b" by simp
  obtain h where h: "bhl_get hs (int a) = Inr h" using Suc.prems(2)[of a] ab by (auto simp: is_ok_iff)
  have row: "hit_row p gs hs a = hit_blocks p gs h" by (simp add: hit_row_def h)
  show ?case
  proof (cases "hit_blocks p gs h")
    case None
    then show ?thesis using h row ab hit_of_ok[OF g, of p h]
      by (intro exI[of _ a]) (auto simp: upt_conv_Cons hit_rows_def)
  next
    case (Some r)
    obtain n where n: "Suc a \<le> n" "n \<le> b" "chunked_hit_loop p gs hs (map int [Suc a..<b]) (columns (length gs) (rows @ [r]))
        = Inr (columns (length gs) ((rows @ [r]) @ hit_rows p gs hs (Suc a) n))"
      "\<forall>j. Suc a \<le> j \<and> j < n \<longrightarrow> hit_row p gs hs j \<noteq> None" "n = b \<or> hit_row p gs hs n = None"
    proof -
      have "d = b - Suc a" "Suc a \<le> b" using Suc.hyps(2) ab by auto
      from Suc.hyps(1)[OF this, of "rows @ [r]"] show ?thesis using Suc.prems(2) that by (meson Suc_leD)
    qed
    have "rows @ hit_rows p gs hs a n = (rows @ [r]) @ hit_rows p gs hs (Suc a) n"
      using n(1) Some row by (simp add: hit_rows_def upt_conv_Cons)
    moreover have "\<forall>j. a \<le> j \<and> j < n \<longrightarrow> hit_row p gs hs j \<noteq> None"
      using n(4) row Some by (metis Suc_leI le_neq_implies_less option.distinct(1))
    ultimately show ?thesis
      using n h Some ab hit_of_ok[OF g, of p h] hit_blocks_length[OF Some]
      by (intro exI[of _ n]) (simp add: upt_conv_Cons append_hits_columns)
  qed
qed

text \<open>Everything before the current chunk is null, what follows are the leading hits of the chunk.\<close>

lemma chunked_find_eq:
  assumes g: "valid_groups gs" and bs: "0 < as_block_size a" "0 < chunk" and ml: "0 \<le> max_length"
    and hs: "\<And>j. j < nat (max_length div as_block_size a) \<Longrightarrow> is_ok (bhl_get hs (int j))"
  defines "s \<equiv> nat ((max_length div chunk * chunk) div as_block_size a)"
  defines "N \<equiv> nat (max_length div as_block_size a)"
  shows "\<exists>n. s \<le> n \<and> n \<le> N \<and> chunked_find_longest_cache_hit p hs max_length gs (ChunkedLocalAttentionSpec a chunk) False
            (as_block_size a) 1 1
        = Inr (columns (length gs) (replicate s (replicate (length gs) (null_block p)) @ hit_rows p gs hs s n))
      \<and> (\<forall>j. s \<le> j \<and> j < n \<longrightarrow> hit_row p gs hs j \<noteq> None) \<and> (n = N \<or> hit_row p gs hs n = None)"
proof -
  let ?bs = "as_block_size a" and ?x = "max_length div chunk * chunk"
  have x: "0 \<le> ?x" "?x \<le> max_length" using bs(2) ml
    by (simp_all add: pos_imp_zdiv_nonneg_iff minus_mod_eq_div_mult[symmetric] zmod_le_nonneg_dividend)
  have sn: "s \<le> N" unfolding s_def N_def using x(2) bs(1) by (intro nat_mono zdiv_mono1) auto
  have x0: "(if max_length > 0 then ?x else 0) = ?x" using ml by (cases "max_length = 0") auto
  have "0 \<le> ?x div ?bs" "0 \<le> max_length div ?bs" using x(1) ml bs by (simp_all add: pos_imp_zdiv_nonneg_iff)
  then have rng: "py_range (?x div ?bs) (max_length div ?bs) = map int [s..<N]"
    by (intro nth_equalityI) (auto simp: py_range_def s_def N_def nat_diff_distrib)
  show ?thesis
    using chunked_hit_loop_eq[OF g sn, of hs p "replicate s (replicate (length gs) (null_block p))"] hs
    by (simp add: chunked_find_longest_cache_hit_def Let_def x0 rng columns_replicate s_def N_def)
qed

lemma mamba_hit_loop_eq:
  assumes g: "valid_groups gs" and al: "al \<noteq> 0" and "\<And>j. j < m \<Longrightarrow> is_ok (bhl_get hs (int j))"
  shows "\<exists>n \<le> m. mamba_hit_loop p gs hs bs al m (columns (length gs) [])
      = Inr (columns (length gs) (replicate (n - 1) (replicate (length gs) (null_block p)) @ hit_rows p gs hs (n - 1) n))
    \<and> (0 < n \<longrightarrow> hit_row p gs hs (n - 1) \<noteq> None) \<and> (int n * bs) mod al = 0
    \<and> (\<forall>n'. n < n' \<and> n' \<le> m \<and> (int n' * bs) mod al = 0 \<longrightarrow> hit_row p gs hs (n' - 1) = None)"
  using assms(3)
proof (induction m)
  case 0
  then show ?case by (auto simp: hit_rows_def)
next
  case (Suc i)
  obtain h where h: "bhl_get hs (int i) = Inr h" using Suc.prems[of i] by (auto simp: is_ok_iff)
  have row: "hit_row p gs hs i = hit_blocks p gs h" by (simp add: hit_row_def h)
  note look = hit_of_ok[OF g, of p h]
  have skip: ?case if step: "mamba_hit_loop p gs hs bs al (Suc i) (columns (length gs) [])
      = mamba_hit_loop p gs hs bs al i (columns (length gs) [])"
    and no: "(int (Suc i) * bs) mod al = 0 \<Longrightarrow> hit_row p gs hs i = None"
  proof -
    obtain n where n: "n \<le> i" "mamba_hit_loop p gs hs bs al i (columns (length gs) [])
      = Inr (columns (length gs) (replicate (n - 1) (replicate (length gs) (null_block p)) @ hit_rows p gs hs (n - 1) n))"
      "0 < n \<longrightarrow> hit_row p gs hs (n - 1) \<noteq> None" "(int n * bs) mod al = 0"
      "\<forall>n'. n < n' \<and> n' \<le> i \<and> (int n' * bs) mod al = 0 \<longrightarrow> hit_row p gs hs (n' - 1) = None"
      using Suc.IH Suc.prems by auto
    have "hit_row p gs hs (n' - 1) = None" if "n < n'" "n' \<le> Suc i" "(int n' * bs) mod al = 0" for n'
      using n(5) no that by (cases "n' = Suc i") auto
    then show ?thesis unfolding step using n by (intro exI[of _ n]) simp
  qed
  show ?case
  proof (cases "hit_blocks p gs h")
    case None
    then show ?thesis using h look row by (intro skip) simp_all
  next
    case (Some r)
    show ?thesis
    proof (cases "(int (i + 1) * bs) mod al = 0")
      case True
      let ?rw = "replicate i (replicate (length gs) (null_block p))"
      have c: "\<not> (bs \<noteq> al \<and> al = 0)" "\<not> (bs \<noteq> al \<and> (int (i + 1) * bs) mod al \<noteq> 0)" using al True by auto
      have "mamba_hit_loop p gs hs bs al (Suc i) (columns (length gs) []) = Inr (columns (length gs) (?rw @ [r]))"
        unfolding mamba_hit_loop.simps h rbind.simps look Some option.case if_not_P[OF c(1)] if_not_P[OF c(2)]
        using hit_blocks_length[OF Some] by (simp add: column_simps)
      moreover have "\<forall>n'. Suc i < n' \<and> n' \<le> Suc i \<and> (int n' * bs) mod al = 0 \<longrightarrow> hit_row p gs hs (n' - 1) = None" by auto
      ultimately show ?thesis using row Some True by (intro exI[of _ "Suc i"]) (simp add: hit_rows_def del: mamba_hit_loop.simps)
    next
      case False
      then have "bs \<noteq> al" by auto
      then show ?thesis using h look Some False al by (intro skip) simp_all
    qed
  qed
qed

lemma mamba_find_eq:
  assumes "valid_groups gs" "isinstance spec C_MambaSpec" "0 < al"
    "\<And>j. j < nat (max_length div block_size spec) \<Longrightarrow> is_ok (bhl_get hs (int j))"
  shows "\<exists>n \<le> nat (max_length div block_size spec). mamba_find_longest_cache_hit p hs max_length gs spec de al 1 1
      = Inr (columns (length gs) (replicate (n - 1) (replicate (length gs) (null_block p)) @ hit_rows p gs hs (n - 1) n))
    \<and> (0 < n \<longrightarrow> hit_row p gs hs (n - 1) \<noteq> None) \<and> (int n * block_size spec) mod al = 0
    \<and> (\<forall>n'. n < n' \<and> n' \<le> nat (max_length div block_size spec) \<and> (int n' * block_size spec) mod al = 0
          \<longrightarrow> hit_row p gs hs (n' - 1) = None)"
  using mamba_hit_loop_eq[OF assms(1) _ assms(4), where al = al and p = p and bs = "block_size spec"] assms(2,3)
  by (simp add: mamba_find_longest_cache_hit_def Let_def columns_Nil)

subsection \<open>The mask of reachable blocks\<close>

lemma mask_set_spec:
  assumes "\<forall>i \<in> set is. start \<le> i \<and> nat (i - start) < length m"
  shows "length (mask_set m start is) = length m"
    and "k < length m \<Longrightarrow> mask_set m start is ! k = (m ! k \<or> start + int k \<in> set is)"
proof -
  have "length (mask_set m start is) = length m
      \<and> (\<forall>k < length m. mask_set m start is ! k = (m ! k \<or> start + int k \<in> set is))"
    using assms unfolding mask_set_def
  proof (induction "is" arbitrary: m)
    case (Cons i "is")
    then show ?case by (auto simp: nth_list_update)
  qed simp
  then show "length (mask_set m start is) = length m"
    and "k < length m \<Longrightarrow> mask_set m start is ! k = (m ! k \<or> start + int k \<in> set is)" by auto
qed

text \<open>
  Block \<open>j\<close> is one of the \<open>need\<close> blocks (the peeked one included) that a hit of \<open>n\<close> blocks consults.
\<close>

definition consulted :: "int \<Rightarrow> int \<Rightarrow> int \<Rightarrow> int \<Rightarrow> bool" where
  "consulted need shift n j \<longleftrightarrow> n + shift - need \<le> j \<and> j < n + shift"

lemma segment_tail_iff:
  fixes ps :: int
  assumes "0 \<le> need" "need < ps" "0 \<le> shift" "0 \<le> j"
  shows "(j \<ge> shift \<and> (j - shift) mod ps \<ge> ps - need) \<longleftrightarrow> (\<exists>n > 0. n mod ps = 0 \<and> consulted need shift n j)"
proof
  have dm: "(j - shift) = (j - shift) div ps * ps + (j - shift) mod ps" by simp
  have r: "0 \<le> (j - shift) mod ps" "(j - shift) mod ps < ps" using assms by auto
  assume a: "j \<ge> shift \<and> (j - shift) mod ps \<ge> ps - need"
  let ?n = "((j - shift) div ps + 1) * ps"
  have "0 \<le> (j - shift) div ps" using a assms by (simp add: pos_imp_zdiv_nonneg_iff)
  then have "0 < ?n" using assms by (intro mult_pos_pos) auto
  moreover have "consulted need shift ?n j" unfolding consulted_def distrib_right mult_1 using dm r a by linarith
  ultimately show "\<exists>n > 0. n mod ps = 0 \<and> consulted need shift n j" by (intro exI[of _ ?n]) simp
next
  assume "\<exists>n > 0. n mod ps = 0 \<and> consulted need shift n j"
  then obtain n where n: "0 < n" "n mod ps = 0" "n + shift - need \<le> j" "j < n + shift" by (auto simp: consulted_def)
  have np: "ps \<le> n" using n(1,2) mod_pos_pos_trivial[of n ps] by (cases "n < ps") auto
  have "(j - shift) mod ps = (j - shift - (n - ps)) mod ps" using n(2) by (metis mod_diff_right_eq mod_diff_left_eq diff_zero mod_self)
  also have "\<dots> = j - shift - (n - ps)" using n assms by (intro mod_pos_pos_trivial) auto
  finally show "j \<ge> shift \<and> (j - shift) mod ps \<ge> ps - need" using n np assms by simp
qed


lemma sample_mask:
  "sliding_reachable_block_mask 0 8 (Some 64) (SlidingWindowSpec (sample_attention 16 Q_NONE) 33 128) False None (Some 100)
   = Inr (Some [False, False, True, True, False, False, True, True])"
  by code_simp


subsection \<open>What the lookups return\<close>



text \<open>
  C19: the sliding-window lookup. Every block of the returned hit is the null block or the cached block
  of its position, the blocks inside the window are never null, the hit is within the limit and
  aligned, and with EAGLE the block behind the hit is cached too. Without EAGLE no longer aligned
  hit exists: every one has a miss among the blocks that its window needs.
\<close>

theorem sliding_hit_covers_window:
  assumes "valid_groups gs" "sliding_window_of spec = Some w" "0 < block_size spec" "0 < al" "0 \<le> max_length"
    and "\<forall>j < nat (max_length div block_size spec). is_ok (bhl_get hs (int j))"
  shows "\<exists>rows. sliding_find_longest_cache_hit p hs max_length gs spec de al 1 1 = Inr (columns (length gs) rows)
    \<and> int (length rows) * block_size spec \<le> max_length \<and> (int (length rows) * block_size spec) mod al = 0
    \<and> (\<forall>j < length rows. hit_row p gs hs j = Some (rows ! j)
         \<or> rows ! j = replicate (length gs) (null_block p) \<and> int j < int (length rows) - cdiv (w - 1) (block_size spec))
    \<and> (if de then rows \<noteq> [] \<longrightarrow> hit_row p gs hs (length rows) \<noteq> None
       else \<forall>m. length rows < m \<and> int m * block_size spec \<le> max_length \<and> (int m * block_size spec) mod al = 0 \<longrightarrow>
              (\<exists>j < m. int m - max 1 (cdiv (w - 1) (block_size spec)) \<le> int j \<and> hit_row p gs hs j = None))"
proof -
  let ?bs = "block_size spec" and ?nr = "replicate (length gs) (null_block p)"
  let ?need = "nat (max 1 (contiguous_blocks_for_hit w ?bs de))" and ?N = "nat (max_length div ?bs)"
  obtain i n where n: "sliding_find_longest_cache_hit p hs max_length gs spec de al 1 1
        = Inr (columns (length gs) (replicate i ?nr @ hit_rows p gs hs i n))"
      "i \<le> n" "n \<le> ?N" "\<forall>j. i \<le> j \<and> j < n \<longrightarrow> hit_row p gs hs j \<noteq> None" "(int n * ?bs) mod al = 0"
      "i \<le> n - (?need - (if de then 1 else 0))"
      "if de then 0 < n \<longrightarrow> hit_row p gs hs n \<noteq> None else no_run_after p gs hs ?bs al de ?need ?N n"
    using sliding_find_sound[OF assms(1-4,6), where p = p and de = de] by (elim exE conjE) (rule that)
  let ?rows = "replicate i ?nr @ hit_rows p gs hs i n"
  have len: "length ?rows = n" using n(2) by simp
  have fits: "x \<le> ?N \<longleftrightarrow> int x * ?bs \<le> max_length" for x
    using le_div_iff_mult_le_pos[OF assms(3), of "int x" max_length] assms(3,5)
    by (simp add: le_nat_iff pos_imp_zdiv_nonneg_iff)
  have rows: "hit_row p gs hs j = Some (?rows ! j) \<or> ?rows ! j = ?nr \<and> int j < int n - cdiv (w - 1) ?bs" if "j < n" for j
  proof (cases "j < i")
    case True
    then have "int i \<le> int n - cdiv (w - 1) ?bs \<or> i = 0" using n(6)
      by (auto simp: contiguous_blocks_for_hit_def split: if_splits)
    then show ?thesis using True by (auto simp: nth_append)
  next
    case False
    then show ?thesis using n(4) that by (auto simp: nth_append hit_rows_def)
  qed
  have longest: "\<exists>j < m. int m - max 1 (cdiv (w - 1) ?bs) \<le> int j \<and> hit_row p gs hs j = None"
    if m: "\<not> de" "n < m" "int m * ?bs \<le> max_length" "(int m * ?bs) mod al = 0" for m
  proof -
    have "m \<le> ?N" "run_end ?bs al de m" using m fits by (simp_all add: run_end_def)
    then obtain j where "j < m" "m - ?need \<le> j" "hit_row p gs hs j = None"
      using n(7) m(1,2) by (auto simp: no_run_after_def)
    then show ?thesis using m(1) by (intro exI[of _ j]) (auto simp: contiguous_blocks_for_hit_def)
  qed
  have "if de then ?rows \<noteq> [] \<longrightarrow> hit_row p gs hs n \<noteq> None
       else \<forall>m. n < m \<and> int m * ?bs \<le> max_length \<and> (int m * ?bs) mod al = 0 \<longrightarrow>
              (\<exists>j < m. int m - max 1 (cdiv (w - 1) ?bs) \<le> int j \<and> hit_row p gs hs j = None)"
    using longest n(7) len by (cases de) (auto simp: hit_rows_def)
  note last = this
  have "int n * ?bs \<le> max_length" using fits n(3) by blast
  then show ?thesis by (intro exI[of _ ?rows] conjI) (use n(1,5) rows last in \<open>simp_all only: len\<close>, blast+)
qed

theorem sliding_hit_covers_window_witness:
  "\<exists>p rows. sliding_find_longest_cache_hit p (PlainHashes [[1], [2]]) 5 [0]
       (SlidingWindowSpec (sample_attention 2 Q_NONE) 4 128) False 2 1 1 = Inr (columns 1 rows)
     \<and> int (length rows) * 2 \<le> 5 \<and> (int (length rows) * 2) mod 2 = (0 :: int)"
proof -
  obtain p where "pool_reach p {#}" by (rule fresh_pool)
  have ok: "\<forall>j < nat (5 div block_size (SlidingWindowSpec (sample_attention 2 Q_NONE) 4 128)).
      is_ok (bhl_get (PlainHashes [[1], [2]]) (int j))"
    by (auto simp: sample_attention_def py_index_def)
  show ?thesis
    using sliding_hit_covers_window[OF _ _ _ _ _ ok, of "[0]" 4 2 p False]
    by (auto simp: valid_groups_def sample_attention_def)
qed

text \<open>A pool in which the hashes \<open>[0], [1], ..\<close> of a request are cached for group 0.\<close>

definition cached_request :: "bytes list \<Rightarrow> request" where
  "cached_request hs = sample_request ''a'' [5, 6, 9] [] None None\<lparr>block_hashes := hs\<rparr>"

definition cached_pool :: "nat \<Rightarrow> block_pool result" where
  "cached_pool n =
     rbind (block_pool_init (int n + 1) True 1 False None False toy_sha) (\<lambda>p.
     rbind (get_new_blocks (int n) p) (\<lambda>(bs, p1).
     rbind (cache_full_blocks (cached_request (map (\<lambda>i. [of_nat i]) [0..<n])) bs 0 (int n) 1 0 None p1) (\<lambda>(r, p2). Inr p2)))"

text \<open>
  with EAGLE and an alignment of two blocks the sliding-window lookup gives up a hit. Three
  blocks are cached and the window covers them all; two blocks form an aligned hit with the third
  one matched behind it, which is what the full-attention lookup returns. The sliding-window
  lookup first aligns three blocks down to two, then drops one for EAGLE and aligns again.
\<close>

theorem sliding_eagle_loses_segment:
  "rbind (cached_pool 3) (\<lambda>p. sliding_find_longest_cache_hit p (PlainHashes [[0], [1], [2]]) 3 [0]
       (SlidingWindowSpec (sample_attention 1 Q_NONE) 10 128) True 2 1 1) = Inr [[]]
   \<and> rbind (cached_pool 3) (\<lambda>p. full_find_longest_cache_hit p (PlainHashes [[0], [1], [2]]) 3 [0]
       (FullAttentionSpec (sample_attention 1 Q_NONE) (full_post_init (sample_attention 1 Q_NONE) None None None)) True 2 1 1)
     = Inr [[Blk 1, Blk 2]]"
  by code_simp

end
