(* ===== verification/Single_Type_Manager.thy ===== *)
theory Single_Type_Manager
  imports Cache_Hits
begin

section \<open>The managers of one KV cache group\<close>

text \<open>
  \<open>SingleTypeKVCacheManager\<close> and its subclasses (\<open>vllm/v1/core/single_type_kv_cache_manager.py\<close>). A
  manager keeps the block table of every request of its group. The block pool is shared by all
  managers, so it is passed and returned beside the manager. \<open>req_to_blocks\<close> is a
  \<open>defaultdict(list)\<close>: reading a missing key inserts the empty list (\<open>touch_req\<close>), which matters to
  the count of requests. Block sizes are positive; a zero block size would raise
  \<open>ZeroDivisionError\<close> in \<open>cdiv\<close> and is not modelled.
\<close>

subsection \<open>State\<close>

record mamba_state =
  cached_blocks_this_step :: "bytes set"
  mamba_cache_mode :: string
  num_speculative_blocks :: int
  last_state_block_idx :: "(string, int) dict"
  allocated_block_reqs :: "string set"

text \<open>The class of a manager with the attributes that the subclass adds.\<close>

datatype manager_sub =
    FullAttentionManager
  | SlidingWindowManager int
  | ChunkedLocalAttentionManager int
  | MambaManager mamba_state
  | CrossAttentionManager
  | SinkFullAttentionManager "bref list"

record manager =
  sub :: manager_sub
  scheduler_block_size :: int
  mgr_block_size :: int
  dcp_world_size :: int
  pcp_world_size :: int
  mgr_spec :: kv_cache_spec
  mgr_enable_caching :: bool
  max_admission_blocks :: "int option"
  new_block_ids :: "int list"
  req_to_blocks :: "(string, bref list) dict"
  num_cached_block :: "(string, int) dict"
  kv_cache_group_id :: int
  mgr_null_block :: bref
  mgr_use_eagle :: bool

definition manager_init ::
  "manager_sub \<Rightarrow> kv_cache_spec \<Rightarrow> block_pool \<Rightarrow> bool \<Rightarrow> int \<Rightarrow> int \<Rightarrow> int \<Rightarrow> int \<Rightarrow> int option \<Rightarrow> manager" where
  "manager_init s spec p caching gid sched_bs dcp pcp cap =
     \<lparr>sub = s, scheduler_block_size = sched_bs,
      mgr_block_size = (if dcp * pcp > 1 then block_size spec * (dcp * pcp) else block_size spec),
      dcp_world_size = dcp, pcp_world_size = pcp, mgr_spec = spec, mgr_enable_caching = caching,
      max_admission_blocks = cap, new_block_ids = [], req_to_blocks = [], num_cached_block = [],
      kv_cache_group_id = gid, mgr_null_block = null_block p, mgr_use_eagle = False\<rparr>"

definition mamba_init :: "mamba_spec \<Rightarrow> mamba_state" where
  "mamba_init s =
     \<lparr>cached_blocks_this_step = {}, mamba_cache_mode = ms_cache_mode s,
      num_speculative_blocks = ms_num_speculative_blocks s, last_state_block_idx = [], allocated_block_reqs = {}\<rparr>"

text \<open>
  \<open>SinkFullAttentionManager.__init__\<close> has neither \<open>scheduler_block_size\<close> nor
  \<open>max_admission_blocks_per_request\<close> among its parameters, so the call with the keyword
  \<open>scheduler_block_size\<close>, which every coordinator makes, raises \<open>TypeError\<close>. A direct call passes
  \<open>dcp_world_size\<close> and \<open>pcp_world_size\<close> on by position, where the base class expects
  \<open>scheduler_block_size\<close> and \<open>dcp_world_size\<close>.
\<close>

definition sink_init ::
  "kv_cache_spec \<Rightarrow> block_pool \<Rightarrow> bool \<Rightarrow> int \<Rightarrow> int \<Rightarrow> int \<Rightarrow> (manager \<times> block_pool) result" where
  "sink_init spec p caching gid dcp pcp =
     (let m = manager_init (SinkFullAttentionManager []) spec p caching gid dcp pcp 1 None in
      rbind (sink_len_of spec) (\<lambda>sink.
        case sink of
          None \<Rightarrow> Inl AssertionError
        | Some len \<Rightarrow>
            rbind (rassert (len > 0 \<and> len mod mgr_block_size m = 0)) (\<lambda>_.
            rbind (popleft_n (len div mgr_block_size m) (pool_queue p)) (\<lambda>(bs, q).
              Inr (m\<lparr>sub := SinkFullAttentionManager bs\<rparr>, p\<lparr>pool_queue := q\<rparr>)))))"

text \<open>\<open>get_manager_for_kv_cache_spec\<close>, with the keyword arguments of the coordinator.\<close>

definition get_manager_for_kv_cache_spec ::
  "spec_registry \<Rightarrow> kv_cache_spec \<Rightarrow> int \<Rightarrow> int \<Rightarrow> block_pool \<Rightarrow> bool \<Rightarrow> int \<Rightarrow> int \<Rightarrow> int \<Rightarrow> int \<Rightarrow> manager result" where
  "get_manager_for_kv_cache_spec reg spec max_batched max_len p caching gid dcp pcp sched_bs =
     (case get_manager_class reg spec of
        None \<Rightarrow> Inl AssertionError
      | Some cls \<Rightarrow>
          let cap = (case spec of
                       SlidingWindowSpec a w _ \<Rightarrow> Some (sliding_max_admission_blocks a w max_batched max_len)
                     | SlidingWindowMLASpec a w _ _ \<Rightarrow> Some (sliding_max_admission_blocks a w max_batched max_len)
                     | ChunkedLocalAttentionSpec a c \<Rightarrow> Some (chunked_max_admission_blocks a c max_batched max_len)
                     | _ \<Rightarrow> None);
              mk = (\<lambda>s. Inr (manager_init s spec p caching gid sched_bs dcp pcp cap))
          in (case cls of
                M_FullAttentionManager \<Rightarrow> mk FullAttentionManager
              | M_SlidingWindowManager \<Rightarrow>
                  (case sliding_window_of spec of None \<Rightarrow> Inl AttributeError | Some w \<Rightarrow> mk (SlidingWindowManager w))
              | M_ChunkedLocalAttentionManager \<Rightarrow>
                  (case spec of ChunkedLocalAttentionSpec _ c \<Rightarrow> mk (ChunkedLocalAttentionManager c)
                   | _ \<Rightarrow> Inl AttributeError)
              | M_MambaManager \<Rightarrow>
                  (case spec of MambaSpec s \<Rightarrow> mk (MambaManager (mamba_init s)) | _ \<Rightarrow> Inl AttributeError)
              | M_CrossAttentionManager \<Rightarrow> mk CrossAttentionManager
              | M_SinkFullAttentionManager \<Rightarrow> Inl TypeError))"

fun class_of :: "manager_sub \<Rightarrow> manager_class" where
  "class_of FullAttentionManager = M_FullAttentionManager"
| "class_of (SlidingWindowManager _) = M_SlidingWindowManager"
| "class_of (ChunkedLocalAttentionManager _) = M_ChunkedLocalAttentionManager"
| "class_of (MambaManager _) = M_MambaManager"
| "class_of CrossAttentionManager = M_CrossAttentionManager"
| "class_of (SinkFullAttentionManager _) = M_SinkFullAttentionManager"

definition blocks_of :: "manager \<Rightarrow> string \<Rightarrow> bref list" where
  "blocks_of m rid = dict_get_default (req_to_blocks m) rid []"

definition set_blocks :: "string \<Rightarrow> bref list \<Rightarrow> manager \<Rightarrow> manager" where
  "set_blocks rid bs m = m\<lparr>req_to_blocks := dict_set rid bs (req_to_blocks m)\<rparr>"

definition touch_req :: "string \<Rightarrow> manager \<Rightarrow> manager" where
  "touch_req rid m = set_blocks rid (blocks_of m rid) m"

subsection \<open>Skipped tokens\<close>

definition get_num_skipped_tokens :: "manager \<Rightarrow> int \<Rightarrow> int" where
  "get_num_skipped_tokens m n =
     (case sub m of
        SlidingWindowManager w \<Rightarrow> max 0 (n - w + 1)
      | ChunkedLocalAttentionManager c \<Rightarrow> n div c * c
      | MambaManager _ \<Rightarrow> n - 1
      | _ \<Rightarrow> 0)"

subsection \<open>Allocation\<close>

definition get_num_evictable_blocks :: "block_pool \<Rightarrow> bref list \<Rightarrow> int" where
  "get_num_evictable_blocks p bs =
     int (length (filter (\<lambda>b. ref_cnt (pool_heap p b) = 0 \<and> \<not> is_null (pool_heap p b)) bs))"

definition base_num_blocks_to_allocate ::
  "block_pool \<Rightarrow> manager \<Rightarrow> string \<Rightarrow> int \<Rightarrow> bref list \<Rightarrow> int \<Rightarrow> bool \<Rightarrow> int result" where
  "base_num_blocks_to_allocate p m rid num_toks new_computed total_computed apply_cap =
     (let required0 = cdiv num_toks (mgr_block_size m);
          required = (case max_admission_blocks m of
                        Some cap \<Rightarrow> if apply_cap then min required0 cap else required0
                      | None \<Rightarrow> required0);
          num_req_blocks = int (length (blocks_of m rid))
      in if dict_get (num_cached_block m) rid \<noteq> None
         then rbind (rassert (new_computed = [])) (\<lambda>_. Inr (max (required - num_req_blocks) 0))
         else
           let skipped = get_num_skipped_tokens m total_computed div mgr_block_size m;
               local_computed = int (length new_computed) + num_req_blocks;
               num_new = max (required - max skipped local_computed) 0;
               skipped_new = max 0 (skipped - num_req_blocks)
           in Inr (num_new + get_num_evictable_blocks p (py_from new_computed skipped_new)))"

definition mamba_align_num_blocks_to_allocate ::
  "block_pool \<Rightarrow> manager \<Rightarrow> mamba_state \<Rightarrow> string \<Rightarrow> bref list \<Rightarrow> int \<Rightarrow> int \<times> manager" where
  "mamba_align_num_blocks_to_allocate p m ms rid new_computed main_tokens =
     (let required = cdiv main_tokens (mgr_block_size m) + num_speculative_blocks ms;
          m' = touch_req rid m;
          num_new = required - int (length new_computed) - int (length (blocks_of m' rid));
          num_new' = (if num_new > 0
                      then (if rid \<in> allocated_block_reqs ms then 1 else 1 + num_speculative_blocks ms)
                      else num_new)
      in (num_new' + get_num_evictable_blocks p new_computed, m'))"

text \<open>
  \<open>get_num_blocks_to_allocate\<close>. In the aligned mode of \<open>MambaManager\<close> the read of
  \<open>req_to_blocks\<close> may insert the request, hence the returned manager.
\<close>

definition get_num_blocks_to_allocate ::
  "block_pool \<Rightarrow> manager \<Rightarrow> string \<Rightarrow> int \<Rightarrow> bref list \<Rightarrow> int \<Rightarrow> int \<Rightarrow> bool \<Rightarrow> (int \<times> manager) result" where
  "get_num_blocks_to_allocate p m rid num_toks new_computed total_computed main_tokens apply_cap =
     (case sub m of
        MambaManager ms \<Rightarrow>
          if new_computed \<noteq> [] \<and> (case block_hash (pool_heap p (last new_computed)) of
                                   None \<Rightarrow> False | Some h \<Rightarrow> h \<in> cached_blocks_this_step ms)
          then Inr (num_gpu_blocks p + 1, m)
          else if mamba_cache_mode ms \<noteq> ''align''
          then let num_toks' = (if num_speculative_blocks ms > 0
                                then num_toks + block_size (mgr_spec m) * num_speculative_blocks ms else num_toks)
               in rbind (base_num_blocks_to_allocate p m rid num_toks' new_computed total_computed apply_cap)
                    (\<lambda>n. Inr (n, m))
          else Inr (mamba_align_num_blocks_to_allocate p m ms rid new_computed main_tokens)
      | _ \<Rightarrow> rbind (base_num_blocks_to_allocate p m rid num_toks new_computed total_computed apply_cap)
              (\<lambda>n. Inr (n, m)))"

text \<open>Only the plain full-attention classes report new block ids (\<open>type(...) in (...)\<close>).\<close>

definition reports_new_ids :: "manager \<Rightarrow> bool" where
  "reports_new_ids m \<longleftrightarrow> spec_type (mgr_spec m) \<in> {C_FullAttentionSpec, C_TQFullAttentionSpec, C_MLAAttentionSpec}"

definition note_new_ids :: "block_pool \<Rightarrow> bref list \<Rightarrow> manager \<Rightarrow> manager" where
  "note_new_ids p bs m =
     (if reports_new_ids m
      then m\<lparr>new_block_ids := new_block_ids m @ map (\<lambda>b. block_id (pool_heap p b)) bs\<rparr> else m)"

definition base_allocate_new_computed_blocks ::
  "string \<Rightarrow> bref list \<Rightarrow> int \<Rightarrow> int \<Rightarrow> manager \<times> block_pool \<Rightarrow> (manager \<times> block_pool) result" where
  "base_allocate_new_computed_blocks rid new_computed0 num_local num_external0 st =
     (case st of (m, p) \<Rightarrow>
        if dict_get (num_cached_block m) rid \<noteq> None
        then rbind (rassert (new_computed0 = [])) (\<lambda>_. Inr (m, p))
        else
          rbind (rassert (blocks_of m rid = [])) (\<lambda>_.
          let bs = mgr_block_size m;
              total = num_local + num_external0;
              skipped_tokens = get_num_skipped_tokens m total;
              skipped = skipped_tokens div bs;
              new_computed = (if skipped > 0 then py_from new_computed0 skipped else new_computed0);
              num_external = (if skipped > 0 then min (total - skipped_tokens) num_external0 else num_external0)
          in rbind (if mgr_enable_caching m then touch new_computed p
                    else rbind (rassert (new_computed = [])) (\<lambda>_. Inr p)) (\<lambda>p1.
             let req = replicate (nat skipped) (mgr_null_block m) @ new_computed;
                 m1 = (set_blocks rid req m)\<lparr>num_cached_block := dict_set rid (int (length req)) (num_cached_block m)\<rparr>
             in if num_external > 0
                then rbind (get_new_blocks (cdiv total bs - int (length req)) p1) (\<lambda>(allocated, p2).
                       Inr (note_new_ids p2 allocated (set_blocks rid (req @ allocated) m1), p2))
                else Inr (m1, p1))))"

definition allocate_new_computed_blocks ::
  "string \<Rightarrow> bref list \<Rightarrow> int \<Rightarrow> int \<Rightarrow> manager \<times> block_pool \<Rightarrow> (manager \<times> block_pool) result" where
  "allocate_new_computed_blocks rid new_computed num_local num_external st =
     (case sub (fst st) of
        CrossAttentionManager \<Rightarrow> rbind (rassert (new_computed = [])) (\<lambda>_. Inr st)
      | _ \<Rightarrow> base_allocate_new_computed_blocks rid new_computed num_local num_external st)"

definition base_allocate_new_blocks ::
  "string \<Rightarrow> int \<Rightarrow> manager \<times> block_pool \<Rightarrow> (bref list \<times> manager \<times> block_pool) result" where
  "base_allocate_new_blocks rid num_toks st =
     (case st of (m0, p) \<Rightarrow>
        let m = touch_req rid m0;
            req = blocks_of m rid;
            num_new = cdiv num_toks (mgr_block_size m) - int (length req)
        in if num_new \<le> 0 then Inr ([], m, p)
           else rbind (get_new_blocks num_new p) (\<lambda>(new, p1).
                  Inr (new, note_new_ids p1 new (set_blocks rid (req @ new) m), p1)))"

text \<open>
  The loop of the aligned Mamba mode that moves the speculative blocks of the previous step behind
  the null blocks: it stops at the first index that is not skipped.
\<close>

fun reuse_speculative :: "bref \<Rightarrow> int \<Rightarrow> int list \<Rightarrow> bref list \<Rightarrow> bref list result" where
  "reuse_speculative nb skipped [] req = Inr req"
| "reuse_speculative nb skipped (i # is) req =
     (if i < skipped
      then rbind (py_index req i) (\<lambda>b.
             reuse_speculative nb skipped is ((req @ [b])[nat (if i < 0 then i + int (length req) + 1 else i) := nb]))
      else Inr req)"

definition mamba_align_allocate_new_blocks ::
  "mamba_state \<Rightarrow> string \<Rightarrow> int \<Rightarrow> manager \<times> block_pool \<Rightarrow> (bref list \<times> manager \<times> block_pool) result" where
  "mamba_align_allocate_new_blocks ms rid num_toks st =
     (case st of (m0, p) \<Rightarrow>
        let m = touch_req rid m0;
            req = blocks_of m rid;
            spec_blocks = num_speculative_blocks ms;
            required = cdiv num_toks (mgr_block_size m) + spec_blocks;
            prev = int (length req)
        in if required \<le> prev then Inr ([], m, p)
           else
             let allocated = rid \<in> allocated_block_reqs ms;
                 ms1 = (if allocated
                        then ms\<lparr>last_state_block_idx := dict_set rid (prev - 1 - spec_blocks) (last_state_block_idx ms)\<rparr>
                        else if prev > 0 then ms\<lparr>last_state_block_idx := dict_set rid (prev - 1) (last_state_block_idx ms)\<rparr>
                        else ms);
                 skipped = required - spec_blocks - 1;
                 req1 = (if prev < skipped then req @ replicate (nat (skipped - prev)) (mgr_null_block m) else req)
             in rbind (if allocated
                       then reuse_speculative (mgr_null_block m) skipped (py_range (prev - spec_blocks) prev) req1
                       else Inr req1) (\<lambda>req2.
                let num_new = required - int (length req2) in
                rbind (rassert (num_new \<le> (if allocated then 1 else spec_blocks + 1))) (\<lambda>_.
                rbind (get_new_blocks num_new p) (\<lambda>(new, p1).
                  let req3 = req2 @ new;
                      ms2 = ms1\<lparr>allocated_block_reqs := insert rid (allocated_block_reqs ms1)\<rparr>
                  in Inr (py_from req3 prev, (set_blocks rid req3 m)\<lparr>sub := MambaManager ms2\<rparr>, p1)))))"

definition allocate_new_blocks ::
  "string \<Rightarrow> int \<Rightarrow> int \<Rightarrow> manager \<times> block_pool \<Rightarrow> (bref list \<times> manager \<times> block_pool) result" where
  "allocate_new_blocks rid num_toks main_tokens st =
     (case sub (fst st) of
        MambaManager ms \<Rightarrow>
          if mamba_cache_mode ms \<noteq> ''align''
          then base_allocate_new_blocks rid
                 (if num_speculative_blocks ms > 0
                  then num_toks + mgr_block_size (fst st) * num_speculative_blocks ms else num_toks) st
          else mamba_align_allocate_new_blocks ms rid main_tokens st
      | _ \<Rightarrow> base_allocate_new_blocks rid num_toks st)"

definition take_new_block_ids :: "manager \<Rightarrow> int list \<times> manager" where
  "take_new_block_ids m = (new_block_ids m, m\<lparr>new_block_ids := []\<rparr>)"

subsection \<open>Caching\<close>

definition reachable_block_mask ::
  "manager \<Rightarrow> int \<Rightarrow> int \<Rightarrow> int option \<Rightarrow> int \<Rightarrow> bool list option result" where
  "reachable_block_mask m start_block end_block retention num_prompt =
     (case sub m of
        SlidingWindowManager _ \<Rightarrow>
          sliding_reachable_block_mask start_block end_block (Some (scheduler_block_size m)) (mgr_spec m)
            (mgr_use_eagle m) retention (Some num_prompt)
      | _ \<Rightarrow> Inr None)"

definition base_cache_blocks ::
  "request \<Rightarrow> int \<Rightarrow> int option \<Rightarrow> manager \<times> block_pool \<Rightarrow> (request \<times> manager \<times> block_pool) result" where
  "base_cache_blocks r num_toks retention st =
     (case st of (m, p) \<Rightarrow>
        let rid = request_id r;
            num_cached = dict_get_default (num_cached_block m) rid 0;
            num_full = num_toks div mgr_block_size m
        in if num_cached \<ge> num_full then Inr (r, m, p)
           else rbind (reachable_block_mask m num_cached num_full retention (num_prompt_tokens r)) (\<lambda>bmask.
                let m1 = touch_req rid m in
                rbind (cache_full_blocks r (blocks_of m1 rid) num_cached num_full (mgr_block_size m)
                         (kv_cache_group_id m) bmask p) (\<lambda>(r', p').
                  Inr (r', m1\<lparr>num_cached_block := dict_set rid num_full (num_cached_block m1)\<rparr>, p'))))"

text \<open>The loop of \<open>MambaManager.cache_blocks\<close> over the blocks that were just cached.\<close>

fun note_cached :: "block_pool \<Rightarrow> bref list \<Rightarrow> bytes set \<Rightarrow> bytes set result" where
  "note_cached p [] hs = Inr hs"
| "note_cached p (b # bs) hs =
     (if is_null (pool_heap p b) then note_cached p bs hs
      else case block_hash (pool_heap p b) of
             None \<Rightarrow> Inl AssertionError
           | Some h \<Rightarrow> note_cached p bs (insert h hs))"

definition mamba_cache_blocks ::
  "mamba_state \<Rightarrow> request \<Rightarrow> int \<Rightarrow> int option \<Rightarrow> manager \<times> block_pool \<Rightarrow> (request \<times> manager \<times> block_pool) result" where
  "mamba_cache_blocks ms r num_toks retention st =
     (let cached0 = dict_get_default (num_cached_block (fst st)) (request_id r) 0 in
      rbind (base_cache_blocks r num_toks retention st) (\<lambda>(r', m, p).
        let cached1 = dict_get_default (num_cached_block m) (request_id r) 0
        in if cached1 > cached0
           then rbind (note_cached p (py_slice (blocks_of m (request_id r)) cached0 cached1) (cached_blocks_this_step ms))
                  (\<lambda>hs. Inr (r', m\<lparr>sub := MambaManager (ms\<lparr>cached_blocks_this_step := hs\<rparr>)\<rparr>, p))
           else Inr (r', m, p)))"

definition cache_blocks ::
  "request \<Rightarrow> int \<Rightarrow> int option \<Rightarrow> manager \<times> block_pool \<Rightarrow> (request \<times> manager \<times> block_pool) result" where
  "cache_blocks r num_toks retention st =
     (case sub (fst st) of
        MambaManager ms \<Rightarrow> mamba_cache_blocks ms r num_toks retention st
      | CrossAttentionManager \<Rightarrow> Inl ValueError
      | _ \<Rightarrow> base_cache_blocks r num_toks retention st)"

definition new_step_starts :: "manager \<Rightarrow> manager" where
  "new_step_starts m =
     (case sub m of MambaManager ms \<Rightarrow> m\<lparr>sub := MambaManager (ms\<lparr>cached_blocks_this_step := {}\<rparr>)\<rparr> | _ \<Rightarrow> m)"

subsection \<open>Freeing\<close>

definition pop_request :: "string \<Rightarrow> manager \<Rightarrow> manager" where
  "pop_request rid m =
     m\<lparr>req_to_blocks := dict_del rid (req_to_blocks m), num_cached_block := dict_del rid (num_cached_block m)\<rparr>"

definition base_free :: "string \<Rightarrow> manager \<times> block_pool \<Rightarrow> (manager \<times> block_pool) result" where
  "base_free rid st =
     (case st of (m, p) \<Rightarrow>
        rbind (free_blocks (rev (blocks_of m rid)) False p) (\<lambda>p'. Inr (pop_request rid m, p')))"

definition is_cached :: "block_pool \<Rightarrow> bref \<Rightarrow> bool" where
  "is_cached p b \<longleftrightarrow> block_hash (pool_heap p b) \<noteq> None"

definition sliding_free :: "string \<Rightarrow> manager \<times> block_pool \<Rightarrow> (manager \<times> block_pool) result" where
  "sliding_free rid st =
     (case st of (m, p) \<Rightarrow>
        let req = blocks_of m rid
        in rbind (if req \<noteq> []
                  then let cached = filter (is_cached p) (rev req);
                           uncached = filter (\<lambda>b. \<not> is_cached p b) (rev req)
                       in rbind (free_blocks cached False p) (free_blocks uncached True)
                  else Inr p) (\<lambda>p'. Inr (pop_request rid m, p')))"

definition mamba_forget :: "string \<Rightarrow> manager \<Rightarrow> mamba_state \<Rightarrow> manager" where
  "mamba_forget rid m ms =
     (if mamba_cache_mode ms = ''align''
      then m\<lparr>sub := MambaManager (ms\<lparr>allocated_block_reqs := allocated_block_reqs ms - {rid},
                                     last_state_block_idx := dict_del rid (last_state_block_idx ms)\<rparr>)\<rparr>
      else m)"

definition mgr_free :: "string \<Rightarrow> manager \<times> block_pool \<Rightarrow> (manager \<times> block_pool) result" where
  "mgr_free rid st =
     (case sub (fst st) of
        SlidingWindowManager _ \<Rightarrow> sliding_free rid st
      | MambaManager ms \<Rightarrow> base_free rid (mamba_forget rid (fst st) ms, snd st)
      | _ \<Rightarrow> base_free rid st)"

text \<open>
  The loop of \<open>remove_skipped_blocks\<close> from the last skipped block to the left; it stops at a null
  block. It returns the block table, the removed cached and the removed uncached blocks.
\<close>

fun skip_loop :: "block_pool \<Rightarrow> bref \<Rightarrow> nat \<Rightarrow> bref list \<Rightarrow> bref list \<Rightarrow> bref list \<Rightarrow> bref list \<times> bref list \<times> bref list" where
  "skip_loop p nb 0 bs cached uncached = (bs, cached, uncached)"
| "skip_loop p nb (Suc i) bs cached uncached =
     (if bs ! i = nb then (bs, cached, uncached)
      else if is_cached p (bs ! i) then skip_loop p nb i (bs[i := nb]) (cached @ [bs ! i]) uncached
      else skip_loop p nb i (bs[i := nb]) cached (uncached @ [bs ! i]))"

definition base_remove_skipped_blocks :: "string \<Rightarrow> int \<Rightarrow> manager \<times> block_pool \<Rightarrow> (manager \<times> block_pool) result" where
  "base_remove_skipped_blocks rid total_computed st =
     (case st of (m0, p) \<Rightarrow>
        let skipped_tokens = get_num_skipped_tokens m0 total_computed
        in if skipped_tokens \<le> 0 then Inr (m0, p)
           else
             let m = touch_req rid m0;
                 bs = blocks_of m rid;
                 skipped = min (skipped_tokens div mgr_block_size m) (int (length bs))
             in case skip_loop p (mgr_null_block m) (nat skipped) bs [] [] of (bs', cached, uncached) \<Rightarrow>
                  rbind (free_blocks cached False p) (\<lambda>p1.
                  rbind (free_blocks uncached True p1) (\<lambda>p2. Inr (set_blocks rid bs' m, p2))))"

text \<open>
  The aligned Mamba mode also frees the block of the state before the last one, if it is not a null
  block already.
\<close>

definition mamba_free_state_block :: "string \<Rightarrow> int \<Rightarrow> manager \<times> block_pool \<Rightarrow> (manager \<times> block_pool) result" where
  "mamba_free_state_block rid idx st =
     (case st of (m0, p) \<Rightarrow>
        let m = touch_req rid m0; bs = blocks_of m rid in
        rbind (py_index bs idx) (\<lambda>b.
          if b \<noteq> mgr_null_block m
          then rbind (free_blocks [b] False p) (\<lambda>p1.
                 Inr (set_blocks rid (bs[nat (if idx < 0 then idx + int (length bs) else idx) := mgr_null_block m]) m, p1))
          else Inr (m, p)))"

definition mamba_remove_skipped_blocks ::
  "mamba_state \<Rightarrow> string \<Rightarrow> int \<Rightarrow> manager \<times> block_pool \<Rightarrow> (manager \<times> block_pool) result" where
  "mamba_remove_skipped_blocks ms rid computed0 st =
     (let computed = max 0 (computed0 - num_speculative_blocks ms) in
      rbind (base_remove_skipped_blocks rid computed st) (\<lambda>(m, p).
        if mamba_cache_mode ms = ''align''
        then (case dict_get (last_state_block_idx ms) rid of
                None \<Rightarrow> Inr (m, p)
              | Some idx \<Rightarrow>
                  if idx < cdiv computed (mgr_block_size m) - 1
                  then mamba_free_state_block rid idx (m, p) else Inr (m, p))
        else Inr (m, p)))"

definition remove_skipped_blocks :: "string \<Rightarrow> int \<Rightarrow> manager \<times> block_pool \<Rightarrow> (manager \<times> block_pool) result" where
  "remove_skipped_blocks rid total_computed st =
     (case sub (fst st) of
        MambaManager ms \<Rightarrow> mamba_remove_skipped_blocks ms rid total_computed st
      | _ \<Rightarrow> base_remove_skipped_blocks rid total_computed st)"

subsection \<open>Common prefix\<close>

text \<open>
  \<open>FullAttentionManager\<close> counts the leading blocks that every request shares. The read of
  \<open>req_to_blocks\<close> comes before its length is taken, so a missing request counts.
\<close>

definition get_num_common_prefix_blocks :: "block_pool \<Rightarrow> string \<Rightarrow> manager \<Rightarrow> int \<times> manager" where
  "get_num_common_prefix_blocks p rid m =
     (case sub m of
        SlidingWindowManager _ \<Rightarrow> (0, m)
      | ChunkedLocalAttentionManager _ \<Rightarrow> (0, m)
      | MambaManager _ \<Rightarrow> (0, m)
      | CrossAttentionManager \<Rightarrow> (0, m)
      | _ \<Rightarrow> let m1 = touch_req rid m
             in (int (length (takeWhile (\<lambda>b. ref_cnt (pool_heap p b) = int (length (req_to_blocks m1)))
                   (blocks_of m1 rid))), m1))"

subsection \<open>The manager invariant\<close>

text \<open>
  \<open>held d b\<close> counts the references to \<open>b\<close> in the block tables. The managers of a coordinator share the
  pool; for one manager \<open>oth b\<close> is the number of references that the others hold. The invariant:
  the pool is well formed, the block tables hold pool blocks and null blocks, no request holds a
  block twice, and the reference count of every block is \<open>oth\<close> plus what the manager holds.
\<close>

definition held :: "(string, bref list) dict \<Rightarrow> bref \<Rightarrow> nat" where
  "held d b = sum_list (map (\<lambda>(r, bs). count_list bs b) d)"

definition table_ok :: "block_pool \<Rightarrow> bref list \<Rightarrow> bool" where
  "table_ok p bs \<longleftrightarrow> set bs \<subseteq> insert (Blk 0) (real_blocks p) \<and> distinct (filter (\<lambda>b. b \<noteq> Blk 0) bs)"

text \<open>
  \<open>sub_ok\<close>: windows and chunks are not empty; a request that the aligned Mamba mode has allocated for
  owns at least its speculative blocks.
\<close>

definition sub_ok :: "manager \<Rightarrow> bool" where
  "sub_ok m \<longleftrightarrow>
     (case sub m of
        SlidingWindowManager w \<Rightarrow> 1 \<le> w
      | ChunkedLocalAttentionManager c \<Rightarrow> 0 < c
      | MambaManager ms \<Rightarrow> 0 \<le> num_speculative_blocks ms
          \<and> (\<forall>r \<in> allocated_block_reqs ms. mamba_cache_mode ms = ''align''
                \<and> num_speculative_blocks ms \<le> int (length (blocks_of m r)))
      | _ \<Rightarrow> True)"

definition mgr_ok :: "manager \<Rightarrow> block_pool \<Rightarrow> bool" where
  "mgr_ok m p \<longleftrightarrow> dict_ok (req_to_blocks m) \<and> mgr_null_block m = Blk 0 \<and> 0 < mgr_block_size m \<and> sub_ok m
     \<and> (\<forall>(r, bs) \<in> set (req_to_blocks m). table_ok p bs)"

definition mgr_inv :: "(bref \<Rightarrow> int) \<Rightarrow> manager \<Rightarrow> block_pool \<Rightarrow> bool" where
  "mgr_inv oth m p \<longleftrightarrow> pool_inv p \<and> mgr_ok m p \<and> (\<forall>b. 0 \<le> oth b)
     \<and> (\<forall>b \<in> real_blocks p. refc p b = oth b + int (held (req_to_blocks m) b))"

lemma sub_ok_grow:
  "sub_ok m \<Longrightarrow> sub m' = sub m \<Longrightarrow> (\<And>r. length (blocks_of m r) \<le> length (blocks_of m' r)) \<Longrightarrow> sub_ok m'"
  unfolding sub_ok_def by (auto split: manager_sub.splits) (meson of_nat_mono order_trans)

lemma held_set:
  "dict_ok d \<Longrightarrow> held (dict_set r bs d) b + count_list (dict_get_default d r []) b = held d b + count_list bs b"
proof (induction d)
  case (Cons e d)
  obtain r' bs' where e: "e = (r', bs')" by (cases e)
  show ?case
  proof (cases "r' = r")
    case True
    then show ?thesis using e by (simp add: held_def dict_get_default_def)
  next
    case False
    then show ?thesis using Cons e by (simp add: held_def dict_get_default_def)
  qed
qed (simp add: held_def dict_get_default_def)

lemma held_del:
  "dict_ok d \<Longrightarrow> held (dict_del r d) b + count_list (dict_get_default d r []) b = held d b"
proof (induction d)
  case (Cons e d)
  obtain r' bs' where e: "e = (r', bs')" by (cases e)
  show ?case
  proof (cases "r' = r")
    case True
    then have "AList.delete r d = d" using Cons.prems e by (simp add: delete_id)
    then show ?thesis using e True by (simp add: held_def dict_get_default_def)
  next
    case False
    then show ?thesis using Cons e by (simp add: held_def dict_get_default_def)
  qed
qed (simp add: held_def dict_get_default_def)

lemma count_blocks_le_held: "dict_ok (req_to_blocks m) \<Longrightarrow> count_list (blocks_of m rid) b \<le> held (req_to_blocks m) b"
  using held_del[of "req_to_blocks m" rid b] by (simp add: blocks_of_def)

lemma mgr_ok_table: "mgr_ok m p \<Longrightarrow> table_ok p (blocks_of m rid)"
  by (auto simp: mgr_ok_def blocks_of_def dict_get_default_def table_ok_def split: option.splits dest: map_of_SomeD)

lemma table_ok_cong: "same_config p p' \<Longrightarrow> table_ok p' bs = table_ok p bs"
  by (simp add: table_ok_def same_config_real)

lemma set_blocks_simps [simp]:
  "sub (set_blocks rid bs m) = sub m" "mgr_block_size (set_blocks rid bs m) = mgr_block_size m"
  "mgr_null_block (set_blocks rid bs m) = mgr_null_block m" "num_cached_block (set_blocks rid bs m) = num_cached_block m"
  "blocks_of (set_blocks rid bs m) rid' = (if rid' = rid then bs else blocks_of m rid')"
  "mgr_spec (set_blocks rid bs m) = mgr_spec m" "mgr_enable_caching (set_blocks rid bs m) = mgr_enable_caching m"
  "kv_cache_group_id (set_blocks rid bs m) = kv_cache_group_id m"
  by (simp_all add: set_blocks_def blocks_of_def)

lemma touch_req_simps [simp]:
  "sub (touch_req rid m) = sub m" "mgr_block_size (touch_req rid m) = mgr_block_size m"
  "mgr_null_block (touch_req rid m) = mgr_null_block m" "num_cached_block (touch_req rid m) = num_cached_block m"
  "blocks_of (touch_req rid m) rid' = blocks_of m rid'" "mgr_spec (touch_req rid m) = mgr_spec m"
  "kv_cache_group_id (touch_req rid m) = kv_cache_group_id m"
  by (simp_all add: touch_req_def)

text \<open>
  The shape of every preservation proof: the block table of one request changes from \<open>old\<close> to
  \<open>new\<close>, and the reference counts change by the same amount.
\<close>

lemma mgr_inv_update:
  assumes inv: "mgr_inv oth m p" and rep: "pool_rep p' xs" and cfg: "same_config p p'"
    and new: "table_ok p bs"
    and cnt: "\<And>b. b \<in> real_blocks p \<Longrightarrow> refc p' b = refc p b + int (count_list bs b) - int (count_list (blocks_of m rid) b)"
    and m': "req_to_blocks m' = dict_set rid bs (req_to_blocks m)" "mgr_null_block m' = mgr_null_block m"
      "mgr_block_size m' = mgr_block_size m" "sub_ok m'"
  shows "mgr_inv oth m' p'"
proof -
  have ok: "dict_ok (req_to_blocks m)" using inv by (simp add: mgr_inv_def mgr_ok_def)
  have "table_ok p' bs'" if "(r, bs') \<in> set (req_to_blocks m')" for r bs'
    using that new inv cfg unfolding m'(1) dict_mem_set[OF ok]
    by (auto simp: mgr_inv_def mgr_ok_def table_ok_cong split: if_splits)
  then have "mgr_ok m' p'" using inv m' ok by (auto simp: mgr_inv_def mgr_ok_def)
  moreover have "refc p' b = oth b + int (held (req_to_blocks m') b)" if "b \<in> real_blocks p" for b
    using inv cnt[OF that] that held_set[OF ok, of rid bs b] unfolding m'(1)
    by (simp add: mgr_inv_def blocks_of_def)
  ultimately show ?thesis using inv rep same_config_real[OF cfg] by (auto simp: mgr_inv_def pool_inv_def)
qed

lemma mgr_inv_rep: "mgr_inv oth m p \<Longrightarrow> \<exists>xs. pool_rep p xs"
  by (simp add: mgr_inv_def pool_inv_def)

lemma mgr_inv_null: "mgr_inv oth m p \<Longrightarrow> mgr_null_block m = Blk 0 \<and> null_block p = Blk 0"
  by (auto simp: mgr_inv_def mgr_ok_def pool_inv_def pool_rep_def core_ok_def)

text \<open>Registration, eviction and step bookkeeping leave the invariant alone.\<close>

lemma mgr_inv_frame:
  assumes "mgr_inv oth m p" "pool_rep p' xs" "same_config p p'" "refc p' = refc p"
    "req_to_blocks m' = req_to_blocks m" "mgr_null_block m' = mgr_null_block m" "mgr_block_size m' = mgr_block_size m"
    "sub_ok m'"
  shows "mgr_inv oth m' p'"
  using assms same_config_real[OF assms(3)] unfolding mgr_inv_def mgr_ok_def
  by (auto simp: pool_inv_def table_ok_cong)

lemma mgr_inv_touch_req:
  assumes inv: "mgr_inv oth m p"
  shows "mgr_inv oth (touch_req rid m) p"
proof -
  obtain xs where "pool_rep p xs" using mgr_inv_rep[OF inv] by blast
  moreover have "table_ok p (blocks_of m rid)" using inv mgr_ok_table by (auto simp: mgr_inv_def)
  ultimately show ?thesis
    by (rule mgr_inv_update[OF inv _ same_config_refl, where rid = rid]) (use inv in \<open>auto simp: touch_req_def set_blocks_def mgr_inv_def mgr_ok_def blocks_of_def intro: sub_ok_grow\<close>)
qed

lemma note_new_ids_simps [simp]:
  "req_to_blocks (note_new_ids p bs m) = req_to_blocks m" "mgr_null_block (note_new_ids p bs m) = mgr_null_block m"
  "mgr_block_size (note_new_ids p bs m) = mgr_block_size m" "sub (note_new_ids p bs m) = sub m"
  "num_cached_block (note_new_ids p bs m) = num_cached_block m" "blocks_of (note_new_ids p bs m) rid = blocks_of m rid"
  "mgr_spec (note_new_ids p bs m) = mgr_spec m"
  by (simp_all add: note_new_ids_def blocks_of_def)


subsection \<open>Allocation keeps the invariant\<close>

lemma mgr_inv_unheld:
  assumes "mgr_inv oth m p" "b \<in> real_blocks p" "refc p b = 0"
  shows "b \<notin> set (blocks_of m rid)"
proof -
  have "refc p b = oth b + int (held (req_to_blocks m) b)" "0 \<le> oth b" using assms by (auto simp: mgr_inv_def)
  then have "held (req_to_blocks m) b = 0" using assms(3) by linarith
  moreover have "count_list (blocks_of m rid) b \<le> held (req_to_blocks m) b"
    using assms(1) by (intro count_blocks_le_held) (simp add: mgr_inv_def mgr_ok_def)
  ultimately show ?thesis by (simp add: count_list_0_iff)
qed

lemma mgr_inv_held:
  assumes "mgr_inv oth m p" "b \<in> set (blocks_of m rid)" "b \<noteq> Blk 0"
  shows "b \<in> real_blocks p" "1 \<le> refc p b"
proof -
  show real: "b \<in> real_blocks p" using assms mgr_ok_table[of m p rid] by (auto simp: mgr_inv_def table_ok_def)
  have "count_list (blocks_of m rid) b \<noteq> 0" using assms(2) by (simp add: count_list_0_iff)
  then have "1 \<le> count_list (blocks_of m rid) b" by simp
  also have "\<dots> \<le> held (req_to_blocks m) b"
    using assms(1) by (intro count_blocks_le_held) (simp add: mgr_inv_def mgr_ok_def)
  finally have "1 \<le> held (req_to_blocks m) b" .
  moreover have "refc p b = oth b + int (held (req_to_blocks m) b)" "0 \<le> oth b"
    using assms(1) real by (auto simp: mgr_inv_def)
  ultimately show "1 \<le> refc p b" by linarith
qed

text \<open>
  New blocks are appended to a table \<open>req\<close> that holds the same blocks as the old one (the Mamba
  table may have been rearranged).
\<close>

lemma mgr_inv_alloc:
  assumes inv: "mgr_inv oth m p" and n: "0 \<le> n" and res: "get_new_blocks n p = Inr (new, p')"
    and req: "table_ok p req" "\<And>b. b \<noteq> Blk 0 \<Longrightarrow> count_list req b = count_list (blocks_of m rid) b"
    and m': "req_to_blocks m' = dict_set rid (req @ new) (req_to_blocks m)" "mgr_null_block m' = mgr_null_block m"
      "mgr_block_size m' = mgr_block_size m" "sub_ok m'"
  shows "mgr_inv oth m' p' \<and> same_config p p' \<and> int (length new) = n \<and> set new \<subseteq> real_blocks p
    \<and> (\<forall>b \<in> set new. refc p b = 0)"
proof -
  obtain xs where rep: "pool_rep p xs" using mgr_inv_rep[OF inv] by blast
  have le: "n \<le> int (length xs)"
    using res get_num_free_blocks_eq[OF rep] by (auto simp: get_new_blocks_def split: if_splits)
  from get_new_blocks_spec[OF rep n le] res
  have new: "new = take (nat n) xs" and rep': "pool_rep p' (drop (nat n) xs)" and cfg: "same_config p p'"
    and rc: "refc p' = (\<lambda>b. if b \<in> set (take (nat n) xs) then 1 else refc p b)" by auto
  have d: "distinct xs" and xs: "set xs = {b \<in> real_blocks p. refc p b = 0}"
    using rep fq_rep_distinct by (auto simp: pool_rep_def)
  have sub: "set new \<subseteq> set xs" unfolding new by (rule set_take_subset)
  have fresh: "b \<notin> set req" if "b \<in> set new" for b
  proof -
    have b: "b \<in> real_blocks p" "refc p b = 0" using that sub xs by auto
    then have "count_list req b = 0"
      using req(2)[of b] mgr_inv_unheld[OF inv b, of rid] real_blocks_not_special by (auto simp: count_list_0_iff)
    then show ?thesis by (simp add: count_list_0_iff)
  qed
  have dn: "distinct new" unfolding new using d by simp
  have "table_ok p (req @ new)"
    using req(1) dn fresh sub xs unfolding table_ok_def by (auto simp: distinct_filter)
  moreover have "refc p' b = refc p b + int (count_list (req @ new) b) - int (count_list (blocks_of m rid) b)"
    if "b \<in> real_blocks p" for b
    using that req(2)[of b] real_blocks_not_special[OF that] sub xs
    by (auto simp: rc new[symmetric] count_list_distinct[OF dn])
  ultimately have "mgr_inv oth m' p'" by (rule mgr_inv_update[OF inv rep' cfg _ _ m'])
  then show ?thesis using cfg new le sub xs n by auto
qed


lemma mgr_inv_sub_ok: "mgr_inv oth m p \<Longrightarrow> sub_ok m"
  by (simp add: mgr_inv_def mgr_ok_def)

lemma mgr_inv_table: "mgr_inv oth m p \<Longrightarrow> table_ok p (blocks_of m rid)"
  using mgr_ok_table by (simp add: mgr_inv_def)

lemma base_allocate_new_blocks_inv:
  assumes inv: "mgr_inv oth m p" and res: "base_allocate_new_blocks rid n (m, p) = Inr (new, m', p')"
  shows "mgr_inv oth m' p' \<and> same_config p p'"
proof -
  let ?m = "touch_req rid m"
  let ?n = "cdiv n (mgr_block_size m) - int (length (blocks_of m rid))"
  note inv' = mgr_inv_touch_req[OF inv, of rid]
  show ?thesis
  proof (cases "?n \<le> 0")
    case True
    then show ?thesis using res inv' by (simp add: base_allocate_new_blocks_def Let_def)
  next
    case False
    let ?mm = "\<lambda>p1 new. note_new_ids p1 new (set_blocks rid (blocks_of m rid @ new) ?m)"
    have g: "get_new_blocks ?n p = Inr (new, p')" and m': "m' = ?mm p' new"
      using res False by (auto simp: base_allocate_new_blocks_def Let_def result_simps)
    have "sub_ok m'" unfolding m'
      by (rule sub_ok_grow[OF mgr_inv_sub_ok[OF inv]]) auto
    then show ?thesis
      using mgr_inv_alloc[OF inv' _ g mgr_inv_table[OF inv], where rid = rid and m' = m'] False unfolding m'
      by (simp add: set_blocks_def)
  qed
qed


text \<open>
  \<open>computed_ok\<close>: what the caller of \<open>allocate_new_computed_blocks\<close> guarantees of the blocks it passes:
  pool blocks and null blocks, no block twice, and no more than the computed tokens fill.
\<close>

definition computed_ok :: "block_pool \<Rightarrow> manager \<Rightarrow> bref list \<Rightarrow> int \<Rightarrow> bool" where
  "computed_ok p m bs tot \<longleftrightarrow> table_ok p bs \<and> 0 \<le> tot \<and> int (length bs) \<le> cdiv tot (mgr_block_size m)"

lemma skipped_le:
  assumes "sub_ok m" "0 \<le> n"
  shows "get_num_skipped_tokens m n \<le> n"
  using assms unfolding sub_ok_def get_num_skipped_tokens_def
  by (auto simp: minus_mod_eq_div_mult[symmetric] split: manager_sub.splits)

lemma skipped_mono:
  assumes "sub_ok m" "a \<le> b"
  shows "get_num_skipped_tokens m a \<le> get_num_skipped_tokens m b"
  using assms unfolding sub_ok_def get_num_skipped_tokens_def
  by (auto simp: zdiv_mono1 mult_right_mono split: manager_sub.splits)

lemma table_ok_append_null: "table_ok p (replicate n (Blk 0) @ bs) = table_ok p bs"
  by (auto simp: table_ok_def)

lemma table_ok_drop: "table_ok p bs \<Longrightarrow> table_ok p (drop n bs)"
  unfolding table_ok_def by (metis distinct_append distinct_drop filter_append append_take_drop_id order_trans set_drop_subset)

lemma mgr_inv_computed:
  assumes inv: "mgr_inv oth m p" and empty: "blocks_of m rid = []" and ok: "table_ok p bs"
    and res: "touch bs p = Inr p'"
    and m': "req_to_blocks m' = dict_set rid (replicate n (Blk 0) @ bs) (req_to_blocks m)"
      "mgr_null_block m' = mgr_null_block m" "mgr_block_size m' = mgr_block_size m" "sub m' = sub m"
  shows "mgr_inv oth m' p' \<and> same_config p p'"
proof -
  obtain xs where rep: "pool_rep p xs" using mgr_inv_rep[OF inv] by blast
  have "set bs \<subseteq> insert (Blk 0) (real_blocks p)" using ok by (simp add: table_ok_def)
  from touch_spec[OF rep this] res have
    p': "pool_rep p' (filter (\<lambda>b. b \<notin> set bs) xs)" "same_config p p'" "refc p' = (\<lambda>b. refc p b + int (count_list bs b))"
    by auto
  have "blocks_of m r = []" if "length (blocks_of m r) > length (blocks_of m' r)" for r
    using that empty by (cases "r = rid") (auto simp: blocks_of_def m'(1))
  then have "sub_ok m'" using mgr_inv_sub_ok[OF inv] m'(4)
    by (intro sub_ok_grow[of m m']) (metis le_zero_eq length_0_conv linorder_not_le zero_le)+
  moreover have "count_list (replicate n (Blk 0) @ bs) b = count_list bs b" if "b \<in> real_blocks p" for b
    using real_blocks_not_special[OF that] by (simp add: count_list_0_iff)
  ultimately show ?thesis
    using mgr_inv_update[OF inv p'(1,2), where rid = rid and bs = "replicate n (Blk 0) @ bs" and m' = m'] ok empty p'(2,3) m'
    by (simp add: table_ok_append_null)
qed

lemma base_allocate_new_computed_inv:
  assumes inv: "mgr_inv oth m p" and ok: "computed_ok p m bs (nl + ne)"
    and res: "base_allocate_new_computed_blocks rid bs nl ne (m, p) = Inr (m', p')"
  shows "mgr_inv oth m' p' \<and> same_config p p'"
proof (cases "dict_get (num_cached_block m) rid = None")
  case False
  then show ?thesis using res inv by (auto simp: base_allocate_new_computed_blocks_def result_simps)
next
  case True
  let ?bsz = "mgr_block_size m" and ?t = "nl + ne"
  let ?st = "get_num_skipped_tokens m ?t"
  let ?sk = "?st div ?bsz"
  define nc where "nc = (if ?sk > 0 then py_from bs ?sk else bs)"
  define ne' where "ne' = (if ?sk > 0 then min (?t - ?st) ne else ne)"
  let ?req = "replicate (nat ?sk) (Blk 0) @ nc"
  let ?m1 = "(set_blocks rid ?req m)\<lparr>num_cached_block := dict_set rid (int (length ?req)) (num_cached_block m)\<rparr>"
  have null: "mgr_null_block m = Blk 0" and pos: "0 < ?bsz" using inv by (auto simp: mgr_inv_def mgr_ok_def)
  have tb: "table_ok p bs" and t0: "0 \<le> ?t" and len: "int (length bs) \<le> cdiv ?t ?bsz" using ok by (auto simp: computed_ok_def)
  let ?touch = "if mgr_enable_caching m then touch nc p else rbind (rassert (nc = [])) (\<lambda>_. Inr p)"
  let ?rest = "\<lambda>p1. if ne' > 0 then rbind (get_new_blocks (cdiv ?t ?bsz - int (length ?req)) p1) (\<lambda>(allocated, p2).
                       Inr (note_new_ids p2 allocated (set_blocks rid (?req @ allocated) ?m1), p2))
                else Inr (?m1, p1)"
  have "rbind (rassert (blocks_of m rid = [])) (\<lambda>_. rbind ?touch ?rest) = Inr (m', p')"
    using res True unfolding base_allocate_new_computed_blocks_def Let_def prod.case null nc_def ne'_def by simp
  then obtain p1 where empty: "blocks_of m rid = []" and p1: "?touch = Inr p1" and rest: "?rest p1 = Inr (m', p')"
    unfolding rbind_eq_Inr_iff rassert_eq_Inr_iff by blast
  have tnc: "table_ok p nc" unfolding nc_def using tb by (simp add: py_from_nonneg table_ok_drop)
  have touch: "touch nc p = Inr p1" using p1 by (cases "mgr_enable_caching m") (auto simp: result_simps touch_def)
  have inv1: "mgr_inv oth ?m1 p1 \<and> same_config p p1"
    by (rule mgr_inv_computed[OF inv empty tnc touch]) (simp_all add: set_blocks_def)
  show ?thesis
  proof (cases "ne' > 0")
    case False
    then show ?thesis using rest inv1 by simp
  next
    case True
    have "?sk * ?bsz \<le> ?t" using skipped_le[OF mgr_inv_sub_ok[OF inv] t0] pos
      by (metis le_div_iff_mult_le_pos order_refl order_trans)
    then have "?sk \<le> cdiv ?t ?bsz" using div_le_cdiv[OF pos, of ?t] le_div_iff_mult_le_pos[OF pos, of ?sk ?t] by linarith
    moreover have "0 \<le> cdiv ?t ?bsz" using pos t0 by (simp add: cdiv_nonneg)
    ultimately have nn: "0 \<le> cdiv ?t ?bsz - int (length ?req)"
      using len by (auto simp: nc_def py_from_nonneg)
    obtain al where g: "get_new_blocks (cdiv ?t ?bsz - int (length ?req)) p1 = Inr (al, p')"
      and m': "m' = note_new_ids p' al (set_blocks rid (?req @ al) ?m1)"
      using rest True by (auto simp: result_simps)
    have tr: "table_ok p1 ?req" using inv1 mgr_inv_table[of oth ?m1 p1 rid] by (simp add: blocks_of_def set_blocks_def)
    have bl: "blocks_of ?m1 rid = ?req" by (simp add: blocks_of_def set_blocks_def)
    have so: "sub_ok m'" unfolding m'
      by (rule sub_ok_grow[OF mgr_inv_sub_ok[of oth ?m1 p1]]) (use inv1 in \<open>auto simp: blocks_of_def set_blocks_def\<close>)
    have "mgr_inv oth m' p' \<and> same_config p1 p'"
      using mgr_inv_alloc[of oth ?m1 p1 _ al p' ?req rid m', OF _ nn g tr _ _ _ _ so] inv1 bl
      by (simp add: m' set_blocks_def)
    then show ?thesis using inv1 same_config_trans by blast
  qed
qed


lemma table_ok_count: "table_ok p bs \<longleftrightarrow> set bs \<subseteq> insert (Blk 0) (real_blocks p) \<and> (\<forall>b. b \<noteq> Blk 0 \<longrightarrow> count_list bs b \<le> 1)"
proof -
  have "count_list (filter (\<lambda>b. b \<noteq> Blk 0) bs) b = (if b = Blk 0 then 0 else count_list bs b)" for b
    by (induction bs) auto
  moreover have "distinct xs \<longleftrightarrow> (\<forall>b. count_list xs b \<le> 1)" for xs :: "bref list"
  proof (induction xs)
    case (Cons x xs)
    have "(\<forall>b. count_list (x # xs) b \<le> 1) \<longleftrightarrow> count_list xs x = 0 \<and> (\<forall>b. count_list xs b \<le> 1)"
    proof
      assume a: "\<forall>b. count_list (x # xs) b \<le> 1"
      have "count_list xs b \<le> count_list (x # xs) b" for b by simp
      then have "\<forall>b. count_list xs b \<le> 1" using a order_trans by blast
      then show "count_list xs x = 0 \<and> (\<forall>b. count_list xs b \<le> 1)" using a[rule_format, of x] by simp
    next
      assume a: "count_list xs x = 0 \<and> (\<forall>b. count_list xs b \<le> 1)"
      show "\<forall>b. count_list (x # xs) b \<le> 1"
      proof
        fix b
        show "count_list (x # xs) b \<le> 1" using a by (cases "x = b") auto
      qed
    qed
    then show ?case using Cons by (simp add: count_list_0_iff)
  qed simp
  ultimately show ?thesis by (auto simp: table_ok_def)
qed

lemma count_list_move:
  assumes "i < length xs" "c \<noteq> v"
  shows "count_list ((xs @ [xs ! i])[i := v]) c = count_list xs c"
proof -
  have "mset ((xs @ [xs ! i])[i := v]) = add_mset v (mset (xs @ [xs ! i]) - {#xs ! i#})"
    using assms(1) mset_update[of i "xs @ [xs ! i]" v] by (simp add: nth_append)
  then have "mset ((xs @ [xs ! i])[i := v]) = add_mset v (mset xs)" by simp
  then show ?thesis using assms(2) by (metis count_add_mset count_mset)
qed

lemma reuse_speculative_spec:
  assumes "\<forall>i \<in> set is. 0 \<le> i \<and> i < int (length req)"
  shows "\<exists>req'. reuse_speculative v sk is req = Inr req' \<and> (\<forall>b. b \<noteq> v \<longrightarrow> count_list req' b = count_list req b)
    \<and> length req' = length req + length (takeWhile (\<lambda>i. i < sk) is) \<and> set req' \<subseteq> insert v (set req)"
  using assms
proof (induction "is" arbitrary: req)
  case Nil
  then show ?case by auto
next
  case (Cons i "is")
  show ?case
  proof (cases "i < sk")
    case False
    then show ?thesis by auto
  next
    case True
    let ?r = "(req @ [req ! nat i])[nat i := v]"
    have i: "nat i < length req" "0 \<le> i" using Cons.prems by auto
    obtain req' where r: "reuse_speculative v sk is ?r = Inr req'" "\<forall>b. b \<noteq> v \<longrightarrow> count_list req' b = count_list ?r b"
      "length req' = length ?r + length (takeWhile (\<lambda>i. i < sk) is)" "set req' \<subseteq> insert v (set ?r)"
    proof -
      have "\<forall>j \<in> set is. 0 \<le> j \<and> j < int (length ?r)" using Cons.prems by auto
      then show ?thesis using Cons.IH[of ?r] that by blast
    qed
    have "reuse_speculative v sk (i # is) req = Inr req'" using True i r(1) by (simp add: py_index_def)
    moreover have "set ?r \<subseteq> insert v (set req)" using i set_update_subset_insert[of "req @ [req ! nat i]" "nat i" v] by auto
    ultimately show ?thesis using r count_list_move[OF i(1)] True by auto
  qed
qed

lemma length_takeWhile_py_range: "length (takeWhile (\<lambda>i. i < c) (py_range a b)) = nat (min b c - a)"
proof (induction "nat (b - a)" arbitrary: a)
  case 0
  then show ?case by (simp add: py_range_def)
next
  case (Suc n)
  then have n: "n = nat (b - (a + 1))" "nat (b - a) = Suc n" by simp_all
  have "map (\<lambda>k. a + int k) [Suc 0..<Suc n] = map (\<lambda>k. a + 1 + int k) [0..<n]"
    unfolding map_Suc_upt[symmetric] by simp
  then have "py_range a b = a # py_range (a + 1) b"
    unfolding py_range_def n(2) n(1)[symmetric] by (simp add: upt_conv_Cons del: upt_Suc)
  then show ?case using Suc.hyps(1)[OF n(1)] n by (auto simp: min_def)
qed


text \<open>The table that the aligned Mamba mode builds before it asks for new blocks.\<close>

lemma mamba_rearrange:
  fixes v :: bref
  assumes "0 \<le> spec" "allocated \<Longrightarrow> spec \<le> int (length req)" "int (length req) < sk + spec + 1"
  defines "req1 \<equiv> req @ replicate (nat (sk - int (length req))) v"
  shows "\<exists>req2. (if allocated then reuse_speculative v sk (py_range (int (length req) - spec) (int (length req))) req1 else Inr req1)
      = Inr req2 \<and> (\<forall>b. b \<noteq> v \<longrightarrow> count_list req2 b = count_list req b) \<and> set req2 \<subseteq> insert v (set req)
    \<and> length req \<le> length req2 \<and> 0 \<le> sk + spec + 1 - int (length req2)
    \<and> (allocated \<longrightarrow> int (length req2) = sk + spec)"
proof -
  have c1: "count_list req1 b = count_list req b" if "b \<noteq> v" for b
    using that by (simp add: req1_def count_list_0_iff)
  have s1: "set req1 \<subseteq> insert v (set req)" by (auto simp: req1_def)
  have l1: "int (length req1) = max (int (length req)) sk" by (simp add: req1_def)
  show ?thesis
  proof (cases allocated)
    case False
    then show ?thesis using c1 s1 l1 assms by auto
  next
    case True
    let ?is = "py_range (int (length req) - spec) (int (length req))"
    have rng: "\<forall>i \<in> set ?is. 0 \<le> i \<and> i < int (length req1)" using assms(2)[OF True] l1 by auto
    obtain req2 where r: "reuse_speculative v sk ?is req1 = Inr req2" "\<forall>b. b \<noteq> v \<longrightarrow> count_list req2 b = count_list req1 b"
      "length req2 = length req1 + length (takeWhile (\<lambda>i. i < sk) ?is)" "set req2 \<subseteq> insert v (set req1)"
      using reuse_speculative_spec[OF rng] by blast
    have "int (length req2) = sk + spec"
      using r(3) l1 assms(1,3) unfolding length_takeWhile_py_range by linarith
    then show ?thesis using r c1 s1 True assms(3) by auto
  qed
qed

lemma mamba_align_allocate_inv:
  assumes inv: "mgr_inv oth m p" and sm: "sub m = MambaManager ms" "mamba_cache_mode ms = ''align''" and n: "0 \<le> n"
    and res: "mamba_align_allocate_new_blocks ms rid n (m, p) = Inr (new, m', p')"
  shows "mgr_inv oth m' p' \<and> same_config p p'"
proof -
  let ?m = "touch_req rid m" and ?req = "blocks_of m rid" and ?spec = "num_speculative_blocks ms"
  let ?prev = "int (length ?req)" and ?sk = "cdiv n (mgr_block_size m) - 1"
  let ?alloc = "rid \<in> allocated_block_reqs ms"
  have null: "mgr_null_block m = Blk 0" and pos: "0 < mgr_block_size m" and so: "sub_ok m"
    using inv by (auto simp: mgr_inv_def mgr_ok_def)
  note inv' = mgr_inv_touch_req[OF inv, of rid]
  have spec: "0 \<le> ?spec" "\<And>r. r \<in> allocated_block_reqs ms \<Longrightarrow> ?spec \<le> int (length (blocks_of m r))"
    using so sm by (auto simp: sub_ok_def)
  show ?thesis
  proof (cases "?sk + ?spec + 1 \<le> ?prev")
    case True
    then show ?thesis using res inv' by (simp add: mamba_align_allocate_new_blocks_def Let_def)
  next
    case False
    define ms1 where "ms1 = (if ?alloc then ms\<lparr>last_state_block_idx := dict_set rid (?prev - 1 - ?spec) (last_state_block_idx ms)\<rparr>
        else if ?prev > 0 then ms\<lparr>last_state_block_idx := dict_set rid (?prev - 1) (last_state_block_idx ms)\<rparr> else ms)"
    let ?req1 = "?req @ replicate (nat (?sk - ?prev)) (Blk 0)"
    let ?reuse = "if ?alloc then reuse_speculative (Blk 0) ?sk (py_range (?prev - ?spec) ?prev) ?req1 else Inr ?req1"
    let ?need = "\<lambda>req2. cdiv n (mgr_block_size m) + ?spec - int (length req2)"
    let ?m2 = "\<lambda>req3. (set_blocks rid req3 ?m)\<lparr>sub := MambaManager (ms1\<lparr>allocated_block_reqs := insert rid (allocated_block_reqs ms1)\<rparr>)\<rparr>"
    have "rbind ?reuse (\<lambda>req2. rbind (rassert (?need req2 \<le> (if ?alloc then 1 else ?spec + 1))) (\<lambda>_.
        rbind (get_new_blocks (?need req2) p) (\<lambda>(new, p1). Inr (py_from (req2 @ new) ?prev, ?m2 (req2 @ new), p1))))
      = mamba_align_allocate_new_blocks ms rid n (m, p)"
    proof -
      have cond: "\<not> cdiv n (mgr_block_size m) + ?spec \<le> ?prev" using False by simp
      have e1: "cdiv n (mgr_block_size m) + ?spec - ?spec - 1 = ?sk" by simp
      have e2: "(if ?prev < ?sk then ?req @ replicate (nat (?sk - ?prev)) (Blk 0) else ?req) = ?req1" by simp
      show ?thesis
        unfolding mamba_align_allocate_new_blocks_def Let_def prod.case touch_req_simps null if_not_P[OF cond] e1 e2 ms1_def
        by (rule refl)
    qed
    moreover obtain req2 where r2: "?reuse = Inr req2" "\<forall>b. b \<noteq> Blk 0 \<longrightarrow> count_list req2 b = count_list ?req b"
        "set req2 \<subseteq> insert (Blk 0) (set ?req)" "length ?req \<le> length req2" "0 \<le> ?need req2"
      using mamba_rearrange[of ?spec ?alloc ?req ?sk "Blk 0"] spec False by auto
    ultimately obtain new1 where g: "get_new_blocks (?need req2) p = Inr (new1, p')" and m': "m' = ?m2 (req2 @ new1)"
      using res unfolding r2(1) rbind.simps by (auto simp only: rbind_eq_Inr_iff split_paired_Ex prod.case sum.inject prod.inject)
    have tab: "table_ok p req2"
      using r2(2,3) mgr_inv_table[OF inv, of rid] by (auto simp: table_ok_count)
    have ms1: "num_speculative_blocks ms1 = ?spec" "mamba_cache_mode ms1 = ''align''" "allocated_block_reqs ms1 = allocated_block_reqs ms"
      using sm by (auto simp: ms1_def)
    obtain xs where rep: "pool_rep p xs" using mgr_inv_rep[OF inv] by blast
    have "int (length new1) = ?need req2"
    proof -
      have "?need req2 \<le> int (length xs)"
        using g get_num_free_blocks_eq[OF rep] by (auto simp: get_new_blocks_def split: if_splits)
      from get_new_blocks_spec[OF rep r2(5) this] g this r2(5) show ?thesis by auto
    qed
    then have l3: "?spec \<le> int (length (req2 @ new1))" using n pos by (simp add: cdiv_nonneg)
    have "sub_ok m'"
      unfolding m' sub_ok_def using spec sm l3 by (auto simp: ms1 blocks_of_def set_blocks_def touch_req_def)
    then show ?thesis
      using mgr_inv_alloc[OF inv' r2(5) g tab, where rid = rid and m' = m'] r2(2) unfolding m' by (simp add: set_blocks_def)
  qed
qed

lemma allocate_new_blocks_inv:
  assumes "mgr_inv oth m p" "0 \<le> main" and "allocate_new_blocks rid n main (m, p) = Inr (new, m', p')"
  shows "mgr_inv oth m' p' \<and> same_config p p'"
  using assms base_allocate_new_blocks_inv[OF assms(1)] mamba_align_allocate_inv[OF assms(1)]
  unfolding allocate_new_blocks_def by (auto split: manager_sub.splits if_splits)

lemma allocate_new_computed_inv:
  assumes "mgr_inv oth m p" "computed_ok p m bs (nl + ne)"
    and "allocate_new_computed_blocks rid bs nl ne (m, p) = Inr (m', p')"
  shows "mgr_inv oth m' p' \<and> same_config p p'"
  using assms base_allocate_new_computed_inv[OF assms(1,2)]
  unfolding allocate_new_computed_blocks_def by (auto simp: result_simps split: manager_sub.splits)

subsection \<open>Freeing keeps the invariant and never fails\<close>

text \<open>Two lists of held blocks are freed one after the other, as the managers do.\<close>

lemma free_two_spec:
  assumes rep: "pool_rep p xs" and held: "\<And>b. b \<in> set (cs @ us) \<Longrightarrow> b = Blk 0 \<or> b \<in> real_blocks p \<and> 1 \<le> refc p b"
    and d: "distinct (filter (\<lambda>b. b \<noteq> Blk 0) (cs @ us))"
  shows "\<exists>p1 p2 ys. free_blocks cs pr1 p = Inr p1 \<and> free_blocks us pr2 p1 = Inr p2 \<and> pool_rep p2 ys \<and> same_config p p2
    \<and> refc p2 = (\<lambda>b. refc p b - int (count_list cs b) - int (count_list us b)) \<and> bhash p2 = bhash p"
proof -
  have h1: "b = Blk 0 \<or> b \<in> real_blocks p \<and> 1 \<le> refc p b" if "b \<in> set cs" for b using that held by auto
  have d1: "distinct (filter (\<lambda>b. b \<noteq> Blk 0) cs)" "distinct (filter (\<lambda>b. b \<noteq> Blk 0) us)" using d by auto
  obtain p1 zs where p1: "free_blocks cs pr1 p = Inr p1" "pool_rep p1 zs" "same_config p p1"
    "refc p1 = (\<lambda>b. refc p b - int (count_list cs b))" "bhash p1 = bhash p"
    using free_blocks_spec[OF rep h1 d1(1)] by blast
  have h2: "b = Blk 0 \<or> b \<in> real_blocks p1 \<and> 1 \<le> refc p1 b" if "b \<in> set us" for b
  proof (cases "b = Blk 0")
    case False
    have "b \<notin> set cs" using that d False by auto
    then show ?thesis using that held[of b] p1(4) same_config_real[OF p1(3)] by (simp add: count_list_0_iff)
  qed simp
  obtain p2 ys where "free_blocks us pr2 p1 = Inr p2" "pool_rep p2 ys" "same_config p1 p2"
    "refc p2 = (\<lambda>b. refc p1 b - int (count_list us b))" "bhash p2 = bhash p1"
    using free_blocks_spec[OF p1(2) h2 d1(2)] by blast
  then show ?thesis using p1 same_config_trans by (intro exI[of _ p1] exI[of _ p2] exI[of _ ys]) auto
qed

lemma mgr_inv_delete:
  assumes inv: "mgr_inv oth m p" and rep: "pool_rep p' xs" and cfg: "same_config p p'"
    and cnt: "\<And>b. b \<in> real_blocks p \<Longrightarrow> refc p' b = refc p b - int (count_list (blocks_of m rid) b)"
    and m': "req_to_blocks m' = dict_del rid (req_to_blocks m)" "mgr_null_block m' = mgr_null_block m"
      "mgr_block_size m' = mgr_block_size m" "sub_ok m'"
  shows "mgr_inv oth m' p'"
proof -
  have ok: "dict_ok (req_to_blocks m)" using inv by (simp add: mgr_inv_def mgr_ok_def)
  have "set (dict_del rid (req_to_blocks m)) \<subseteq> set (req_to_blocks m)" by (auto simp: AList.delete_eq)
  then have "mgr_ok m' p'" using inv m' ok cfg by (auto simp: mgr_inv_def mgr_ok_def table_ok_cong)
  moreover have "refc p' b = oth b + int (held (req_to_blocks m') b)" if "b \<in> real_blocks p" for b
    using inv cnt[OF that] that held_del[OF ok, of rid b] unfolding m'(1)
    by (simp add: mgr_inv_def blocks_of_def)
  ultimately show ?thesis using inv rep same_config_real[OF cfg] by (auto simp: mgr_inv_def pool_inv_def)
qed

lemma filter_partition_counts:
  "count_list (filter P (rev xs)) b + count_list (filter (\<lambda>x. \<not> P x) (rev xs)) b = count_list xs b"
  by (induction xs) auto

lemma table_distinct_partition:
  "distinct (filter Q xs) \<Longrightarrow> distinct (filter Q (filter P (rev xs) @ filter (\<lambda>x. \<not> P x) (rev xs)))"
  by (induction xs) (auto split: if_splits)

text \<open>Both ways to free a table (in reverse order; split into cached and uncached blocks) at once.\<close>

lemma free_table:
  assumes inv: "mgr_inv oth m p"
  shows "\<exists>p1 p2 ys. free_blocks (filter P (rev (blocks_of m rid))) pr1 p = Inr p1
    \<and> free_blocks (filter (\<lambda>b. \<not> P b) (rev (blocks_of m rid))) pr2 p1 = Inr p2 \<and> pool_rep p2 ys \<and> same_config p p2
    \<and> refc p2 = (\<lambda>b. refc p b - int (count_list (blocks_of m rid) b)) \<and> bhash p2 = bhash p"
proof -
  let ?bs = "blocks_of m rid"
  let ?cs = "filter P (rev ?bs)" and ?us = "filter (\<lambda>b. \<not> P b) (rev ?bs)"
  obtain xs where rep: "pool_rep p xs" using mgr_inv_rep[OF inv] by blast
  have h: "\<And>b. b \<in> set (?cs @ ?us) \<Longrightarrow> b = Blk 0 \<or> b \<in> real_blocks p \<and> 1 \<le> refc p b"
    using mgr_inv_held[OF inv, of _ rid] by auto
  have d: "distinct (filter (\<lambda>b. b \<noteq> Blk 0) (?cs @ ?us))"
    using mgr_inv_table[OF inv, of rid] unfolding table_ok_def by (intro table_distinct_partition) simp
  have e: "(\<lambda>b. refc p b - int (count_list ?cs b) - int (count_list ?us b)) = (\<lambda>b. refc p b - int (count_list ?bs b))"
  proof
    fix b
    show "refc p b - int (count_list ?cs b) - int (count_list ?us b) = refc p b - int (count_list ?bs b)"
      using filter_partition_counts[of P ?bs b] by linarith
  qed
  show ?thesis using free_two_spec[OF rep h d, of pr1 pr2] unfolding e .
qed

lemma free_blocks_Nil: "pool_rep p xs \<Longrightarrow> \<exists>p'. free_blocks [] pr p = Inr p' \<and> pool_rep p' xs \<and> same_config p p' \<and> refc p' = refc p \<and> bhash p' = bhash p"
  using free_blocks_spec[of p xs "[]" pr] by (cases pr) auto


lemma pop_request_simps [simp]:
  "req_to_blocks (pop_request rid m) = dict_del rid (req_to_blocks m)" "mgr_null_block (pop_request rid m) = mgr_null_block m"
  "mgr_block_size (pop_request rid m) = mgr_block_size m" "sub (pop_request rid m) = sub m"
  "blocks_of (pop_request rid m) r = (if r = rid then [] else blocks_of m r)"
  by (simp_all add: pop_request_def blocks_of_def)

text \<open>A request can only be forgotten if the aligned Mamba mode does not count on its blocks.\<close>

lemma sub_ok_pop:
  assumes "sub_ok m" and "\<And>ms. sub m = MambaManager ms \<Longrightarrow> rid \<notin> allocated_block_reqs ms"
  shows "sub_ok (pop_request rid m)"
  using assms unfolding sub_ok_def by (auto split: manager_sub.splits)

lemma base_free_ok:
  assumes inv: "mgr_inv oth m p" and ma: "\<And>ms. sub m = MambaManager ms \<Longrightarrow> rid \<notin> allocated_block_reqs ms"
  shows "\<exists>p'. base_free rid (m, p) = Inr (pop_request rid m, p') \<and> mgr_inv oth (pop_request rid m) p' \<and> same_config p p'
    \<and> bhash p' = bhash p"
proof -
  have held: "\<And>b. b \<in> set (rev (blocks_of m rid)) \<Longrightarrow> b = Blk 0 \<or> b \<in> real_blocks p \<and> 1 \<le> refc p b"
    using mgr_inv_held[OF inv] by auto
  obtain xs where rep: "pool_rep p xs" using mgr_inv_rep[OF inv] by blast
  have "distinct (filter (\<lambda>b. b \<noteq> Blk 0) (rev (blocks_of m rid)))"
    using mgr_inv_table[OF inv, of rid] by (simp add: table_ok_def rev_filter[symmetric])
  from free_blocks_spec[OF rep held this, of False] obtain p1 zs where
    f: "free_blocks (rev (blocks_of m rid)) False p = Inr p1" and p1: "pool_rep p1 zs" "same_config p p1" "refc p1 = (\<lambda>b. refc p b - int (count_list (rev (blocks_of m rid)) b))" "bhash p1 = bhash p"
    by auto
  have "mgr_inv oth (pop_request rid m) p1"
    by (rule mgr_inv_delete[OF inv p1(1,2), of rid]) (use p1(3) sub_ok_pop[OF mgr_inv_sub_ok[OF inv] ma] in simp_all)
  then show ?thesis using f p1 by (simp add: base_free_def)
qed

lemma sliding_free_ok:
  assumes inv: "mgr_inv oth m p" and sw: "sub m = SlidingWindowManager w"
  shows "\<exists>p'. sliding_free rid (m, p) = Inr (pop_request rid m, p') \<and> mgr_inv oth (pop_request rid m) p' \<and> same_config p p'
    \<and> bhash p' = bhash p"
proof -
  obtain p1 p2 ys where f: "free_blocks (filter (is_cached p) (rev (blocks_of m rid))) False p = Inr p1"
    "free_blocks (filter (\<lambda>b. \<not> is_cached p b) (rev (blocks_of m rid))) True p1 = Inr p2"
    "pool_rep p2 ys" "same_config p p2" "refc p2 = (\<lambda>b. refc p b - int (count_list (blocks_of m rid) b))" "bhash p2 = bhash p"
    using free_table[OF inv, of "is_cached p" rid False True] by blast
  have so: "sub_ok (pop_request rid m)" by (rule sub_ok_pop[OF mgr_inv_sub_ok[OF inv]]) (simp add: sw)
  obtain xs where rep: "pool_rep p xs" using mgr_inv_rep[OF inv] by blast
  show ?thesis
  proof (cases "blocks_of m rid = []")
    case True
    have "mgr_inv oth (pop_request rid m) p"
      by (rule mgr_inv_delete[OF inv rep same_config_refl, of rid]) (use True so in simp_all)
    then show ?thesis using True by (simp add: sliding_free_def)
  next
    case False
    have "mgr_inv oth (pop_request rid m) p2"
      by (rule mgr_inv_delete[OF inv f(3,4), of rid]) (use f(5) so in simp_all)
    then show ?thesis using False f by (simp add: sliding_free_def Let_def)
  qed
qed

lemma mamba_forget_simps [simp]:
  "req_to_blocks (mamba_forget rid m ms) = req_to_blocks m" "mgr_null_block (mamba_forget rid m ms) = mgr_null_block m"
  "mgr_block_size (mamba_forget rid m ms) = mgr_block_size m" "blocks_of (mamba_forget rid m ms) r = blocks_of m r"
  by (simp_all add: mamba_forget_def blocks_of_def)

lemma mgr_free_ok:
  assumes inv: "mgr_inv oth m p"
  shows "\<exists>m' p'. mgr_free rid (m, p) = Inr (m', p') \<and> mgr_inv oth m' p' \<and> same_config p p'
    \<and> req_to_blocks m' = dict_del rid (req_to_blocks m) \<and> bhash p' = bhash p"
proof (cases "sub m")
  case (SlidingWindowManager w)
  then show ?thesis using sliding_free_ok[OF inv, of w rid] by (auto simp: mgr_free_def)
next
  case (MambaManager ms)
  let ?m = "mamba_forget rid m ms"
  obtain xs where rep: "pool_rep p xs" using mgr_inv_rep[OF inv] by blast
  have so: "sub_ok ?m" using mgr_inv_sub_ok[OF inv] MambaManager by (auto simp: sub_ok_def mamba_forget_def blocks_of_def)
  have "mgr_inv oth ?m p" by (rule mgr_inv_frame[OF inv rep same_config_refl]) (use so in simp_all)
  moreover have "rid \<notin> allocated_block_reqs ms'" if "sub ?m = MambaManager ms'" for ms'
    using that mgr_inv_sub_ok[OF inv] MambaManager by (auto simp: mamba_forget_def sub_ok_def split: if_splits)
  ultimately obtain p' where "base_free rid (?m, p) = Inr (pop_request rid ?m, p')" "mgr_inv oth (pop_request rid ?m) p'"
    "same_config p p'" "bhash p' = bhash p" using base_free_ok by blast
  then show ?thesis using MambaManager by (simp add: mgr_free_def)
qed (use base_free_ok[OF inv, of rid] in \<open>auto simp: mgr_free_def\<close>)

lemma count_list_clear:
  assumes "i < length xs" "c \<noteq> v"
  shows "count_list (xs[i := v]) c + (if xs ! i = c then 1 else 0) = count_list xs c"
proof -
  have "mset (xs[i := v]) = add_mset v (mset xs - {#xs ! i#})" using assms(1) by (rule mset_update)
  then have "count (mset (xs[i := v])) c = count (mset xs) c - (if xs ! i = c then 1 else 0)" using assms(2) by simp
  moreover have "xs ! i = c \<Longrightarrow> count (mset xs) c > 0" using assms(1) by auto
  ultimately show ?thesis by (auto simp: count_mset)
qed

text \<open>The loop over the skipped blocks moves non-null blocks from the table to the two free lists.\<close>

lemma skip_loop_spec:
  assumes "i \<le> length bs" "skip_loop p v i bs cs us = (bs', cs', us')"
  shows "length bs' = length bs \<and> (\<forall>b. b \<noteq> v \<longrightarrow>
      count_list bs' b + count_list cs' b + count_list us' b = count_list bs b + count_list cs b + count_list us b)
    \<and> set bs' \<subseteq> insert v (set bs) \<and> set cs' \<subseteq> set cs \<union> (set bs - {v}) \<and> set us' \<subseteq> set us \<union> (set bs - {v})
    \<and> drop i bs' = drop i bs"
  using assms
proof (induction i arbitrary: bs cs us)
  case (Suc i)
  show ?case
  proof (cases "bs ! i = v")
    case True
    then show ?thesis using Suc.prems by auto
  next
    case False
    let ?bs = "bs[i := v]"
    have i: "i < length bs" using Suc.prems(1) by simp
    note cnt = count_list_clear[OF i]
    have mem: "bs ! i \<in> set bs - {v}" using i False by simp
    have sb: "set ?bs \<subseteq> insert v (set bs)" by (rule set_update_subset_insert)
    obtain cs1 us1 where step: "skip_loop p v i ?bs cs1 us1 = (bs', cs', us')"
      and c1: "\<And>b. count_list cs1 b + count_list us1 b = count_list cs b + count_list us b + (if bs ! i = b then 1 else 0)"
      and s1: "set cs1 \<subseteq> set cs \<union> (set bs - {v})" "set us1 \<subseteq> set us \<union> (set bs - {v})"
      using Suc.prems(2) False mem by (cases "is_cached p (bs ! i)") auto
    note ih = Suc.IH[OF _ step]
    have "drop (Suc i) bs' = drop 1 (drop i bs')" by simp
    also have "\<dots> = drop (Suc i) bs" using ih i by (simp add: drop_update_cancel)
    finally have dr: "drop (Suc i) bs' = drop (Suc i) bs" .
    have "count_list bs' b + count_list cs' b + count_list us' b = count_list bs b + count_list cs b + count_list us b"
      if "b \<noteq> v" for b using ih cnt[OF that] c1[of b] that i by fastforce
    then show ?thesis using ih s1 sb dr i by auto
  qed
qed auto


lemma base_remove_skipped_ok:
  assumes inv: "mgr_inv oth m p"
  shows "\<exists>m' p'. base_remove_skipped_blocks rid n (m, p) = Inr (m', p') \<and> mgr_inv oth m' p' \<and> same_config p p'
    \<and> bhash p' = bhash p \<and> sub m' = sub m \<and> mgr_block_size m' = mgr_block_size m"
proof (cases "get_num_skipped_tokens m n \<le> 0")
  case True
  then show ?thesis using inv by (simp add: base_remove_skipped_blocks_def)
next
  case False
  let ?m = "touch_req rid m" and ?bs = "blocks_of m rid"
  let ?sk = "nat (min (get_num_skipped_tokens m n div mgr_block_size m) (int (length ?bs)))"
  have null: "mgr_null_block m = Blk 0" using mgr_inv_null[OF inv] by simp
  obtain bs' cs us where loop: "skip_loop p (Blk 0) ?sk ?bs [] [] = (bs', cs, us)" by (metis prod_cases3)
  have spec: "length bs' = length ?bs" "\<And>b. b \<noteq> Blk 0 \<Longrightarrow> count_list bs' b + count_list cs b + count_list us b = count_list ?bs b"
    "set bs' \<subseteq> insert (Blk 0) (set ?bs)" "set cs \<subseteq> set ?bs - {Blk 0}" "set us \<subseteq> set ?bs - {Blk 0}"
    using skip_loop_spec[OF _ loop] by auto
  note tab = mgr_inv_table[OF inv, of rid, unfolded table_ok_count]
  have le: "count_list bs' b \<le> 1" "count_list (cs @ us) b \<le> 1" if "b \<noteq> Blk 0" for b
  proof -
    have "count_list ?bs b \<le> 1" using tab that by blast
    then show "count_list bs' b \<le> 1" "count_list (cs @ us) b \<le> 1" using spec(2)[OF that] by (simp_all add: add_leD1)
  qed
  have tab': "table_ok p bs'" "table_ok p (cs @ us)"
    unfolding table_ok_count using tab spec(3-5) le by (auto simp: subset_iff)
  have held: "b = Blk 0 \<or> b \<in> real_blocks p \<and> 1 \<le> refc p b" if "b \<in> set (cs @ us)" for b
    using that spec(4,5) mgr_inv_held[OF inv, of b rid] by auto
  obtain xs where rep: "pool_rep p xs" using mgr_inv_rep[OF inv] by blast
  have d: "distinct (filter (\<lambda>b. b \<noteq> Blk 0) (cs @ us))" using tab'(2) unfolding table_ok_def by blast
  obtain p1 p2 ys where f: "free_blocks cs False p = Inr p1" "free_blocks us True p1 = Inr p2" "pool_rep p2 ys" "same_config p p2"
    "refc p2 = (\<lambda>b. refc p b - int (count_list cs b) - int (count_list us b))" "bhash p2 = bhash p"
    using free_two_spec[OF rep held d, of False True] by blast
  have "mgr_inv oth (set_blocks rid bs' ?m) p2"
  proof (rule mgr_inv_update[OF mgr_inv_touch_req[OF inv, of rid] f(3,4) tab'(1), of rid])
    fix b assume b: "b \<in> real_blocks p"
    show "refc p2 b = refc p b + int (count_list bs' b) - int (count_list (blocks_of ?m rid) b)"
      using spec(2)[of b] real_blocks_not_special[OF b] f(5) by simp
  next
    show "sub_ok (set_blocks rid bs' ?m)" by (rule sub_ok_grow[OF mgr_inv_sub_ok[OF inv]]) (auto simp: spec(1))
  qed (simp_all add: set_blocks_def)
  moreover have "base_remove_skipped_blocks rid n (m, p) = Inr (set_blocks rid bs' ?m, p2)"
    using False loop f by (simp add: base_remove_skipped_blocks_def Let_def null)
  ultimately show ?thesis using f by auto
qed

lemma mamba_free_state_block_inv:
  assumes inv: "mgr_inv oth m p" and res: "mamba_free_state_block rid idx (m, p) = Inr (m', p')"
  shows "mgr_inv oth m' p' \<and> same_config p p'"
proof -
  let ?bs = "blocks_of m rid" and ?m = "touch_req rid m"
  define i where "i = nat (if idx < 0 then idx + int (length ?bs) else idx)"
  have null: "mgr_null_block m = Blk 0" using mgr_inv_null[OF inv] by simp
  obtain b where b: "py_index ?bs idx = Inr b"
    and rest: "(if b \<noteq> Blk 0 then rbind (free_blocks [b] False p) (\<lambda>p1. Inr (set_blocks rid (?bs[i := Blk 0]) ?m, p1))
        else Inr (?m, p)) = Inr (m', p')"
    using res unfolding mamba_free_state_block_def prod.case Let_def touch_req_simps null i_def[symmetric] rbind_eq_Inr_iff
    by blast
  have i: "i < length ?bs" "?bs ! i = b"
    using b by (auto simp: py_index_def i_def nat_add_distrib split: if_splits intro!: arg_cong[where f = "(!) ?bs"])
  show ?thesis
  proof (cases "b = Blk 0")
    case True
    then show ?thesis using rest mgr_inv_touch_req[OF inv, of rid] by auto
  next
    case False
    then have fr: "free_blocks [b] False p = Inr p'" and m': "m' = set_blocks rid (?bs[i := Blk 0]) ?m"
      using rest by (auto simp: rbind_eq_Inr_iff)
    have mem: "b \<in> set ?bs" using i by auto
    obtain xs where rep: "pool_rep p xs" using mgr_inv_rep[OF inv] by blast
    have h: "\<And>c. c \<in> set [b] \<Longrightarrow> c = Blk 0 \<or> c \<in> real_blocks p \<and> 1 \<le> refc p c"
      using mgr_inv_held[OF inv mem False] by auto
    have d: "distinct (filter (\<lambda>c. c \<noteq> Blk 0) [b])" by simp
    obtain p1 where p1: "free_blocks [b] False p = Inr p1" "\<exists>ys. pool_rep p1 ys" "same_config p p1"
      "refc p1 = (\<lambda>c. refc p c - int (count_list [b] c))"
      using free_blocks_spec[OF rep h d, of False] by blast
    have f: "\<exists>ys. pool_rep p' ys" "same_config p p'" "refc p' = (\<lambda>c. refc p c - int (count_list [b] c))"
      using p1 fr by (auto simp del: count_list.simps)
    then obtain ys where ys: "pool_rep p' ys" by blast
    have cnt: "count_list (?bs[i := Blk 0]) c + count_list [b] c = count_list ?bs c" if "c \<noteq> Blk 0" for c
      using count_list_clear[OF i(1) that] i(2) by (cases "b = c") simp_all
    have tab: "table_ok p (?bs[i := Blk 0])"
      unfolding table_ok_count
    proof (intro conjI allI impI)
      show "set (?bs[i := Blk 0]) \<subseteq> insert (Blk 0) (real_blocks p)"
        using mgr_inv_table[OF inv, of rid] set_update_subset_insert[of ?bs i "Blk 0"] by (auto simp: table_ok_def)
      show "count_list (?bs[i := Blk 0]) c \<le> 1" if "c \<noteq> Blk 0" for c
      proof -
        have "count_list ?bs c \<le> 1" using mgr_inv_table[OF inv, of rid] that by (simp add: table_ok_count)
        then show ?thesis using cnt[OF that] by linarith
      qed
    qed
    have "mgr_inv oth m' p'"
    proof (rule mgr_inv_update[OF mgr_inv_touch_req[OF inv, of rid] ys f(2) tab, of rid])
      fix c assume c: "c \<in> real_blocks p"
      show "refc p' c = refc p c + int (count_list (?bs[i := Blk 0]) c) - int (count_list (blocks_of ?m rid) c)"
        using cnt[of c] real_blocks_not_special[OF c] f(3) by simp
    next
      show "sub_ok m'" unfolding m' by (rule sub_ok_grow[OF mgr_inv_sub_ok[OF inv]]) auto
    qed (simp_all add: m' set_blocks_def)
    then show ?thesis using f(2) by blast
  qed
qed

lemma remove_skipped_inv:
  assumes inv: "mgr_inv oth m p" and res: "remove_skipped_blocks rid n (m, p) = Inr (m', p')"
  shows "mgr_inv oth m' p' \<and> same_config p p'"
proof -
  have base: "mgr_inv oth m' p' \<and> same_config p p'" if "base_remove_skipped_blocks rid k (m, p) = Inr (m', p')" for k m' p'
    using base_remove_skipped_ok[OF inv, of rid k] that by auto
  show ?thesis
  proof (cases "sub m")
    case (MambaManager ms)
    obtain m1 p1 where r: "base_remove_skipped_blocks rid (max 0 (n - num_speculative_blocks ms)) (m, p) = Inr (m1, p1)"
      using base_remove_skipped_ok[OF inv] by blast
    note b = base[OF r]
    have "(m', p') = (m1, p1) \<or> (\<exists>idx. mamba_free_state_block rid idx (m1, p1) = Inr (m', p'))"
      using res r MambaManager
      by (auto simp: remove_skipped_blocks_def mamba_remove_skipped_blocks_def Let_def split: if_splits option.splits)
    then show ?thesis using b mamba_free_state_block_inv same_config_trans by blast
  qed (use res base in \<open>auto simp: remove_skipped_blocks_def\<close>)
qed


subsection \<open>Caching keeps the invariant\<close>

lemma base_cache_blocks_inv:
  assumes inv: "mgr_inv oth m p" and res: "base_cache_blocks r n ret (m, p) = Inr (r', m', p')"
  shows "mgr_inv oth m' p' \<and> same_config p p' \<and> refc p' = refc p \<and> same_but_cache r r' \<and> sub m' = sub m"
proof -
  let ?rid = "request_id r"
  let ?nc = "dict_get_default (num_cached_block m) ?rid 0" and ?nf = "n div mgr_block_size m"
  show ?thesis
  proof (cases "?nc \<ge> ?nf")
    case True
    then show ?thesis using res inv by (auto simp: base_cache_blocks_def Let_def)
  next
    case False
    let ?m = "touch_req ?rid m"
    obtain bmask where c: "cache_full_blocks r (blocks_of m ?rid) ?nc ?nf (mgr_block_size m) (kv_cache_group_id m) bmask p = Inr (r', p')"
      and m': "m' = ?m\<lparr>num_cached_block := dict_set ?rid ?nf (num_cached_block ?m)\<rparr>"
      using res False by (auto simp: base_cache_blocks_def Let_def result_simps)
    obtain xs where rep: "pool_rep p xs" using mgr_inv_rep[OF inv] by blast
    have "set (blocks_of m ?rid) \<subseteq> insert (Blk 0) (real_blocks p)"
      using mgr_inv_table[OF inv, of ?rid] by (simp add: table_ok_def)
    note s = cache_full_blocks_spec[OF rep this c]
    have "sub_ok m'" unfolding m' by (rule sub_ok_grow[OF mgr_inv_sub_ok[OF inv]]) (auto simp: blocks_of_def touch_req_def set_blocks_def)
    then have "mgr_inv oth m' p'"
      using mgr_inv_frame[OF mgr_inv_touch_req[OF inv, of ?rid], where p' = p' and m' = m'] s unfolding m' by auto
    then show ?thesis using s m' by auto
  qed
qed

lemma cache_blocks_inv:
  assumes inv: "mgr_inv oth m p" and res: "cache_blocks r n ret (m, p) = Inr (r', m', p')"
  shows "mgr_inv oth m' p' \<and> same_config p p' \<and> refc p' = refc p \<and> same_but_cache r r'"
proof (cases "sub m")
  case (MambaManager ms)
  obtain m1 where r: "base_cache_blocks r n ret (m, p) = Inr (r', m1, p')"
    and m': "m' = m1 \<or> (\<exists>hs. m' = m1\<lparr>sub := MambaManager (ms\<lparr>cached_blocks_this_step := hs\<rparr>)\<rparr>)"
    using res MambaManager by (auto simp: cache_blocks_def mamba_cache_blocks_def Let_def result_simps split: if_splits)
  note b = base_cache_blocks_inv[OF inv r]
  obtain xs where rep: "pool_rep p' xs" using b mgr_inv_rep by blast
  have "sub_ok m1" "sub m1 = MambaManager ms" using b MambaManager by (auto simp: mgr_inv_def mgr_ok_def)
  then have "sub_ok m'" using m' by (auto simp: sub_ok_def blocks_of_def)
  then have "mgr_inv oth m' p'"
    using mgr_inv_frame[of oth m1 p' p' xs m'] b rep m' by auto
  then show ?thesis using b by blast
qed (use res base_cache_blocks_inv[OF inv] in \<open>auto simp: cache_blocks_def\<close>)

lemma new_step_starts_inv:
  assumes "mgr_inv oth m p"
  shows "mgr_inv oth (new_step_starts m) p"
proof -
  obtain xs where "pool_rep p xs" using mgr_inv_rep[OF assms] by blast
  moreover have "sub_ok (new_step_starts m)"
    using mgr_inv_sub_ok[OF assms] by (auto simp: new_step_starts_def sub_ok_def blocks_of_def split: manager_sub.splits)
  ultimately show ?thesis
    using mgr_inv_frame[OF assms _ same_config_refl, where m' = "new_step_starts m"]
    by (auto simp: new_step_starts_def split: manager_sub.splits)
qed

lemma get_num_blocks_inv:
  assumes "mgr_inv oth m p" "get_num_blocks_to_allocate p m rid n bs t main cap = Inr (k, m')"
  shows "mgr_inv oth m' p"
  using assms mgr_inv_touch_req[OF assms(1), of rid] unfolding get_num_blocks_to_allocate_def
  by (auto simp: result_simps mamba_align_num_blocks_to_allocate_def Let_def split: manager_sub.splits if_splits)

end
