(* ===== verification/Coordinator.thy ===== *)
theory Coordinator
  imports Single_Type_Manager
begin

section \<open>The KV cache coordinator\<close>

text \<open>
  \<open>vllm/v1/core/kv_cache_coordinator.py\<close>: one single-type manager per KV cache group over one block
  pool. The three coordinator classes are the constructors of \<open>coordinator_class\<close>, with the
  attributes that the subclass adds. Loops over the managers thread the pool from one manager to
  the next (\<open>for_managers\<close>). \<open>VLLM_PREFIX_CACHE_RETENTION_INTERVAL\<close>, the settings of the pool and the
  spec registry are fields of \<open>coord_env\<close>.
\<close>

subsection \<open>State\<close>

record spec_group =
  sg_spec :: kv_cache_spec
  sg_group_ids :: "int list"
  sg_manager_cls :: manager_class
  sg_use_eagle :: bool

datatype coordinator_class =
    KVCacheCoordinatorNoPrefixCache
  | UnitaryKVCacheCoordinator kv_cache_spec int int int
  | HybridKVCacheCoordinator int "spec_group list"

record coordinator =
  co_class :: coordinator_class
  co_config :: kv_cache_config
  co_max_model_len :: int
  co_enable_caching :: bool
  co_scheduler_block_size :: int
  co_pool :: block_pool
  eagle_group_ids :: "int set"
  single_type_managers :: "manager list"
  retention_interval :: "int option"
  num_uncached_common_prefix_tokens :: "int option"

record coord_env =
  env_retention :: "int option"
  env_ints :: bool
  env_sha :: "bytes list \<Rightarrow> bytes"
  env_registry :: spec_registry

subsection \<open>Construction\<close>

definition validate_retention_interval :: "int option \<Rightarrow> int \<Rightarrow> kv_cache_config \<Rightarrow> unit result" where
  "validate_retention_interval retention sched_bs cfg =
     (case retention of
        None \<Rightarrow> Inr ()
      | Some r \<Rightarrow>
          if \<not> list_ex (\<lambda>g. isinstance (group_spec g) C_SlidingWindowSpec) (kv_cache_groups cfg) then Inl ValueError
          else if r < 0 then Inl ValueError
          else if sched_bs = 0 then Inl ZeroDivisionError
          else if r mod sched_bs \<noteq> 0 then Inl ValueError
          else Inr ())"

definition initial_eagle_groups :: "bool \<Rightarrow> kv_cache_config \<Rightarrow> int set" where
  "initial_eagle_groups use_eagle cfg =
     (let flagged = set (map fst (filter (is_eagle_group \<circ> snd)
                      (zip (py_range 0 (int (length (kv_cache_groups cfg)))) (kv_cache_groups cfg))))
      in if use_eagle \<and> flagged = {} then set (py_range 0 (int (length (kv_cache_groups cfg)))) else flagged)"

definition base_init ::
  "coord_env \<Rightarrow> kv_cache_config \<Rightarrow> int \<Rightarrow> int \<Rightarrow> bool \<Rightarrow> bool \<Rightarrow> bool \<Rightarrow> int \<Rightarrow> int \<Rightarrow> int \<Rightarrow> int \<Rightarrow>
   metrics_collector option \<Rightarrow> coordinator result" where
  "base_init env cfg max_len max_batched use_eagle caching kv_events dcp pcp sched_bs hash_bs mc =
     (if hash_bs = 0 then Inl ZeroDivisionError
      else rbind (rassert (sched_bs mod hash_bs = 0
                    \<and> list_all (\<lambda>g. sched_bs mod block_size (group_spec g) = 0) (kv_cache_groups cfg))) (\<lambda>_.
           rbind (block_pool_init (num_blocks cfg) caching hash_bs kv_events mc (env_ints env) (env_sha env)) (\<lambda>p.
           rbind (rmap (\<lambda>(i, g). get_manager_for_kv_cache_spec (env_registry env) (group_spec g) max_batched max_len p
                          caching i dcp pcp sched_bs)
                    (zip (py_range 0 (int (length (kv_cache_groups cfg)))) (kv_cache_groups cfg))) (\<lambda>ms.
           rbind (validate_retention_interval (env_retention env) sched_bs cfg) (\<lambda>_.
             Inr \<lparr>co_class = KVCacheCoordinatorNoPrefixCache, co_config = cfg, co_max_model_len = max_len,
                  co_enable_caching = caching, co_scheduler_block_size = sched_bs, co_pool = p,
                  eagle_group_ids = initial_eagle_groups use_eagle cfg, single_type_managers = ms,
                  retention_interval = env_retention env, num_uncached_common_prefix_tokens = None\<rparr>)))))"

definition set_eagle :: "bool \<Rightarrow> nat \<Rightarrow> manager list \<Rightarrow> manager list" where
  "set_eagle e i ms = ms[i := (ms ! i)\<lparr>mgr_use_eagle := e\<rparr>]"

definition unitary_init ::
  "coord_env \<Rightarrow> kv_cache_config \<Rightarrow> int \<Rightarrow> int \<Rightarrow> bool \<Rightarrow> bool \<Rightarrow> bool \<Rightarrow> int \<Rightarrow> int \<Rightarrow> int \<Rightarrow> int \<Rightarrow>
   metrics_collector option \<Rightarrow> coordinator result" where
  "unitary_init env cfg max_len max_batched use_eagle caching kv_events dcp pcp sched_bs hash_bs mc =
     rbind (base_init env cfg max_len max_batched use_eagle caching kv_events dcp pcp sched_bs hash_bs mc) (\<lambda>c.
     rbind (py_index (kv_cache_groups cfg) 0) (\<lambda>g.
       let bs = block_size (group_spec g) * (if dcp > 1 then dcp else 1) * (if pcp > 1 then pcp else 1) in
       rbind (rassert (\<not> caching \<or> hash_bs = bs)) (\<lambda>_.
       rbind (rassert (length (kv_cache_groups cfg) = 1)) (\<lambda>_.
         Inr (c\<lparr>co_class := UnitaryKVCacheCoordinator (group_spec g) bs dcp pcp,
                single_type_managers := set_eagle (0 \<in> eagle_group_ids c) 0 (single_type_managers c)\<rparr>)))))"

text \<open>
  \<open>verify_and_split_kv_cache_groups\<close>: groups with equal specs are looked up together, full attention
  comes first (the sort is stable), and the EAGLE flag of a joint group is passed to its managers.
\<close>

fun add_to_groups :: "int \<Rightarrow> kv_cache_spec \<Rightarrow> manager_class \<Rightarrow> bool \<Rightarrow> spec_group list \<Rightarrow> spec_group list result" where
  "add_to_groups i spec cls eagle [] =
     Inr [\<lparr>sg_spec = spec, sg_group_ids = [i], sg_manager_cls = cls, sg_use_eagle = eagle\<rparr>]"
| "add_to_groups i spec cls eagle (g # gs) =
     (if sg_spec g = spec
      then rbind (rassert (cls = sg_manager_cls g)) (\<lambda>_.
             Inr (g\<lparr>sg_group_ids := sg_group_ids g @ [i], sg_use_eagle := sg_use_eagle g \<or> eagle\<rparr> # gs))
      else rbind (add_to_groups i spec cls eagle gs) (\<lambda>gs'. Inr (g # gs')))"

definition split_groups :: "int set \<Rightarrow> manager list \<Rightarrow> kv_cache_config \<Rightarrow> spec_group list result" where
  "split_groups eagle ms cfg =
     rbind (rfold (\<lambda>(i, g, m). add_to_groups i (group_spec g) (class_of (sub m)) (i \<in> eagle))
              (zip (py_range 0 (int (length ms))) (zip (kv_cache_groups cfg) ms)) []) (\<lambda>gs.
     rbind (rassert (length gs > 1)) (\<lambda>_.
       Inr (filter (\<lambda>g. isinstance (sg_spec g) C_FullAttentionSpec) gs
            @ filter (\<lambda>g. \<not> isinstance (sg_spec g) C_FullAttentionSpec) gs)))"

definition propagate_eagle :: "spec_group list \<Rightarrow> manager list \<Rightarrow> manager list" where
  "propagate_eagle gs ms =
     fold (\<lambda>g ms. if sg_use_eagle g then fold (\<lambda>i. set_eagle True (nat i)) (sg_group_ids g) ms else ms) gs ms"

definition hybrid_init ::
  "coord_env \<Rightarrow> kv_cache_config \<Rightarrow> int \<Rightarrow> int \<Rightarrow> bool \<Rightarrow> bool \<Rightarrow> bool \<Rightarrow> int \<Rightarrow> int \<Rightarrow> int \<Rightarrow> int \<Rightarrow>
   metrics_collector option \<Rightarrow> coordinator result" where
  "hybrid_init env cfg max_len max_batched use_eagle caching kv_events dcp pcp sched_bs hash_bs mc =
     rbind (base_init env cfg max_len max_batched use_eagle caching kv_events dcp pcp sched_bs hash_bs mc) (\<lambda>c.
     rbind (rassert (list_all (\<lambda>g. block_size (group_spec g) mod hash_bs = 0) (kv_cache_groups cfg))) (\<lambda>_.
     rbind (rassert (dcp = 1)) (\<lambda>_.
     rbind (rassert (pcp = 1)) (\<lambda>_.
     rbind (split_groups (eagle_group_ids c) (single_type_managers c) cfg) (\<lambda>gs.
       Inr (c\<lparr>co_class := HybridKVCacheCoordinator hash_bs gs,
              single_type_managers := propagate_eagle gs (single_type_managers c)\<rparr>))))))"

definition get_kv_cache_coordinator ::
  "coord_env \<Rightarrow> kv_cache_config \<Rightarrow> int \<Rightarrow> int \<Rightarrow> bool \<Rightarrow> bool \<Rightarrow> bool \<Rightarrow> int \<Rightarrow> int \<Rightarrow> int \<Rightarrow> int \<Rightarrow>
   metrics_collector option \<Rightarrow> coordinator result" where
  "get_kv_cache_coordinator env cfg max_len max_batched use_eagle caching kv_events dcp pcp sched_bs hash_bs mc =
     (if \<not> caching
      then base_init env cfg max_len max_batched use_eagle False kv_events dcp pcp sched_bs hash_bs mc
      else if length (kv_cache_groups cfg) = 1
      then unitary_init env cfg max_len max_batched use_eagle caching kv_events dcp pcp sched_bs hash_bs mc
      else hybrid_init env cfg max_len max_batched use_eagle caching kv_events dcp pcp sched_bs hash_bs mc)"

subsection \<open>Loops over the managers\<close>

fun for_managers ::
  "(int \<Rightarrow> manager \<Rightarrow> 's \<Rightarrow> ('b \<times> manager \<times> 's) result) \<Rightarrow> int \<Rightarrow> manager list \<Rightarrow> 's \<Rightarrow>
   ('b list \<times> manager list \<times> 's) result" where
  "for_managers f i [] s = Inr ([], [], s)"
| "for_managers f i (m # ms) s =
     rbind (f i m s) (\<lambda>(x, m', s').
     rbind (for_managers f (i + 1) ms s') (\<lambda>(xs, ms', s''). Inr (x # xs, m' # ms', s'')))"

definition with_managers :: "coordinator \<Rightarrow> manager list \<Rightarrow> block_pool \<Rightarrow> coordinator" where
  "with_managers c ms p = c\<lparr>single_type_managers := ms, co_pool := p\<rparr>"

definition co_num_blocks_step ::
  "string \<Rightarrow> int \<Rightarrow> bref list list \<Rightarrow> int \<Rightarrow> int \<Rightarrow> int \<Rightarrow> bool \<Rightarrow> int \<Rightarrow> manager \<Rightarrow> block_pool \<Rightarrow> (int \<times> manager \<times> block_pool) result" where
  "co_num_blocks_step rid num_toks computed num_encoder total_computed main_tokens cap i m p =
     (case sub m of
        CrossAttentionManager \<Rightarrow>
          rbind (get_num_blocks_to_allocate p m rid num_encoder [] 0 num_encoder cap) (\<lambda>(n, m'). Inr (n, m', p))
      | _ \<Rightarrow> rbind (py_index computed i) (\<lambda>bs.
             rbind (get_num_blocks_to_allocate p m rid num_toks bs total_computed main_tokens cap) (\<lambda>(n, m').
               Inr (n, m', p))))"

definition co_get_num_blocks_to_allocate ::
  "string \<Rightarrow> int \<Rightarrow> bref list list \<Rightarrow> int \<Rightarrow> int \<Rightarrow> int \<Rightarrow> bool \<Rightarrow> coordinator \<Rightarrow> (int \<times> coordinator) result" where
  "co_get_num_blocks_to_allocate rid num_toks computed num_encoder total_computed main_tokens cap c =
     rbind (for_managers (co_num_blocks_step rid num_toks computed num_encoder total_computed main_tokens cap) 0
              (single_type_managers c) (co_pool c)) (\<lambda>(ns, ms, p). Inr (sum_list ns, with_managers c ms p))"

definition co_computed_step ::
  "string \<Rightarrow> bref list list \<Rightarrow> int \<Rightarrow> int \<Rightarrow> int \<Rightarrow> manager \<Rightarrow> block_pool \<Rightarrow> (unit \<times> manager \<times> block_pool) result" where
  "co_computed_step rid computed num_local num_external i m p =
     rbind (py_index computed i) (\<lambda>bs.
     rbind (allocate_new_computed_blocks rid bs num_local num_external (m, p)) (\<lambda>(m', p'). Inr ((), m', p')))"

definition co_allocate_new_computed_blocks ::
  "string \<Rightarrow> bref list list \<Rightarrow> int \<Rightarrow> int \<Rightarrow> coordinator \<Rightarrow> coordinator result" where
  "co_allocate_new_computed_blocks rid computed num_local num_external c =
     rbind (for_managers (co_computed_step rid computed num_local num_external) 0 (single_type_managers c) (co_pool c))
       (\<lambda>(_, ms, p). Inr (with_managers c ms p))"

definition co_alloc_step ::
  "string \<Rightarrow> int \<Rightarrow> int \<Rightarrow> int \<Rightarrow> int \<Rightarrow> manager \<Rightarrow> block_pool \<Rightarrow> (bref list \<times> manager \<times> block_pool) result" where
  "co_alloc_step rid num_toks main_tokens num_encoder i m p =
     allocate_new_blocks rid (if sub m = CrossAttentionManager then num_encoder else num_toks) main_tokens (m, p)"

definition co_allocate_new_blocks ::
  "string \<Rightarrow> int \<Rightarrow> int \<Rightarrow> int \<Rightarrow> coordinator \<Rightarrow> (bref list list \<times> coordinator) result" where
  "co_allocate_new_blocks rid num_toks main_tokens num_encoder c =
     rbind (for_managers (co_alloc_step rid num_toks main_tokens num_encoder) 0 (single_type_managers c) (co_pool c))
       (\<lambda>(bss, ms, p). Inr (bss, with_managers c ms p))"

text \<open>
  \<open>cache_blocks\<close>: the hybrid coordinator only caches up to the last multiple of the scheduling block
  size, and one block more for EAGLE groups.
\<close>

definition num_tokens_to_cache :: "coordinator \<Rightarrow> int \<Rightarrow> manager \<Rightarrow> int" where
  "num_tokens_to_cache c computed m =
     (case co_class c of
        HybridKVCacheCoordinator _ _ \<Rightarrow>
          let aligned = computed div co_scheduler_block_size c * co_scheduler_block_size c
          in if mgr_use_eagle m \<and> aligned > 0 then min computed (aligned + mgr_block_size m) else aligned
      | _ \<Rightarrow> computed)"

definition co_cache_step ::
  "coordinator \<Rightarrow> int \<Rightarrow> int \<Rightarrow> manager \<Rightarrow> request \<times> block_pool \<Rightarrow> (unit \<times> manager \<times> request \<times> block_pool) result" where
  "co_cache_step c computed i m st =
     (case st of (r, p) \<Rightarrow>
        rbind (cache_blocks r (num_tokens_to_cache c computed m) (retention_interval c) (m, p)) (\<lambda>(r', m', p').
          Inr ((), m', r', p')))"

definition co_cache_blocks :: "request \<Rightarrow> int \<Rightarrow> coordinator \<Rightarrow> (request \<times> coordinator) result" where
  "co_cache_blocks r computed c =
     rbind (for_managers (co_cache_step c computed) 0 (single_type_managers c) (r, co_pool c)) (\<lambda>(_, ms, r', p).
       Inr (r', with_managers c ms p))"

definition co_free_step :: "string \<Rightarrow> int \<Rightarrow> manager \<Rightarrow> block_pool \<Rightarrow> (unit \<times> manager \<times> block_pool) result" where
  "co_free_step rid i m p = rbind (mgr_free rid (m, p)) (\<lambda>(m', p'). Inr ((), m', p'))"

definition co_free :: "string \<Rightarrow> coordinator \<Rightarrow> coordinator result" where
  "co_free rid c =
     rbind (for_managers (co_free_step rid) 0 (single_type_managers c) (co_pool c)) (\<lambda>(_, ms, p).
       Inr (with_managers c ms p))"

definition co_remove_step :: "string \<Rightarrow> int \<Rightarrow> int \<Rightarrow> manager \<Rightarrow> block_pool \<Rightarrow> (unit \<times> manager \<times> block_pool) result" where
  "co_remove_step rid total_computed i m p =
     rbind (remove_skipped_blocks rid total_computed (m, p)) (\<lambda>(m', p'). Inr ((), m', p'))"

definition co_remove_skipped_blocks :: "string \<Rightarrow> int \<Rightarrow> coordinator \<Rightarrow> coordinator result" where
  "co_remove_skipped_blocks rid total_computed c =
     rbind (for_managers (co_remove_step rid total_computed) 0 (single_type_managers c) (co_pool c)) (\<lambda>(_, ms, p).
       Inr (with_managers c ms p))"

definition co_get_num_common_prefix_blocks :: "string \<Rightarrow> coordinator \<Rightarrow> int list \<times> coordinator" where
  "co_get_num_common_prefix_blocks rid c =
     (case co_class c of
        KVCacheCoordinatorNoPrefixCache \<Rightarrow> (replicate (length (single_type_managers c)) 0, c)
      | _ \<Rightarrow> let rs = map (get_num_common_prefix_blocks (co_pool c) rid) (single_type_managers c)
             in (map fst rs, c\<lparr>single_type_managers := map snd rs\<rparr>))"

definition co_get_blocks :: "string \<Rightarrow> coordinator \<Rightarrow> bref list list" where
  "co_get_blocks rid c = map (\<lambda>m. blocks_of m rid) (single_type_managers c)"

definition co_new_step_starts :: "coordinator \<Rightarrow> coordinator" where
  "co_new_step_starts c = c\<lparr>single_type_managers := map new_step_starts (single_type_managers c)\<rparr>"

subsection \<open>Prefix-cache lookup over all groups\<close>

text \<open>\<open>_get_block_hashes\<close>: the hashes at the granularity of the group's blocks.\<close>

definition hashes_for :: "int \<Rightarrow> bytes list \<Rightarrow> kv_cache_spec \<Rightarrow> block_hash_list result" where
  "hashes_for hash_bs hashes spec =
     (if block_size spec = hash_bs then Inr (PlainHashes hashes)
      else block_hash_list_with_block_size hashes hash_bs (block_size spec))"

definition store_hits :: "int list \<Rightarrow> bref list list \<Rightarrow> bref list option list \<Rightarrow> bref list option list" where
  "store_hits gids hits by_group = fold (\<lambda>(g, bs) by_group. by_group[nat g := Some bs]) (zip gids hits) by_group"

text \<open>
  The state of the fixed-point iteration: the current hit length, the longest one seen, the blocks
  found per group, and the indices of the joint groups whose EAGLE drop is verified.
\<close>

record hybrid_state =
  curr_hit_length :: int
  longest_hit_length :: int
  hit_blocks_by_group :: "bref list option list"
  eagle_verified :: "nat set"

definition hybrid_group_step ::
  "block_pool \<Rightarrow> bytes list \<Rightarrow> int \<Rightarrow> int \<Rightarrow> int \<Rightarrow> nat \<times> spec_group \<Rightarrow> hybrid_state \<Rightarrow> hybrid_state result" where
  "hybrid_group_step p hashes hash_bs max_len al ig st =
     (case ig of (idx, g) \<Rightarrow>
        let spec = sg_spec g; bs = block_size spec; len = curr_hit_length st in
        rbind (py_index (sg_group_ids g) 0) (\<lambda>g0.
        rbind (py_index (hit_blocks_by_group st) g0) (\<lambda>cached.
          if isinstance spec C_FullAttentionSpec \<and> cached \<noteq> None
          then Inr (st\<lparr>curr_hit_length := len div bs * bs\<rparr>)
          else
            let drop_block = (sg_use_eagle g \<and> idx \<notin> eagle_verified st);
                max_length = (if drop_block then min (len + bs) max_len else len)
            in rbind (hashes_for hash_bs hashes spec) (\<lambda>hs.
               rbind (find_longest_cache_hit (sg_manager_cls g) p hs max_length (sg_group_ids g) spec drop_block al 1 1) (\<lambda>hits.
               rbind (py_index hits 0) (\<lambda>h0.
                 let new_len = int (length h0) * bs
                 in Inr (st\<lparr>curr_hit_length := new_len, longest_hit_length := max (longest_hit_length st) new_len,
                            hit_blocks_by_group := store_hits (sg_group_ids g) hits (hit_blocks_by_group st),
                            eagle_verified := (if drop_block then insert idx (eagle_verified st)
                                               else if new_len < len then {} else eagle_verified st)\<rparr>)))))))"

definition hybrid_round ::
  "block_pool \<Rightarrow> bytes list \<Rightarrow> int \<Rightarrow> int \<Rightarrow> int \<Rightarrow> spec_group list \<Rightarrow> hybrid_state \<Rightarrow> hybrid_state result" where
  "hybrid_round p hashes hash_bs max_len al gs st =
     rfold (hybrid_group_step p hashes hash_bs max_len al) (enumerate 0 gs) st"

text \<open>
  \<open>while True\<close>: one round over the joint groups, then stop if the length did not shrink (or after one
  round for a model of full attention and one other type). The result is the final hit length
  with the state; not returning is \<open>None\<close>.
\<close>

partial_function (option) hybrid_loop ::
  "block_pool \<Rightarrow> bytes list \<Rightarrow> int \<Rightarrow> int \<Rightarrow> int \<Rightarrow> spec_group list \<Rightarrow> bool \<Rightarrow> int \<Rightarrow> hybrid_state \<Rightarrow>
   (int \<times> hybrid_state) result option" where
  "hybrid_loop p hashes hash_bs max_len al gs simple hit_length st =
     (case hybrid_round p hashes hash_bs max_len al gs (st\<lparr>curr_hit_length := hit_length\<rparr>) of
        Inl e \<Rightarrow> Some (Inl e)
      | Inr st' \<Rightarrow>
          if curr_hit_length st' \<ge> hit_length then Some (Inr (hit_length, st'))
          else if simple then Some (Inr (curr_hit_length st', st'))
          else hybrid_loop p hashes hash_bs max_len al gs simple (curr_hit_length st') st')"

declare hybrid_loop.simps [code]

definition is_simple_hybrid :: "spec_group list \<Rightarrow> bool" where
  "is_simple_hybrid gs \<longleftrightarrow> length gs = 2 \<and> isinstance (sg_spec (gs ! 0)) C_FullAttentionSpec"

text \<open>The blocks of the first joint group are cut to the final length if it is full attention.\<close>

definition truncate_first :: "spec_group list \<Rightarrow> int \<Rightarrow> bref list option list \<Rightarrow> bref list option list" where
  "truncate_first gs hit_length by_group =
     (case gs of
        [] \<Rightarrow> by_group
      | g # _ \<Rightarrow>
          if isinstance (sg_spec g) C_FullAttentionSpec
          then fold (\<lambda>i by_group. by_group[nat i :=
                 map_option (\<lambda>bs. py_upto bs (hit_length div block_size (sg_spec g))) (by_group ! nat i)])
               (sg_group_ids g) by_group
          else by_group)"

definition hybrid_find_longest_cache_hit ::
  "int \<Rightarrow> spec_group list \<Rightarrow> bytes list \<Rightarrow> int \<Rightarrow> coordinator \<Rightarrow> ((bref list list \<times> int) \<times> coordinator) result option" where
  "hybrid_find_longest_cache_hit hash_bs gs hashes max_len c =
     (let st0 = \<lparr>curr_hit_length = max_len, longest_hit_length = 0,
                 hit_blocks_by_group = replicate (length (kv_cache_groups (co_config c))) None, eagle_verified = {}\<rparr>
      in map_option (\<lambda>res. rbind res (\<lambda>(hit_length, st).
           let by_group = truncate_first gs hit_length (hit_blocks_by_group st)
           in Inr ((map (\<lambda>b. case b of None \<Rightarrow> [] | Some bs \<Rightarrow> bs) by_group, hit_length),
                   c\<lparr>num_uncached_common_prefix_tokens := Some (longest_hit_length st - hit_length)\<rparr>)))
         (hybrid_loop (co_pool c) hashes hash_bs max_len (co_scheduler_block_size c) gs (is_simple_hybrid gs) max_len st0))"

definition co_find_longest_cache_hit ::
  "bytes list \<Rightarrow> int \<Rightarrow> coordinator \<Rightarrow> ((bref list list \<times> int) \<times> coordinator) result option" where
  "co_find_longest_cache_hit hashes max_len c =
     (case co_class c of
        KVCacheCoordinatorNoPrefixCache \<Rightarrow> Some (Inr ((map (\<lambda>_. []) (single_type_managers c), 0), c))
      | UnitaryKVCacheCoordinator spec bs dcp pcp \<Rightarrow>
          Some (rbind (py_index (single_type_managers c) 0) (\<lambda>m.
                rbind (find_longest_cache_hit (class_of (sub m)) (co_pool c) (PlainHashes hashes) max_len [0] spec
                         (0 \<in> eagle_group_ids c) bs dcp pcp) (\<lambda>hits.
                rbind (py_index hits 0) (\<lambda>h0. Inr ((hits, int (length h0) * bs), c)))))
      | HybridKVCacheCoordinator hash_bs gs \<Rightarrow> hybrid_find_longest_cache_hit hash_bs gs hashes max_len c)"

text \<open>\<open>find_longest_cache_hit_per_group\<close>: every joint group on its own.\<close>

definition per_group_step ::
  "block_pool \<Rightarrow> bytes list \<Rightarrow> int \<Rightarrow> int \<Rightarrow> int \<Rightarrow> spec_group \<Rightarrow> bref list list \<times> int list \<Rightarrow> (bref list list \<times> int list) result" where
  "per_group_step p hashes hash_bs max_len al g st =
     rbind (hashes_for hash_bs hashes (sg_spec g)) (\<lambda>hs.
     rbind (find_longest_cache_hit (sg_manager_cls g) p hs max_len (sg_group_ids g) (sg_spec g) (sg_use_eagle g) al 1 1) (\<lambda>blocks.
     rbind (py_index blocks 0) (\<lambda>h0.
       Inr (fold (\<lambda>(i, bs) (blks, lens). (blks[nat i := bs], lens[nat i := int (length h0) * block_size (sg_spec g)]))
              (zip (sg_group_ids g) blocks) st))))"

definition find_longest_cache_hit_per_group ::
  "int \<Rightarrow> spec_group list \<Rightarrow> bytes list \<Rightarrow> int \<Rightarrow> coordinator \<Rightarrow> (bref list list \<times> int list) result" where
  "find_longest_cache_hit_per_group hash_bs gs hashes max_len c =
     (let n = length (kv_cache_groups (co_config c))
      in rfold (per_group_step (co_pool c) hashes hash_bs max_len (co_scheduler_block_size c)) gs
           (replicate n [], replicate n 0))"

subsection \<open>The coordinator invariant\<close>

text \<open>
  \<open>managers_inv oth ms p\<close>: the pool is well formed, every manager is, and the reference count of a
  block is \<open>oth\<close> plus the references in the block tables of all the managers \<open>ms\<close>. For a
  coordinator \<open>oth\<close> is zero: no one else holds blocks.
\<close>

definition held_all :: "manager list \<Rightarrow> bref \<Rightarrow> int" where
  "held_all ms b = sum_list (map (\<lambda>m. int (held (req_to_blocks m) b)) ms)"

definition managers_inv :: "(bref \<Rightarrow> int) \<Rightarrow> manager list \<Rightarrow> block_pool \<Rightarrow> bool" where
  "managers_inv oth ms p \<longleftrightarrow> pool_inv p \<and> (\<forall>m \<in> set ms. mgr_ok m p) \<and> (\<forall>b. 0 \<le> oth b)
     \<and> (\<forall>b \<in> real_blocks p. refc p b = oth b + held_all ms b)"

definition co_inv :: "coordinator \<Rightarrow> bool" where
  "co_inv c \<longleftrightarrow> managers_inv (\<lambda>_. 0) (single_type_managers c) (co_pool c)"

lemma held_all_nonneg: "0 \<le> held_all ms b"
  by (induction ms) (auto simp: held_all_def)

lemma held_all_simps [simp]: "held_all [] b = 0" "held_all (m # ms) b = int (held (req_to_blocks m) b) + held_all ms b"
  by (simp_all add: held_all_def)

lemma with_managers_simps [simp]:
  "single_type_managers (with_managers c ms p) = ms" "co_pool (with_managers c ms p) = p"
  "with_managers c (single_type_managers c) (co_pool c) = c"
  by (simp_all add: with_managers_def)

lemma mgr_ok_cong: "same_config p p' \<Longrightarrow> mgr_ok m p' = mgr_ok m p"
  by (auto simp: mgr_ok_def table_ok_cong)

lemma managers_inv_Cons:
  assumes "\<forall>b. 0 \<le> oth b"
  shows "managers_inv oth (m # ms) p \<longleftrightarrow> mgr_inv (\<lambda>b. oth b + held_all ms b) m p \<and> (\<forall>m' \<in> set ms. mgr_ok m' p)"
    and "mgr_ok m p \<Longrightarrow> managers_inv oth (m # ms) p \<longleftrightarrow> managers_inv (\<lambda>b. oth b + int (held (req_to_blocks m) b)) ms p"
  using assms held_all_nonneg[of ms] by (auto simp: managers_inv_def mgr_inv_def add_nonneg_nonneg)

text \<open>
  The contract of one step on one manager, as the coordinator's loops use it: under \<open>ok\<close> it keeps the
  manager invariant, whatever the other managers hold, and the configuration of the pool.
\<close>

locale manager_step =
  fixes step :: "int \<Rightarrow> manager \<Rightarrow> 's \<Rightarrow> ('b \<times> manager \<times> 's) result"
    and pool_of :: "'s \<Rightarrow> block_pool"
    and ok :: "int \<Rightarrow> manager \<Rightarrow> block_pool \<Rightarrow> bool"
  assumes step_inv: "mgr_inv oth m (pool_of s) \<Longrightarrow> ok i m (pool_of s) \<Longrightarrow> step i m s = Inr (x, m', s') \<Longrightarrow>
      mgr_inv oth m' (pool_of s') \<and> same_config (pool_of s) (pool_of s')"
    and ok_cong: "same_config p p' \<Longrightarrow> ok i m p \<Longrightarrow> ok i m p'"
begin

lemma advance:
  assumes "managers_inv oth (m # ms) (pool_of s)" "\<forall>j < length (m # ms). ok (i + int j) ((m # ms) ! j) (pool_of s)"
    and "step i m s = Inr (x, m1, s1)"
  shows "managers_inv (\<lambda>b. oth b + int (held (req_to_blocks m1) b)) ms (pool_of s1)" "mgr_ok m1 (pool_of s1)"
    "same_config (pool_of s) (pool_of s1)" "\<forall>j < length ms. ok (i + 1 + int j) (ms ! j) (pool_of s1)"
proof -
  have nn: "\<forall>b. 0 \<le> oth b" using assms(1) by (simp add: managers_inv_def)
  have inv: "mgr_inv (\<lambda>b. oth b + held_all ms b) m (pool_of s)" "\<forall>m' \<in> set ms. mgr_ok m' (pool_of s)"
    using assms(1) managers_inv_Cons(1)[OF nn] by auto
  have "ok i m (pool_of s)" using assms(2) by force
  from step_inv[OF inv(1) this assms(3)]
  have inv1: "mgr_inv (\<lambda>b. oth b + held_all ms b) m1 (pool_of s1)" and cfg: "same_config (pool_of s) (pool_of s1)" by auto
  show "same_config (pool_of s) (pool_of s1)" by (rule cfg)
  show m1: "mgr_ok m1 (pool_of s1)" using inv1 by (simp add: mgr_inv_def)
  have "managers_inv oth (m1 # ms) (pool_of s1)"
    using inv1 inv(2) mgr_ok_cong[OF cfg] managers_inv_Cons(1)[OF nn] by auto
  then show "managers_inv (\<lambda>b. oth b + int (held (req_to_blocks m1) b)) ms (pool_of s1)"
    using m1 managers_inv_Cons(2)[OF nn] by blast
  show "\<forall>j < length ms. ok (i + 1 + int j) (ms ! j) (pool_of s1)"
  proof (intro allI impI)
    fix j assume "j < length ms"
    then show "ok (i + 1 + int j) (ms ! j) (pool_of s1)"
      using assms(2)[rule_format, of "Suc j"] ok_cong[OF cfg] by (simp add: algebra_simps)
  qed
qed

lemma loop_inv:
  assumes "managers_inv oth ms (pool_of s)" "\<forall>j < length ms. ok (i + int j) (ms ! j) (pool_of s)"
    and "for_managers step i ms s = Inr (xs, ms', s')"
  shows "managers_inv oth ms' (pool_of s') \<and> same_config (pool_of s) (pool_of s') \<and> length ms' = length ms"
  using assms
proof (induction ms arbitrary: i s xs ms' oth)
  case Nil
  then show ?case by simp
next
  case (Cons m ms)
  obtain x m1 s1 xs1 ms1 where s1: "step i m s = Inr (x, m1, s1)" "for_managers step (i + 1) ms s1 = Inr (xs1, ms1, s')"
    and ms': "ms' = m1 # ms1"
    using Cons.prems(3) by (auto simp: rbind_eq_Inr_iff)
  have nn: "\<forall>b. 0 \<le> oth b" using Cons.prems(1) by (simp add: managers_inv_def)
  note adv = advance[OF Cons.prems(1,2) s1(1)]
  note ih = Cons.IH[OF adv(1,4) s1(2)]
  then have "mgr_ok m1 (pool_of s')" using adv(2) mgr_ok_cong by blast
  from managers_inv_Cons(2)[OF nn this, of ms1] ih adv(3) show ?case unfolding ms' using same_config_trans by auto
qed

end

text \<open>A step that never fails on a well-formed manager.\<close>

locale total_manager_step = manager_step +
  assumes step_total: "mgr_inv oth m (pool_of s) \<Longrightarrow> ok i m (pool_of s) \<Longrightarrow> \<exists>x m' s'. step i m s = Inr (x, m', s')"
begin

lemma loop_total:
  assumes "managers_inv oth ms (pool_of s)" "\<forall>j < length ms. ok (i + int j) (ms ! j) (pool_of s)"
  shows "\<exists>xs ms' s'. for_managers step i ms s = Inr (xs, ms', s')"
  using assms
proof (induction ms arbitrary: i s oth)
  case Nil
  then show ?case by simp
next
  case (Cons m ms)
  have nn: "\<forall>b. 0 \<le> oth b" using Cons.prems(1) by (simp add: managers_inv_def)
  have inv: "mgr_inv (\<lambda>b. oth b + held_all ms b) m (pool_of s)"
    using Cons.prems(1) managers_inv_Cons(1)[OF nn] by auto
  have "ok i m (pool_of s)" using Cons.prems(2) by force
  then obtain x m1 s1 where s1: "step i m s = Inr (x, m1, s1)" using step_total[OF inv] by blast
  note adv = advance[OF Cons.prems s1]
  from Cons.IH[OF adv(1,4)] s1 show ?case by auto
qed

end

lemma co_free_step_ok:
  "mgr_inv oth m p \<Longrightarrow> \<exists>m' p'. co_free_step rid i m p = Inr ((), m', p') \<and> mgr_inv oth m' p' \<and> same_config p p'"
  using mgr_free_ok[of oth m p rid] by (auto simp: co_free_step_def)

lemma co_remove_step_inv:
  "mgr_inv oth m p \<Longrightarrow> co_remove_step rid n i m p = Inr (x, m', p') \<Longrightarrow> mgr_inv oth m' p' \<and> same_config p p'"
  using remove_skipped_inv[of oth m p rid n] by (auto simp: co_remove_step_def rbind_eq_Inr_iff)

lemma co_cache_step_inv:
  "mgr_inv oth m (snd st) \<Longrightarrow> co_cache_step c n i m st = Inr (x, m', st') \<Longrightarrow>
   mgr_inv oth m' (snd st') \<and> same_config (snd st) (snd st')"
  using cache_blocks_inv[of oth m "snd st" "fst st" "num_tokens_to_cache c n m" "retention_interval c"]
  by (cases st) (auto simp: co_cache_step_def rbind_eq_Inr_iff)

lemma co_num_blocks_step_inv:
  assumes "mgr_inv oth m p" "co_num_blocks_step rid n computed enc t main cap i m p = Inr (x, m', p')"
  shows "mgr_inv oth m' p' \<and> same_config p p'"
proof -
  have "p' = p \<and> (\<exists>n bs t main. get_num_blocks_to_allocate p m rid n bs t main cap = Inr (x, m'))"
    using assms(2) unfolding co_num_blocks_step_def
    by (cases "sub m") (simp_all add: rbind_eq_Inr_iff split_paired_Ex; blast)+
  then show ?thesis using get_num_blocks_inv[OF assms(1)] same_config_refl by blast
qed

lemma co_computed_step_inv:
  assumes "mgr_inv oth m p" "\<forall>bs. py_index computed i = Inr bs \<longrightarrow> computed_ok p m bs (nl + ne)"
    "co_computed_step rid computed nl ne i m p = Inr (x, m', p')"
  shows "mgr_inv oth m' p' \<and> same_config p p'"
proof -
  obtain bs where "py_index computed i = Inr bs" "allocate_new_computed_blocks rid bs nl ne (m, p) = Inr (m', p')"
    using assms(3) by (auto simp: co_computed_step_def rbind_eq_Inr_iff)
  then show ?thesis using allocate_new_computed_inv[OF assms(1)] assms(2) by blast
qed

interpretation free_steps: total_manager_step "co_free_step rid" "\<lambda>p. p" "\<lambda>_ _ _. True" for rid
proof unfold_locales
  fix oth i m s x m' s'
  assume inv: "mgr_inv oth m s"
  from co_free_step_ok[OF inv, of rid i] show "\<exists>x m' s'. co_free_step rid i m s = Inr (x, m', s')" by blast
  assume "co_free_step rid i m s = Inr (x, m', s')"
  with co_free_step_ok[OF inv, of rid i] show "mgr_inv oth m' s' \<and> same_config s s'" by auto
qed simp

interpretation remove_steps: manager_step "co_remove_step rid n" "\<lambda>p. p" "\<lambda>_ _ _. True" for rid n
  by unfold_locales (use co_remove_step_inv in blast)+

interpretation alloc_steps: manager_step "co_alloc_step rid n main enc" "\<lambda>p. p" "\<lambda>_ _ _. 0 \<le> main" for rid n main enc
  by unfold_locales (use allocate_new_blocks_inv in \<open>auto simp: co_alloc_step_def\<close>)

interpretation cache_steps: manager_step "co_cache_step c n" snd "\<lambda>_ _ _. True" for c n
  by unfold_locales (use co_cache_step_inv in blast)+

interpretation count_steps: manager_step "co_num_blocks_step rid n computed enc t main cap" "\<lambda>p. p" "\<lambda>_ _ _. True"
  for rid n computed enc t main cap
  by unfold_locales (use co_num_blocks_step_inv in blast)+

text \<open>The computed blocks of manager \<open>i\<close> satisfy what that manager requires.\<close>

interpretation computed_steps: manager_step "co_computed_step rid computed nl ne" "\<lambda>p. p"
  "\<lambda>i m p. \<forall>bs. py_index computed i = Inr bs \<longrightarrow> computed_ok p m bs (nl + ne)" for rid computed nl ne
proof unfold_locales
  show "mgr_inv oth m' s' \<and> same_config s s'"
    if "mgr_inv oth m s" "\<forall>bs. py_index computed i = Inr bs \<longrightarrow> computed_ok s m bs (nl + ne)"
      "co_computed_step rid computed nl ne i m s = Inr (x, m', s')" for oth m s i x m' s'
    using co_computed_step_inv[OF that] .
  show "\<forall>bs. py_index computed i = Inr bs \<longrightarrow> computed_ok p' m bs (nl + ne)"
    if "same_config p p'" "\<forall>bs. py_index computed i = Inr bs \<longrightarrow> computed_ok p m bs (nl + ne)" for p p' i m
    using that by (simp add: computed_ok_def table_ok_cong)
qed

end
