(* ===== verification/Allocation_Budget.thy ===== *)
theory Allocation_Budget
  imports Coordinator
begin

section \<open>Allocation within the predicted budget\<close>

text \<open>
  \<open>KVCacheManager.allocate_slots\<close> asks \<open>get_num_blocks_to_allocate\<close> for a number of blocks and then relies
  on \<open>allocate_new_computed_blocks\<close> and \<open>allocate_new_blocks\<close> staying within it. This theory shows that
  they do: manager by manager, and for the coordinator's loops by the locale \<open>budgeted_step\<close>.
\<close>

text \<open>
  The managers whose allocation is that of the base class: all but Mamba and cross attention.
\<close>

definition plain :: "manager \<Rightarrow> bool" where
  "plain m \<longleftrightarrow> (case sub m of MambaManager _ \<Rightarrow> False | CrossAttentionManager \<Rightarrow> False | _ \<Rightarrow> True)"

lemma plain_simps:
  assumes "plain m"
  shows "allocate_new_blocks rid n main (m, p) = base_allocate_new_blocks rid n (m, p)"
    "allocate_new_computed_blocks rid bs nl ne (m, p) = base_allocate_new_computed_blocks rid bs nl ne (m, p)"
    "sub m \<noteq> CrossAttentionManager"
    "get_num_blocks_to_allocate p m rid n bs t main cap
       = rbind (base_num_blocks_to_allocate p m rid n bs t cap) (\<lambda>n. Inr (n, m))"
    "co_num_blocks_step rid n computed enc t main cap i m p
       = rbind (py_index computed i) (\<lambda>bs. rbind (base_num_blocks_to_allocate p m rid n bs t cap) (\<lambda>n. Inr (n, m, p)))"
  using assms unfolding plain_def
  by (auto simp: allocate_new_blocks_def allocate_new_computed_blocks_def get_num_blocks_to_allocate_def
      co_num_blocks_step_def rbind_assoc split: manager_sub.splits)

lemma plain_skipped: "plain m \<Longrightarrow> sub_ok m \<Longrightarrow> 0 \<le> t \<Longrightarrow> 0 \<le> get_num_skipped_tokens m t"
  unfolding plain_def sub_ok_def get_num_skipped_tokens_def
  by (auto simp: pos_imp_zdiv_nonneg_iff split: manager_sub.splits)

text \<open>The number of free blocks after touching and after allocating.\<close>

lemma evictable_eq:
  assumes rep: "pool_rep p xs" and tab: "table_ok p bs"
  shows "get_num_evictable_blocks p bs = int (card (set bs \<inter> set xs))"
proof -
  have core: "core_ok p" and zero: "set xs = {b \<in> real_blocks p. refc p b = 0}" using rep by (auto simp: pool_rep_def)
  have "(ref_cnt (pool_heap p b) = 0 \<and> \<not> is_null (pool_heap p b)) = (b \<in> set xs)" if "b \<in> set bs" for b
  proof (cases "b = Blk 0")
    case True
    then show ?thesis using core_ok_null[OF core] real_blocks_not_special zero by auto
  next
    case False
    then have "b \<in> real_blocks p" using that tab by (auto simp: table_ok_def)
    then show ?thesis using core_ok_real[OF core] zero by (auto simp: refc_def)
  qed
  then have "filter (\<lambda>b. ref_cnt (pool_heap p b) = 0 \<and> \<not> is_null (pool_heap p b)) bs = filter (\<lambda>b. b \<in> set xs) bs"
    by (rule filter_cong[OF refl])
  moreover have "distinct (filter (\<lambda>b. b \<in> set xs) bs)"
  proof -
    have "Blk 0 \<notin> set xs" using zero real_blocks_not_special by auto
    then have "filter (\<lambda>b. b \<in> set xs) bs = filter (\<lambda>b. b \<in> set xs) (filter (\<lambda>b. b \<noteq> Blk 0) bs)"
      by (auto intro: filter_cong)
    then show ?thesis using tab distinct_filter[of "filter (\<lambda>b. b \<noteq> Blk 0) bs" "\<lambda>b. b \<in> set xs"] by (simp only: table_ok_def)
  qed
  ultimately show ?thesis
    by (simp add: get_num_evictable_blocks_def distinct_card[symmetric] Int_def conj_commute)
qed

lemma touch_free:
  assumes rep: "pool_rep p xs" and tab: "table_ok p bs"
  shows "\<exists>p'. touch bs p = Inr p' \<and> get_num_free_blocks p' = get_num_free_blocks p - get_num_evictable_blocks p bs
    \<and> (\<forall>b. refc p b \<le> refc p' b) \<and> pool_inv p' \<and> same_config p p'"
proof -
  obtain p' where p': "touch bs p = Inr p'" "pool_rep p' (filter (\<lambda>b. b \<notin> set bs) xs)" "same_config p p'"
    "refc p' = (\<lambda>b. refc p b + int (count_list bs b))"
    using touch_spec[OF rep] tab by (auto simp: table_ok_def)
  have d: "distinct xs" using rep fq_rep_distinct by (auto simp: pool_rep_def)
  have "length xs = length (filter (\<lambda>b. b \<notin> set bs) xs) + length (filter (\<lambda>b. b \<in> set bs) xs)"
    using sum_length_filter_compl[of "\<lambda>b. b \<in> set bs" xs] by simp
  moreover have "length (filter (\<lambda>b. b \<in> set bs) xs) = card (set bs \<inter> set xs)"
    using d by (simp add: distinct_card[symmetric] Int_def conj_commute)
  ultimately have "get_num_free_blocks p' = get_num_free_blocks p - get_num_evictable_blocks p bs"
    using get_num_free_blocks_eq[OF rep] get_num_free_blocks_eq[OF p'(2)] evictable_eq[OF rep tab] by simp
  then show ?thesis using p' by (auto simp: pool_inv_def)
qed

lemma alloc_free:
  assumes rep: "pool_rep p xs" and n: "0 \<le> n" "n \<le> get_num_free_blocks p"
  shows "\<exists>new p'. get_new_blocks n p = Inr (new, p') \<and> get_num_free_blocks p' = get_num_free_blocks p - n
    \<and> (\<forall>b. refc p b \<le> refc p' b) \<and> pool_inv p' \<and> same_config p p' \<and> int (length new) = n"
proof -
  have le: "n \<le> int (length xs)" using n(2) get_num_free_blocks_eq[OF rep] by simp
  obtain p' where p': "get_new_blocks n p = Inr (take (nat n) xs, p')" "pool_rep p' (drop (nat n) xs)" "same_config p p'"
    "refc p' = (\<lambda>b. if b \<in> set (take (nat n) xs) then 1 else refc p b)"
    using get_new_blocks_spec[OF rep n(1) le] by blast
  have "refc p b \<le> refc p' b" for b
    using p'(4) rep set_take_subset[of "nat n" xs] by (auto simp: pool_rep_def)
  then show ?thesis using p' le n get_num_free_blocks_eq[OF rep] get_num_free_blocks_eq[OF p'(2)]
    by (auto simp: pool_inv_def)
qed

lemma evictable_antimono:
  assumes "pool_inv p" "pool_inv p'" "same_config p p'" "\<forall>b. refc p b \<le> refc p' b" "table_ok p bs"
  shows "get_num_evictable_blocks p' bs \<le> get_num_evictable_blocks p bs"
proof -
  obtain xs xs' where rep: "pool_rep p xs" "pool_rep p' xs'" using assms(1,2) by (auto simp: pool_inv_def)
  have "set xs' \<subseteq> set xs"
  proof
    fix b assume "b \<in> set xs'"
    then have "b \<in> real_blocks p" "refc p' b = 0" using rep(2) same_config_real[OF assms(3)] by (auto simp: pool_rep_def)
    moreover have "0 \<le> refc p b" using rep(1) \<open>b \<in> real_blocks p\<close> by (auto simp: pool_rep_def)
    ultimately show "b \<in> set xs" using rep(1) assms(4)[rule_format, of b] by (auto simp: pool_rep_def)
  qed
  then have "card (set bs \<inter> set xs') \<le> card (set bs \<inter> set xs)" by (intro card_mono) auto
  then show ?thesis
    using evictable_eq[OF rep(1) assms(5)] evictable_eq[OF rep(2)] assms(5) table_ok_cong[OF assms(3)] by simp
qed


text \<open>
  What \<open>allocate_new_computed_blocks\<close> takes from the free queue of pool \<open>p\<close>: the computed blocks that
  are free now, and new blocks for external tokens.
\<close>

definition skipped_blocks :: "manager \<Rightarrow> int \<Rightarrow> nat" where
  "skipped_blocks m t = nat (get_num_skipped_tokens m t div mgr_block_size m)"

definition external_blocks :: "manager \<Rightarrow> bref list \<Rightarrow> int \<Rightarrow> int \<Rightarrow> int" where
  "external_blocks m bs nl ne =
     (if (if 0 < skipped_blocks m (nl + ne) then min (nl + ne - get_num_skipped_tokens m (nl + ne)) ne else ne) > 0
      then cdiv (nl + ne) (mgr_block_size m) - int (max (skipped_blocks m (nl + ne)) (length bs)) else 0)"

definition computed_cost :: "string \<Rightarrow> bref list \<Rightarrow> int \<Rightarrow> int \<Rightarrow> manager \<Rightarrow> block_pool \<Rightarrow> int" where
  "computed_cost rid bs nl ne m p =
     (if dict_get (num_cached_block m) rid \<noteq> None then 0
      else get_num_evictable_blocks p (drop (skipped_blocks m (nl + ne)) bs) + external_blocks m bs nl ne)"

text \<open>
  What the scheduler guarantees of a request: a running one has no new computed blocks, a new one has
  no blocks yet, and without prefix caching there are no computed blocks.
\<close>

definition computed_pre :: "string \<Rightarrow> bref list \<Rightarrow> int \<Rightarrow> int \<Rightarrow> manager \<Rightarrow> block_pool \<Rightarrow> bool" where
  "computed_pre rid bs nl ne m p \<longleftrightarrow> plain m \<and> computed_ok p m bs (nl + ne)
     \<and> (mgr_enable_caching m \<or> bs = [])
     \<and> (if dict_get (num_cached_block m) rid \<noteq> None then bs = [] else blocks_of m rid = [])"

lemma skipped_blocks_le:
  assumes "sub_ok m" "0 < mgr_block_size m" "0 \<le> t"
  shows "int (skipped_blocks m t) \<le> cdiv t (mgr_block_size m)"
proof -
  let ?b = "mgr_block_size m" and ?st = "get_num_skipped_tokens m t"
  have "?st div ?b * ?b \<le> ?st" using le_div_iff_mult_le_pos[OF assms(2), of "?st div ?b" ?st] by simp
  then have "?st div ?b \<le> t div ?b" using skipped_le[OF assms(1,3)] zdiv_mono1[OF _ assms(2)] by blast
  then show ?thesis using div_le_cdiv[OF assms(2), of t] cdiv_nonneg[OF assms(2,3)] by (simp add: skipped_blocks_def)
qed

lemma external_blocks_nonneg:
  assumes "sub_ok m" "0 < mgr_block_size m" "computed_ok p m bs (nl + ne)"
  shows "0 \<le> external_blocks m bs nl ne"
  using skipped_blocks_le[OF assms(1,2), of "nl + ne"] assms(3) by (auto simp: external_blocks_def computed_ok_def)

lemma computed_eq:
  assumes inv: "mgr_inv oth m p" and pre: "computed_pre rid bs nl ne m p" and new: "dict_get (num_cached_block m) rid = None"
  defines "sk \<equiv> skipped_blocks m (nl + ne)"
  defines "req \<equiv> replicate sk (Blk 0) @ drop sk bs"
  defines "m1 \<equiv> (set_blocks rid req m)\<lparr>num_cached_block := dict_set rid (int (length req)) (num_cached_block m)\<rparr>"
  shows "base_allocate_new_computed_blocks rid bs nl ne (m, p) =
    rbind (touch (drop sk bs) p) (\<lambda>p1.
      if (if 0 < sk then min (nl + ne - get_num_skipped_tokens m (nl + ne)) ne else ne) > 0
      then rbind (get_new_blocks (external_blocks m bs nl ne) p1) (\<lambda>(al, p2).
             Inr (note_new_ids p2 al (set_blocks rid (req @ al) m1), p2))
      else Inr (m1, p1))"
proof -
  let ?skt = "get_num_skipped_tokens m (nl + ne)" and ?b = "mgr_block_size m"
  have ok: "plain m" "sub_ok m" "0 < ?b" "0 \<le> nl + ne" "blocks_of m rid = []" "mgr_enable_caching m \<or> bs = []"
    using pre inv new by (auto simp: computed_pre_def computed_ok_def mgr_inv_def mgr_ok_def)
  have nn: "0 \<le> ?skt div ?b" using plain_skipped[OF ok(1,2,4)] ok(3) by (simp add: pos_imp_zdiv_nonneg_iff)
  have sk: "?skt div ?b = int sk" using nn by (simp add: sk_def skipped_blocks_def)
  have null: "mgr_null_block m = Blk 0" using mgr_inv_null[OF inv] by simp
  have nc: "(if 0 < sk then py_from bs (int sk) else bs) = drop sk bs" by (simp add: py_from_nonneg)
  have len: "int (length req) = int (max sk (length bs))" by (simp add: req_def)
  have touch: "(if mgr_enable_caching m then touch (drop sk bs) p else rbind (rassert (drop sk bs = [])) (\<lambda>_. Inr p)) = touch (drop sk bs) p"
    using ok(6) by (auto simp: touch_def)
  have ext: "cdiv (nl + ne) ?b - int (length req) = external_blocks m bs nl ne"
    if "(if 0 < sk then min (nl + ne - ?skt) ne else ne) > 0"
    using that len by (simp add: external_blocks_def sk_def[symmetric])
  let ?C = "(if 0 < sk then min (nl + ne - ?skt) ne else ne) > 0"
  note unf = base_allocate_new_computed_blocks_def prod.case new ok(5) rassert_True Let_def sk null nat_int nc touch
    of_nat_0_less_iff req_def[symmetric] m1_def[symmetric]
  show ?thesis
  proof (cases ?C)
    case True
    show ?thesis unfolding unf if_P[OF True] ext[OF True] by simp
  next
    case False
    show ?thesis unfolding unf if_not_P[OF False] by simp
  qed
qed


lemma computed_fits:
  assumes inv: "mgr_inv oth m p" and pre: "computed_pre rid bs nl ne m p"
    and fit: "computed_cost rid bs nl ne m p \<le> get_num_free_blocks p"
  shows "\<exists>m1 p1. base_allocate_new_computed_blocks rid bs nl ne (m, p) = Inr (m1, p1)
    \<and> get_num_free_blocks p1 = get_num_free_blocks p - computed_cost rid bs nl ne m p \<and> (\<forall>b. refc p b \<le> refc p1 b)
    \<and> sub m1 = sub m \<and> mgr_block_size m1 = mgr_block_size m
    \<and> int (length (blocks_of m1 rid)) = (if dict_get (num_cached_block m) rid \<noteq> None then int (length (blocks_of m rid))
          else int (max (skipped_blocks m (nl + ne)) (length bs)) + external_blocks m bs nl ne)"
proof (cases "dict_get (num_cached_block m) rid = None")
  case False
  then show ?thesis using pre
    by (auto simp: base_allocate_new_computed_blocks_def computed_cost_def computed_pre_def)
next
  case True
  let ?sk = "skipped_blocks m (nl + ne)"
  let ?ext = "external_blocks m bs nl ne" and ?C = "(if 0 < skipped_blocks m (nl + ne) then
      min (nl + ne - get_num_skipped_tokens m (nl + ne)) ne else ne) > 0"
  obtain xs where rep: "pool_rep p xs" using mgr_inv_rep[OF inv] by blast
  have so: "sub_ok m" "0 < mgr_block_size m" "computed_ok p m bs (nl + ne)"
    using inv pre by (auto simp: mgr_inv_def mgr_ok_def computed_pre_def)
  have tab: "table_ok p (drop ?sk bs)" using so(3) table_ok_drop by (simp add: computed_ok_def)
  have e0: "0 \<le> ?ext" by (rule external_blocks_nonneg[OF so])
  let ?ev = "get_num_evictable_blocks p (drop ?sk bs)"
  have cost: "computed_cost rid bs nl ne m p = ?ev + ?ext" using True by (simp add: computed_cost_def)
  obtain p1 where p1: "touch (drop ?sk bs) p = Inr p1" "get_num_free_blocks p1 = get_num_free_blocks p - ?ev"
    "\<forall>b. refc p b \<le> refc p1 b" "pool_inv p1" using touch_free[OF rep tab] by blast
  note eq = computed_eq[OF inv pre True, unfolded p1(1) rbind.simps]
  show ?thesis
  proof (cases ?C)
    case False
    then have "?ext = 0" by (simp add: external_blocks_def)
    then show ?thesis unfolding eq if_not_P[OF False] using p1 cost True by (auto simp: blocks_of_def set_blocks_def)
  next
    case C: True
    obtain ys where rep1: "pool_rep p1 ys" using p1(4) by (auto simp: pool_inv_def)
    have "?ext \<le> get_num_free_blocks p1" using fit cost p1(2) by simp
    from alloc_free[OF rep1 e0 this] obtain al p2 where g: "get_new_blocks ?ext p1 = Inr (al, p2)"
      "get_num_free_blocks p2 = get_num_free_blocks p1 - ?ext" "\<forall>b. refc p1 b \<le> refc p2 b" "int (length al) = ?ext" by blast
    have mono: "\<forall>b. refc p b \<le> refc p2 b" using p1(3) g(3) order_trans by blast
    show ?thesis unfolding eq if_P[OF C] g(1) rbind.simps prod.case
      using p1 g mono cost True by (auto simp: blocks_of_def set_blocks_def)
  qed
qed

lemma alloc_fits:
  assumes inv: "mgr_inv oth m p" and fit: "max 0 (cdiv n (mgr_block_size m) - int (length (blocks_of m rid))) \<le> get_num_free_blocks p"
  shows "\<exists>new m1 p1. base_allocate_new_blocks rid n (m, p) = Inr (new, m1, p1)
    \<and> get_num_free_blocks p1 = get_num_free_blocks p - max 0 (cdiv n (mgr_block_size m) - int (length (blocks_of m rid)))
    \<and> (\<forall>b. refc p b \<le> refc p1 b)
    \<and> int (length (blocks_of m1 rid)) = max (int (length (blocks_of m rid))) (cdiv n (mgr_block_size m))"
proof -
  let ?n = "cdiv n (mgr_block_size m) - int (length (blocks_of m rid))"
  show ?thesis
  proof (cases "?n \<le> 0")
    case True
    then show ?thesis by (auto simp: base_allocate_new_blocks_def Let_def)
  next
    case False
    obtain xs where rep: "pool_rep p xs" using mgr_inv_rep[OF inv] by blast
    obtain new p1 where g: "get_new_blocks ?n p = Inr (new, p1)" "get_num_free_blocks p1 = get_num_free_blocks p - ?n"
      "\<forall>b. refc p b \<le> refc p1 b" "int (length new) = ?n"
      using alloc_free[OF rep, of ?n] False fit by auto
    then show ?thesis using False by (simp add: base_allocate_new_blocks_def Let_def)
  qed
qed

lemma managers_inv_member:
  assumes "managers_inv oth ms p" "m \<in> set ms"
  shows "\<exists>oth'. mgr_inv oth' m p"
  using assms
proof (induction ms arbitrary: oth)
  case (Cons m' ms)
  have nn: "\<forall>b. 0 \<le> oth b" using Cons.prems(1) by (simp add: managers_inv_def)
  have "mgr_ok m' p" using Cons.prems(1) by (simp add: managers_inv_def)
  then show ?case using Cons managers_inv_Cons[OF nn] by (metis set_ConsD)
qed simp

text \<open>
  The contract of a step with a cost: if the free blocks cover the cost, the step succeeds, takes
  exactly that many free blocks and releases none, and the manager satisfies \<open>post\<close>; the cost never
  grows while others take blocks.
\<close>

locale budgeted_step = manager_step step "\<lambda>p. p" ok
  for step :: "int \<Rightarrow> manager \<Rightarrow> block_pool \<Rightarrow> ('b \<times> manager \<times> block_pool) result" and ok +
  fixes cost :: "int \<Rightarrow> manager \<Rightarrow> block_pool \<Rightarrow> int"
    and post :: "int \<Rightarrow> manager \<Rightarrow> manager \<Rightarrow> bool"
  assumes step_fits: "mgr_inv oth m p \<Longrightarrow> ok i m p \<Longrightarrow> cost i m p \<le> get_num_free_blocks p \<Longrightarrow>
      \<exists>x m' p'. step i m p = Inr (x, m', p') \<and> get_num_free_blocks p' = get_num_free_blocks p - cost i m p
        \<and> (\<forall>b. refc p b \<le> refc p' b) \<and> post i m m'"
    and cost_nonneg: "mgr_inv oth m p \<Longrightarrow> ok i m p \<Longrightarrow> 0 \<le> cost i m p"
    and cost_antimono: "pool_inv p \<Longrightarrow> pool_inv p' \<Longrightarrow> same_config p p' \<Longrightarrow> \<forall>b. refc p b \<le> refc p' b \<Longrightarrow> ok i m p \<Longrightarrow>
      cost i m p' \<le> cost i m p"
begin

definition loop_cost :: "int \<Rightarrow> manager list \<Rightarrow> block_pool \<Rightarrow> int" where
  "loop_cost i ms p = sum_list (map (\<lambda>j. cost (i + int j) (ms ! j) p) [0..<length ms])"

lemma loop_cost_Cons: "loop_cost i (m # ms) p = cost i m p + loop_cost (i + 1) ms p"
proof -
  have "map (\<lambda>j. cost (i + int j) ((m # ms) ! j) p) [0..<Suc (length ms)]
      = cost i m p # map (\<lambda>j. cost (i + 1 + int j) (ms ! j) p) [0..<length ms]"
    by (simp add: map_upt_Suc algebra_simps del: upt_Suc)
  then show ?thesis by (simp add: loop_cost_def del: upt_Suc)
qed

lemma loop_fits:
  assumes "managers_inv oth ms p" "\<forall>j < length ms. ok (i + int j) (ms ! j) p" "loop_cost i ms p \<le> get_num_free_blocks p"
  shows "\<exists>xs ms' p'. for_managers step i ms p = Inr (xs, ms', p')
    \<and> get_num_free_blocks p - loop_cost i ms p \<le> get_num_free_blocks p' \<and> (\<forall>b. refc p b \<le> refc p' b)
    \<and> (\<forall>j < length ms. post (i + int j) (ms ! j) (ms' ! j))"
  using assms
proof (induction ms arbitrary: i p oth)
  case Nil
  then show ?case by (simp add: loop_cost_def)
next
  case (Cons m ms)
  have nn: "\<forall>b. 0 \<le> oth b" using Cons.prems(1) by (simp add: managers_inv_def)
  have inv: "mgr_inv (\<lambda>b. oth b + held_all ms b) m p" using Cons.prems(1) managers_inv_Cons(1)[OF nn] by auto
  have ok: "ok i m p" using Cons.prems(2) by force
  have c0: "0 \<le> loop_cost (i + 1) ms p" unfolding loop_cost_def
  proof (rule sum_list_nonneg)
    fix x assume "x \<in> set (map (\<lambda>j. cost (i + 1 + int j) (ms ! j) p) [0..<length ms])"
    then obtain j where j: "j < length ms" "x = cost (i + 1 + int j) (ms ! j) p" by auto
    have okj: "ok (i + 1 + int j) (ms ! j) p" using Cons.prems(2)[rule_format, of "Suc j"] j by (simp add: algebra_simps)
    have "mgr_ok (ms ! j) p" "pool_inv p" using Cons.prems(1) j by (auto simp: managers_inv_def)
    then obtain oth' where "mgr_inv oth' (ms ! j) p" using managers_inv_member[OF Cons.prems(1), of "ms ! j"] j by auto
    then show "0 \<le> x" using cost_nonneg okj j by blast
  qed
  have tot: "loop_cost i (m # ms) p = cost i m p + loop_cost (i + 1) ms p" by (rule loop_cost_Cons)
  then obtain x m1 p1 where s1: "step i m p = Inr (x, m1, p1)" "get_num_free_blocks p1 = get_num_free_blocks p - cost i m p"
    "\<forall>b. refc p b \<le> refc p1 b" "post i m m1" using step_fits[OF inv ok] Cons.prems(3) c0 by force
  note adv = advance[OF Cons.prems(1,2) s1(1)]
  have pi: "pool_inv p" "pool_inv p1" using Cons.prems(1) adv(1) by (auto simp: managers_inv_def)
  have le: "loop_cost (i + 1) ms p1 \<le> loop_cost (i + 1) ms p" unfolding loop_cost_def
  proof (rule sum_list_mono)
    fix j assume "j \<in> set [0..<length ms]"
    then have "ok (i + 1 + int j) (ms ! j) p" using Cons.prems(2)[rule_format, of "Suc j"] by (simp add: algebra_simps)
    then show "cost (i + 1 + int j) (ms ! j) p1 \<le> cost (i + 1 + int j) (ms ! j) p"
      using cost_antimono[OF pi adv(3) s1(3)] by blast
  qed
  then have "loop_cost (i + 1) ms p1 \<le> get_num_free_blocks p1" using Cons.prems(3) tot s1(2) by linarith
  from Cons.IH[OF adv(1,4) this] obtain xs ms' p' where r: "for_managers step (i + 1) ms p1 = Inr (xs, ms', p')"
    "get_num_free_blocks p1 - loop_cost (i + 1) ms p1 \<le> get_num_free_blocks p'" "\<forall>b. refc p1 b \<le> refc p' b" "\<forall>j < length ms. post (i + 1 + int j) (ms ! j) (ms' ! j)" by blast
  have "\<forall>j < length (m # ms). post (i + int j) ((m # ms) ! j) ((m1 # ms') ! j)"
  proof (intro allI impI)
    fix j assume "j < length (m # ms)"
    then show "post (i + int j) ((m # ms) ! j) ((m1 # ms') ! j)"
      using s1(4) r(4) by (cases j) (auto simp: algebra_simps)
  qed
  moreover have "\<forall>b. refc p b \<le> refc p' b" using s1(3) r(3) order_trans by blast
  moreover have "get_num_free_blocks p - loop_cost i (m # ms) p \<le> get_num_free_blocks p'" using r(2) le s1(2) tot by linarith
  ultimately show ?case using s1(1) r(1) by simp
qed

end

lemma alloc_step_cost:
  assumes "mgr_inv oth m p" "plain m" "max 0 (cdiv n (mgr_block_size m) - int (length (blocks_of m rid))) \<le> get_num_free_blocks p"
  shows "\<exists>x m' p'. co_alloc_step rid n main enc i m p = Inr (x, m', p')
    \<and> get_num_free_blocks p' = get_num_free_blocks p - max 0 (cdiv n (mgr_block_size m) - int (length (blocks_of m rid)))
    \<and> (\<forall>b. refc p b \<le> refc p' b) \<and> cdiv n (mgr_block_size m) \<le> int (length (blocks_of m' rid))"
  using alloc_fits[OF assms(1,3)] plain_simps(1,3)[OF assms(2)] by (fastforce simp: co_alloc_step_def)

interpretation alloc_budget: budgeted_step "co_alloc_step rid n main enc" "\<lambda>_ m _. 0 \<le> main \<and> plain m"
  "\<lambda>_ m _. max 0 (cdiv n (mgr_block_size m) - int (length (blocks_of m rid)))"
  "\<lambda>_ m m'. cdiv n (mgr_block_size m) \<le> int (length (blocks_of m' rid))" for rid n main enc
proof unfold_locales
  show "mgr_inv oth m' s' \<and> same_config s s'"
    if "mgr_inv oth m s" "0 \<le> main \<and> plain m" "co_alloc_step rid n main enc i m s = Inr (x, m', s')" for oth m s i x m' s'
    using alloc_steps.step_inv that by blast
qed (use alloc_step_cost in blast | simp)+

text \<open>What the computed blocks of one manager cost, and how many slots the table has afterwards.\<close>

definition computed_len :: "string \<Rightarrow> bref list \<Rightarrow> int \<Rightarrow> int \<Rightarrow> manager \<Rightarrow> int" where
  "computed_len rid bs nl ne m =
     (if dict_get (num_cached_block m) rid \<noteq> None then int (length (blocks_of m rid))
      else int (max (skipped_blocks m (nl + ne)) (length bs)) + external_blocks m bs nl ne)"

lemma computed_step_cost:
  assumes "mgr_inv oth m p" "i < int (length computed)" "0 \<le> i" "computed_pre rid (computed ! nat i) nl ne m p"
    "computed_cost rid (computed ! nat i) nl ne m p \<le> get_num_free_blocks p"
  shows "\<exists>x m' p'. co_computed_step rid computed nl ne i m p = Inr (x, m', p')
    \<and> get_num_free_blocks p' = get_num_free_blocks p - computed_cost rid (computed ! nat i) nl ne m p
    \<and> (\<forall>b. refc p b \<le> refc p' b) \<and> plain m' \<and> mgr_block_size m' = mgr_block_size m
    \<and> int (length (blocks_of m' rid)) = computed_len rid (computed ! nat i) nl ne m"
proof -
  have pl: "plain m" using assms(4) by (simp add: computed_pre_def)
  have ix: "py_index computed i = Inr (computed ! nat i)" using assms(2,3) by (simp add: py_index_def)
  show ?thesis
    using computed_fits[OF assms(1,4,5)] pl unfolding co_computed_step_def ix rbind.simps plain_simps(2)[OF pl]
    by (auto simp: computed_len_def plain_def)
qed

interpretation computed_budget: budgeted_step "co_computed_step rid computed nl ne"
  "\<lambda>i m p. i < int (length computed) \<and> 0 \<le> i \<and> computed_pre rid (computed ! nat i) nl ne m p"
  "\<lambda>i m p. computed_cost rid (computed ! nat i) nl ne m p"
  "\<lambda>i m m'. plain m' \<and> mgr_block_size m' = mgr_block_size m
     \<and> int (length (blocks_of m' rid)) = computed_len rid (computed ! nat i) nl ne m" for rid computed nl ne
proof unfold_locales
  fix oth m s i x m' s'
  assume ok: "i < int (length computed) \<and> 0 \<le> i \<and> computed_pre rid (computed ! nat i) nl ne m s"
  assume inv: "mgr_inv oth m s"
  show "0 \<le> computed_cost rid (computed ! nat i) nl ne m s"
    using external_blocks_nonneg[of m s "computed ! nat i" nl ne] inv ok
    by (auto simp: computed_cost_def get_num_evictable_blocks_def mgr_inv_def mgr_ok_def computed_pre_def)
  have "computed_ok s m (computed ! nat i) (nl + ne)" using ok by (simp add: computed_pre_def)
  moreover have "py_index computed i = Inr (computed ! nat i)" using ok by (simp add: py_index_def)
  moreover assume "co_computed_step rid computed nl ne i m s = Inr (x, m', s')"
  ultimately show "mgr_inv oth m' s' \<and> same_config s s'" using computed_steps.step_inv[OF inv] by force
next
  fix p p' i m
  assume cfg: "same_config p p'" and ok: "i < int (length computed) \<and> 0 \<le> i \<and> computed_pre rid (computed ! nat i) nl ne m p"
  then show "i < int (length computed) \<and> 0 \<le> i \<and> computed_pre rid (computed ! nat i) nl ne m p'"
    by (simp add: computed_pre_def computed_ok_def table_ok_cong)
  assume "pool_inv p" "pool_inv p'" "\<forall>b. refc p b \<le> refc p' b"
  moreover have "table_ok p (drop (skipped_blocks m (nl + ne)) (computed ! nat i))"
    using ok table_ok_drop by (auto simp: computed_pre_def computed_ok_def)
  ultimately show "computed_cost rid (computed ! nat i) nl ne m p' \<le> computed_cost rid (computed ! nat i) nl ne m p"
    using evictable_antimono cfg by (simp add: computed_cost_def)
qed (use computed_step_cost in blast)

text \<open>
  What the predictor counts for one manager is what the two allocations cost; the second branch is
  a request whose computed blocks are all in its table already.
\<close>

lemma predict_computed:
  assumes inv: "mgr_inv oth m p" and pre: "computed_pre rid bs nl ne m p" and n: "nl + ne \<le> n"
  shows "base_num_blocks_to_allocate p m rid n bs (nl + ne) False =
    Inr (computed_cost rid bs nl ne m p + max 0 (cdiv n (mgr_block_size m) - computed_len rid bs nl ne m))"
proof (cases "dict_get (num_cached_block m) rid = None")
  case False
  then show ?thesis using pre
    by (auto simp: base_num_blocks_to_allocate_def Let_def computed_cost_def computed_len_def computed_pre_def split: option.splits)
next
  case True
  let ?b = "mgr_block_size m" and ?skt = "get_num_skipped_tokens m (nl + ne)"
  have ok: "plain m" "sub_ok m" "0 < ?b" "0 \<le> nl + ne" "blocks_of m rid = []" "computed_ok p m bs (nl + ne)"
    using pre inv True by (auto simp: computed_pre_def computed_ok_def mgr_inv_def mgr_ok_def)
  have "0 \<le> ?skt div ?b" using plain_skipped[OF ok(1,2,4)] ok(3) by (simp add: pos_imp_zdiv_nonneg_iff)
  then have sk: "?skt div ?b = int (skipped_blocks m (nl + ne))" by (simp add: skipped_blocks_def)
  have mono: "cdiv (nl + ne) ?b \<le> cdiv n ?b" using cdiv_mono[OF ok(3) n] .
  have "max (cdiv n ?b - max (int (skipped_blocks m (nl + ne))) (int (length bs))) 0
      = external_blocks m bs nl ne + max 0 (cdiv n ?b - computed_len rid bs nl ne m)"
    using external_blocks_nonneg[OF ok(2,3,6)] mono True unfolding computed_len_def external_blocks_def
    by (auto simp: of_nat_max)
  then show ?thesis using True ok(5)
    by (simp add: base_num_blocks_to_allocate_def Let_def sk computed_cost_def py_from_nonneg split: option.splits)
qed

lemma predict_running:
  assumes "0 < mgr_block_size m" "get_num_skipped_tokens m t div mgr_block_size m \<le> int (length (blocks_of m rid))"
  shows "base_num_blocks_to_allocate p m rid n [] t False =
    Inr (max 0 (cdiv n (mgr_block_size m) - int (length (blocks_of m rid))))"
proof -
  have "get_num_evictable_blocks p (py_from [] k) = 0" for k
    by (simp add: get_num_evictable_blocks_def py_from_def py_slice_def)
  then show ?thesis using assms(2)
    by (auto simp: base_num_blocks_to_allocate_def Let_def max_absorb2 split: option.splits)
qed

lemma for_managers_pure:
  assumes "\<forall>j < length ms. f (i + int j) (ms ! j) s = Inr (g j, ms ! j, s)"
  shows "for_managers f i ms s = Inr (map g [0..<length ms], ms, s)"
  using assms
proof (induction ms arbitrary: i g)
  case (Cons m ms)
  have h: "f i m s = Inr (g 0, m, s)" using Cons.prems[rule_format, of 0] by simp
  have "\<forall>j < length ms. f (i + 1 + int j) (ms ! j) s = Inr (g (Suc j), ms ! j, s)"
    using Cons.prems[rule_format, of "Suc _"] by (simp add: algebra_simps)
  from Cons.IH[OF this] h show ?case by (simp add: map_upt_Suc del: upt_Suc)
qed simp

lemma map_upt_nth: "map (\<lambda>j. f (xs ! j)) [0..<length xs] = map f xs"
  by (rule nth_equalityI) auto

text \<open>The two allocations of the coordinator, given a predicted number of blocks that is free.\<close>

definition alloc_cost :: "string \<Rightarrow> int \<Rightarrow> coordinator \<Rightarrow> int" where
  "alloc_cost rid n c =
     sum_list (map (\<lambda>m. max 0 (cdiv n (mgr_block_size m) - int (length (blocks_of m rid)))) (single_type_managers c))"

lemma alloc_cost_loop: "alloc_budget.loop_cost n rid 0 ms p = alloc_cost rid n (with_managers c ms p)"
  unfolding alloc_budget.loop_cost_def alloc_cost_def
  by (simp add: map_upt_nth[of "\<lambda>m. max 0 (cdiv n (mgr_block_size m) - int (length (blocks_of m rid)))" ms])

lemma co_alloc_fits:
  assumes inv: "co_inv c" and plain: "list_all plain (single_type_managers c)" and main: "0 \<le> main"
    and fit: "alloc_cost rid n c \<le> get_num_free_blocks (co_pool c)"
  shows "\<exists>bss c2. co_allocate_new_blocks rid n main enc c = Inr (bss, c2) \<and> co_inv c2
    \<and> get_num_free_blocks (co_pool c) - alloc_cost rid n c \<le> get_num_free_blocks (co_pool c2)
    \<and> list_all2 (\<lambda>m m2. cdiv n (mgr_block_size m) \<le> int (length (blocks_of m2 rid))) (single_type_managers c) (single_type_managers c2)"
proof -
  let ?ms = "single_type_managers c" and ?p = "co_pool c"
  have ok: "\<forall>j < length ?ms. 0 \<le> main \<and> plain (?ms ! j)" using plain main by (simp add: list_all_length)
  have inv': "managers_inv (\<lambda>_. 0) ?ms ?p" using inv by (simp add: co_inv_def)
  have fit': "alloc_budget.loop_cost n rid 0 ?ms ?p \<le> get_num_free_blocks ?p"
    using fit alloc_cost_loop[of n rid ?ms ?p c] by simp
  from alloc_budget.loop_fits[OF inv' ok fit'] obtain xs ms' p' where
    r: "for_managers (co_alloc_step rid n main enc) 0 ?ms ?p = Inr (xs, ms', p')"
      "get_num_free_blocks ?p - alloc_cost rid n c \<le> get_num_free_blocks p'"
      "\<forall>j < length ?ms. cdiv n (mgr_block_size (?ms ! j)) \<le> int (length (blocks_of (ms' ! j) rid))"
    unfolding alloc_cost_loop[of n rid ?ms ?p c] with_managers_simps by blast
  have k: "managers_inv (\<lambda>_. 0) ms' p'" "length ms' = length ?ms"
    using alloc_steps.loop_inv[OF inv' _ r(1)] main by auto
  then show ?thesis using r
    by (auto simp: co_allocate_new_blocks_def co_inv_def list_all2_conv_all_nth)
qed

definition computed_ready :: "string \<Rightarrow> bref list list \<Rightarrow> int \<Rightarrow> int \<Rightarrow> coordinator \<Rightarrow> bool" where
  "computed_ready rid computed nl ne c \<longleftrightarrow>
     list_all2 (\<lambda>bs m. computed_pre rid bs nl ne m (co_pool c)) computed (single_type_managers c)"

definition co_computed_cost :: "string \<Rightarrow> bref list list \<Rightarrow> int \<Rightarrow> int \<Rightarrow> coordinator \<Rightarrow> int" where
  "co_computed_cost rid computed nl ne c = computed_budget.loop_cost rid computed nl ne 0 (single_type_managers c) (co_pool c)"

lemma co_computed_fits:
  assumes inv: "co_inv c" and ready: "computed_ready rid computed nl ne c"
    and fit: "co_computed_cost rid computed nl ne c \<le> get_num_free_blocks (co_pool c)"
  shows "\<exists>c1. co_allocate_new_computed_blocks rid computed nl ne c = Inr c1 \<and> co_inv c1
    \<and> list_all plain (single_type_managers c1)
    \<and> get_num_free_blocks (co_pool c) - co_computed_cost rid computed nl ne c \<le> get_num_free_blocks (co_pool c1)
    \<and> map mgr_block_size (single_type_managers c1) = map mgr_block_size (single_type_managers c)
    \<and> alloc_cost rid n c1 = sum_list (map (\<lambda>j. max 0 (cdiv n (mgr_block_size (single_type_managers c ! j))
         - computed_len rid (computed ! j) nl ne (single_type_managers c ! j))) [0..<length (single_type_managers c)])"
proof -
  let ?ms = "single_type_managers c" and ?p = "co_pool c"
  have len: "length computed = length ?ms" using ready by (auto simp: computed_ready_def list_all2_lengthD)
  have ok: "\<forall>j < length ?ms. 0 + int j < int (length computed) \<and> 0 \<le> 0 + int j
      \<and> computed_pre rid (computed ! nat (0 + int j)) nl ne (?ms ! j) ?p"
    using ready len by (auto simp: computed_ready_def list_all2_conv_all_nth)
  have inv': "managers_inv (\<lambda>_. 0) ?ms ?p" using inv by (simp add: co_inv_def)
  obtain xs ms1 p1 where r: "for_managers (co_computed_step rid computed nl ne) 0 ?ms ?p = Inr (xs, ms1, p1)"
      "get_num_free_blocks ?p - co_computed_cost rid computed nl ne c \<le> get_num_free_blocks p1"
      "\<forall>j < length ?ms. plain (ms1 ! j) \<and> mgr_block_size (ms1 ! j) = mgr_block_size (?ms ! j)
         \<and> int (length (blocks_of (ms1 ! j) rid)) = computed_len rid (computed ! nat (0 + int j)) nl ne (?ms ! j)"
    using computed_budget.loop_fits[OF inv' ok fit[unfolded co_computed_cost_def]] unfolding co_computed_cost_def by blast
  have k: "managers_inv (\<lambda>_. 0) ms1 p1" "length ms1 = length ?ms"
    using computed_budget.loop_inv[OF inv' ok r(1)] by auto
  have "map (\<lambda>m. max 0 (cdiv n (mgr_block_size m) - int (length (blocks_of m rid)))) ms1
      = map (\<lambda>j. max 0 (cdiv n (mgr_block_size (?ms ! j)) - computed_len rid (computed ! j) nl ne (?ms ! j))) [0..<length ?ms]"
    using r(3) k(2) by (intro nth_equalityI) auto
  moreover have "map mgr_block_size ms1 = map mgr_block_size ?ms" using r(3) k(2) by (intro nth_equalityI) auto
  ultimately show ?thesis using r k
    by (simp add: co_allocate_new_computed_blocks_def co_inv_def list_all_length alloc_cost_def)
qed

lemma co_predict_computed:
  assumes inv: "co_inv c" and ready: "computed_ready rid computed nl ne c" and n: "nl + ne \<le> n"
  shows "co_get_num_blocks_to_allocate rid n computed enc (nl + ne) main False c =
    Inr (co_computed_cost rid computed nl ne c + sum_list (map (\<lambda>j. max 0 (cdiv n (mgr_block_size (single_type_managers c ! j))
      - computed_len rid (computed ! j) nl ne (single_type_managers c ! j))) [0..<length (single_type_managers c)]), c)"
proof -
  let ?ms = "single_type_managers c" and ?p = "co_pool c"
  let ?g = "\<lambda>j. computed_cost rid (computed ! j) nl ne (?ms ! j) ?p
    + max 0 (cdiv n (mgr_block_size (?ms ! j)) - computed_len rid (computed ! j) nl ne (?ms ! j))"
  have "co_num_blocks_step rid n computed enc (nl + ne) main False (0 + int j) (?ms ! j) ?p = Inr (?g j, ?ms ! j, ?p)"
    if j: "j < length ?ms" for j
  proof -
    have pre: "computed_pre rid (computed ! j) nl ne (?ms ! j) ?p" "j < length computed"
      using ready j by (auto simp: computed_ready_def list_all2_conv_all_nth)
    obtain oth where "mgr_inv oth (?ms ! j) ?p" using inv managers_inv_member[of _ ?ms ?p "?ms ! j"] j by (auto simp: co_inv_def)
    from predict_computed[OF this pre(1) n] pre show ?thesis
      using plain_simps(5)[of "?ms ! j"] by (simp add: computed_pre_def py_index_def)
  qed
  then have "for_managers (co_num_blocks_step rid n computed enc (nl + ne) main False) 0 ?ms ?p
      = Inr (map ?g [0..<length ?ms], ?ms, ?p)" by (intro for_managers_pure) blast
  then show ?thesis
    by (simp add: co_get_num_blocks_to_allocate_def sum_list_addf co_computed_cost_def computed_budget.loop_cost_def)
qed

text \<open>A request without new computed blocks: the predictor counts what \<open>allocate_new_blocks\<close> takes.\<close>

definition running_ready :: "string \<Rightarrow> int \<Rightarrow> coordinator \<Rightarrow> bool" where
  "running_ready rid t c \<longleftrightarrow> list_all (\<lambda>m. plain m
     \<and> get_num_skipped_tokens m t div mgr_block_size m \<le> int (length (blocks_of m rid))) (single_type_managers c)"

lemma co_predict_running:
  assumes inv: "co_inv c" and ready: "running_ready rid t c" and emp: "computed = replicate (length (single_type_managers c)) []"
  shows "co_get_num_blocks_to_allocate rid n computed enc t main False c = Inr (alloc_cost rid n c, c)"
proof -
  let ?ms = "single_type_managers c" and ?p = "co_pool c"
  let ?f = "\<lambda>m. max 0 (cdiv n (mgr_block_size m) - int (length (blocks_of m rid)))"
  have "co_num_blocks_step rid n computed enc t main False (0 + int j) (?ms ! j) ?p = Inr (?f (?ms ! j), ?ms ! j, ?p)"
    if j: "j < length ?ms" for j
  proof -
    have pl: "plain (?ms ! j)" "get_num_skipped_tokens (?ms ! j) t div mgr_block_size (?ms ! j) \<le> int (length (blocks_of (?ms ! j) rid))"
      using ready j by (auto simp: running_ready_def list_all_length)
    have "0 < mgr_block_size (?ms ! j)" using inv j by (auto simp: co_inv_def managers_inv_def mgr_ok_def)
    from predict_running[OF this pl(2)] pl(1) j show ?thesis using plain_simps(5)[OF pl(1)] by (simp add: py_index_def emp)
  qed
  then have "for_managers (co_num_blocks_step rid n computed enc t main False) 0 ?ms ?p
      = Inr (map (\<lambda>j. ?f (?ms ! j)) [0..<length ?ms], ?ms, ?p)" by (intro for_managers_pure) blast
  then show ?thesis by (simp add: co_get_num_blocks_to_allocate_def alloc_cost_def map_upt_nth[of ?f ?ms])
qed

end
