(* ===== verification/Request_Frame.thy ===== *)
theory Request_Frame
  imports Coordinator
begin

section \<open>What an operation on one request leaves alone\<close>

text \<open>
  Every operation of the managers and of the coordinator names one request. \<open>mgr_frame rid\<close> says that a
  manager keeps its configuration and the block tables of all requests but \<open>rid\<close>; \<open>co_frame rid\<close> says it for
  all managers of a coordinator. There is one frame lemma per operation.
\<close>

definition mgr_frame :: "string \<Rightarrow> manager \<Rightarrow> manager \<Rightarrow> bool" where
  "mgr_frame rid m m' \<longleftrightarrow> mgr_block_size m' = mgr_block_size m \<and> mgr_enable_caching m' = mgr_enable_caching m
     \<and> class_of (sub m') = class_of (sub m) \<and> (\<forall>r. r \<noteq> rid \<longrightarrow> blocks_of m' r = blocks_of m r)"

lemma mgr_frame_refl [simp]: "mgr_frame rid m m"
  by (simp add: mgr_frame_def)

lemma mgr_frame_trans: "mgr_frame rid m m1 \<Longrightarrow> mgr_frame rid m1 m2 \<Longrightarrow> mgr_frame rid m m2"
  by (simp add: mgr_frame_def)

lemma mgr_frame_set_blocks [simp]: "mgr_frame rid m (set_blocks rid bs m') = mgr_frame rid m m'"
  by (simp add: mgr_frame_def set_blocks_def blocks_of_def dict_get_default_def)

lemma mgr_frame_touch [simp]: "mgr_frame rid m (touch_req rid m') = mgr_frame rid m m'"
  by (simp add: touch_req_def)

lemma mgr_frame_fields [simp]:
  "mgr_frame rid m (m'\<lparr>num_cached_block := x\<rparr>) = mgr_frame rid m m'"
  "mgr_frame rid m (m'\<lparr>new_block_ids := y\<rparr>) = mgr_frame rid m m'"
  "mgr_frame rid m (note_new_ids p bs m') = mgr_frame rid m m'"
  by (simp_all add: mgr_frame_def blocks_of_def note_new_ids_def)

lemma mgr_frame_sub [simp]: "mgr_frame rid m (m'\<lparr>sub := MambaManager s\<rparr>) \<longleftrightarrow> 
   (mgr_frame rid m (m'\<lparr>sub := sub m\<rparr>) \<and> class_of (sub m) = M_MambaManager)"
  by (auto simp: mgr_frame_def blocks_of_def)

lemma base_remove_frame: "base_remove_skipped_blocks rid n (m, p) = Inr (m', p') \<Longrightarrow> mgr_frame rid m m'"
  by (auto simp: base_remove_skipped_blocks_def Let_def rbind_eq_Inr_iff split: if_splits prod.splits)

lemma mamba_state_frame: "mamba_free_state_block rid i (m, p) = Inr (m', p') \<Longrightarrow> mgr_frame rid m m'"
  by (auto simp: mamba_free_state_block_def Let_def rbind_eq_Inr_iff split: if_splits)

lemma remove_frame: "remove_skipped_blocks rid n (m, p) = Inr (m', p') \<Longrightarrow> mgr_frame rid m m'"
  unfolding remove_skipped_blocks_def mamba_remove_skipped_blocks_def
  by (auto simp: Let_def rbind_eq_Inr_iff split: manager_sub.splits if_splits option.splits
      dest: base_remove_frame mamba_state_frame intro: mgr_frame_trans)

lemma count_frame: "get_num_blocks_to_allocate p m rid n bs t main cap = Inr (k, m') \<Longrightarrow> mgr_frame rid m m'"
  by (auto simp: get_num_blocks_to_allocate_def mamba_align_num_blocks_to_allocate_def Let_def rbind_eq_Inr_iff
      split: manager_sub.splits if_splits option.splits)

lemma computed_frame: "allocate_new_computed_blocks rid bs nl ne (m, p) = Inr (m', p') \<Longrightarrow> mgr_frame rid m m'"
  by (auto simp: allocate_new_computed_blocks_def base_allocate_new_computed_blocks_def Let_def rbind_eq_Inr_iff
      split: manager_sub.splits if_splits)

lemma base_alloc_frame: "base_allocate_new_blocks rid n (m, p) = Inr (new, m', p') \<Longrightarrow> mgr_frame rid m m'"
  by (auto simp: base_allocate_new_blocks_def Let_def rbind_eq_Inr_iff split: if_splits)

lemma mamba_alloc_frame:
  assumes "mamba_align_allocate_new_blocks ms rid n (m, p) = Inr (new, m', p')" "class_of (sub m) = M_MambaManager"
  shows "mgr_frame rid m m'"
proof -
  have keep: "mgr_frame rid m ((set_blocks rid req (touch_req rid m))\<lparr>sub := MambaManager s\<rparr>)" for req s
    using assms(2) by (simp add: mgr_frame_def blocks_of_def set_blocks_def touch_req_def dict_get_default_def)
  show ?thesis using assms(1) keep unfolding mamba_align_allocate_new_blocks_def
    by (auto simp: Let_def rbind_eq_Inr_iff split: if_splits)
qed

lemma alloc_frame: "allocate_new_blocks rid n main (m, p) = Inr (new, m', p') \<Longrightarrow> mgr_frame rid m m'"
  unfolding allocate_new_blocks_def
  by (auto split: manager_sub.splits if_splits dest: base_alloc_frame mamba_alloc_frame)

lemma pop_request_frame: "mgr_frame rid m (pop_request rid m)"
  by (simp add: mgr_frame_def pop_request_def blocks_of_def dict_get_default_def)

lemma free_frame: "mgr_free rid (m, p) = Inr (m', p') \<Longrightarrow> mgr_frame rid m m' \<and> blocks_of m' rid = []"
proof -
  have "mgr_frame rid m (pop_request rid (mamba_forget rid m s)) \<and> blocks_of (pop_request rid (mamba_forget rid m s)) rid = []"
    if "sub m = MambaManager s" for s
    using that by (simp add: mgr_frame_def pop_request_def mamba_forget_def blocks_of_def dict_get_default_def)
  moreover have "blocks_of (pop_request rid m) rid = []" by (simp add: pop_request_def blocks_of_def dict_get_default_def)
  moreover assume "mgr_free rid (m, p) = Inr (m', p')"
  ultimately show ?thesis using pop_request_frame unfolding mgr_free_def base_free_def sliding_free_def
    by (auto simp: Let_def rbind_eq_Inr_iff split: manager_sub.splits)
qed

lemma base_cache_frame: "base_cache_blocks r n ret (m, p) = Inr (r', m', p') \<Longrightarrow> mgr_frame rid m m'"
  by (auto simp: base_cache_blocks_def Let_def rbind_eq_Inr_iff touch_req_def mgr_frame_def set_blocks_def blocks_of_def
      dict_get_default_def split: if_splits)

lemma cache_frame: "cache_blocks r n ret (m, p) = Inr (r', m', p') \<Longrightarrow> mgr_frame rid m m'"
proof -
  have sub: "mgr_frame rid m (m1\<lparr>sub := MambaManager t\<rparr>)" if "sub m = MambaManager s" "mgr_frame rid m m1" for m1 s t
    using that by (simp add: mgr_frame_def blocks_of_def)
  assume "cache_blocks r n ret (m, p) = Inr (r', m', p')"
  then show ?thesis unfolding cache_blocks_def mamba_cache_blocks_def
    by (auto simp: Let_def rbind_eq_Inr_iff split: manager_sub.splits if_splits dest: base_cache_frame intro: sub)
qed

lemma for_managers_rel:
  assumes "for_managers f i ms s = Inr (xs, ms', s')"
    and "\<And>i m s x m' s'. f i m s = Inr (x, m', s') \<Longrightarrow> R m m'"
  shows "list_all2 R ms ms'"
  using assms(1)
  by (induction ms arbitrary: i s xs ms') (auto simp: rbind_eq_Inr_iff dest: assms(2))

definition co_frame :: "string \<Rightarrow> coordinator \<Rightarrow> coordinator \<Rightarrow> bool" where
  "co_frame rid c c' \<longleftrightarrow> list_all2 (mgr_frame rid) (single_type_managers c) (single_type_managers c')"

lemma co_frame_refl [simp]: "co_frame rid c c"
  by (simp add: co_frame_def list_all2_conv_all_nth)

lemma co_frame_trans: "co_frame rid a b \<Longrightarrow> co_frame rid b c \<Longrightarrow> co_frame rid a c"
  unfolding co_frame_def using list_all2_trans[of "mgr_frame rid" "mgr_frame rid" "mgr_frame rid"] mgr_frame_trans by blast

lemma co_remove_frame: "co_remove_skipped_blocks rid n c = Inr c' \<Longrightarrow> co_frame rid c c'"
  by (auto simp: co_remove_skipped_blocks_def co_frame_def rbind_eq_Inr_iff co_remove_step_def
      dest!: remove_frame elim!: for_managers_rel)

lemma co_count_frame: "co_get_num_blocks_to_allocate rid n computed enc t main cap c = Inr (k, c') \<Longrightarrow> co_frame rid c c'"
proof -
  have "mgr_frame rid m m'" if "co_num_blocks_step rid n computed enc t main cap i m p = Inr (x, m', p')" for i m p x m' p'
    using that unfolding co_num_blocks_step_def by (auto simp: rbind_eq_Inr_iff split: manager_sub.splits dest: count_frame)
  then show "co_get_num_blocks_to_allocate rid n computed enc t main cap c = Inr (k, c') \<Longrightarrow> co_frame rid c c'"
    by (auto simp: co_get_num_blocks_to_allocate_def co_frame_def rbind_eq_Inr_iff elim!: for_managers_rel)
qed

lemma co_computed_frame: "co_allocate_new_computed_blocks rid computed nl ne c = Inr c' \<Longrightarrow> co_frame rid c c'"
  by (auto simp: co_allocate_new_computed_blocks_def co_frame_def rbind_eq_Inr_iff co_computed_step_def
      dest!: computed_frame elim!: for_managers_rel)

lemma co_alloc_frame: "co_allocate_new_blocks rid n main enc c = Inr (bss, c') \<Longrightarrow> co_frame rid c c'"
  by (auto simp: co_allocate_new_blocks_def co_frame_def rbind_eq_Inr_iff co_alloc_step_def
      dest!: alloc_frame elim!: for_managers_rel)

lemma co_cache_frame: "co_cache_blocks r n c = Inr (r', c') \<Longrightarrow> co_frame rid c c'"
  by (auto simp: co_cache_blocks_def co_frame_def rbind_eq_Inr_iff co_cache_step_def split: prod.splits
      dest!: cache_frame elim!: for_managers_rel)

lemma co_free_frame: "co_free rid c = Inr c' \<Longrightarrow> co_frame rid c c' \<and> list_all (\<lambda>m. blocks_of m rid = []) (single_type_managers c')"
proof -
  assume "co_free rid c = Inr c'"
  then have "list_all2 (\<lambda>m m'. mgr_frame rid m m' \<and> blocks_of m' rid = []) (single_type_managers c) (single_type_managers c')"
    by (auto simp: co_free_def rbind_eq_Inr_iff co_free_step_def dest!: free_frame elim!: for_managers_rel)
  then show ?thesis by (auto simp: co_frame_def list_all2_conv_all_nth list_all_length)
qed

end
