(* ===== verification/Prefix_Cache_Stats.thy ===== *)
theory Prefix_Cache_Stats
  imports Complex_Main Prelude
begin

section \<open>Cache hit statistics\<close>

text \<open>
  The first part of \<open>vllm/v1/metrics/stats.py\<close>: the counters that \<open>KVCacheManager\<close> fills
  (\<open>PrefixCacheStats\<close>) and the sliding aggregation over the most recent requests
  (\<open>CachingMetrics\<close>) that turns them into a hit rate. The hit rate, a float in the source, is a
  rational.
\<close>

subsection \<open>Counters of one update\<close>

record base_cache_stats =
  st_reset :: bool
  st_requests :: int
  st_queries :: int
  st_hits :: int

record prefix_cache_stats = base_cache_stats +
  preempted_requests :: int
  preempted_queries :: int
  preempted_hits :: int

definition new_prefix_cache_stats :: prefix_cache_stats where
  "new_prefix_cache_stats = \<lparr>st_reset = False, st_requests = 0, st_queries = 0, st_hits = 0,
     preempted_requests = 0, preempted_queries = 0, preempted_hits = 0\<rparr>"

definition stats_record :: "int \<Rightarrow> int \<Rightarrow> bool \<Rightarrow> prefix_cache_stats \<Rightarrow> prefix_cache_stats" where
  "stats_record num_toks num_hits preempted s =
     (if preempted
      then s\<lparr>preempted_requests := preempted_requests s + 1, preempted_queries := preempted_queries s + num_toks,
             preempted_hits := preempted_hits s + num_hits\<rparr>
      else s\<lparr>st_requests := st_requests s + 1, st_queries := st_queries s + num_toks, st_hits := st_hits s + num_hits\<rparr>)"

definition mm_stats_record :: "int \<Rightarrow> int \<Rightarrow> base_cache_stats \<Rightarrow> base_cache_stats" where
  "mm_stats_record num_queries num_hits s =
     s\<lparr>st_requests := st_requests s + 1, st_queries := st_queries s + num_queries, st_hits := st_hits s + num_hits\<rparr>"

subsection \<open>Aggregation over recent requests\<close>

record caching_metrics =
  max_recent_requests :: int
  aggregated_requests :: int
  aggregated_query_total :: int
  aggregated_query_hit :: int
  query_queue :: "(int \<times> int \<times> int) list"

definition caching_metrics_init :: "int \<Rightarrow> caching_metrics" where
  "caching_metrics_init n = \<lparr>max_recent_requests = n, aggregated_requests = 0, aggregated_query_total = 0,
     aggregated_query_hit = 0, query_queue = []\<rparr>"

definition caching_metrics_reset :: "caching_metrics \<Rightarrow> caching_metrics" where
  "caching_metrics_reset c = c\<lparr>aggregated_requests := 0, aggregated_query_total := 0, aggregated_query_hit := 0,
     query_queue := []\<rparr>"

text \<open>The \<open>while\<close> loop that drops the oldest updates but never the latest one.\<close>

function drop_oldest :: "caching_metrics \<Rightarrow> caching_metrics" where
  "drop_oldest c =
     (if length (query_queue c) > 1 \<and> aggregated_requests c > max_recent_requests c
      then case query_queue c of
             (r, q, h) # rest \<Rightarrow>
               drop_oldest (c\<lparr>query_queue := rest, aggregated_requests := aggregated_requests c - r,
                 aggregated_query_total := aggregated_query_total c - q, aggregated_query_hit := aggregated_query_hit c - h\<rparr>)
           | [] \<Rightarrow> c
      else c)"
  by pat_completeness auto
termination
  by (relation "measure (\<lambda>c. length (query_queue c))") auto

declare drop_oldest.simps [simp del]

definition observe :: "'a base_cache_stats_scheme \<Rightarrow> caching_metrics \<Rightarrow> caching_metrics" where
  "observe s c0 =
     (let c = (if st_reset s then caching_metrics_reset c0 else c0)
      in if st_requests s = 0 then c
         else drop_oldest (c\<lparr>query_queue := query_queue c @ [(st_requests s, st_queries s, st_hits s)],
                aggregated_requests := aggregated_requests c + st_requests s,
                aggregated_query_total := aggregated_query_total c + st_queries s,
                aggregated_query_hit := aggregated_query_hit c + st_hits s\<rparr>))"

definition metrics_empty :: "caching_metrics \<Rightarrow> bool" where
  "metrics_empty c \<longleftrightarrow> aggregated_requests c = 0"

definition hit_rate :: "caching_metrics \<Rightarrow> rat" where
  "hit_rate c = (if aggregated_query_total c = 0 then 0
                 else of_int (aggregated_query_hit c) / of_int (aggregated_query_total c))"

subsection \<open>The aggregates are the sums over the window\<close>

text \<open>
  \<open>sane\<close>: the counts of one update. \<open>metrics_inv\<close>: the aggregates are the sums over the queue, every
  queued update is sane, and more than the latest update is kept only while it fits the window.
\<close>

definition sane :: "int \<times> int \<times> int \<Rightarrow> bool" where
  "sane e \<longleftrightarrow> (case e of (r, q, h) \<Rightarrow> 0 < r \<and> 0 \<le> h \<and> h \<le> q)"

definition sums_ok :: "caching_metrics \<Rightarrow> bool" where
  "sums_ok c \<longleftrightarrow> aggregated_requests c = sum_list (map fst (query_queue c))
     \<and> aggregated_query_total c = sum_list (map (fst \<circ> snd) (query_queue c))
     \<and> aggregated_query_hit c = sum_list (map (snd \<circ> snd) (query_queue c))
     \<and> list_all sane (query_queue c)"

definition window_ok :: "caching_metrics \<Rightarrow> bool" where
  "window_ok c \<longleftrightarrow> length (query_queue c) \<le> 1 \<or> aggregated_requests c \<le> max_recent_requests c"

lemma drop_oldest_ok:
  "sums_ok c \<Longrightarrow> sums_ok (drop_oldest c) \<and> window_ok (drop_oldest c)
    \<and> max_recent_requests (drop_oldest c) = max_recent_requests c
    \<and> (\<exists>k. query_queue (drop_oldest c) = drop k (query_queue c)) \<and> (query_queue c \<noteq> [] \<longrightarrow> query_queue (drop_oldest c) \<noteq> [])"
proof (induction c rule: drop_oldest.induct)
  case (1 c)
  show ?case
  proof (cases "length (query_queue c) > 1 \<and> aggregated_requests c > max_recent_requests c")
    case False
    then have "drop_oldest c = c" "window_ok c" by (auto simp: drop_oldest.simps window_ok_def)
    moreover have "\<exists>k. query_queue c = drop k (query_queue c)" by (rule exI[of _ 0]) simp
    ultimately show ?thesis using 1(2) by simp
  next
    case True
    then obtain r q h rest where qq: "query_queue c = (r, q, h) # rest" "rest \<noteq> []" by (cases "query_queue c") auto
    let ?c = "c\<lparr>query_queue := rest, aggregated_requests := aggregated_requests c - r,
      aggregated_query_total := aggregated_query_total c - q, aggregated_query_hit := aggregated_query_hit c - h\<rparr>"
    have eq: "drop_oldest c = drop_oldest ?c" using True qq(1) by (subst drop_oldest.simps) simp
    have "sums_ok ?c" using 1(2) qq(1) by (auto simp: sums_ok_def)
    from 1(1)[OF True qq(1) refl refl this] qq show ?thesis unfolding eq
      by (auto intro: exI[of _ "Suc _"])
  qed
qed

lemma observe_inv:
  assumes "sums_ok c" "window_ok c" "st_requests s = 0 \<or> sane (st_requests s, st_queries s, st_hits s)"
  shows "sums_ok (observe s c) \<and> window_ok (observe s c)"
proof -
  have r: "sums_ok (if st_reset s then caching_metrics_reset c else c)" "window_ok (if st_reset s then caching_metrics_reset c else c)"
    using assms(1,2) by (auto simp: caching_metrics_reset_def sums_ok_def window_ok_def)
  show ?thesis
  proof (cases "st_requests s = 0")
    case True
    then show ?thesis using r by (simp add: observe_def Let_def)
  next
    case False
    then show ?thesis unfolding observe_def Let_def if_not_P[OF False]
      using drop_oldest_ok r(1) assms(3) by (auto simp: sums_ok_def)
  qed
qed

lemma sums_hits:
  assumes "list_all sane qs"
  shows "0 \<le> sum_list (map (snd \<circ> snd) qs) \<and> sum_list (map (snd \<circ> snd) qs) \<le> sum_list (map (fst \<circ> snd) qs)"
  using assms by (induction qs) (auto simp: sane_def)

text \<open>
  After any sequence of updates whose counts are sane (requests counted, hits between 0 and the
  queries), the hit rate lies between 0 and 1, the aggregates are exactly the sums over the kept
  updates, and more than one update is kept only if together they are at most
  \<open>max_recent_requests\<close> requests.
\<close>

theorem hit_rate_of_recent_window:
  assumes "list_all (\<lambda>s. st_requests s = 0 \<or> sane (st_requests s, st_queries s, st_hits s)) ups"
  shows "let c = fold observe ups (caching_metrics_init n)
    in 0 \<le> hit_rate c \<and> hit_rate c \<le> 1 \<and> aggregated_requests c = sum_list (map fst (query_queue c))
       \<and> aggregated_query_hit c = sum_list (map (snd \<circ> snd) (query_queue c))
       \<and> (length (query_queue c) \<le> 1 \<or> aggregated_requests c \<le> max_recent_requests c)"
proof -
  have "sums_ok (fold observe ups c) \<and> window_ok (fold observe ups c)" if "sums_ok c" "window_ok c" for c
    using that assms
  proof (induction ups arbitrary: c)
    case (Cons s ups)
    then show ?case using observe_inv[of c s] by simp
  qed simp
  from this[of "caching_metrics_init n"]
  have inv: "sums_ok (fold observe ups (caching_metrics_init n))" "window_ok (fold observe ups (caching_metrics_init n))"
    by (auto simp: caching_metrics_init_def sums_ok_def window_ok_def)
  then show ?thesis using sums_hits[of "query_queue (fold observe ups (caching_metrics_init n))"]
    by (auto simp: sums_ok_def window_ok_def hit_rate_def Let_def divide_simps)
qed

theorem hit_rate_of_recent_window_witness:
  "let c = fold observe [stats_record 8 4 False new_prefix_cache_stats, stats_record 6 6 False new_prefix_cache_stats]
             (caching_metrics_init 1)
   in query_queue c = [(1, 6, 6)] \<and> hit_rate c = 1 \<and> 0 \<le> hit_rate c"
proof -
  let ?ups = "[stats_record 8 4 False new_prefix_cache_stats, stats_record 6 6 False new_prefix_cache_stats]"
  have "list_all (\<lambda>s. st_requests s = 0 \<or> sane (st_requests s, st_queries s, st_hits s)) ?ups"
    by (simp add: stats_record_def new_prefix_cache_stats_def sane_def)
  note * = hit_rate_of_recent_window[OF this, of 1]
  have "query_queue (fold observe ?ups (caching_metrics_init 1)) = [(1, 6, 6)]"
    "hit_rate (fold observe ?ups (caching_metrics_init 1)) = 1" by code_simp+
  with * show ?thesis by (simp add: Let_def)
qed

end
