(* ===== verification/KV_Cache_Manager.thy ===== *)
theory KV_Cache_Manager
  imports Allocation_Budget Request_Frame Prefix_Cache_Stats
begin

section \<open>The KV cache manager\<close>

text \<open>
  \<open>vllm/v1/core/kv_cache_manager.py\<close>: the interface of the scheduler to the KV cache. The block pool of
  the manager is the one of its coordinator. \<open>KVCacheBlocks\<close> is a tuple of block lists; the
  source compares it by identity with the one preconstructed empty instance, so that instance is a
  constructor of its own here. The watermark, a float in the source, is a rational.
\<close>

subsection \<open>Allocation results\<close>

datatype kv_cache_blocks = Empty_KV_Cache_Blocks nat | KVCacheBlocks "bref list list"

fun group_blocks :: "kv_cache_blocks \<Rightarrow> bref list list" where
  "group_blocks (Empty_KV_Cache_Blocks n) = replicate n []"
| "group_blocks (KVCacheBlocks bss) = bss"

definition add_kv_cache_blocks :: "kv_cache_blocks \<Rightarrow> kv_cache_blocks \<Rightarrow> kv_cache_blocks" where
  "add_kv_cache_blocks a b = KVCacheBlocks (map (\<lambda>(x, y). x @ y) (zip (group_blocks a) (group_blocks b)))"

definition kcb_block_ids :: "block_pool \<Rightarrow> kv_cache_blocks \<Rightarrow> int list list" where
  "kcb_block_ids p b = map (map (\<lambda>r. block_id (pool_heap p r))) (group_blocks b)"

definition kcb_get_block_ids :: "block_pool \<Rightarrow> bool \<Rightarrow> kv_cache_blocks \<Rightarrow> int list list option" where
  "kcb_get_block_ids p allow_none b =
     (if allow_none \<and> list_all (\<lambda>g. length g = 0) (group_blocks b) then None else Some (kcb_block_ids p b))"

definition get_unhashed_block_ids :: "block_pool \<Rightarrow> kv_cache_blocks \<Rightarrow> int list result" where
  "get_unhashed_block_ids p b =
     rbind (rassert (length (group_blocks b) = 1)) (\<lambda>_.
     rbind (py_index (group_blocks b) 0) (\<lambda>bs.
       Inr (map (\<lambda>r. block_id (pool_heap p r)) (filter (\<lambda>r. block_hash (pool_heap p r) = None) bs))))"

definition get_unhashed_block_ids_all_groups :: "block_pool \<Rightarrow> kv_cache_blocks \<Rightarrow> int list list" where
  "get_unhashed_block_ids_all_groups p b =
     map (\<lambda>bs. map (\<lambda>r. block_id (pool_heap p r))
                  (filter (\<lambda>r. block_hash (pool_heap p r) = None \<and> \<not> is_null (pool_heap p r)) bs)) (group_blocks b)"

definition new_empty :: "kv_cache_blocks \<Rightarrow> kv_cache_blocks" where
  "new_empty b = KVCacheBlocks (replicate (length (group_blocks b)) [])"

subsection \<open>The manager\<close>

record kv_cache_manager =
  km_max_model_len :: int
  km_enable_caching :: bool
  km_use_eagle :: bool
  km_log_stats :: bool
  km_stats :: "prefix_cache_stats option"
  km_coordinator :: coordinator
  num_kv_cache_groups :: nat
  watermark_blocks :: int
  kv_cache_event_metadata :: "(spec_kind \<times> int option) list"

definition km_pool :: "kv_cache_manager \<Rightarrow> block_pool" where
  "km_pool km = co_pool (km_coordinator km)"

definition with_coordinator :: "coordinator \<Rightarrow> kv_cache_manager \<Rightarrow> kv_cache_manager" where
  "with_coordinator c km = km\<lparr>km_coordinator := c\<rparr>"

definition kv_cache_manager_init ::
  "coord_env \<Rightarrow> kv_cache_config \<Rightarrow> int \<Rightarrow> int \<Rightarrow> int \<Rightarrow> int option \<Rightarrow> bool \<Rightarrow> bool \<Rightarrow> bool \<Rightarrow> bool \<Rightarrow> int \<Rightarrow> int \<Rightarrow>
   metrics_collector option \<Rightarrow> rat \<Rightarrow> kv_cache_manager result" where
  "kv_cache_manager_init env cfg max_len sched_bs hash_bs max_batched caching use_eagle log_stats kv_events dcp pcp mc watermark =
     rbind (get_kv_cache_coordinator env cfg max_len (case max_batched of None \<Rightarrow> max_len | Some n \<Rightarrow> n) use_eagle
              caching kv_events dcp pcp sched_bs hash_bs mc) (\<lambda>c.
     rbind (rassert (watermark \<ge> 0)) (\<lambda>_.
       Inr \<lparr>km_max_model_len = max_len, km_enable_caching = caching, km_use_eagle = use_eagle, km_log_stats = log_stats,
            km_stats = (if log_stats then Some new_prefix_cache_stats else None), km_coordinator = c,
            num_kv_cache_groups = length (kv_cache_groups cfg),
            watermark_blocks = \<lfloor>watermark * of_int (num_blocks cfg)\<rfloor>,
            kv_cache_event_metadata = map (\<lambda>g. (get_kv_cache_spec_kind (group_spec g),
               get_kv_cache_spec_sliding_window (group_spec g))) (kv_cache_groups cfg)\<rparr>))"

definition km_usage :: "kv_cache_manager \<Rightarrow> rat" where
  "km_usage km = get_usage (km_pool km)"

definition make_prefix_cache_stats :: "kv_cache_manager \<Rightarrow> prefix_cache_stats option \<times> kv_cache_manager" where
  "make_prefix_cache_stats km =
     (if \<not> km_log_stats km then (None, km) else (km_stats km, km\<lparr>km_stats := Some new_prefix_cache_stats\<rparr>))"

definition create_kv_cache_blocks :: "kv_cache_manager \<Rightarrow> bref list list \<Rightarrow> kv_cache_blocks" where
  "create_kv_cache_blocks km bss =
     (if list_ex (\<lambda>bs. bs \<noteq> []) bss then KVCacheBlocks bss else Empty_KV_Cache_Blocks (num_kv_cache_groups km))"

definition get_computed_blocks ::
  "request \<Rightarrow> kv_cache_manager \<Rightarrow> ((kv_cache_blocks \<times> int) \<times> kv_cache_manager) result option" where
  "get_computed_blocks r km =
     (if \<not> km_enable_caching km \<or> skip_reading_prefix_cache r
      then Some (Inr ((Empty_KV_Cache_Blocks (num_kv_cache_groups km), 0), km))
      else map_option (\<lambda>res.
             rbind res (\<lambda>((bss, n), c).
             rbind (if km_log_stats km
                    then (case km_stats km of
                            None \<Rightarrow> Inl AssertionError
                          | Some s \<Rightarrow> Inr (Some (stats_record (num_tokens r) n (num_preemptions r > 0) s)))
                    else Inr (km_stats km)) (\<lambda>st.
               Inr ((create_kv_cache_blocks km bss, n), km\<lparr>km_coordinator := c, km_stats := st\<rparr>))))
           (co_find_longest_cache_hit (block_hashes r) (num_tokens r - 1) (km_coordinator km)))"

subsection \<open>Allocating slots\<close>

text \<open>The arguments of \<open>allocate_slots\<close> after the request, with their defaults.\<close>

record slot_args =
  num_new_tokens :: int
  num_new_computed_tokens :: int
  new_computed_blocks :: "kv_cache_blocks option"
  num_lookahead_tokens :: int
  num_external_computed_tokens :: int
  delay_cache_blocks :: bool
  num_encoder_tokens :: int
  full_sequence_must_fit :: bool
  reserved_blocks :: int
  has_scheduled_reqs :: bool

definition default_slot_args :: "int \<Rightarrow> slot_args" where
  "default_slot_args n = \<lparr>num_new_tokens = n, num_new_computed_tokens = 0, new_computed_blocks = None,
     num_lookahead_tokens = 0, num_external_computed_tokens = 0, delay_cache_blocks = False, num_encoder_tokens = 0,
     full_sequence_must_fit = False, reserved_blocks = 0, has_scheduled_reqs = True\<rparr>"

text \<open>
  \<open>new_computed_list\<close> is \<open>new_computed_block_list\<close> with whether it \<^emph>\<open>is not\<close> the preconstructed empty tuple.
\<close>

definition new_computed_list :: "kv_cache_manager \<Rightarrow> slot_args \<Rightarrow> bref list list \<times> bool" where
  "new_computed_list km a =
     (case new_computed_blocks a of
        Some (KVCacheBlocks bss) \<Rightarrow> (bss, True)
      | Some (Empty_KV_Cache_Blocks n) \<Rightarrow> (replicate n [], False)
      | None \<Rightarrow> (replicate (num_kv_cache_groups km) [], False))"

definition slots_watermark :: "kv_cache_manager \<Rightarrow> request \<Rightarrow> slot_args \<Rightarrow> int" where
  "slots_watermark km r a =
     (if has_scheduled_reqs a \<and> status r \<in> {WAITING, PREEMPTED} then watermark_blocks km else 0)"

definition local_computed :: "request \<Rightarrow> slot_args \<Rightarrow> int" where
  "local_computed r a = num_computed_tokens r + num_new_computed_tokens a"

definition total_computed :: "kv_cache_manager \<Rightarrow> request \<Rightarrow> slot_args \<Rightarrow> int" where
  "total_computed km r a = min (local_computed r a + num_external_computed_tokens a) (km_max_model_len km)"

definition tokens_main_model :: "kv_cache_manager \<Rightarrow> request \<Rightarrow> slot_args \<Rightarrow> int" where
  "tokens_main_model km r a = total_computed km r a + num_new_tokens a"

definition tokens_need_slot :: "kv_cache_manager \<Rightarrow> request \<Rightarrow> slot_args \<Rightarrow> int" where
  "tokens_need_slot km r a = min (tokens_main_model km r a + num_lookahead_tokens a) (km_max_model_len km)"

text \<open>The admission gate: whether the whole request does not fit.\<close>

definition admission_refused :: "kv_cache_manager \<Rightarrow> request \<Rightarrow> slot_args \<Rightarrow> (bool \<times> coordinator) result" where
  "admission_refused km r a =
     (if full_sequence_must_fit a
      then let full = min (num_tokens r) (km_max_model_len km)
           in rbind (co_get_num_blocks_to_allocate (request_id r) full (fst (new_computed_list km a)) (num_encoder_tokens a)
                       (total_computed km r a) full True (km_coordinator km)) (\<lambda>(k, c).
                Inr (k + slots_watermark km r a > get_num_free_blocks (co_pool c), c))
      else Inr (False, km_coordinator km))"

text \<open>The allocation proper, once the free blocks are known to suffice.\<close>

definition commit_slots ::
  "kv_cache_manager \<Rightarrow> request \<Rightarrow> slot_args \<Rightarrow> coordinator \<Rightarrow> (bref list list \<times> coordinator) result" where
  "commit_slots km r a c =
     (case new_computed_list km a of (computed, is_new) \<Rightarrow>
        rbind (if is_new \<or> num_external_computed_tokens a > 0
               then co_allocate_new_computed_blocks (request_id r) computed (local_computed r a) (num_external_computed_tokens a) c
               else Inr c) (\<lambda>c1.
          co_allocate_new_blocks (request_id r) (tokens_need_slot km r a) (tokens_main_model km r a) (num_encoder_tokens a) c1))"

definition allocate_slots ::
  "request \<Rightarrow> slot_args \<Rightarrow> kv_cache_manager \<Rightarrow> (kv_cache_blocks option \<times> request \<times> kv_cache_manager) result" where
  "allocate_slots r a km =
     (if num_new_tokens a = 0 \<and> num_external_computed_tokens a = 0 then Inl ValueError
      else
        rbind (admission_refused km r a) (\<lambda>(refused, c1).
        if refused then Inr (None, r, with_coordinator c1 km)
        else
          rbind (co_remove_skipped_blocks (request_id r) (total_computed km r a) c1) (\<lambda>c2.
          rbind (co_get_num_blocks_to_allocate (request_id r) (tokens_need_slot km r a) (fst (new_computed_list km a))
                   (num_encoder_tokens a) (local_computed r a + num_external_computed_tokens a)
                   (tokens_main_model km r a) False c2) (\<lambda>(k, c3).
            if k + slots_watermark km r a > get_num_free_blocks (co_pool c3) - reserved_blocks a
            then Inr (None, r, with_coordinator c3 km)
            else
              rbind (commit_slots km r a c3) (\<lambda>(new, c5).
              if \<not> km_enable_caching km \<or> delay_cache_blocks a
              then Inr (Some (create_kv_cache_blocks km new), r, with_coordinator c5 km)
              else rbind (co_cache_blocks r (min (tokens_main_model km r a) (num_tokens r)) c5) (\<lambda>(r', c6).
                     Inr (Some (create_kv_cache_blocks km new), r', with_coordinator c6 km)))))))"

subsection \<open>The other operations\<close>

definition km_free :: "request \<Rightarrow> kv_cache_manager \<Rightarrow> kv_cache_manager result" where
  "km_free r km = rbind (co_free (request_id r) (km_coordinator km)) (\<lambda>c. Inr (with_coordinator c km))"

definition km_remove_skipped_blocks :: "string \<Rightarrow> int \<Rightarrow> kv_cache_manager \<Rightarrow> kv_cache_manager result" where
  "km_remove_skipped_blocks rid computed km =
     rbind (co_remove_skipped_blocks rid computed (km_coordinator km)) (\<lambda>c. Inr (with_coordinator c km))"

definition with_pool :: "block_pool \<Rightarrow> kv_cache_manager \<Rightarrow> kv_cache_manager" where
  "with_pool p km = with_coordinator ((km_coordinator km)\<lparr>co_pool := p\<rparr>) km"

definition km_evict_blocks :: "int list \<Rightarrow> kv_cache_manager \<Rightarrow> kv_cache_manager result" where
  "km_evict_blocks ids km = rbind (evict_blocks ids (km_pool km)) (\<lambda>p. Inr (with_pool p km))"

definition km_reset_prefix_cache :: "kv_cache_manager \<Rightarrow> (bool \<times> kv_cache_manager) result" where
  "km_reset_prefix_cache km =
     (case reset_prefix_cache (km_pool km) of (ok, p) \<Rightarrow>
        if \<not> ok then Inr (False, with_pool p km)
        else if km_log_stats km
        then (case km_stats km of
                None \<Rightarrow> Inl AssertionError
              | Some s \<Rightarrow> Inr (True, (with_pool p km)\<lparr>km_stats := Some (s\<lparr>st_reset := True\<rparr>)\<rparr>))
        else Inr (True, with_pool p km))"

definition km_get_num_common_prefix_blocks :: "string \<Rightarrow> kv_cache_manager \<Rightarrow> int list \<times> kv_cache_manager" where
  "km_get_num_common_prefix_blocks rid km =
     (case co_get_num_common_prefix_blocks rid (km_coordinator km) of (ns, c) \<Rightarrow> (ns, with_coordinator c km))"

text \<open>The events with the kind and the window of their group, where the group is known.\<close>

definition annotate_event ::
  "(spec_kind \<times> int option) list \<Rightarrow> kv_cache_event \<Rightarrow> kv_cache_event \<times> (spec_kind \<times> int option) option" where
  "annotate_event meta ev =
     (ev, case ev of
            BlockStored e \<Rightarrow>
              if ev_group_idx e < 0 \<or> ev_group_idx e \<ge> int (length meta) then None else Some (meta ! nat (ev_group_idx e))
          | _ \<Rightarrow> None)"

definition km_take_events ::
  "kv_cache_manager \<Rightarrow> (kv_cache_event \<times> (spec_kind \<times> int option) option) list \<times> kv_cache_manager" where
  "km_take_events km =
     (case take_events (km_pool km) of (evs, p) \<Rightarrow> (map (annotate_event (kv_cache_event_metadata km)) evs, with_pool p km))"

definition km_get_blocks :: "string \<Rightarrow> kv_cache_manager \<Rightarrow> kv_cache_blocks" where
  "km_get_blocks rid km = create_kv_cache_blocks km (co_get_blocks rid (km_coordinator km))"

definition km_get_block_ids :: "string \<Rightarrow> kv_cache_manager \<Rightarrow> int list list" where
  "km_get_block_ids rid km = kcb_block_ids (km_pool km) (km_get_blocks rid km)"

definition km_cache_blocks :: "request \<Rightarrow> int \<Rightarrow> kv_cache_manager \<Rightarrow> (request \<times> kv_cache_manager) result" where
  "km_cache_blocks r computed km =
     (if km_enable_caching km
      then rbind (co_cache_blocks r computed (km_coordinator km)) (\<lambda>(r', c). Inr (r', with_coordinator c km))
      else Inr (r, km))"

definition km_take_new_block_ids :: "kv_cache_manager \<Rightarrow> int list \<times> kv_cache_manager" where
  "km_take_new_block_ids km =
     (let rs = map take_new_block_ids (single_type_managers (km_coordinator km))
      in (concat (map fst rs), with_coordinator ((km_coordinator km)\<lparr>single_type_managers := map snd rs\<rparr>) km))"

definition km_new_step_starts :: "kv_cache_manager \<Rightarrow> kv_cache_manager" where
  "km_new_step_starts km = with_coordinator (co_new_step_starts (km_coordinator km)) km"

subsection \<open>Invariant\<close>

text \<open>
  The specs that a model can have: positive block sizes, windows and chunk sizes. With such specs a
  new coordinator satisfies the invariant.
\<close>

definition spec_ok :: "kv_cache_spec \<Rightarrow> bool" where
  "spec_ok s \<longleftrightarrow> 0 < block_size s \<and> (case sliding_window_of s of None \<Rightarrow> True | Some w \<Rightarrow> 1 \<le> w)
     \<and> (case s of ChunkedLocalAttentionSpec _ c \<Rightarrow> 0 < c | MambaSpec ms \<Rightarrow> 0 \<le> ms_num_speculative_blocks ms | _ \<Rightarrow> True)"

lemma get_manager_ok:
  assumes "get_manager_for_kv_cache_spec reg spec mb ml p caching gid dcp pcp sbs = Inr m" "spec_ok spec" "core_ok p"
  shows "mgr_ok m p \<and> req_to_blocks m = []"
proof -
  obtain s cap where m: "m = manager_init s spec p caching gid sbs dcp pcp cap"
    "case s of SlidingWindowManager w \<Rightarrow> 1 \<le> w | ChunkedLocalAttentionManager c \<Rightarrow> 0 < c
      | MambaManager ms \<Rightarrow> 0 \<le> num_speculative_blocks ms \<and> allocated_block_reqs ms = {} | _ \<Rightarrow> True"
    using assms(1,2) unfolding get_manager_for_kv_cache_spec_def Let_def spec_ok_def
    by (auto simp: mamba_init_def split: option.splits manager_class.splits kv_cache_spec.splits)
  have "0 < mgr_block_size m" using assms(2) by (simp add: m(1) manager_init_def spec_ok_def)
  moreover have "sub_ok m" using m(2) by (auto simp: m(1) manager_init_def sub_ok_def split: manager_sub.splits)
  ultimately show ?thesis using core_ok_null[OF assms(3)] by (simp add: m(1) manager_init_def mgr_ok_def)
qed

lemma rmap_member: "rmap f xs = Inr ys \<Longrightarrow> y \<in> set ys \<Longrightarrow> \<exists>x \<in> set xs. f x = Inr y"
  by (induction xs arbitrary: ys) (auto simp: rbind_eq_Inr_iff)

lemma base_init_inv:
  assumes "base_init env cfg ml mb ue caching evs dcp pcp sbs hbs mc = Inr c"
    and "list_all (\<lambda>g. spec_ok (group_spec g)) (kv_cache_groups cfg)"
  shows "co_inv c \<and> length (single_type_managers c) = length (kv_cache_groups cfg)
    \<and> (\<forall>m \<in> set (single_type_managers c). req_to_blocks m = [])"
proof -
  let ?gs = "zip (py_range 0 (int (length (kv_cache_groups cfg)))) (kv_cache_groups cfg)"
  obtain p ms where p: "block_pool_init (num_blocks cfg) caching hbs evs mc (env_ints env) (env_sha env) = Inr p"
    and ms: "rmap (\<lambda>(i, g). get_manager_for_kv_cache_spec (env_registry env) (group_spec g) mb ml p caching i dcp pcp sbs) ?gs = Inr ms"
    and c: "single_type_managers c = ms" "co_pool c = p"
    using assms(1) unfolding base_init_def by (auto simp: rbind_eq_Inr_iff split: if_splits)
  have "0 < num_blocks cfg" using p by (auto simp: block_pool_init_def rbind_eq_Inr_iff)
  then have pool: "pool_rep p (map Blk [1..<nat (num_blocks cfg)])" "\<forall>b \<in> real_blocks p. refc p b = 0"
    using block_pool_init_spec[of "num_blocks cfg" caching hbs evs mc "env_ints env" "env_sha env"] p by auto
  have core: "core_ok p" using pool(1) by (simp add: pool_rep_def)
  have mem: "mgr_ok m p \<and> req_to_blocks m = []" if "m \<in> set ms" for m
  proof -
    from that ms obtain i g where "(i, g) \<in> set ?gs"
      "get_manager_for_kv_cache_spec (env_registry env) (group_spec g) mb ml p caching i dcp pcp sbs = Inr m"
      by (auto dest: rmap_member)
    then show ?thesis using get_manager_ok[OF _ _ core] assms(2) by (auto simp: list_all_iff dest: set_zip_rightD)
  qed
  have "held_all ms b = 0" for b
    using mem by (induction ms) (auto simp: held_def)
  then have "co_inv c" using pool mem by (auto simp: co_inv_def managers_inv_def c pool_inv_def)
  moreover have "length ms = length (kv_cache_groups cfg)" using rmap_length[OF ms] by (simp add: py_range_def)
  ultimately show ?thesis using mem c by auto
qed

text \<open>The constructors of the subclasses only set EAGLE flags of managers.\<close>

definition eagle_only :: "manager \<Rightarrow> manager \<Rightarrow> bool" where
  "eagle_only m m' \<longleftrightarrow> (\<exists>e. m' = m\<lparr>mgr_use_eagle := e\<rparr>)"

lemma eagle_only_trans: "eagle_only a b \<Longrightarrow> eagle_only b c \<Longrightarrow> eagle_only a c"
  by (auto simp: eagle_only_def)

lemma eagle_only_self: "eagle_only m m"
  unfolding eagle_only_def by (rule exI[of _ "mgr_use_eagle m"]) simp

lemma eagle_only_refl: "list_all2 eagle_only ms ms"
  by (simp add: list_all2_conv_all_nth eagle_only_self)

lemma set_eagle_only: "list_all2 eagle_only ms (set_eagle e i ms)"
proof -
  have "eagle_only (ms ! j) (set_eagle e i ms ! j)" if "j < length ms" for j
    using that eagle_only_self[of "ms ! j"] by (cases "i = j") (auto simp: set_eagle_def eagle_only_def[of _ "_\<lparr>mgr_use_eagle := e\<rparr>"])
  then show ?thesis by (simp add: list_all2_conv_all_nth set_eagle_def)
qed

lemma fold_eagle_only:
  "(\<And>x ms. list_all2 eagle_only ms (f x ms)) \<Longrightarrow> list_all2 eagle_only ms (fold f xs ms)"
proof (induction xs arbitrary: ms)
  case (Cons x xs)
  have "list_all2 eagle_only ms (f x ms)" "list_all2 eagle_only (f x ms) (fold f xs (f x ms))"
    using Cons by blast+
  then have "list_all2 eagle_only ms (fold f xs (f x ms))"
    using list_all2_trans[of eagle_only eagle_only eagle_only] eagle_only_trans by blast
  then show ?case by simp
qed (simp add: eagle_only_refl)

lemma propagate_eagle_only: "list_all2 eagle_only ms (propagate_eagle gs ms)"
  unfolding propagate_eagle_def by (rule fold_eagle_only) (auto intro: fold_eagle_only set_eagle_only eagle_only_refl)

lemma managers_inv_eagle: "list_all2 eagle_only ms ms' \<Longrightarrow> managers_inv oth ms' p = managers_inv oth ms p"
proof -
  assume eo: "list_all2 eagle_only ms ms'"
  have one: "mgr_ok m' p = mgr_ok m p" "req_to_blocks m' = req_to_blocks m" if "eagle_only m m'" for m m'
  proof -
    from that obtain e where m': "m' = m\<lparr>mgr_use_eagle := e\<rparr>" by (auto simp: eagle_only_def)
    have "sub_ok m' = sub_ok m" unfolding m' sub_ok_def by (cases "sub m") (simp_all add: blocks_of_def)
    then show "mgr_ok m' p = mgr_ok m p" "req_to_blocks m' = req_to_blocks m" unfolding mgr_ok_def by (simp_all add: m')
  qed
  from eo have "held_all ms' b = held_all ms b" for b by induction (simp_all add: one(2))
  moreover from eo have "(\<forall>m \<in> set ms'. mgr_ok m p) = (\<forall>m \<in> set ms. mgr_ok m p)" by induction (simp_all add: one(1))
  ultimately show ?thesis by (simp add: managers_inv_def)
qed

lemma coordinator_inv:
  assumes "get_kv_cache_coordinator env cfg ml mb ue caching evs dcp pcp sbs hbs mc = Inr c"
    and ok: "list_all (\<lambda>g. spec_ok (group_spec g)) (kv_cache_groups cfg)"
  shows "co_inv c \<and> length (single_type_managers c) = length (kv_cache_groups cfg)"
proof -
  obtain cc c0 where base: "base_init env cfg ml mb ue cc evs dcp pcp sbs hbs mc = Inr c0"
    and eo: "list_all2 eagle_only (single_type_managers c0) (single_type_managers c)" and pool: "co_pool c = co_pool c0"
    using assms(1) set_eagle_only propagate_eagle_only eagle_only_refl
    unfolding get_kv_cache_coordinator_def unitary_init_def hybrid_init_def Let_def
    by (auto simp: rbind_eq_Inr_iff split: if_splits)
  then show ?thesis using base_init_inv[OF base ok] managers_inv_eagle[OF eo] list_all2_lengthD[OF eo]
    by (simp add: co_inv_def)
qed

subsection \<open>Every operation keeps the invariant\<close>

lemma co_remove_inv: "co_inv c \<Longrightarrow> co_remove_skipped_blocks rid n c = Inr c' \<Longrightarrow> co_inv c' \<and> same_config (co_pool c) (co_pool c')"
  using remove_steps.loop_inv[where oth = "\<lambda>_. 0" and ms = "single_type_managers c" and s = "co_pool c" and i = 0]
  by (auto simp: co_remove_skipped_blocks_def co_inv_def rbind_eq_Inr_iff)

lemma co_count_inv:
  "co_inv c \<Longrightarrow> co_get_num_blocks_to_allocate rid n computed enc t main cap c = Inr (k, c') \<Longrightarrow>
   co_inv c' \<and> same_config (co_pool c) (co_pool c')"
  using count_steps.loop_inv[where oth = "\<lambda>_. 0" and ms = "single_type_managers c" and s = "co_pool c" and i = 0]
  by (auto simp: co_get_num_blocks_to_allocate_def co_inv_def rbind_eq_Inr_iff)

definition hits_ok :: "bref list list \<Rightarrow> int \<Rightarrow> coordinator \<Rightarrow> bool" where
  "hits_ok computed tot c \<longleftrightarrow> list_all2 (\<lambda>bs m. computed_ok (co_pool c) m bs tot) computed (single_type_managers c)"

lemma hits_ok_frame:
  assumes "hits_ok computed tot c" "co_frame rid c c'" "same_config (co_pool c) (co_pool c')"
  shows "hits_ok computed tot c'"
  using assms unfolding hits_ok_def co_frame_def mgr_frame_def
  by (auto simp: list_all2_conv_all_nth computed_ok_def table_ok_cong)

lemma co_computed_inv:
  assumes "co_inv c" "hits_ok computed (nl + ne) c" "co_allocate_new_computed_blocks rid computed nl ne c = Inr c'"
  shows "co_inv c' \<and> same_config (co_pool c) (co_pool c')"
proof -
  have "\<forall>j < length (single_type_managers c). \<forall>bs. py_index computed (0 + int j) = Inr bs \<longrightarrow>
      computed_ok (co_pool c) (single_type_managers c ! j) bs (nl + ne)"
    using assms(2) by (auto simp: hits_ok_def list_all2_conv_all_nth py_index_def)
  with assms show ?thesis
    using computed_steps.loop_inv[where oth = "\<lambda>_. 0" and ms = "single_type_managers c" and s = "co_pool c" and i = 0]
    by (auto simp: co_allocate_new_computed_blocks_def co_inv_def rbind_eq_Inr_iff)
qed

lemma co_alloc_inv:
  "co_inv c \<Longrightarrow> 0 \<le> main \<Longrightarrow> co_allocate_new_blocks rid n main enc c = Inr (bss, c') \<Longrightarrow>
   co_inv c' \<and> same_config (co_pool c) (co_pool c')"
  using alloc_steps.loop_inv[where oth = "\<lambda>_. 0" and ms = "single_type_managers c" and s = "co_pool c" and i = 0 and main = main]
  by (auto simp: co_allocate_new_blocks_def co_inv_def rbind_eq_Inr_iff)

lemma co_cache_inv:
  "co_inv c \<Longrightarrow> co_cache_blocks r n c = Inr (r', c') \<Longrightarrow> co_inv c' \<and> same_config (co_pool c) (co_pool c')"
  using cache_steps.loop_inv[where oth = "\<lambda>_. 0" and ms = "single_type_managers c" and s = "(r, co_pool c)" and i = 0]
  by (auto simp: co_cache_blocks_def co_inv_def rbind_eq_Inr_iff)

lemma co_free_ok:
  assumes "co_inv c"
  shows "\<exists>c'. co_free rid c = Inr c' \<and> co_inv c' \<and> same_config (co_pool c) (co_pool c')"
proof -
  have inv: "managers_inv (\<lambda>_. 0) (single_type_managers c) (co_pool c)" using assms by (simp add: co_inv_def)
  obtain xs ms' p' where r: "for_managers (co_free_step rid) 0 (single_type_managers c) (co_pool c) = Inr (xs, ms', p')"
    using free_steps.loop_total[OF inv] by blast
  from free_steps.loop_inv[OF inv _ r] r show ?thesis by (simp add: co_free_def co_inv_def)
qed

lemma co_map_managers_inv:
  assumes "co_inv c" "\<And>oth m. mgr_inv oth m (co_pool c) \<Longrightarrow> mgr_inv oth (f m) (co_pool c)"
  shows "co_inv (c\<lparr>single_type_managers := map f (single_type_managers c)\<rparr>)"
proof -
  have "managers_inv oth (map f ms) (co_pool c)" if "managers_inv oth ms (co_pool c)" for oth ms
    using that
  proof (induction ms arbitrary: oth)
    case (Cons m ms)
    have nn: "\<forall>b. 0 \<le> oth b" using Cons.prems by (simp add: managers_inv_def)
    have "mgr_inv (\<lambda>b. oth b + held_all ms b) (f m) (co_pool c)" "\<forall>m' \<in> set ms. mgr_ok m' (co_pool c)"
      using Cons.prems managers_inv_Cons(1)[OF nn] assms(2) by auto
    then have inv: "managers_inv oth (f m # ms) (co_pool c)" using managers_inv_Cons(1)[OF nn] by blast
    have ok: "mgr_ok (f m) (co_pool c)" using inv by (simp add: managers_inv_def)
    from inv have "managers_inv (\<lambda>b. oth b + int (held (req_to_blocks (f m)) b)) ms (co_pool c)"
      using managers_inv_Cons(2)[OF nn ok] by blast
    from Cons.IH[OF this] show ?case using managers_inv_Cons(2)[OF nn ok] by simp
  qed simp
  then show ?thesis using assms(1) by (simp add: co_inv_def)
qed

lemma with_coordinator_simps [simp]:
  "km_coordinator (with_coordinator c km) = c" "km_pool (with_coordinator c km) = co_pool c"
  "km_coordinator (with_pool p km) = (km_coordinator km)\<lparr>co_pool := p\<rparr>"
  by (simp_all add: with_coordinator_def with_pool_def km_pool_def)

lemma admission_inv:
  assumes "co_inv (km_coordinator km)" "admission_refused km r a = Inr (b, c1)"
  shows "co_inv c1 \<and> same_config (km_pool km) (co_pool c1) \<and> co_frame (request_id r) (km_coordinator km) c1"
  using assms co_count_inv co_count_frame unfolding admission_refused_def km_pool_def
  by (auto simp: Let_def rbind_eq_Inr_iff split: if_splits)

lemma commit_inv:
  assumes "co_inv c" "hits_ok (fst (new_computed_list km a)) (local_computed r a + num_external_computed_tokens a) c"
    "0 \<le> tokens_main_model km r a" "commit_slots km r a c = Inr (new, c')"
  shows "co_inv c' \<and> same_config (co_pool c) (co_pool c') \<and> co_frame (request_id r) c c'"
proof -
  obtain computed is_new where l: "new_computed_list km a = (computed, is_new)" by fastforce
  obtain c1 where c1: "(if is_new \<or> num_external_computed_tokens a > 0
      then co_allocate_new_computed_blocks (request_id r) computed (local_computed r a) (num_external_computed_tokens a) c
      else Inr c) = Inr c1"
    "co_allocate_new_blocks (request_id r) (tokens_need_slot km r a) (tokens_main_model km r a) (num_encoder_tokens a) c1 = Inr (new, c')"
    using assms(4) unfolding commit_slots_def l by (auto simp: rbind_eq_Inr_iff)
  have "co_inv c1 \<and> same_config (co_pool c) (co_pool c1) \<and> co_frame (request_id r) c c1"
    using c1(1) co_computed_inv[OF assms(1)] co_computed_frame assms(1,2) l by (auto split: if_splits)
  then show ?thesis using co_alloc_inv[OF _ assms(3) c1(2)] co_alloc_frame[OF c1(2)] same_config_trans co_frame_trans by blast
qed

lemma allocate_slots_inv:
  assumes inv: "co_inv (km_coordinator km)"
    and hits: "hits_ok (fst (new_computed_list km a)) (local_computed r a + num_external_computed_tokens a) (km_coordinator km)"
    and main: "0 \<le> tokens_main_model km r a" and res: "allocate_slots r a km = Inr (x, r', km')"
  shows "co_inv (km_coordinator km') \<and> co_frame (request_id r) (km_coordinator km) (km_coordinator km')"
proof -
  note steps = same_config_trans co_frame_trans
  obtain b c1 where c1: "admission_refused km r a = Inr (b, c1)"
    using res unfolding allocate_slots_def by (auto simp: rbind_eq_Inr_iff split: if_splits)
  note i1 = admission_inv[OF inv c1]
  show ?thesis
  proof (cases b)
    case True
    then show ?thesis using res i1 unfolding allocate_slots_def c1 by (auto split: if_splits)
  next
    case False
    let ?rid = "request_id r" and ?t = "local_computed r a + num_external_computed_tokens a"
    obtain c2 k c3 where c2: "co_remove_skipped_blocks ?rid (total_computed km r a) c1 = Inr c2"
      and c3: "co_get_num_blocks_to_allocate ?rid (tokens_need_slot km r a) (fst (new_computed_list km a))
        (num_encoder_tokens a) ?t (tokens_main_model km r a) False c2 = Inr (k, c3)"
      and rest: "(if k + slots_watermark km r a > get_num_free_blocks (co_pool c3) - reserved_blocks a
            then Inr (None, r, with_coordinator c3 km)
            else
              rbind (commit_slots km r a c3) (\<lambda>(new, c5).
              if \<not> km_enable_caching km \<or> delay_cache_blocks a
              then Inr (Some (create_kv_cache_blocks km new), r, with_coordinator c5 km)
              else rbind (co_cache_blocks r (min (tokens_main_model km r a) (num_tokens r)) c5) (\<lambda>(r', c6).
                     Inr (Some (create_kv_cache_blocks km new), r', with_coordinator c6 km)))) = Inr (x, r', km')"
      using res False unfolding allocate_slots_def c1 rbind.simps by (auto simp: rbind_eq_Inr_iff split: if_splits)
    have i3: "co_inv c3 \<and> same_config (km_pool km) (co_pool c3) \<and> co_frame ?rid (km_coordinator km) c3"
      using i1 co_remove_inv[OF _ c2] co_remove_frame[OF c2] co_count_inv[OF _ c3] co_count_frame[OF c3] steps by blast
    show ?thesis
    proof (cases "k + slots_watermark km r a > get_num_free_blocks (co_pool c3) - reserved_blocks a")
      case True
      then show ?thesis using rest i3 by auto
    next
      case F: False
      obtain new c5 where c5: "commit_slots km r a c3 = Inr (new, c5)" using rest F by (auto simp: rbind_eq_Inr_iff)
      have h3: "hits_ok (fst (new_computed_list km a)) ?t c3" using hits_ok_frame[OF hits] i3 unfolding km_pool_def by blast
      note i5 = commit_inv[OF conjunct1[OF i3] h3 main c5]
      have i5': "co_frame ?rid (km_coordinator km) c5" using i3 i5 steps(2) by blast
      show ?thesis
      proof (cases "\<not> km_enable_caching km \<or> delay_cache_blocks a")
        case True
        then have "km' = with_coordinator c5 km" using rest F c5 by auto
        then show ?thesis using i5 i5' by simp
      next
        case C: False
        obtain r6 c6 where c6: "co_cache_blocks r (min (tokens_main_model km r a) (num_tokens r)) c5 = Inr (r6, c6)"
          "km' = with_coordinator c6 km" using rest F C c5 by (auto simp: rbind_eq_Inr_iff)
        have "co_inv c6" using co_cache_inv[OF conjunct1[OF i5] c6(1)] by blast
        moreover have "co_frame ?rid (km_coordinator km) c6" using steps(2)[OF i5' co_cache_frame[OF c6(1)]] .
        ultimately show ?thesis unfolding c6(2) by simp
      qed
    qed
  qed
qed

lemma co_common_prefix_inv: "co_inv c \<Longrightarrow> co_get_num_common_prefix_blocks rid c = (ns, c') \<Longrightarrow> co_inv c'"
proof -
  have "mgr_inv oth (snd (get_num_common_prefix_blocks p rid m)) p" if "mgr_inv oth m p" for oth m p
    using that mgr_inv_touch_req[OF that, of rid] unfolding get_num_common_prefix_blocks_def
    by (auto simp: Let_def split: manager_sub.splits)
  then show "co_inv c \<Longrightarrow> co_get_num_common_prefix_blocks rid c = (ns, c') \<Longrightarrow> co_inv c'"
    using co_map_managers_inv[of c "\<lambda>m. snd (get_num_common_prefix_blocks (co_pool c) rid m)"]
    unfolding co_get_num_common_prefix_blocks_def by (auto simp: Let_def o_def split: coordinator_class.splits)
qed

lemma co_new_step_inv: "co_inv c \<Longrightarrow> co_inv (co_new_step_starts c)"
  unfolding co_new_step_starts_def by (rule co_map_managers_inv) (auto intro: new_step_starts_inv)

lemma take_new_block_ids_inv: "mgr_inv oth m p \<Longrightarrow> mgr_inv oth (snd (take_new_block_ids m)) p"
  unfolding mgr_inv_def mgr_ok_def take_new_block_ids_def sub_ok_def
  by (auto simp: blocks_of_def split: manager_sub.splits)

lemma co_find_inv: "co_find_longest_cache_hit hs n c = Some (Inr (x, c')) \<Longrightarrow>
   single_type_managers c' = single_type_managers c \<and> co_pool c' = co_pool c"
  unfolding co_find_longest_cache_hit_def hybrid_find_longest_cache_hit_def
  by (auto simp: Let_def rbind_eq_Inr_iff split: coordinator_class.splits)

text \<open>A change of the pool that keeps its free list and reference counts.\<close>

lemma co_pool_inv:
  assumes "co_inv c" "pool_inv p" "same_config (co_pool c) p" "refc p = refc (co_pool c)"
  shows "co_inv (c\<lparr>co_pool := p\<rparr>)"
  using assms mgr_ok_cong[OF assms(3)] same_config_real[OF assms(3)] by (auto simp: co_inv_def managers_inv_def)

inductive km_reach :: "kv_cache_manager \<Rightarrow> bool" where
  init: "kv_cache_manager_init env cfg ml sbs hbs mb caching ue ls evs dcp pcp mc wm = Inr km \<Longrightarrow>
    list_all (\<lambda>g. spec_ok (group_spec g)) (kv_cache_groups cfg) \<Longrightarrow> km_reach km"
| computed: "km_reach km \<Longrightarrow> get_computed_blocks r km = Some (Inr (x, km')) \<Longrightarrow> km_reach km'"
| slots: "km_reach km \<Longrightarrow>
    hits_ok (fst (new_computed_list km a)) (local_computed r a + num_external_computed_tokens a) (km_coordinator km) \<Longrightarrow>
    0 \<le> tokens_main_model km r a \<Longrightarrow> allocate_slots r a km = Inr (x, r', km') \<Longrightarrow> km_reach km'"
| free: "km_reach km \<Longrightarrow> km_free r km = Inr km' \<Longrightarrow> km_reach km'"
| skipped: "km_reach km \<Longrightarrow> km_remove_skipped_blocks rid n km = Inr km' \<Longrightarrow> km_reach km'"
| cache: "km_reach km \<Longrightarrow> km_cache_blocks r n km = Inr (r', km') \<Longrightarrow> km_reach km'"
| evict: "km_reach km \<Longrightarrow> list_all (\<lambda>i. 0 \<le> i) ids \<Longrightarrow> km_evict_blocks ids km = Inr km' \<Longrightarrow> km_reach km'"
| reset: "km_reach km \<Longrightarrow> km_reset_prefix_cache km = Inr (ok, km') \<Longrightarrow> km_reach km'"
| prefix: "km_reach km \<Longrightarrow> km_get_num_common_prefix_blocks rid km = (ns, km') \<Longrightarrow> km_reach km'"
| events: "km_reach km \<Longrightarrow> km_take_events km = (evs, km') \<Longrightarrow> km_reach km'"
| ids: "km_reach km \<Longrightarrow> km_take_new_block_ids km = (ids, km') \<Longrightarrow> km_reach km'"
| step: "km_reach km \<Longrightarrow> km_reach (km_new_step_starts km)"
| stats: "km_reach km \<Longrightarrow> make_prefix_cache_stats km = (st, km') \<Longrightarrow> km_reach km'"

lemma km_reach_inv: "km_reach km \<Longrightarrow> co_inv (km_coordinator km)"
proof (induction rule: km_reach.induct)
  case (init env cfg ml sbs hbs mb caching ue ls evs dcp pcp mc wm km)
  then show ?case using coordinator_inv by (auto simp: kv_cache_manager_init_def rbind_eq_Inr_iff)
next
  case (computed km r x km')
  then show ?case using co_find_inv
    by (fastforce simp: get_computed_blocks_def rbind_eq_Inr_iff co_inv_def split: if_splits option.splits)
next
  case (slots km a r x r' km')
  then show ?case using allocate_slots_inv by blast
next
  case (free km r km')
  then show ?case using co_free_ok[OF free.IH, of "request_id r"] by (auto simp: km_free_def)
next
  case (skipped km rid n km')
  then show ?case using co_remove_inv by (auto simp: km_remove_skipped_blocks_def rbind_eq_Inr_iff)
next
  case (cache km r n r' km')
  then show ?case using co_cache_inv by (auto simp: km_cache_blocks_def rbind_eq_Inr_iff split: if_splits)
next
  case (evict km ids km')
  obtain p xs where p: "evict_blocks ids (km_pool km) = Inr p" "km' = with_pool p km" "pool_rep (km_pool km) xs"
    using evict by (auto simp: km_evict_blocks_def rbind_eq_Inr_iff co_inv_def managers_inv_def pool_inv_def km_pool_def)
  then have "\<forall>i \<in> set ids. 0 \<le> i \<and> i < num_gpu_blocks (km_pool km)"
    using evict_blocks_ids[OF p(1)] evict.hyps(2) by (auto simp: list_all_iff pool_rep_def)
  from evict_blocks_spec[OF p(3) this] p(1) have "pool_inv p \<and> same_config (km_pool km) p \<and> refc p = refc (km_pool km)"
    by (auto simp: pool_inv_def)
  then show ?case using co_pool_inv[OF evict.IH] by (simp add: p(2) km_pool_def)
next
  case (reset km ok km')
  obtain ok' p where r: "reset_prefix_cache (km_pool km) = (ok', p)" by fastforce
  obtain xs where rep: "pool_rep (km_pool km) xs" using reset.IH by (auto simp: co_inv_def managers_inv_def pool_inv_def km_pool_def)
  have c: "km_coordinator km' = (km_coordinator km)\<lparr>co_pool := p\<rparr>"
    using reset.hyps(2) r by (auto simp: km_reset_prefix_cache_def split: if_splits option.splits)
  show ?case unfolding c using co_pool_inv[OF reset.IH] reset_prefix_cache_spec[OF rep r] by (auto simp: pool_inv_def km_pool_def)
next
  case (prefix km rid ns km')
  then show ?case using co_common_prefix_inv by (auto simp: km_get_num_common_prefix_blocks_def split: prod.splits)
next
  case (events km evs km')
  obtain es p where p: "take_events (km_pool km) = (es, p)" by fastforce
  have "pool_inv p \<and> same_config (km_pool km) p \<and> refc p = refc (km_pool km)"
  proof -
    have "pool_inv (km_pool km)" using events.IH by (auto simp: co_inv_def managers_inv_def km_pool_def)
    then show ?thesis using p unfolding take_events_def pool_inv_def pool_rep_def
      by (auto simp: same_config_def core_ok_def refc_def bhash_def real_blocks_def fun_eq_iff split: if_splits)
  qed
  then show ?case using co_pool_inv[OF events.IH] events.hyps(2) p by (auto simp: km_take_events_def km_pool_def)
next
  case (ids km ids km')
  then show ?case using co_map_managers_inv[OF ids.IH, of "\<lambda>m. snd (take_new_block_ids m)"] take_new_block_ids_inv
    by (auto simp: km_take_new_block_ids_def Let_def o_def)
next
  case (step km)
  then show ?case using co_new_step_inv by (simp add: km_new_step_starts_def)
next
  case (stats km st km')
  then show ?case by (auto simp: make_prefix_cache_stats_def split: if_splits)
qed

end
