(* ===== verification/Slot_Allocation.thy ===== *)
theory Slot_Allocation
  imports KV_Cache_Manager
begin

section \<open>Correctness of the KV cache manager\<close>

text \<open>
  The properties of \<open>KVCacheManager\<close> as the scheduler sees it: progress and isolation of
  \<open>allocate_slots\<close>, the accounting of all blocks, and the release of a request. The witnesses run on
  a manager with one full-attention group (\<open>sample_manager\<close>).
\<close>

subsection \<open>Removing skipped blocks never fails\<close>

definition skip_rel :: "string \<Rightarrow> manager \<Rightarrow> manager \<Rightarrow> bool" where
  "skip_rel rid m m' \<longleftrightarrow> sub m' = sub m \<and> mgr_block_size m' = mgr_block_size m \<and> mgr_enable_caching m' = mgr_enable_caching m
     \<and> num_cached_block m' = num_cached_block m \<and> length (blocks_of m' rid) = length (blocks_of m rid)"

lemma skip_loop_length: "skip_loop p nb i bs cs us = (bs', cs', us') \<Longrightarrow> length bs' = length bs"
  by (induction p nb i bs cs us rule: skip_loop.induct) (auto split: if_splits)

lemma base_remove_rel: "base_remove_skipped_blocks rid n (m, p) = Inr (m', p') \<Longrightarrow> skip_rel rid m m'"
  by (auto simp: base_remove_skipped_blocks_def Let_def rbind_eq_Inr_iff skip_rel_def dest!: skip_loop_length
      split: if_splits prod.splits)
     (auto simp: set_blocks_def touch_req_def blocks_of_def dict_get_default_def)

lemma plain_remove: "plain m \<Longrightarrow> remove_skipped_blocks rid n (m, p) = base_remove_skipped_blocks rid n (m, p)"
  by (auto simp: plain_def remove_skipped_blocks_def split: manager_sub.splits)

interpretation plain_remove_steps: total_manager_step "co_remove_step rid n" "\<lambda>p. p" "\<lambda>_ m _. plain m" for rid n
proof unfold_locales
  show "\<exists>x m' s'. co_remove_step rid n i m s = Inr (x, m', s')" if "mgr_inv oth m s" "plain m" for oth m s i
    using base_remove_skipped_ok[OF that(1), of rid n] plain_remove[OF that(2)] by (auto simp: co_remove_step_def)
qed (use co_remove_step_inv in blast)+

lemma for_managers_rel_if:
  assumes "for_managers f i ms s = Inr (xs, ms', s')" "list_all P ms"
    and "\<And>i m s x m' s'. P m \<Longrightarrow> f i m s = Inr (x, m', s') \<Longrightarrow> R m m'"
  shows "list_all2 R ms ms'"
  using assms(1,2)
  by (induction ms arbitrary: i s xs ms') (auto simp: rbind_eq_Inr_iff dest: assms(3))

lemma co_plain_remove:
  assumes inv: "co_inv c" and pl: "list_all plain (single_type_managers c)"
  shows "\<exists>c'. co_remove_skipped_blocks rid n c = Inr c' \<and> co_inv c' \<and> same_config (co_pool c) (co_pool c')
    \<and> list_all2 (skip_rel rid) (single_type_managers c) (single_type_managers c')"
proof -
  let ?ms = "single_type_managers c"
  have inv': "managers_inv (\<lambda>_. 0) ?ms (co_pool c)" using inv by (simp add: co_inv_def)
  have "\<forall>j < length ?ms. plain (?ms ! j)" using pl by (simp add: list_all_length)
  then obtain xs ms' p' where r: "for_managers (co_remove_step rid n) 0 ?ms (co_pool c) = Inr (xs, ms', p')"
    using plain_remove_steps.loop_total[OF inv'] by blast
  have "skip_rel rid m m'" if "plain m" "co_remove_step rid n i m p = Inr (x, m', p')" for i m p x m' p'
    using that plain_remove[OF that(1)] base_remove_rel by (auto simp: co_remove_step_def rbind_eq_Inr_iff)
  then have "list_all2 (skip_rel rid) ?ms ms'" using for_managers_rel_if[OF r pl] by blast
  moreover have eq: "co_remove_skipped_blocks rid n c = Inr (with_managers c ms' p')"
    using r by (simp add: co_remove_skipped_blocks_def)
  ultimately show ?thesis using co_remove_inv[OF inv eq] by simp
qed

lemma list_all2_list_all:
  "list_all2 R xs ys \<Longrightarrow> list_all P xs \<Longrightarrow> (\<And>x y. P x \<Longrightarrow> R x y \<Longrightarrow> Q y) \<Longrightarrow> list_all Q ys"
  by (induction rule: list_all2_induct) auto

lemma skip_rel_plain: "skip_rel rid m m' \<Longrightarrow> plain m' = plain m"
  by (simp add: skip_rel_def plain_def)

lemma skip_rel_ready:
  assumes rel: "list_all2 (skip_rel rid) (single_type_managers c) (single_type_managers c')"
    and cfg: "same_config (co_pool c) (co_pool c')"
  shows "computed_ready rid computed nl ne c \<Longrightarrow> computed_ready rid computed nl ne c'"
    "running_ready rid t c \<Longrightarrow> running_ready rid t c'"
    "list_all plain (single_type_managers c) \<Longrightarrow> list_all plain (single_type_managers c')"
proof -
  have pre: "computed_pre rid bs nl ne m' (co_pool c')" if "computed_pre rid bs nl ne m (co_pool c)" "skip_rel rid m m'" for bs m m'
  proof -
    have "blocks_of m' rid = [] \<longleftrightarrow> blocks_of m rid = []" using that(2) by (metis length_0_conv skip_rel_def)
    then show ?thesis using that skip_rel_plain[OF that(2)] cfg
      by (auto simp: computed_pre_def computed_ok_def table_ok_cong skip_rel_def)
  qed
  show "computed_ready rid computed nl ne c \<Longrightarrow> computed_ready rid computed nl ne c'"
  proof -
    assume "computed_ready rid computed nl ne c"
    then have "length computed = length (single_type_managers c')"
      "\<And>i. i < length computed \<Longrightarrow> computed_pre rid (computed ! i) nl ne (single_type_managers c ! i) (co_pool c)"
      using rel by (auto simp: computed_ready_def list_all2_conv_all_nth)
    moreover have "\<And>i. i < length (single_type_managers c') \<Longrightarrow> skip_rel rid (single_type_managers c ! i) (single_type_managers c' ! i)"
      using rel by (simp add: list_all2_conv_all_nth)
    ultimately show ?thesis unfolding computed_ready_def by (intro list_all2_all_nthI) (auto intro: pre)
  qed
  have gs: "get_num_skipped_tokens m' t = get_num_skipped_tokens m t" if "skip_rel rid m m'" for m m'
    using that by (simp add: skip_rel_def get_num_skipped_tokens_def)
  have one: "plain m' \<and> get_num_skipped_tokens m' t div mgr_block_size m' \<le> int (length (blocks_of m' rid))"
    if "plain m \<and> get_num_skipped_tokens m t div mgr_block_size m \<le> int (length (blocks_of m rid))" "skip_rel rid m m'" for m m'
    using that skip_rel_plain[OF that(2)] gs[OF that(2)] by (simp add: skip_rel_def)
  show "running_ready rid t c \<Longrightarrow> running_ready rid t c'"
    unfolding running_ready_def by (erule list_all2_list_all[OF rel]) (rule one)
  show "list_all plain (single_type_managers c) \<Longrightarrow> list_all plain (single_type_managers c')"
    using list_all2_list_all[OF rel, of plain plain] skip_rel_plain by blast
qed

subsection \<open>Allocation makes progress\<close>

text \<open>
  What the scheduler passes to \<open>allocate_slots\<close>: for a new request the hits of the lookup (one
  list per group) or external tokens, for a running one no hits. \<open>request_ready\<close> is that the
  request is in the state that the call expects.
\<close>

definition request_ready :: "request \<Rightarrow> slot_args \<Rightarrow> kv_cache_manager \<Rightarrow> bool" where
  "request_ready r a km \<longleftrightarrow>
     (case new_computed_list km a of (computed, is_new) \<Rightarrow>
        if is_new \<or> num_external_computed_tokens a > 0
        then computed_ready (request_id r) computed (local_computed r a) (num_external_computed_tokens a) (km_coordinator km)
        else num_external_computed_tokens a = 0 \<and> computed = replicate (length (single_type_managers (km_coordinator km))) []
          \<and> running_ready (request_id r) (local_computed r a) (km_coordinator km))"

lemma request_ready_plain: "request_ready r a km \<Longrightarrow> list_all plain (single_type_managers (km_coordinator km))"
  by (auto simp: request_ready_def computed_ready_def running_ready_def computed_pre_def list_all2_conv_all_nth
      list_all_length split: prod.splits if_splits)

lemma admission_ready:
  assumes "request_ready r a km"
  shows "\<exists>b. admission_refused km r a = Inr (b, km_coordinator km)"
proof -
  let ?c = "km_coordinator km"
  let ?ms = "single_type_managers ?c" and ?n = "min (num_tokens r) (km_max_model_len km)"
  let ?step = "co_num_blocks_step (request_id r) ?n (fst (new_computed_list km a)) (num_encoder_tokens a) (total_computed km r a) ?n True"
  have "\<forall>j < length ?ms. \<exists>k. ?step (0 + int j) (?ms ! j) (co_pool ?c) = Inr (k, ?ms ! j, co_pool ?c)"
  proof (intro allI impI)
    fix j assume j: "j < length ?ms"
    have pl: "plain (?ms ! j)" using request_ready_plain[OF assms] j by (simp add: list_all_length)
    have ix: "py_index (fst (new_computed_list km a)) (0 + int j) = Inr (fst (new_computed_list km a) ! j)"
      "dict_get (num_cached_block (?ms ! j)) (request_id r) \<noteq> None \<Longrightarrow> fst (new_computed_list km a) ! j = []"
      using assms j by (auto simp: request_ready_def computed_ready_def list_all2_conv_all_nth computed_pre_def py_index_def
          split: prod.splits if_splits)
    show "\<exists>k. ?step (0 + int j) (?ms ! j) (co_pool ?c) = Inr (k, ?ms ! j, co_pool ?c)"
      unfolding plain_simps(5)[OF pl] ix(1) rbind.simps using ix(2)
      by (auto simp: base_num_blocks_to_allocate_def Let_def)
  qed
  then obtain g where "\<forall>j < length ?ms. ?step (0 + int j) (?ms ! j) (co_pool ?c) = Inr (g j, ?ms ! j, co_pool ?c)" by metis
  then have "for_managers ?step 0 ?ms (co_pool ?c) = Inr (map g [0..<length ?ms], ?ms, co_pool ?c)"
    by (rule for_managers_pure)
  then show ?thesis
    by (auto simp: admission_refused_def Let_def co_get_num_blocks_to_allocate_def)
qed

lemma with_coordinator_args [simp]:
  "new_computed_list (with_coordinator c km) a = new_computed_list km a"
  "total_computed (with_coordinator c km) r a = total_computed km r a"
  "tokens_main_model (with_coordinator c km) r a = tokens_main_model km r a"
  "tokens_need_slot (with_coordinator c km) r a = tokens_need_slot km r a"
  by (simp_all add: new_computed_list_def total_computed_def tokens_main_model_def tokens_need_slot_def with_coordinator_def
      split: option.splits)

lemma commit_with_coordinator [simp]: "commit_slots (with_coordinator c km) r a = commit_slots km r a"
  by (simp add: commit_slots_def fun_eq_iff)

lemma count_ready:
  assumes inv: "co_inv (km_coordinator km)" and ready: "request_ready r a km"
    and n: "local_computed r a + num_external_computed_tokens a \<le> n"
  shows "\<exists>k. co_get_num_blocks_to_allocate (request_id r) n (fst (new_computed_list km a)) enc
              (local_computed r a + num_external_computed_tokens a) main' False (km_coordinator km) = Inr (k, km_coordinator km)"
  using ready co_predict_computed[OF inv _ n, of "request_id r" _ enc main'] co_predict_running[OF inv, of "request_id r" _ _ n enc main']
  unfolding request_ready_def by (auto split: prod.splits if_splits)

lemma commit_ready:
  assumes inv: "co_inv (km_coordinator km)" and ready: "request_ready r a km"
    and n: "local_computed r a + num_external_computed_tokens a \<le> tokens_need_slot km r a" and main: "0 \<le> tokens_main_model km r a"
    and k: "co_get_num_blocks_to_allocate (request_id r) (tokens_need_slot km r a) (fst (new_computed_list km a)) enc
              (local_computed r a + num_external_computed_tokens a) main' False (km_coordinator km) = Inr (k, c3)"
    and fit: "k \<le> get_num_free_blocks (km_pool km)"
  shows "c3 = km_coordinator km \<and> (\<exists>new c5. commit_slots km r a (km_coordinator km) = Inr (new, c5) \<and> co_inv c5
    \<and> get_num_free_blocks (km_pool km) - k \<le> get_num_free_blocks (co_pool c5)
    \<and> list_all2 (\<lambda>m m5. cdiv (tokens_need_slot km r a) (mgr_block_size m) \<le> int (length (blocks_of m5 (request_id r))))
        (single_type_managers (km_coordinator km)) (single_type_managers c5))"
proof -
  let ?c = "km_coordinator km" and ?rid = "request_id r" and ?n = "tokens_need_slot km r a"
  let ?nl = "local_computed r a" and ?ne = "num_external_computed_tokens a"
  obtain computed is_new where l: "new_computed_list km a = (computed, is_new)" by fastforce
  show ?thesis
  proof (cases "is_new \<or> ?ne > 0")
    case True
    have rd: "computed_ready ?rid computed ?nl ?ne ?c" using ready True by (simp add: request_ready_def l)
    note pred = k[unfolded l fst_conv co_predict_computed[OF inv rd n, of enc main']]
    have kc: "c3 = ?c" using pred by (simp only: sum.inject prod.inject)
    let ?S = "sum_list (map (\<lambda>j. max 0 (cdiv ?n (mgr_block_size (single_type_managers ?c ! j))
        - computed_len ?rid (computed ! j) ?nl ?ne (single_type_managers ?c ! j))) [0..<length (single_type_managers ?c)])"
    have "0 \<le> ?S" by (rule sum_list_nonneg) auto
    moreover have kk: "k = co_computed_cost ?rid computed ?nl ?ne ?c + ?S" using pred unfolding sum.inject prod.inject by (elim conjE) (rule sym)
    ultimately have fit': "co_computed_cost ?rid computed ?nl ?ne ?c \<le> get_num_free_blocks (co_pool ?c)"
      using fit unfolding km_pool_def by linarith
    obtain c1 where c1: "co_allocate_new_computed_blocks ?rid computed ?nl ?ne ?c = Inr c1" "co_inv c1"
      "list_all plain (single_type_managers c1)" "map mgr_block_size (single_type_managers c1) = map mgr_block_size (single_type_managers ?c)"
      "get_num_free_blocks (co_pool ?c) - k \<le> get_num_free_blocks (co_pool c1) - alloc_cost ?rid ?n c1"
      using co_computed_fits[OF inv rd fit', of ?n] kk by fastforce
    have "alloc_cost ?rid ?n c1 \<le> get_num_free_blocks (co_pool c1)" using c1(5) fit by (simp add: km_pool_def)
    from co_alloc_fits[OF c1(2,3) main this] obtain bss c2 where c2: "co_allocate_new_blocks ?rid ?n (tokens_main_model km r a)
        (num_encoder_tokens a) c1 = Inr (bss, c2)" "co_inv c2"
      "get_num_free_blocks (co_pool c1) - alloc_cost ?rid ?n c1 \<le> get_num_free_blocks (co_pool c2)"
      "list_all2 (\<lambda>m m2. cdiv ?n (mgr_block_size m) \<le> int (length (blocks_of m2 ?rid))) (single_type_managers c1) (single_type_managers c2)"
      by blast
    have "list_all2 (\<lambda>m m5. cdiv ?n (mgr_block_size m) \<le> int (length (blocks_of m5 ?rid))) (single_type_managers ?c) (single_type_managers c2)"
      using c2(4) c1(4) by (auto simp: list_all2_conv_all_nth list_eq_iff_nth_eq)
    then show ?thesis using True c1 c2 kc by (auto simp: commit_slots_def l km_pool_def)
  next
    case False
    then have rd: "running_ready ?rid ?nl ?c" "computed = replicate (length (single_type_managers ?c)) []" "?ne = 0"
      using ready by (auto simp: request_ready_def l)
    note pred = k[unfolded l fst_conv rd(3) add_0_right co_predict_running[OF inv rd(1,2), of ?n enc main'] sum.inject prod.inject]
    have k': "k = alloc_cost ?rid ?n ?c" "c3 = ?c" using pred by blast+
    have "list_all plain (single_type_managers ?c)" using request_ready_plain[OF ready] .
    from co_alloc_fits[OF inv this main] fit k' False show ?thesis
      by (auto simp: commit_slots_def l km_pool_def)
  qed
qed


subsection \<open>Accounting, isolation and release\<close>

definition builtin_registry :: spec_registry where
  "builtin_registry = (case register_all_kvcache_specs Inr [] of Inr r \<Rightarrow> r | Inl _ \<Rightarrow> [])"

definition sample_env :: coord_env where
  "sample_env = \<lparr>env_retention = None, env_ints = False, env_sha = toy_sha, env_registry = builtin_registry\<rparr>"

definition full_spec :: "int \<Rightarrow> kv_cache_spec" where
  "full_spec bs = FullAttentionSpec (sample_attention bs Q_NONE) (full_post_init (sample_attention bs Q_NONE) None None None)"

definition one_group :: "kv_cache_spec \<Rightarrow> int \<Rightarrow> kv_cache_config" where
  "one_group s n = \<lparr>num_blocks = n, kv_cache_tensors = [], kv_cache_groups = [\<lparr>layer_names = [''l''], group_spec = s, is_eagle_group = False\<rparr>]\<rparr>"

definition sample_manager :: "kv_cache_manager result" where
  "sample_manager = kv_cache_manager_init sample_env (one_group (full_spec 2) 4) 100 2 2 None False False False False 1 1 None 0"

lemma sample_manager_reach:
  obtains km where "sample_manager = Inr km" "km_reach km"
proof -
  have "is_ok sample_manager" by code_simp
  then obtain km where km: "sample_manager = Inr km" by (auto simp: is_ok_iff)
  moreover have "list_all (\<lambda>g. spec_ok (group_spec g)) (kv_cache_groups (one_group (full_spec 2) 4))" by code_simp
  ultimately show ?thesis using that km_reach.init[OF km[unfolded sample_manager_def]] by blast
qed

lemma allocated_sample:
  obtains km km' r' where "sample_manager = Inr km" "km_reach km"
    "allocate_slots (cached_request []) (default_slot_args 3) km = Inr (Some (KVCacheBlocks [[Blk 1, Blk 2]]), r', km')"
    "request_ready (cached_request []) (default_slot_args 3) km" "km_enable_caching km = False" "km_max_model_len km = 100"
    "watermark_blocks km = 0" "km_reach km'"
proof -
  obtain km where km: "sample_manager = Inr km" "km_reach km" by (rule sample_manager_reach)
  have "rbind sample_manager (\<lambda>km. rbind (allocate_slots (cached_request []) (default_slot_args 3) km) (\<lambda>(bs, _). Inr bs))
    = Inr (Some (KVCacheBlocks [[Blk 1, Blk 2]]))" by code_simp
  then obtain r' km' where al: "allocate_slots (cached_request []) (default_slot_args 3) km
      = Inr (Some (KVCacheBlocks [[Blk 1, Blk 2]]), r', km')" unfolding km(1) rbind.simps by (auto simp: rbind_eq_Inr_iff)
  have "case sample_manager of Inl _ \<Rightarrow> False | Inr km \<Rightarrow> request_ready (cached_request []) (default_slot_args 3) km
      \<and> hits_ok (fst (new_computed_list km (default_slot_args 3))) 0 (km_coordinator km)
      \<and> \<not> km_enable_caching km \<and> km_max_model_len km = 100 \<and> watermark_blocks km = 0" by code_simp
  then have f: "request_ready (cached_request []) (default_slot_args 3) km" "\<not> km_enable_caching km" "km_max_model_len km = 100"
    "watermark_blocks km = 0" "hits_ok (fst (new_computed_list km (default_slot_args 3))) 0 (km_coordinator km)"
    unfolding km(1) by simp_all
  have args: "num_computed_tokens (cached_request []) = 0" "num_external_computed_tokens (default_slot_args 3) = 0"
    "num_new_computed_tokens (default_slot_args 3) = 0" "num_new_tokens (default_slot_args 3) = 3" by code_simp+
  have "km_reach km'"
    using km_reach.slots[OF km(2) _ _ al] f(3,5) args
    by (simp add: local_computed_def tokens_main_model_def total_computed_def)
  then show ?thesis using that km al f by blast
qed

lemma held_zero_iff: "held d b = 0 \<longleftrightarrow> (\<forall>(r, bs) \<in> set d. b \<notin> set bs)"
  by (auto simp: held_def count_list_0_iff)

lemma held_all_zero_iff: "held_all ms b = 0 \<longleftrightarrow> (\<forall>m \<in> set ms. \<forall>(r, bs) \<in> set (req_to_blocks m). b \<notin> set bs)"
proof (induction ms)
  case (Cons m ms)
  then show ?case using held_zero_iff[of "req_to_blocks m" b] held_all_nonneg[of ms b] by (auto simp: add_nonneg_eq_0_iff)
qed simp

lemma co_frame_blocks: "co_frame rid c c' \<Longrightarrow> r \<noteq> rid \<Longrightarrow> co_get_blocks r c' = co_get_blocks r c"
  unfolding co_get_blocks_def co_frame_def by (induction rule: list_all2_induct) (auto simp: mgr_frame_def)

lemma free_held:
  assumes "co_inv c" "co_free rid c = Inr c'"
  shows "held_all (single_type_managers c') b + sum_list (map (\<lambda>bs. int (count_list bs b)) (co_get_blocks rid c))
    = held_all (single_type_managers c) b"
proof -
  have tab: "req_to_blocks m' = dict_del rid (req_to_blocks m)" if "mgr_free rid (m, p) = Inr (m', p')" for m p m' p'
    using that unfolding mgr_free_def base_free_def sliding_free_def
    by (auto simp: Let_def rbind_eq_Inr_iff pop_request_def mamba_forget_def split: manager_sub.splits)
  have "list_all2 (\<lambda>m m'. req_to_blocks m' = dict_del rid (req_to_blocks m)) (single_type_managers c) (single_type_managers c')"
    using assms(2) by (auto simp: co_free_def rbind_eq_Inr_iff co_free_step_def dest!: tab elim!: for_managers_rel)
  moreover have "\<forall>m \<in> set (single_type_managers c). dict_ok (req_to_blocks m)"
    using assms(1) by (auto simp: co_inv_def managers_inv_def mgr_ok_def)
  ultimately show ?thesis unfolding co_get_blocks_def
  proof (induction rule: list_all2_induct)
    case (Cons m ms m' ms')
    then show ?case using held_del[of "req_to_blocks m" rid b] by (simp add: blocks_of_def)
  qed simp
qed

text \<open>
  C5: Accounting of the whole KV cache. In every state that the operations of \<open>KVCacheManager\<close> can
  reach, the reference count of a block is the number of its occurrences in the block tables of all
  groups and requests, the free queue lists, once each, exactly the blocks that are in no table, and
  the number of free blocks that the scheduler sees is its length.
\<close>

theorem kv_manager_accounting:
  assumes "km_reach km"
  shows "(\<forall>b \<in> real_blocks (km_pool km). refc (km_pool km) b = held_all (single_type_managers (km_coordinator km)) b)
    \<and> (\<exists>xs. get_all_free_blocks (pool_queue (km_pool km)) = Some (Inr xs) \<and> distinct xs
         \<and> set xs = {b \<in> real_blocks (km_pool km). \<forall>m \<in> set (single_type_managers (km_coordinator km)).
              \<forall>(rid, bs) \<in> set (req_to_blocks m). b \<notin> set bs}
         \<and> get_num_free_blocks (km_pool km) = int (length xs))"
proof -
  have inv: "managers_inv (\<lambda>_. 0) (single_type_managers (km_coordinator km)) (km_pool km)"
    using km_reach_inv[OF assms] by (simp add: co_inv_def km_pool_def)
  then obtain xs where xs: "pool_rep (km_pool km) xs" by (auto simp: managers_inv_def pool_inv_def)
  have "get_all_free_blocks (pool_queue (km_pool km)) = Some (Inr xs)" "distinct xs"
    using xs get_all_free_blocks_refines fq_rep_distinct by (auto simp: pool_rep_def)
  moreover have "set xs = {b \<in> real_blocks (km_pool km). held_all (single_type_managers (km_coordinator km)) b = 0}"
    using xs inv by (auto simp: pool_rep_def managers_inv_def)
  ultimately show ?thesis using inv get_num_free_blocks_eq[OF xs] unfolding managers_inv_def held_all_zero_iff by auto
qed

theorem kv_manager_accounting_witness:
  "\<exists>km r' km'. sample_manager = Inr km
    \<and> allocate_slots (cached_request []) (default_slot_args 3) km = Inr (Some (KVCacheBlocks [[Blk 1, Blk 2]]), r', km')
    \<and> (\<exists>xs. get_all_free_blocks (pool_queue (km_pool km')) = Some (Inr xs) \<and> distinct xs
         \<and> get_num_free_blocks (km_pool km') = int (length xs))"
proof -
  obtain km km' r' where "sample_manager = Inr km" "km_reach km'"
    "allocate_slots (cached_request []) (default_slot_args 3) km = Inr (Some (KVCacheBlocks [[Blk 1, Blk 2]]), r', km')"
    by (rule allocated_sample)
  then show ?thesis using kv_manager_accounting[of km'] by blast
qed


text \<open>
  C8: Isolation. Whatever \<open>allocate_slots\<close> returns, the block tables of all other requests are as
  before in every group.
\<close>

theorem allocate_slots_isolated:
  assumes "km_reach km"
    and "hits_ok (fst (new_computed_list km a)) (local_computed r a + num_external_computed_tokens a) (km_coordinator km)"
    and "0 \<le> tokens_main_model km r a" "allocate_slots r a km = Inr (x, r', km')" "rid \<noteq> request_id r"
  shows "co_get_blocks rid (km_coordinator km') = co_get_blocks rid (km_coordinator km)"
proof -
  have "co_frame (request_id r) (km_coordinator km) (km_coordinator km')"
    using allocate_slots_inv[OF km_reach_inv[OF assms(1)] assms(2-4)] by blast
  then show ?thesis using co_frame_blocks assms(5) by blast
qed

text \<open>
  C9: Releasing. \<open>free\<close> never fails on a reachable manager: afterwards the request has no blocks in any
  group, all other requests keep theirs, and every block loses exactly the references of this
  request, so a block that no other request uses is free.
\<close>

theorem free_releases_request:
  assumes "km_reach km"
  shows "\<exists>km'. km_free r km = Inr km' \<and> km_reach km'
    \<and> km_get_blocks (request_id r) km' = Empty_KV_Cache_Blocks (num_kv_cache_groups km)
    \<and> (\<forall>rid. rid \<noteq> request_id r \<longrightarrow> co_get_blocks rid (km_coordinator km') = co_get_blocks rid (km_coordinator km))
    \<and> (\<forall>b \<in> real_blocks (km_pool km). refc (km_pool km') b
         = refc (km_pool km) b - sum_list (map (\<lambda>bs. int (count_list bs b)) (co_get_blocks (request_id r) (km_coordinator km))))"
proof -
  obtain c' where c': "co_free (request_id r) (km_coordinator km) = Inr c'" "co_inv c'"
    "same_config (co_pool (km_coordinator km)) (co_pool c')" using co_free_ok[OF km_reach_inv[OF assms]] by blast
  note fr = co_free_frame[OF c'(1)]
  have "km_free r km = Inr (with_coordinator c' km)" using c' by (simp add: km_free_def)
  moreover have "km_get_blocks (request_id r) (with_coordinator c' km) = Empty_KV_Cache_Blocks (num_kv_cache_groups km)"
    using fr by (auto simp: km_get_blocks_def create_kv_cache_blocks_def co_get_blocks_def list_all_iff list_ex_iff with_coordinator_def)
  moreover have "co_get_blocks rid c' = co_get_blocks rid (km_coordinator km)" if "rid \<noteq> request_id r" for rid
    using co_frame_blocks[OF conjunct1[OF fr] that] .
  moreover have "refc (co_pool c') b
      = refc (km_pool km) b - sum_list (map (\<lambda>bs. int (count_list bs b)) (co_get_blocks (request_id r) (km_coordinator km)))"
    if "b \<in> real_blocks (km_pool km)" for b
    using free_held[OF km_reach_inv[OF assms] c'(1), of b] km_reach_inv[OF assms] c'(2,3) that same_config_real[OF c'(3)]
    by (auto simp: co_inv_def managers_inv_def km_pool_def)
  ultimately show ?thesis using km_reach.free[OF assms] by auto
qed

theorem allocate_slots_isolated_witness:
  "\<exists>km r' km'. allocate_slots (cached_request []) (default_slot_args 3) km = Inr (Some (KVCacheBlocks [[Blk 1, Blk 2]]), r', km')
    \<and> co_get_blocks ''b'' (km_coordinator km') = co_get_blocks ''b'' (km_coordinator km)"
proof -
  obtain km km' r' where km: "sample_manager = Inr km" "km_reach km" "km_max_model_len km = 100"
    "allocate_slots (cached_request []) (default_slot_args 3) km = Inr (Some (KVCacheBlocks [[Blk 1, Blk 2]]), r', km')"
    by (rule allocated_sample)
  have "case sample_manager of Inl _ \<Rightarrow> False | Inr km \<Rightarrow>
      hits_ok (fst (new_computed_list km (default_slot_args 3))) (local_computed (cached_request []) (default_slot_args 3)
        + num_external_computed_tokens (default_slot_args 3)) (km_coordinator km)
      \<and> 0 \<le> tokens_main_model km (cached_request []) (default_slot_args 3)" by code_simp
  then have "hits_ok (fst (new_computed_list km (default_slot_args 3))) (local_computed (cached_request []) (default_slot_args 3)
        + num_external_computed_tokens (default_slot_args 3)) (km_coordinator km)"
    "0 \<le> tokens_main_model km (cached_request []) (default_slot_args 3)" unfolding km(1) by simp_all
  moreover have "''b'' \<noteq> request_id (cached_request [])" by code_simp
  ultimately show ?thesis using allocate_slots_isolated[OF km(2) _ _ km(4)] km(4) by blast
qed

theorem free_releases_request_witness:
  "\<exists>km km'. km_reach km \<and> km_free (cached_request []) km = Inr km'
    \<and> km_get_blocks (request_id (cached_request [])) km' = Empty_KV_Cache_Blocks (num_kv_cache_groups km)"
proof -
  obtain km where "km_reach km" by (rule sample_manager_reach)
  then show ?thesis using free_releases_request by blast
qed

end
