(* ===== verification/Hybrid_Lookup.thy ===== *)
theory Hybrid_Lookup
  imports Slot_Allocation
begin

section \<open>Several KV cache groups together\<close>

text \<open>
  What the coordinator does across groups: the fixed-point iteration of \<open>HybridKVCacheCoordinator\<close>
  terminates, and three ways in which groups do not fit together (a hit longer than its blocks, an
  allocation that takes another group's hit, a manager that cannot be constructed).
\<close>

subsection \<open>Termination of the hybrid lookup\<close>

lemma hybrid_group_step_nonneg:
  assumes "hybrid_group_step p hashes hbs ml al (idx, g) st = Inr st'" "0 \<le> curr_hit_length st" "0 < block_size (sg_spec g)"
  shows "0 \<le> curr_hit_length st'"
  using assms unfolding hybrid_group_step_def
  by (auto simp: Let_def rbind_eq_Inr_iff pos_imp_zdiv_nonneg_iff split: if_splits)

lemma hybrid_round_nonneg:
  assumes "hybrid_round p hashes hbs ml al gs st = Inr st'" "0 \<le> curr_hit_length st"
    "list_all (\<lambda>g. 0 < block_size (sg_spec g)) gs"
  shows "0 \<le> curr_hit_length st'"
proof (rule rfold_invariant[of _ _ _ st' "\<lambda>st. 0 \<le> curr_hit_length st"])
  show "rfold (hybrid_group_step p hashes hbs ml al) (enumerate 0 gs) st = Inr st'"
    using assms(1) by (simp add: hybrid_round_def)
  show "0 \<le> curr_hit_length s'"
    if "x \<in> set (enumerate 0 gs)" "0 \<le> curr_hit_length s" "hybrid_group_step p hashes hbs ml al x s = Inr s'" for x s s'
  proof -
    have "snd x \<in> set gs" by (metis enumerate_eq_zip set_zip_rightD prod.collapse that(1))
    then show ?thesis using that(2,3) assms(3) hybrid_group_step_nonneg[of p hashes hbs ml al "fst x" "snd x" s s']
      by (simp add: list_all_iff)
  qed
qed (rule assms(2))

lemma hybrid_loop_returns:
  assumes "0 \<le> hit" "list_all (\<lambda>g. 0 < block_size (sg_spec g)) gs"
  shows "\<exists>res. hybrid_loop p hashes hbs ml al gs simple hit st = Some res
    \<and> (\<forall>len st'. res = Inr (len, st') \<longrightarrow> 0 \<le> len \<and> len \<le> hit)"
  using assms(1)
proof (induction "nat hit" arbitrary: hit st rule: less_induct)
  case less
  show ?case
  proof (cases "hybrid_round p hashes hbs ml al gs (st\<lparr>curr_hit_length := hit\<rparr>)")
    case (Inl e)
    then show ?thesis by (subst hybrid_loop.simps) simp
  next
    case (Inr st')
    have nn: "0 \<le> curr_hit_length st'" using hybrid_round_nonneg[OF Inr _ assms(2)] less.prems by simp
    show ?thesis
    proof (cases "curr_hit_length st' \<ge> hit \<or> simple")
      case True
      then show ?thesis using Inr nn less.prems by (subst hybrid_loop.simps) auto
    next
      case False
      then have "nat (curr_hit_length st') < nat hit" using nn by simp
      from less.hyps[OF this nn] False Inr show ?thesis
        by (subst hybrid_loop.simps) fastforce
    qed
  qed
qed

text \<open>
  C25: The fixed-point iteration of the hybrid coordinator terminates: with positive block sizes and a
  limit that is not negative, \<open>find_longest_cache_hit\<close> returns, and the hit length it returns lies
  between zero and the limit.
\<close>

theorem hybrid_lookup_terminates:
  assumes "0 \<le> max_len" "list_all (\<lambda>g. 0 < block_size (sg_spec g)) gs"
  shows "\<exists>res. hybrid_find_longest_cache_hit hbs gs hashes max_len c = Some res
    \<and> (case res of Inl _ \<Rightarrow> True | Inr ((blocks, len), c') \<Rightarrow> 0 \<le> len \<and> len \<le> max_len \<and> co_pool c' = co_pool c)"
proof -
  let ?st = "\<lparr>curr_hit_length = max_len, longest_hit_length = 0,
                 hit_blocks_by_group = replicate (length (kv_cache_groups (co_config c))) None, eagle_verified = {}\<rparr>"
  obtain res where res: "hybrid_loop (co_pool c) hashes hbs max_len (co_scheduler_block_size c) gs (is_simple_hybrid gs) max_len ?st = Some res"
    "\<forall>len st'. res = Inr (len, st') \<longrightarrow> 0 \<le> len \<and> len \<le> max_len"
    using hybrid_loop_returns[OF assms] by blast
  then show ?thesis unfolding hybrid_find_longest_cache_hit_def Let_def
    by (cases res) (auto simp: Let_def)
qed

definition mamba_spec_of :: "int \<Rightarrow> kv_cache_spec" where
  "mamba_spec_of bs = MambaSpec \<lparr>ms_block_size = bs, ms_shapes = [], ms_dtypes = [], ms_page_size_padded = None,
     ms_mamba_type = ''mamba2'', ms_cache_mode = ''all'', ms_num_speculative_blocks = 0\<rparr>"

definition two_groups :: "kv_cache_spec \<Rightarrow> kv_cache_spec \<Rightarrow> int \<Rightarrow> kv_cache_config" where
  "two_groups s t n = \<lparr>num_blocks = n, kv_cache_tensors = [], kv_cache_groups =
     [\<lparr>layer_names = [''l0''], group_spec = s, is_eagle_group = False\<rparr>, \<lparr>layer_names = [''l1''], group_spec = t, is_eagle_group = False\<rparr>]\<rparr>"

text \<open>A pool with a cached block for the hash \<open>[0]\<close> in each of two groups.\<close>

definition two_hits_pool :: "block_pool result" where
  "two_hits_pool =
     rbind (block_pool_init 5 True 1 False None False toy_sha) (\<lambda>p0.
     rbind (get_new_blocks 2 p0) (\<lambda>(bs, p1).
     rbind (cache_full_blocks (cached_request [[0]]) [Blk 1] 0 1 1 0 None p1) (\<lambda>(_, p2).
     rbind (cache_full_blocks (cached_request [[0]]) [Blk 2] 0 1 1 1 None p2) (\<lambda>(_, p3).
       free_blocks [Blk 2, Blk 1] False p3))))"

definition eagle_mamba_coordinator :: "coordinator result" where
  "eagle_mamba_coordinator =
     get_kv_cache_coordinator sample_env (two_groups (full_spec 1) (mamba_spec_of 1) 5) 100 100 True True False 1 1 1 1 None"

definition lookup_outcome :: "((bref list list \<times> int) \<times> coordinator) result option \<Rightarrow> (bref list list \<times> int) option" where
  "lookup_outcome x = (case x of Some (Inr (y, _)) \<Rightarrow> Some y | _ \<Rightarrow> None)"

definition eagle_groups :: "spec_group list" where
  "eagle_groups = [\<lparr>sg_spec = full_spec 1, sg_group_ids = [0], sg_manager_cls = M_FullAttentionManager, sg_use_eagle = True\<rparr>,
     \<lparr>sg_spec = mamba_spec_of 1, sg_group_ids = [1], sg_manager_cls = M_MambaManager, sg_use_eagle = True\<rparr>]"

lemma eagle_mamba_fields:
  "rbind eagle_mamba_coordinator (\<lambda>c. Inr (co_class c, co_scheduler_block_size c, length (kv_cache_groups (co_config c))))
   = Inr (HybridKVCacheCoordinator 1 eagle_groups, 1, 2)"
  by code_simp

lemma eagle_mamba_loop:
  "rbind two_hits_pool (\<lambda>p. case hybrid_loop p [[0]] 1 1 1 eagle_groups True 1
      \<lparr>curr_hit_length = 1, longest_hit_length = 0, hit_blocks_by_group = [None, None], eagle_verified = {}\<rparr> of
      Some (Inr (n, st)) \<Rightarrow> Inr (n, hit_blocks_by_group st) | _ \<Rightarrow> Inl RuntimeError) = Inr (1, [Some [], Some [Blk 2]])"
  by code_simp


lemma computed_step_takes_front:
  assumes inv: "mgr_inv oth m p" and m: "sub m = FullAttentionManager" "mgr_enable_caching m" "mgr_block_size m = bs"
      "dict_get (num_cached_block m) rid = None" "blocks_of m rid = []"
    and rep: "pool_rep p xs" and hit: "b \<in> real_blocks p" "filter (\<lambda>x. x \<noteq> b) xs = b' # ys" and cache: "enable_caching p"
    and ix: "py_index computed i = Inr [b]"
  shows "\<exists>m' p'. co_computed_step rid computed bs bs i m p = Inr ((), m', p') \<and> blocks_of m' rid = [b, b']
    \<and> pool_rep p' ys \<and> bhash p' = (bhash p)(b' := None) \<and> same_config p p' \<and> mgr_inv oth m' p'"
proof -
  have bs: "0 < bs" using inv m(3) by (simp add: mgr_inv_def mgr_ok_def)
  have sk: "skipped_blocks m (bs + bs) = 0" using m(1) by (simp add: skipped_blocks_def get_num_skipped_tokens_def)
  have two: "cdiv (bs + bs) bs = 2" using cdiv_mult[OF bs, of 2] unfolding mult_2 .
  have tab: "table_ok p [b]" using hit(1) by (simp add: table_ok_def)
  have ok: "computed_ok p m [b] (bs + bs)" using tab two bs m(3) by (simp add: computed_ok_def)
  have pre: "computed_pre rid [b] bs bs m p" using ok m by (simp add: computed_pre_def plain_def)
  have ext: "external_blocks m [b] bs bs = 1" using sk two bs m(3) by (simp add: external_blocks_def)
  obtain p1 where p1: "touch [b] p = Inr p1" "pool_rep p1 (b' # ys)" "same_config p p1" "bhash p1 = bhash p"
    using touch_spec[OF rep, of "[b]"] hit by auto
  obtain p2 where p2: "get_new_blocks 1 p1 = Inr ([b'], p2)" "pool_rep p2 ys" "same_config p1 p2" "bhash p2 = (bhash p)(b' := None)"
  proof -
    have "enable_caching p1" using p1(3) cache by (simp add: same_config_def)
    then have eq: "(\<lambda>b. if enable_caching p1 \<and> b \<in> set (take (nat 1) (b' # ys)) then None else bhash p1 b) = (bhash p)(b' := None)"
      using p1(4) by (auto simp: fun_eq_iff)
    show ?thesis using get_new_blocks_spec[OF p1(2), of 1, unfolded eq] that by auto
  qed
  obtain m' where m': "base_allocate_new_computed_blocks rid [b] bs bs (m, p) = Inr (m', p2)" "blocks_of m' rid = [b, b']"
    using computed_eq[OF inv pre m(4)] sk ext bs p1(1) p2(1) by (simp add: blocks_of_def set_blocks_def dict_get_default_def)
  then have step: "co_computed_step rid computed bs bs i m p = Inr ((), m', p2)"
    using plain_simps(2)[of m] m(1) by (simp add: co_computed_step_def ix plain_def)
  have "mgr_inv oth m' p2" using computed_steps.step_inv[OF inv _ step] ok ix by simp
  then show ?thesis using step m'(2) p2 p1(3) same_config_trans by blast
qed

text \<open>
  C26: The coordinator hands a hit of one group to another. The managers allocate blocks for external
  tokens one after the other, each one right after it has taken its own hits. With one hit block
  per group, both free, and one block of external tokens, the first group's allocation takes the
  hit block of the second group from the free queue and evicts it; the second group then uses the
  same block as its hit. Two groups share one physical block, and the cached content is lost.
\<close>

theorem external_allocation_takes_other_hit:
  assumes inv: "co_inv c" and ms: "single_type_managers c = [m0, m1]"
    and full: "sub m0 = FullAttentionManager" "sub m1 = FullAttentionManager"
    and caching: "mgr_enable_caching m0" "mgr_enable_caching m1" "enable_caching (co_pool c)"
    and sizes: "mgr_block_size m0 = bs" "mgr_block_size m1 = bs"
    and new: "dict_get (num_cached_block m0) rid = None" "dict_get (num_cached_block m1) rid = None"
      "blocks_of m0 rid = []" "blocks_of m1 rid = []"
    and free: "pool_rep (co_pool c) (b0 # b1 # b2 # xs)"
  shows "\<exists>c'. co_allocate_new_computed_blocks rid [[b0], [b1]] bs bs c = Inr c'
    \<and> co_get_blocks rid c' = [[b0, b1], [b1, b2]] \<and> bhash (co_pool c') b1 = None"
proof -
  let ?p = "co_pool c" and ?comp = "[[b0], [b1]]"
  have d: "distinct (b0 # b1 # b2 # xs)" using free fq_rep_distinct[of "pool_queue ?p" "b0 # b1 # b2 # xs"] by (simp add: pool_rep_def)
  have real: "b0 \<in> real_blocks ?p" "b1 \<in> real_blocks ?p" using free by (auto simp: pool_rep_def)
  have minv: "managers_inv (\<lambda>_. 0) [m0, m1] ?p" using inv ms by (simp add: co_inv_def)
  have inv0: "mgr_inv (\<lambda>b. 0 + held_all [m1] b) m0 ?p" "mgr_ok m1 ?p"
    using managers_inv_Cons(1)[THEN iffD1, OF _ minv] by auto
  have f0: "filter (\<lambda>x. x \<noteq> b0) (b0 # b1 # b2 # xs) = b1 # b2 # xs" using d by (auto simp: filter_id_conv)
  obtain m0' p1 where s0: "co_computed_step rid ?comp bs bs 0 m0 ?p = Inr ((), m0', p1)" "blocks_of m0' rid = [b0, b1]"
    "pool_rep p1 (b2 # xs)" "bhash p1 = (bhash ?p)(b1 := None)" "same_config ?p p1" "mgr_inv (\<lambda>b. 0 + held_all [m1] b) m0' p1"
    using computed_step_takes_front[OF inv0(1) full(1) caching(1) sizes(1) new(1,3) free real(1) f0 caching(3), of ?comp 0]
    by (auto simp: py_index_def)
  have ok1: "mgr_ok m0' p1" "mgr_ok m1 p1" using s0(6) inv0(2) mgr_ok_cong[OF s0(5)] by (auto simp: mgr_inv_def)
  then have "managers_inv (\<lambda>_. 0) [m0', m1] p1" using s0(6) managers_inv_Cons(1)[of "\<lambda>_. 0" m0' "[m1]" p1] by simp
  then have "managers_inv (\<lambda>b. 0 + int (held (req_to_blocks m0') b)) [m1] p1"
    using managers_inv_Cons(2)[of "\<lambda>_. 0" m0' p1 "[m1]"] ok1(1) by simp
  then obtain oth where inv1: "mgr_inv oth m1 p1" using managers_inv_member by fastforce
  have f1: "filter (\<lambda>x. x \<noteq> b1) (b2 # xs) = b2 # xs" using d by (auto simp: filter_id_conv)
  have c1: "b1 \<in> real_blocks p1" "enable_caching p1" using real(2) caching(3) same_config_real[OF s0(5)] s0(5) by (auto simp: same_config_def)
  obtain m1' p2 where s1: "co_computed_step rid ?comp bs bs 1 m1 p1 = Inr ((), m1', p2)" "blocks_of m1' rid = [b1, b2]"
    "bhash p2 = (bhash p1)(b2 := None)"
    using computed_step_takes_front[OF inv1 full(2) caching(2) sizes(2) new(2,4) s0(3) c1(1) f1 c1(2), of ?comp 1]
    by (auto simp: py_index_def)
  then show ?thesis using s0 by (simp add: co_allocate_new_computed_blocks_def ms co_get_blocks_def)
qed

text \<open>A reachable coordinator with the free blocks and managers that the theorem asks for.\<close>

definition two_full :: "coordinator result" where
  "two_full = get_kv_cache_coordinator sample_env (two_groups (full_spec 1)
     (FullAttentionSpec (sample_attention 1 FP8_PER_TENSOR) (full_post_init (sample_attention 1 FP8_PER_TENSOR) None None None)) 5)
     100 100 False True False 1 1 1 1 None"

definition fresh_full :: "manager \<Rightarrow> bool" where
  "fresh_full m \<longleftrightarrow> sub m = FullAttentionManager \<and> mgr_enable_caching m \<and> mgr_block_size m = 1
     \<and> dict_get (num_cached_block m) ''r'' = None \<and> blocks_of m ''r'' = []"

declare walk_free.simps [code]

lemma two_full_fields: "case two_full of Inl _ \<Rightarrow> False | Inr c \<Rightarrow> enable_caching (co_pool c)
   \<and> length (single_type_managers c) = 2 \<and> list_all fresh_full (single_type_managers c)
   \<and> get_all_free_blocks (pool_queue (co_pool c)) = Some (Inr [Blk 1, Blk 2, Blk 3, Blk 4])"
  by code_simp

theorem external_allocation_takes_other_hit_witness:
  "\<exists>c c'. two_full = Inr c \<and> co_allocate_new_computed_blocks ''r'' [[Blk 1], [Blk 2]] 1 1 c = Inr c'
    \<and> co_get_blocks ''r'' c' = [[Blk 1, Blk 2], [Blk 2, Blk 3]] \<and> bhash (co_pool c') (Blk 2) = None"
proof -
  obtain c where c: "two_full = Inr c" using two_full_fields by (auto split: sum.splits)
  note f = two_full_fields[unfolded c sum.case]
  have inv: "co_inv c" using coordinator_inv[OF c[unfolded two_full_def]] by (auto simp: two_groups_def spec_ok_def full_spec_def sample_attention_def)
  obtain xs where xs: "pool_rep (co_pool c) xs" using inv by (auto simp: co_inv_def managers_inv_def pool_inv_def)
  then have "xs = [Blk 1, Blk 2, Blk 3, Blk 4]" using f get_all_free_blocks_refines[of "pool_queue (co_pool c)" xs] by (simp add: pool_rep_def)
  moreover obtain m0 m1 where ms: "single_type_managers c = [m0, m1]" using f by (auto simp: length_Suc_conv numeral_2_eq_2)
  ultimately show ?thesis
    using external_allocation_takes_other_hit[OF inv ms, of 1 "''r''" "Blk 1" "Blk 2" "Blk 3" "[Blk 4]"] f xs c
    by (auto simp: fresh_full_def)
qed


theorem hybrid_lookup_terminates_witness:
  "\<exists>c res. eagle_mamba_coordinator = Inr c \<and> hybrid_find_longest_cache_hit 1 eagle_groups [[0]] 1 c = Some res"
proof -
  obtain c where "eagle_mamba_coordinator = Inr c" using eagle_mamba_fields by (auto simp: rbind_eq_Inr_iff)
  moreover have "list_all (\<lambda>g. 0 < block_size (sg_spec g)) eagle_groups" by code_simp
  ultimately show ?thesis using hybrid_lookup_terminates[of 1 eagle_groups 1 "[[0]]" c] by auto
qed

end
