(* ===== verification/Encoder_Cache.thy ===== *)
theory Encoder_Cache
  imports Block_Hash
begin

section \<open>The encoder cache\<close>

text \<open>
  \<open>vllm/v1/core/encoder_cache_manager.py\<close>: the capacity accounting of multi-modal encoder outputs.
  \<open>cached\<close> maps the hash of an item to the requests that reference it, \<open>freeable\<close> lists the
  unreferenced items in the order in which they became so, and eviction takes the oldest of these.
  A Python \<open>set\<close> that is only tested and updated is a set; where it is iterated over, the order is a
  parameter.
\<close>

subsection \<open>EncoderCacheManager\<close>

record encoder_cache =
  enc_cache_size :: int
  num_free_slots :: int
  num_freeable_slots :: int
  cached :: "(string, string set) dict"
  request_cached_ids :: "(string, int set) dict"
  freeable :: "(string, int) dict"
  freed :: "string list"

definition encoder_cache_init :: "int \<Rightarrow> encoder_cache" where
  "encoder_cache_init n = \<lparr>enc_cache_size = n, num_free_slots = n, num_freeable_slots = n, cached = [],
     request_cached_ids = [], freeable = [], freed = []\<rparr>"

definition enc_reset :: "encoder_cache \<Rightarrow> encoder_cache" where
  "enc_reset s = s\<lparr>cached := [], request_cached_ids := [], freeable := [], freed := [],
     num_free_slots := enc_cache_size s, num_freeable_slots := enc_cache_size s\<rparr>"

definition feature_hash :: "request \<Rightarrow> int \<Rightarrow> string result" where
  "feature_hash r i = rbind (py_index (mm_features r) i) (\<lambda>f. Inr (mm_identifier f))"

definition add_cached_id :: "request \<Rightarrow> int \<Rightarrow> encoder_cache \<Rightarrow> encoder_cache" where
  "add_cached_id r i s =
     s\<lparr>request_cached_ids := dict_set (request_id r)
         (insert i (dict_get_default (request_cached_ids s) (request_id r) {})) (request_cached_ids s)\<rparr>"

definition check_and_update_cache :: "request \<Rightarrow> int \<Rightarrow> encoder_cache \<Rightarrow> (bool \<times> encoder_cache) result" where
  "check_and_update_cache r i s =
     rbind (feature_hash r i) (\<lambda>h.
       case dict_get (cached s) h of
         None \<Rightarrow> Inr (False, s)
       | Some refs \<Rightarrow>
           rbind (if refs = {}
                  then rbind (dict_index (freeable s) h) (\<lambda>n.
                         Inr (s\<lparr>freeable := dict_del h (freeable s), num_freeable_slots := num_freeable_slots s - n\<rparr>))
                  else Inr s) (\<lambda>s1.
             Inr (True, add_cached_id r i (s1\<lparr>cached := dict_set h (insert (request_id r) refs) (cached s1)\<rparr>))))"

text \<open>The eviction loop; \<open>popitem\<close> on an empty dictionary and a missing key raise \<open>KeyError\<close>.\<close>

fun evict_loop :: "int \<Rightarrow> (string, int) dict \<Rightarrow> encoder_cache \<Rightarrow> encoder_cache result" where
  "evict_loop need [] s = (if need > num_free_slots s then Inl KeyError else Inr (s\<lparr>freeable := []\<rparr>))"
| "evict_loop need ((h, n) # rest) s =
     (if need > num_free_slots s
      then rbind (dict_index (cached s) h) (\<lambda>_.
             evict_loop need rest (s\<lparr>cached := dict_del h (cached s), freed := freed s @ [h],
                                    num_free_slots := num_free_slots s + n\<rparr>))
      else Inr (s\<lparr>freeable := (h, n) # rest\<rparr>))"

definition can_allocate :: "request \<Rightarrow> int \<Rightarrow> int \<Rightarrow> int \<Rightarrow> encoder_cache \<Rightarrow> (bool \<times> encoder_cache) result" where
  "can_allocate r i compute_budget embeds_to_schedule s =
     rbind (get_num_encoder_embeds r i) (\<lambda>n.
       if n > compute_budget then Inr (False, s)
       else
         let need = n + embeds_to_schedule
         in if need \<le> num_free_slots s then Inr (True, s)
            else if need > num_freeable_slots s then Inr (False, s)
            else rbind (evict_loop need (freeable s) s) (\<lambda>s'. Inr (True, s')))"

definition enc_allocate :: "request \<Rightarrow> int \<Rightarrow> encoder_cache \<Rightarrow> encoder_cache result" where
  "enc_allocate r i s =
     rbind (feature_hash r i) (\<lambda>h.
     let s0 = (if dict_get (cached s) h = None then s\<lparr>cached := dict_set h {} (cached s)\<rparr> else s) in
     rbind (get_num_encoder_embeds r i) (\<lambda>n.
     rbind (rassert (num_free_slots s0 \<ge> n)) (\<lambda>_.
     rbind (rassert (num_freeable_slots s0 \<ge> n)) (\<lambda>_.
     rbind (dict_index (cached s0) h) (\<lambda>refs.
       Inr ((add_cached_id r i (s0\<lparr>cached := dict_set h (insert (request_id r) refs) (cached s0)\<rparr>))
            \<lparr>num_free_slots := num_free_slots s0 - n, num_freeable_slots := num_freeable_slots s0 - n\<rparr>))))))"

definition get_cached_input_ids :: "request \<Rightarrow> encoder_cache \<Rightarrow> int set" where
  "get_cached_input_ids r s = dict_get_default (request_cached_ids s) (request_id r) {}"

definition drop_cached_id :: "request \<Rightarrow> int \<Rightarrow> encoder_cache \<Rightarrow> encoder_cache" where
  "drop_cached_id r i s =
     (case dict_get (request_cached_ids s) (request_id r) of
        None \<Rightarrow> s
      | Some ids \<Rightarrow>
          let ids' = ids - {i}
          in s\<lparr>request_cached_ids := (if ids' = {} then dict_del (request_id r) (request_cached_ids s)
                                       else dict_set (request_id r) ids' (request_cached_ids s))\<rparr>)"

definition free_encoder_input :: "request \<Rightarrow> int \<Rightarrow> encoder_cache \<Rightarrow> encoder_cache result" where
  "free_encoder_input r i s0 =
     rbind (feature_hash r i) (\<lambda>h.
     let s = drop_cached_id r i s0; refs = dict_get_default (cached s) h {} in
       if refs = {} then Inr s
       else
         let refs' = refs - {request_id r}; s1 = s\<lparr>cached := dict_set h refs' (cached s)\<rparr>
         in if refs' = {}
            then rbind (get_num_encoder_embeds r i) (\<lambda>n.
                   Inr (s1\<lparr>freeable := dict_set h n (freeable s1), num_freeable_slots := num_freeable_slots s1 + n\<rparr>))
            else Inr s1)"

text \<open>\<open>free\<close>; \<open>order\<close> is the iteration order of the set of cached input ids.\<close>

definition enc_free :: "int list \<Rightarrow> request \<Rightarrow> encoder_cache \<Rightarrow> encoder_cache result" where
  "enc_free order r s = rfold (free_encoder_input r) order s"

definition get_freed_mm_hashes :: "encoder_cache \<Rightarrow> string list \<times> encoder_cache" where
  "get_freed_mm_hashes s = (freed s, s\<lparr>freed := []\<rparr>)"

subsection \<open>The budget\<close>

record mm_scheduler_config =
  disable_chunked_mm_input :: bool
  max_num_batched_tokens :: int
  max_num_encoder_input_tokens :: int
  sc_encoder_cache_size :: int

definition compute_mm_encoder_budget :: "mm_scheduler_config \<Rightarrow> (string, int) dict \<Rightarrow> (int \<times> int) result" where
  "compute_mm_encoder_budget cfg per_item =
     (if per_item = [] then Inr (0, 0)
      else let m = Max (snd ` set per_item)
           in if disable_chunked_mm_input cfg \<and> m > max_num_batched_tokens cfg then Inl ValueError
              else Inr (max (max_num_encoder_input_tokens cfg) m, max (sc_encoder_cache_size cfg) m))"

subsection \<open>EncoderDecoderCacheManager\<close>

record encdec_cache =
  ed_cache_size :: int
  ed_free_slots :: int
  ed_allocated :: "string list"
  ed_to_free :: "string list"

definition encdec_init :: "int \<Rightarrow> encdec_cache" where
  "encdec_init n = \<lparr>ed_cache_size = n, ed_free_slots = n, ed_allocated = [], ed_to_free = []\<rparr>"

definition ed_reset :: "encdec_cache \<Rightarrow> encdec_cache" where
  "ed_reset s = s\<lparr>ed_free_slots := ed_cache_size s, ed_allocated := [], ed_to_free := []\<rparr>"

definition ed_can_allocate :: "request \<Rightarrow> int \<Rightarrow> int \<Rightarrow> int \<Rightarrow> encdec_cache \<Rightarrow> bool result" where
  "ed_can_allocate r i compute_budget embeds_to_schedule s =
     rbind (get_num_encoder_embeds r i) (\<lambda>n.
       Inr (if n > compute_budget then False else n + embeds_to_schedule \<le> ed_free_slots s))"

definition ed_allocate :: "request \<Rightarrow> int \<Rightarrow> encdec_cache \<Rightarrow> encdec_cache result" where
  "ed_allocate r i s =
     rbind (get_num_encoder_embeds r i) (\<lambda>n.
     rbind (feature_hash r i) (\<lambda>h.
       Inr (s\<lparr>ed_free_slots := ed_free_slots s - n, ed_allocated := ed_allocated s @ [h]\<rparr>)))"

definition ed_free_encoder_input :: "request \<Rightarrow> int \<Rightarrow> encdec_cache \<Rightarrow> encdec_cache result" where
  "ed_free_encoder_input r i s =
     rbind (get_num_encoder_embeds r i) (\<lambda>n. Inr (s\<lparr>ed_free_slots := ed_free_slots s + n\<rparr>))"

definition ed_free :: "request \<Rightarrow> encdec_cache \<Rightarrow> encdec_cache result" where
  "ed_free r s = rfold (ed_free_encoder_input r) (py_range 0 (int (length (mm_features r)))) s"

definition ed_get_cached_input_ids :: "request \<Rightarrow> int set" where
  "ed_get_cached_input_ids r = set (py_range 0 (int (length (mm_features r))))"

definition ed_get_freed_mm_hashes :: "encdec_cache \<Rightarrow> string list \<times> encdec_cache" where
  "ed_get_freed_mm_hashes s = (ed_to_free s, s\<lparr>ed_to_free := ed_allocated s, ed_allocated := []\<rparr>)"

subsection \<open>The manager of a scheduler\<close>

datatype encoder_cache_manager = EncoderCacheManager encoder_cache | EncoderDecoderCacheManager encdec_cache

fun ecm_check :: "request \<Rightarrow> int \<Rightarrow> encoder_cache_manager \<Rightarrow> (bool \<times> encoder_cache_manager) result" where
  "ecm_check r i (EncoderCacheManager s) =
     rbind (check_and_update_cache r i s) (\<lambda>(b, s'). Inr (b, EncoderCacheManager s'))"
| "ecm_check r i (EncoderDecoderCacheManager s) = Inr (False, EncoderDecoderCacheManager s)"

fun ecm_can_allocate :: "request \<Rightarrow> int \<Rightarrow> int \<Rightarrow> int \<Rightarrow> encoder_cache_manager \<Rightarrow> (bool \<times> encoder_cache_manager) result" where
  "ecm_can_allocate r i b e (EncoderCacheManager s) = rbind (can_allocate r i b e s) (\<lambda>(x, s'). Inr (x, EncoderCacheManager s'))"
| "ecm_can_allocate r i b e (EncoderDecoderCacheManager s) =
     rbind (ed_can_allocate r i b e s) (\<lambda>x. Inr (x, EncoderDecoderCacheManager s))"

fun ecm_allocate :: "request \<Rightarrow> int \<Rightarrow> encoder_cache_manager \<Rightarrow> encoder_cache_manager result" where
  "ecm_allocate r i (EncoderCacheManager s) = rbind (enc_allocate r i s) (\<lambda>s'. Inr (EncoderCacheManager s'))"
| "ecm_allocate r i (EncoderDecoderCacheManager s) = rbind (ed_allocate r i s) (\<lambda>s'. Inr (EncoderDecoderCacheManager s'))"

fun ecm_free_input :: "request \<Rightarrow> int \<Rightarrow> encoder_cache_manager \<Rightarrow> encoder_cache_manager result" where
  "ecm_free_input r i (EncoderCacheManager s) = rbind (free_encoder_input r i s) (\<lambda>s'. Inr (EncoderCacheManager s'))"
| "ecm_free_input r i (EncoderDecoderCacheManager s) =
     rbind (ed_free_encoder_input r i s) (\<lambda>s'. Inr (EncoderDecoderCacheManager s'))"

fun ecm_cached_ids :: "request \<Rightarrow> encoder_cache_manager \<Rightarrow> int set" where
  "ecm_cached_ids r (EncoderCacheManager s) = get_cached_input_ids r s"
| "ecm_cached_ids r (EncoderDecoderCacheManager s) = ed_get_cached_input_ids r"

fun ecm_free :: "int list \<Rightarrow> request \<Rightarrow> encoder_cache_manager \<Rightarrow> encoder_cache_manager result" where
  "ecm_free order r (EncoderCacheManager s) = rbind (enc_free order r s) (\<lambda>s'. Inr (EncoderCacheManager s'))"
| "ecm_free order r (EncoderDecoderCacheManager s) = rbind (ed_free r s) (\<lambda>s'. Inr (EncoderDecoderCacheManager s'))"


subsection \<open>Capacity invariant\<close>

text \<open>
  \<open>sz\<close> gives the size of an item by its hash; \<open>sized sz r\<close> says that the features of a request agree
  with it. \<open>enc_inv\<close>: the freeable items are exactly the cached ones without a reference, the
  slots taken by the cached items and the free ones add up to the capacity, and the freeable
  slots are the free ones and those of the freeable items.
\<close>

definition csize :: "(string \<Rightarrow> int) \<Rightarrow> (string, 'a) dict \<Rightarrow> int" where
  "csize sz d = sum_list (map (\<lambda>e. sz (fst e)) d)"

definition fsum :: "(string, int) dict \<Rightarrow> int" where
  "fsum d = sum_list (map snd d)"

definition enc_core ::
  "(string \<Rightarrow> int) \<Rightarrow> (string, string set) dict \<Rightarrow> (string, int) dict \<Rightarrow> int \<Rightarrow> int \<Rightarrow> int \<Rightarrow> bool" where
  "enc_core sz c f free freeable_slots cap \<longleftrightarrow> dict_ok c \<and> dict_ok f
     \<and> (\<forall>h. dict_get f h = (if dict_get c h = Some {} then Some (sz h) else None))
     \<and> free + csize sz c = cap \<and> freeable_slots = free + fsum f \<and> 0 \<le> free \<and> (\<forall>h. dict_get c h \<noteq> None \<longrightarrow> 0 \<le> sz h)"

definition enc_inv :: "(string \<Rightarrow> int) \<Rightarrow> encoder_cache \<Rightarrow> bool" where
  "enc_inv sz s \<longleftrightarrow> enc_core sz (cached s) (freeable s) (num_free_slots s) (num_freeable_slots s) (enc_cache_size s)"

definition sized :: "(string \<Rightarrow> int) \<Rightarrow> request \<Rightarrow> bool" where
  "sized sz r \<longleftrightarrow> list_all (\<lambda>f. get_num_embeds (mm_position f) = sz (mm_identifier f) \<and> 0 \<le> sz (mm_identifier f)) (mm_features r)"

declare map_of_eq_Some_iff [simp del]

lemma dict_get_keys: "k \<in> fst ` set d \<longleftrightarrow> dict_get d k \<noteq> None"
  by (metis map_of_eq_None_iff)

lemma csize_set: "csize sz (dict_set k v d) = csize sz d + (if dict_get d k = None then sz k else 0)"
  by (induction d) (auto simp: csize_def)

lemma fsum_set: "dict_get d k = None \<Longrightarrow> fsum (dict_set k n d) = fsum d + n"
  by (induction d) (auto simp: fsum_def split: if_splits)

lemma csize_del: "dict_ok d \<Longrightarrow> dict_get d k = Some v \<Longrightarrow> csize sz (dict_del k d) = csize sz d - sz k"
  by (induction d) (auto simp: csize_def delete_id)

lemma fsum_del: "dict_ok d \<Longrightarrow> dict_get d k = Some n \<Longrightarrow> fsum (dict_del k d) = fsum d - n"
  by (induction d) (auto simp: fsum_def delete_id)

lemma core_split:
  assumes "enc_core sz c f free fb cap"
  shows "dict_ok c" "dict_ok f" "dict_get f h = (if dict_get c h = Some {} then Some (sz h) else None)"
    "free + csize sz c = cap" "fb = free + fsum f" "0 \<le> free" "dict_get c h = Some refs \<Longrightarrow> 0 \<le> sz h"
  using assms by (simp_all add: enc_core_def)

lemma core_intro:
  assumes "dict_ok c" "dict_ok f" "\<And>h. dict_get f h = (if dict_get c h = Some {} then Some (sz h) else None)"
    "free + csize sz c = cap" "fb = free + fsum f" "0 \<le> free" "\<And>h refs. dict_get c h = Some refs \<Longrightarrow> 0 \<le> sz h"
  shows "enc_core sz c f free fb cap"
  using assms by (auto simp: enc_core_def)

lemma core_freeable_nonneg:
  assumes "enc_core sz c f free fb cap"
  shows "0 \<le> fsum f"
proof -
  have "0 \<le> n" if "(h, n) \<in> set f" for h n
  proof -
    have "dict_get f h = Some n" using that core_split(2)[OF assms] by simp
    then have "dict_get c h = Some {}" "n = sz h" using core_split(3)[OF assms, of h] by (auto split: if_splits)
    then show ?thesis using core_split(7)[OF assms] by blast
  qed
  then show ?thesis unfolding fsum_def by (intro sum_list_nonneg) auto
qed

text \<open>The four changes of the bookkeeping: reference an item, add one, release one, evict one.\<close>

lemma core_reference:
  assumes core: "enc_core sz c f free fb cap" and h: "dict_get c h = Some refs" "refs' \<noteq> {}"
  shows "refs = {} \<Longrightarrow> enc_core sz (dict_set h refs' c) (dict_del h f) free (fb - sz h) cap"
    "refs \<noteq> {} \<Longrightarrow> enc_core sz (dict_set h refs' c) f free fb cap"
proof -
  note core = core_split[OF core]
  have f: "fsum (dict_del h f) = fsum f - sz h" if "refs = {}" using that h(1) core(3)[of h] fsum_del[OF core(2)] by simp
  show "enc_core sz (dict_set h refs' c) (dict_del h f) free (fb - sz h) cap" if "refs = {}"
    by (rule core_intro) (use core h f[OF that] in \<open>auto simp: csize_set split: if_splits\<close>)
  show "enc_core sz (dict_set h refs' c) f free fb cap" if "refs \<noteq> {}"
    by (rule core_intro) (use core h that in \<open>auto simp: csize_set split: if_splits\<close>)
qed

lemma core_add:
  assumes core: "enc_core sz c f free fb cap" and h: "dict_get c h = None" "refs \<noteq> {}" "0 \<le> sz h" "sz h \<le> free"
  shows "enc_core sz (dict_set h refs c) f (free - sz h) (fb - sz h) cap"
  by (rule core_intro) (use core_split[OF core] h in \<open>auto simp: csize_set split: if_splits\<close>)

lemma core_release:
  assumes core: "enc_core sz c f free fb cap" and h: "dict_get c h = Some refs" "refs \<noteq> {}"
  shows "enc_core sz (dict_set h {} c) (dict_set h (sz h) f) free (fb + sz h) cap"
proof -
  note core = core_split[OF core]
  have "fsum (dict_set h (sz h) f) = fsum f + sz h" using h core(3)[of h] fsum_set by simp
  then show ?thesis by (intro core_intro) (use core h in \<open>auto simp: csize_set split: if_splits\<close>)
qed

lemma core_evict:
  assumes core: "enc_core sz c ((h, n) # f) free fb cap"
  shows "n = sz h" "dict_get c h = Some {}" "enc_core sz (dict_del h c) f (free + n) fb cap"
proof -
  note core = core_split[OF core]
  show n: "n = sz h" and c: "dict_get c h = Some {}" using core(3)[of h] by (auto split: if_splits)
  have f: "dict_get f h = None" using core(2) dict_get_keys[of h f] by auto
  have get: "dict_get f h' = (if dict_get (dict_del h c) h' = Some {} then Some (sz h') else None)" for h'
    using core(3)[of h'] f by (cases "h' = h") auto
  have "0 \<le> sz h" using core(7)[OF c] .
  then show "enc_core sz (dict_del h c) f (free + n) fb cap"
    using core(1,2,4,5,6) core(7) get n csize_del[OF core(1) c, of sz]
    by (intro core_intro) (auto simp: fsum_def split: if_splits)
qed

lemma feature_size:
  assumes "sized sz r" "feature_hash r i = Inr h"
  shows "0 \<le> sz h" "get_num_encoder_embeds r i = Inr n \<Longrightarrow> n = sz h"
proof -
  obtain f where f: "py_index (mm_features r) i = Inr f" "h = mm_identifier f"
    using assms(2) by (auto simp: feature_hash_def rbind_eq_Inr_iff)
  have "f \<in> set (mm_features r)" using f(1) by (auto simp: py_index_def split: if_splits intro: nth_mem)
  then have "get_num_embeds (mm_position f) = sz h \<and> 0 \<le> sz h" using assms(1) f(2) by (simp add: sized_def list_all_iff)
  then show "0 \<le> sz h" "get_num_encoder_embeds r i = Inr n \<Longrightarrow> n = sz h"
    using f(1) by (auto simp: get_num_encoder_embeds_def rbind_eq_Inr_iff)
qed

lemma enc_inv_ids [simp]: "enc_inv sz (add_cached_id r i s) = enc_inv sz s" "enc_inv sz (drop_cached_id r i s) = enc_inv sz s"
  by (simp_all add: enc_inv_def add_cached_id_def drop_cached_id_def Let_def split: option.splits)

lemma check_ok:
  assumes inv: "enc_inv sz s" and h: "feature_hash r i = Inr h"
  shows "\<exists>s'. check_and_update_cache r i s = Inr (dict_get (cached s) h \<noteq> None, s') \<and> enc_inv sz s'"
proof (cases "dict_get (cached s) h")
  case None
  then show ?thesis using inv by (simp add: check_and_update_cache_def h)
next
  case (Some refs)
  note core = core_reference[OF inv[unfolded enc_inv_def] Some, of "insert (request_id r) refs"]
  show ?thesis
  proof (cases "refs = {}")
    case True
    then have "dict_get (freeable s) h = Some (sz h)" using inv Some by (simp add: enc_inv_def enc_core_def)
    then show ?thesis using core(1) Some True
      by (simp add: check_and_update_cache_def h dict_index_def enc_inv_def add_cached_id_def)
  next
    case False
    then show ?thesis using core(2) Some by (simp add: check_and_update_cache_def h enc_inv_def add_cached_id_def)
  qed
qed

lemma evict_loop_spec:
  assumes "enc_core sz (cached s) f (num_free_slots s) fb (enc_cache_size s)" "need \<le> fb"
  shows "\<exists>s' k. evict_loop need f s = Inr s' \<and> k \<le> length f \<and> freeable s' = drop k f
    \<and> freed s' = freed s @ map fst (take k f) \<and> need \<le> num_free_slots s'
    \<and> enc_core sz (cached s') (freeable s') (num_free_slots s') fb (enc_cache_size s')
    \<and> enc_cache_size s' = enc_cache_size s \<and> num_freeable_slots s' = num_freeable_slots s
    \<and> (\<forall>h. dict_get (cached s') h = (if h \<in> set (map fst (take k f)) then None else dict_get (cached s) h))
    \<and> (\<forall>j < k. num_free_slots s + fsum (take j f) < need)"
  using assms
proof (induction f arbitrary: s)
  case Nil
  then have "need \<le> num_free_slots s" by (simp add: enc_core_def fsum_def)
  then show ?case using Nil.prems(1) by (intro exI[of _ "s\<lparr>freeable := []\<rparr>"] exI[of _ 0]) simp
next
  case (Cons e f)
  obtain h n where e: "e = (h, n)" by (cases e)
  show ?case
  proof (cases "need > num_free_slots s")
    case False
    then show ?thesis using Cons.prems(1) unfolding e
      by (intro exI[of _ "s\<lparr>freeable := (h, n) # f\<rparr>"] exI[of _ 0]) simp
  next
    case True
    note ev = core_evict[OF Cons.prems(1)[unfolded e]]
    let ?s1 = "s\<lparr>cached := dict_del h (cached s), freed := freed s @ [h], num_free_slots := num_free_slots s + n\<rparr>"
    have "enc_core sz (cached ?s1) f (num_free_slots ?s1) fb (enc_cache_size ?s1)" using ev(3) by simp
    from Cons.IH[OF this Cons.prems(2)] obtain s' k where r: "evict_loop need f ?s1 = Inr s'" "k \<le> length f" "freeable s' = drop k f"
      "freed s' = freed ?s1 @ map fst (take k f)" "need \<le> num_free_slots s'"
      "enc_core sz (cached s') (freeable s') (num_free_slots s') fb (enc_cache_size s')"
      "enc_cache_size s' = enc_cache_size ?s1" "num_freeable_slots s' = num_freeable_slots ?s1"
      "\<forall>h'. dict_get (cached s') h' = (if h' \<in> set (map fst (take k f)) then None else dict_get (cached ?s1) h')"
      "\<forall>j < k. num_free_slots ?s1 + fsum (take j f) < need" by blast
    have min: "num_free_slots s + fsum (take j (e # f)) < need" if "j < Suc k" for j
      using that r(10) True by (cases j) (auto simp: fsum_def e)
    have get: "dict_get (cached s') h' = (if h' \<in> set (map fst (take (Suc k) (e # f))) then None else dict_get (cached s) h')" for h'
      using r(9) by (simp add: e)
    have "evict_loop need (e # f) s = Inr s'" using r(1) True ev(2) by (simp add: e dict_index_def)
    moreover have "Suc k \<le> length (e # f)" "freeable s' = drop (Suc k) (e # f)" using r(2,3) by simp_all
    moreover have "freed s' = freed s @ map fst (take (Suc k) (e # f))" using r(4) by (simp add: e)
    moreover have "enc_cache_size s' = enc_cache_size s" "num_freeable_slots s' = num_freeable_slots s" using r(7,8) by simp_all
    ultimately show ?thesis using r(5,6) min get by (intro exI[of _ s'] exI[of _ "Suc k"] conjI allI impI) assumption+
  qed
qed

lemma core_slots_le:
  assumes "enc_core sz c f free fb cap"
  shows "free \<le> fb"
  using core_freeable_nonneg[OF assms] core_split(5)[OF assms] by simp

lemma can_allocate_spec:
  fixes b e :: int
  assumes inv: "enc_inv sz s" and n: "get_num_encoder_embeds r i = Inr n"
  defines "ok \<equiv> n \<le> b \<and> n + e \<le> num_freeable_slots s"
  shows "\<exists>s' k. can_allocate r i b e s = Inr (ok, s') \<and> enc_inv sz s' \<and> k \<le> length (freeable s)
    \<and> freeable s' = drop k (freeable s) \<and> freed s' = freed s @ map fst (take k (freeable s))
    \<and> (\<forall>h. dict_get (cached s') h = (if h \<in> set (map fst (take k (freeable s))) then None else dict_get (cached s) h))
    \<and> num_freeable_slots s' = num_freeable_slots s \<and> enc_cache_size s' = enc_cache_size s
    \<and> (ok \<longrightarrow> n + e \<le> num_free_slots s') \<and> (\<not> ok \<longrightarrow> s' = s)
    \<and> (\<forall>j < k. num_free_slots s + fsum (take j (freeable s)) < n + e)"
proof -
  have le: "num_free_slots s \<le> num_freeable_slots s" using core_slots_le inv unfolding enc_inv_def by blast
  consider "\<not> ok \<or> n + e \<le> num_free_slots s" | "ok" "n + e > num_free_slots s" by linarith
  then show ?thesis
  proof cases
    case 1
    then have "can_allocate r i b e s = Inr (ok, s)" using le by (auto simp: can_allocate_def n ok_def)
    then show ?thesis using 1 inv by (intro exI[of _ s] exI[of _ 0]) simp
  next
    case 2
    then have need: "n + e \<le> num_freeable_slots s" by (simp add: ok_def)
    from evict_loop_spec[OF inv[unfolded enc_inv_def] need]
    obtain s' k where r: "evict_loop (n + e) (freeable s) s = Inr s'" "k \<le> length (freeable s)" "freeable s' = drop k (freeable s)"
      "freed s' = freed s @ map fst (take k (freeable s))" "n + e \<le> num_free_slots s'"
      "enc_core sz (cached s') (freeable s') (num_free_slots s') (num_freeable_slots s) (enc_cache_size s')"
      "enc_cache_size s' = enc_cache_size s" "num_freeable_slots s' = num_freeable_slots s"
      "\<forall>h'. dict_get (cached s') h' = (if h' \<in> set (map fst (take k (freeable s))) then None else dict_get (cached s) h')"
      "\<forall>j < k. num_free_slots s + fsum (take j (freeable s)) < n + e" by blast
    have "can_allocate r i b e s = Inr (ok, s')" using 2 r(1) by (auto simp: can_allocate_def n ok_def)
    moreover have "enc_inv sz s'" using r(6-8) by (simp add: enc_inv_def)
    ultimately show ?thesis using 2(1) r(2-5,7-10) by (intro exI[of _ s'] exI[of _ k]) simp
  qed
qed

lemma enc_allocate_ok:
  assumes inv: "enc_inv sz s" and h: "feature_hash r i = Inr h" "dict_get (cached s) h = None"
    and sz: "sized sz r" "sz h \<le> num_free_slots s"
  shows "\<exists>s'. enc_allocate r i s = Inr s' \<and> enc_inv sz s' \<and> dict_get (cached s') = (dict_get (cached s))(h \<mapsto> {request_id r})
    \<and> num_free_slots s' = num_free_slots s - sz h \<and> num_freeable_slots s' = num_freeable_slots s - sz h"
proof -
  obtain f where f: "py_index (mm_features r) i = Inr f" using h(1) by (auto simp: feature_hash_def rbind_eq_Inr_iff)
  then obtain n where n: "get_num_encoder_embeds r i = Inr n" by (auto simp: get_num_encoder_embeds_def rassert_def py_index_def split: if_splits)
  then have [simp]: "n = sz h" using feature_size[OF sz(1) h(1)] by blast
  have "sz h \<le> num_freeable_slots s" using core_slots_le inv sz(2) unfolding enc_inv_def by fastforce
  moreover have "0 \<le> sz h" using feature_size[OF sz(1) h(1)] by blast
  moreover have "dict_set h {request_id r} (dict_set h {} (cached s)) = dict_set h {request_id r} (cached s)" for s
    by (induction "cached s") auto
  ultimately show ?thesis
    using core_add[OF inv[unfolded enc_inv_def] h(2), of "{request_id r}"] h(2) sz(2)
    by (auto simp: enc_allocate_def h(1) n rassert_def dict_index_def enc_inv_def add_cached_id_def)
qed

lemma free_encoder_input_ok:
  assumes inv: "enc_inv sz s" and h: "feature_hash r i = Inr h" and sz: "sized sz r"
  shows "\<exists>s'. free_encoder_input r i s = Inr s' \<and> enc_inv sz s'"
proof -
  obtain f where f: "py_index (mm_features r) i = Inr f" using h(1) by (auto simp: feature_hash_def rbind_eq_Inr_iff)
  then obtain n where n: "get_num_encoder_embeds r i = Inr n" by (auto simp: get_num_encoder_embeds_def rassert_def py_index_def split: if_splits)
  then have [simp]: "n = sz h" using feature_size[OF sz h] by blast
  let ?s = "drop_cached_id r i s"
  have inv': "enc_inv sz ?s" using inv by simp
  show ?thesis
  proof (cases "dict_get (cached ?s) h")
    case None
    then show ?thesis using inv' by (simp add: free_encoder_input_def h dict_get_default_def Let_def)
  next
    case (Some refs)
    consider "refs = {}" | "refs \<noteq> {}" "refs - {request_id r} = {}" | "refs \<noteq> {}" "refs - {request_id r} \<noteq> {}" by blast
    then show ?thesis
    proof cases
      case 1
      then show ?thesis using inv' Some by (simp add: free_encoder_input_def h dict_get_default_def Let_def)
    next
      case 2
      then have "refs = {request_id r}" by blast
      then show ?thesis using core_release[OF inv'[unfolded enc_inv_def] Some 2(1)] Some
        by (simp add: free_encoder_input_def h n dict_get_default_def Let_def enc_inv_def)
    next
      case 3
      then show ?thesis using core_reference(2)[OF inv'[unfolded enc_inv_def] Some 3(2) 3(1)] Some
        by (auto simp: free_encoder_input_def h dict_get_default_def Let_def enc_inv_def)
    qed
  qed
qed

subsection \<open>Reachable states\<close>

text \<open>
  The states of an \<open>EncoderCacheManager\<close> of capacity \<open>cap\<close>. \<open>allocate\<close> is used as the scheduler uses
  it, for an item that \<open>check_and_update_cache\<close> did not find.
\<close>

inductive enc_reach :: "(string \<Rightarrow> int) \<Rightarrow> int \<Rightarrow> encoder_cache \<Rightarrow> bool" for sz cap where
  er_init: "0 \<le> cap \<Longrightarrow> enc_reach sz cap (encoder_cache_init cap)"
| er_reset: "enc_reach sz cap s \<Longrightarrow> enc_reach sz cap (enc_reset s)"
| er_check: "enc_reach sz cap s \<Longrightarrow> check_and_update_cache r i s = Inr (b, s') \<Longrightarrow> enc_reach sz cap s'"
| er_can_allocate: "enc_reach sz cap s \<Longrightarrow> can_allocate r i budget e s = Inr (b, s') \<Longrightarrow> enc_reach sz cap s'"
| er_allocate: "enc_reach sz cap s \<Longrightarrow> sized sz r \<Longrightarrow> feature_hash r i = Inr h \<Longrightarrow> dict_get (cached s) h = None
    \<Longrightarrow> enc_allocate r i s = Inr s' \<Longrightarrow> enc_reach sz cap s'"
| er_free_input: "enc_reach sz cap s \<Longrightarrow> sized sz r \<Longrightarrow> free_encoder_input r i s = Inr s' \<Longrightarrow> enc_reach sz cap s'"
| er_free: "enc_reach sz cap s \<Longrightarrow> sized sz r \<Longrightarrow> enc_free order r s = Inr s' \<Longrightarrow> enc_reach sz cap s'"
| er_freed: "enc_reach sz cap s \<Longrightarrow> get_freed_mm_hashes s = (hs, s') \<Longrightarrow> enc_reach sz cap s'"

lemma enc_inv_init: "0 \<le> cap \<Longrightarrow> enc_inv sz (encoder_cache_init cap)"
  by (simp add: encoder_cache_init_def enc_inv_def enc_core_def csize_def fsum_def)

lemma enc_inv_capacity: "enc_inv sz s \<Longrightarrow> 0 \<le> enc_cache_size s"
proof -
  assume "enc_inv sz s"
  note core = core_split[OF this[unfolded enc_inv_def]]
  have "0 \<le> csize sz (cached s)" unfolding csize_def
    by (intro sum_list_nonneg) (use core(1,7) in \<open>auto intro: map_of_is_SomeI\<close>)
  then show ?thesis using core(4,6) by simp
qed

lemma enc_size_ids [simp]:
  "enc_cache_size (add_cached_id r i s) = enc_cache_size s" "enc_cache_size (drop_cached_id r i s) = enc_cache_size s"
  by (simp_all add: add_cached_id_def drop_cached_id_def Let_def split: option.splits)

lemma enc_size_check: "check_and_update_cache r i s = Inr (b, s') \<Longrightarrow> enc_cache_size s' = enc_cache_size s"
  by (auto simp: check_and_update_cache_def rbind_eq_Inr_iff split: option.splits if_splits)

lemma enc_size_allocate: "enc_allocate r i s = Inr s' \<Longrightarrow> enc_cache_size s' = enc_cache_size s"
  by (auto simp: enc_allocate_def rbind_eq_Inr_iff Let_def split: if_splits)

lemma enc_size_free_input: "free_encoder_input r i s = Inr s' \<Longrightarrow> enc_cache_size s' = enc_cache_size s"
  by (auto simp: free_encoder_input_def rbind_eq_Inr_iff Let_def split: if_splits)

lemma free_input_inv:
  assumes "enc_inv sz s" "sized sz r" "free_encoder_input r i s = Inr s'"
  shows "enc_inv sz s'"
proof -
  obtain h where "feature_hash r i = Inr h" using assms(3) by (auto simp: free_encoder_input_def rbind_eq_Inr_iff)
  then show ?thesis using free_encoder_input_ok[OF assms(1) _ assms(2)] assms(3) by force
qed

lemma enc_free_inv:
  "enc_inv sz s \<Longrightarrow> sized sz r \<Longrightarrow> enc_free order r s = Inr s' \<Longrightarrow> enc_inv sz s' \<and> enc_cache_size s' = enc_cache_size s"
  unfolding enc_free_def
proof (induction order arbitrary: s)
  case (Cons i order)
  then obtain s1 where s1: "free_encoder_input r i s = Inr s1" "rfold (free_encoder_input r) order s1 = Inr s'"
    by (auto simp: rbind_eq_Inr_iff)
  then show ?case using Cons.IH[of s1] Cons.prems free_input_inv enc_size_free_input by metis
qed simp

lemma allocate_inv:
  assumes "enc_inv sz s" "sized sz r" "feature_hash r i = Inr h" "dict_get (cached s) h = None" "enc_allocate r i s = Inr s'"
  shows "enc_inv sz s'"
proof -
  obtain n where n: "get_num_encoder_embeds r i = Inr n" "n \<le> num_free_slots s"
    using assms(3,5) by (auto simp: enc_allocate_def rbind_eq_Inr_iff Let_def rassert_def split: if_splits)
  then have "sz h \<le> num_free_slots s" using feature_size(2)[OF assms(2,3)] by simp
  then show ?thesis using enc_allocate_ok[OF assms(1,3,4,2)] assms(5) by force
qed

lemma enc_reach_inv: "enc_reach sz cap s \<Longrightarrow> enc_inv sz s \<and> enc_cache_size s = cap"
proof (induction rule: enc_reach.induct)
  case er_init
  then show ?case by (simp add: enc_inv_init) (simp add: encoder_cache_init_def)
next
  case (er_reset s)
  then show ?case using enc_inv_capacity[of sz s] by (simp add: enc_reset_def enc_inv_def enc_core_def csize_def fsum_def)
next
  case (er_check s r i b s')
  obtain h where "feature_hash r i = Inr h" using er_check.hyps(2) by (auto simp: check_and_update_cache_def rbind_eq_Inr_iff)
  then show ?case using check_ok[of sz s r i h] er_check enc_size_check by auto
next
  case (er_can_allocate s r i budget e b s')
  obtain n where "get_num_encoder_embeds r i = Inr n" using er_can_allocate.hyps(2) by (auto simp: can_allocate_def rbind_eq_Inr_iff)
  then show ?case using can_allocate_spec[of sz s r i n budget e] er_can_allocate by auto
next
  case (er_freed s hs s')
  then show ?case by (auto simp: get_freed_mm_hashes_def enc_inv_def)
next
  case (er_allocate s r i h s')
  then show ?case using allocate_inv enc_size_allocate by metis
next
  case (er_free_input s r i s')
  then show ?case using free_input_inv enc_size_free_input by metis
next
  case (er_free s r order s')
  then show ?case using enc_free_inv by metis
qed

lemma csize_sum: "dict_ok d \<Longrightarrow> csize sz d = (\<Sum>h \<in> fst ` set d. sz h)"
  by (induction d) (auto simp: csize_def)

lemma csize_referenced:
  assumes "enc_core sz c f free fb cap"
  shows "csize sz c = csize sz (filter (\<lambda>e. snd e \<noteq> {}) c) + fsum f"
proof -
  note core = core_split[OF assms]
  let ?u = "filter (\<lambda>e. snd e = {}) c"
  have u: "dict_ok ?u" using core(1) by (simp add: distinct_map inj_on_def)
  have item: "n = sz h \<and> (h, {}) \<in> set c" if "(h, n) \<in> set f" for h n
  proof -
    have "dict_get f h = Some n" using that core(2) by simp
    then show ?thesis using core(3)[of h] by (auto split: if_splits dest: map_of_SomeD)
  qed
  have "(h, sz h) \<in> set f" if "(h, {}) \<in> set c" for h
    using that core(1) core(3)[of h] by (auto dest: map_of_SomeD)
  then have "fst ` set f = fst ` set ?u" using item by force
  moreover have "fsum f = csize sz f" unfolding fsum_def csize_def
    by (intro arg_cong[where f = sum_list] map_cong refl) (use item in auto)
  ultimately have "fsum f = csize sz ?u" using csize_sum core(2) u by metis
  moreover have "csize sz c = csize sz (filter (\<lambda>e. snd e \<noteq> {}) c) + csize sz ?u" by (induction c) (auto simp: csize_def)
  ultimately show ?thesis by simp
qed

subsection \<open>Properties\<close>

definition sample_image :: "string \<Rightarrow> int \<Rightarrow> int \<Rightarrow> mm_feature" where
  "sample_image h pos n = \<lparr>mm_identifier = h, mm_position = \<lparr>pr_offset = pos, pr_length = n, pr_is_embed = None\<rparr>\<rparr>"

definition image_request :: "string \<Rightarrow> mm_feature list \<Rightarrow> request" where
  "image_request rid fs = sample_request rid [] fs None None"

text \<open>A cache of five slots that keeps the unreferenced item \<open>x\<close> of two slots.\<close>

definition sample_encoder_cache :: encoder_cache where
  "sample_encoder_cache =
     \<lparr>enc_cache_size = 5, num_free_slots = 3, num_freeable_slots = 5, cached = [(''x'', {})],
      request_cached_ids = [], freeable = [(''x'', 2)], freed = []\<rparr>"

lemma image_request_simps [simp]: "mm_features (image_request rid fs) = fs" "request_id (image_request rid fs) = rid"
  by (simp_all add: image_request_def sample_request_def sample_ec_request_def request_fields_def)

lemma sample_image_simps [simp]:
  "mm_identifier (sample_image h pos n) = h" "get_num_embeds (mm_position (sample_image h pos n)) = n"
  by (simp_all add: sample_image_def get_num_embeds_def embeds_cumsum_def)

lemma first_feature [simp]:
  "feature_hash (image_request rid (f # fs)) 0 = Inr (mm_identifier f)"
  "get_num_encoder_embeds (image_request rid (f # fs)) 0 = Inr (get_num_embeds (mm_position f))"
  by (simp_all add: feature_hash_def get_num_encoder_embeds_def py_index_def rassert_def)

lemma sample_encoder_cache_reach: "enc_reach (\<lambda>_. 2) 5 sample_encoder_cache"
proof -
  let ?r = "image_request ''a'' [sample_image ''x'' 0 2]"
  have sz: "sized (\<lambda>_. 2) ?r" by (simp add: sized_def)
  let ?s1 = "\<lparr>enc_cache_size = 5, num_free_slots = 3, num_freeable_slots = 3, cached = [(''x'', {''a''})],
      request_cached_ids = [(''a'', {0})], freeable = [], freed = []\<rparr>"
  have "enc_reach (\<lambda>_. 2) 5 (encoder_cache_init 5)" by (rule er_init) simp
  moreover have "enc_allocate ?r 0 (encoder_cache_init 5) = Inr ?s1"
    by (simp add: enc_allocate_def rassert_def encoder_cache_init_def dict_index_def add_cached_id_def dict_get_default_def)
  ultimately have "enc_reach (\<lambda>_. 2) 5 ?s1" using er_allocate[OF _ sz first_feature(1)] by (simp add: encoder_cache_init_def)
  moreover have "free_encoder_input ?r 0 ?s1 = Inr sample_encoder_cache"
    by (simp add: free_encoder_input_def drop_cached_id_def dict_get_default_def sample_encoder_cache_def)
  ultimately show ?thesis using er_free_input sz by blast
qed

text \<open>
  C23: In every reachable state of the encoder cache, \<open>0 \<le> num_free_slots \<le> num_freeable_slots \<le> cache_size\<close>;
  the free slots are the capacity less the sizes of all cached items, the freeable slots are the
  capacity less the sizes of the items that some request references, and \<open>freeable\<close> lists
  exactly the cached items without a reference, with their sizes.
\<close>

theorem encoder_cache_accounting:
  assumes "enc_reach sz cap s"
  shows "0 \<le> num_free_slots s \<and> num_free_slots s \<le> num_freeable_slots s \<and> num_freeable_slots s \<le> cap
    \<and> num_free_slots s + csize sz (cached s) = cap
    \<and> num_freeable_slots s + csize sz (filter (\<lambda>e. snd e \<noteq> {}) (cached s)) = cap
    \<and> dict_ok (cached s) \<and> dict_ok (freeable s)
    \<and> (\<forall>h. dict_get (freeable s) h = (if dict_get (cached s) h = Some {} then Some (sz h) else None))"
proof -
  have inv: "enc_core sz (cached s) (freeable s) (num_free_slots s) (num_freeable_slots s) cap"
    using enc_reach_inv[OF assms] unfolding enc_inv_def by blast
  note core = core_split[OF inv]
  have "0 \<le> csize sz (filter (\<lambda>e. snd e \<noteq> {}) (cached s))" unfolding csize_def
    by (intro sum_list_nonneg) (use core(1,7) in \<open>auto intro: map_of_is_SomeI\<close>)
  then show ?thesis using core(1-6) csize_referenced[OF inv] core_slots_le[OF inv] by simp
qed

theorem encoder_cache_accounting_witness:
  "num_freeable_slots sample_encoder_cache + csize (\<lambda>_. 2) (filter (\<lambda>e. snd e \<noteq> {}) (cached sample_encoder_cache)) = 5
   \<and> num_free_slots sample_encoder_cache + csize (\<lambda>_. 2) (cached sample_encoder_cache) = 5"
  using encoder_cache_accounting[OF sample_encoder_cache_reach] by simp

text \<open>
  \<open>can_allocate\<close> on a reachable encoder cache never raises. It answers whether the item fits
  both the compute budget and, with what is already scheduled, the freeable slots. When it does,
  that many slots are free afterwards; items are evicted oldest first, no more of them than needed,
  only unreferenced ones, and each is reported as freed. When it answers no, nothing has changed.
\<close>

theorem can_allocate_outcome:
  assumes "enc_reach sz cap s" "get_num_encoder_embeds r i = Inr n"
  shows "\<exists>s' k. can_allocate r i b e s = Inr (n \<le> b \<and> n + e \<le> num_freeable_slots s, s')
    \<and> (if n \<le> b \<and> n + e \<le> num_freeable_slots s then n + e \<le> num_free_slots s' else s' = s)
    \<and> freeable s' = drop k (freeable s) \<and> freed s' = freed s @ map fst (take k (freeable s))
    \<and> (\<forall>h. dict_get (cached s') h = (if h \<in> set (map fst (take k (freeable s))) then None else dict_get (cached s) h))
    \<and> (\<forall>h \<in> set (map fst (take k (freeable s))). dict_get (cached s) h = Some {})
    \<and> (\<forall>j < k. num_free_slots s + fsum (take j (freeable s)) < n + e)"
proof -
  have inv: "enc_inv sz s" using enc_reach_inv[OF assms(1)] by simp
  note core = core_split[OF inv[unfolded enc_inv_def]]
  have un: "dict_get (cached s) h = Some {}" if "h \<in> set (map fst (take k (freeable s)))" for h k
  proof -
    have "h \<in> fst ` set (freeable s)" using that by (auto dest: in_set_takeD)
    then show ?thesis using core(3)[of h] unfolding dict_get_keys by (auto split: if_splits)
  qed
  from can_allocate_spec[OF inv assms(2), of b e] obtain s' k where
    "can_allocate r i b e s = Inr (n \<le> b \<and> n + e \<le> num_freeable_slots s, s')" "freeable s' = drop k (freeable s)"
    "freed s' = freed s @ map fst (take k (freeable s))"
    "\<forall>h. dict_get (cached s') h = (if h \<in> set (map fst (take k (freeable s))) then None else dict_get (cached s) h)"
    "if n \<le> b \<and> n + e \<le> num_freeable_slots s then n + e \<le> num_free_slots s' else s' = s"
    "\<forall>j < k. num_free_slots s + fsum (take j (freeable s)) < n + e" by (elim exE conjE) simp
  with un[of _ k] show ?thesis by blast
qed

text \<open>Three more slots are scheduled, so the item of four needs the room of \<open>x\<close>, which is evicted.\<close>

theorem can_allocate_outcome_witness:
  "\<exists>s'. can_allocate (image_request ''b'' [sample_image ''y'' 0 4]) 0 8 1 sample_encoder_cache = Inr (True, s')
     \<and> freed s' = [''x''] \<and> 5 \<le> num_free_slots s'"
proof -
  let ?r = "image_request ''b'' [sample_image ''y'' 0 4]"
  have n: "get_num_encoder_embeds ?r 0 = Inr 4" by simp
  obtain s' k where s': "can_allocate ?r 0 8 1 sample_encoder_cache = Inr (True, s')" "5 \<le> num_free_slots s'"
    using can_allocate_outcome[OF sample_encoder_cache_reach n, of 8 1] by (auto simp: sample_encoder_cache_def)
  moreover have "freed s' = [''x'']" using s'(1)
    by (auto simp: can_allocate_def n sample_encoder_cache_def dict_index_def)
  ultimately show ?thesis by blast
qed

end
