(* ===== verification/Encoder_Scheduling.thy ===== *)
theory Encoder_Scheduling
  imports Encoder_Cache
begin

section \<open>Scheduling of encoder inputs\<close>

text \<open>
  The part of \<open>vllm/v1/core/sched/scheduler.py\<close> that decides which multi-modal items are encoded in a
  step (\<open>_try_schedule_encoder_inputs\<close>), reserves their cache space and releases it
  (\<open>_free_encoder_inputs\<close>), over the window search of \<open>vllm/multimodal/utils.py\<close> and the placeholder
  ranges of \<open>vllm/multimodal/inputs.py\<close>. \<open>gather_mm_hashes\<close> is the walk of the model runner over the
  same window, which asserts that the encoder output of every item it meets is there.
\<close>

subsection \<open>The window of a step\<close>

text \<open>\<open>bisect.bisect_left\<close> with a key function.\<close>

function bisect_loop :: "('a \<Rightarrow> int) \<Rightarrow> 'a list \<Rightarrow> int \<Rightarrow> nat \<Rightarrow> nat \<Rightarrow> nat" where
  "bisect_loop key xs x lo hi =
     (if lo < hi
      then let mid = (lo + hi) div 2
           in if key (xs ! mid) < x then bisect_loop key xs x (mid + 1) hi else bisect_loop key xs x lo mid
      else lo)"
  by pat_completeness auto
termination by (relation "measure (\<lambda>(_, _, _, lo, hi). hi - lo)") auto

declare bisect_loop.simps [simp del]

definition bisect_left :: "('a \<Rightarrow> int) \<Rightarrow> 'a list \<Rightarrow> int \<Rightarrow> int" where
  "bisect_left key xs x = int (bisect_loop key xs x 0 (length xs))"

definition get_mm_features_in_window :: "mm_feature list \<Rightarrow> int \<Rightarrow> int \<Rightarrow> int \<times> int" where
  "get_mm_features_in_window fs start_tok end_tok =
     (bisect_left mm_stop fs (start_tok + 1), bisect_left mm_start fs end_tok)"

definition get_embeds_indices_in_range :: "placeholder_range \<Rightarrow> int \<Rightarrow> int \<Rightarrow> (int \<times> int) result" where
  "get_embeds_indices_in_range p start_idx end_idx =
     (case embeds_cumsum p of
        None \<Rightarrow> Inr (start_idx, end_idx)
      | Some cs \<Rightarrow>
          rbind (if start_idx > 0 then py_index cs (start_idx - 1) else Inr 0) (\<lambda>a.
          rbind (if end_idx > 0 then py_index cs (end_idx - 1) else Inr 0) (\<lambda>b. Inr (a, b))))"

subsection \<open>Choosing the inputs of a step\<close>

text \<open>
  The fields of the scheduler the choice reads; \<open>ec_has\<close> is \<open>has_cache_item\<close> of the encoder cache
  connector, when there is one.
\<close>

record encoder_sched =
  is_encoder_decoder :: bool
  es_disable_chunked :: bool
  ec_has :: "(string \<Rightarrow> bool) option"

text \<open>What the loop has collected, and how one pass through its body ends.\<close>

record encoder_plan =
  to_schedule :: "int list"
  external_load :: "int list"
  compute_budget :: int
  planned_hashes :: "string set"
  planned_embeds :: int

datatype plan_step = Next encoder_plan encoder_cache_manager | Stop int encoder_cache_manager

definition plan_input ::
  "encoder_sched \<Rightarrow> request \<Rightarrow> int \<Rightarrow> int \<Rightarrow> int \<Rightarrow> int \<Rightarrow> mm_feature \<Rightarrow> encoder_plan \<Rightarrow> encoder_cache_manager \<Rightarrow> plan_step result" where
  "plan_input env r computed new_toks shift i f a m =
     (let start_pos = pr_offset (mm_position f);
          num_tokens = pr_length (mm_position f);
          num_embeds = get_num_embeds (mm_position f);
          h = mm_identifier f
      in
      if es_disable_chunked env \<and> computed < start_pos \<and> computed + new_toks < start_pos + num_tokens
      then Inr (Stop (max 0 (start_pos - (computed + shift))) m)
      else rbind (ecm_can_allocate r i (compute_budget a) (planned_embeds a) m) (\<lambda>(ok, m1).
        if \<not> ok
        then Inr (Stop (if computed + shift < start_pos then start_pos - (computed + shift) else 0) m1)
        else
          rbind (get_embeds_indices_in_range (mm_position f) (max 0 (computed - start_pos))
                   (min num_tokens (computed + new_toks - start_pos))) (\<lambda>(lo, hi).
            if hi - lo = 0 then Inr (Next a m1)
            else if (case ec_has env of None \<Rightarrow> False | Some has \<Rightarrow> has h)
            then Inr (Next (a\<lparr>planned_hashes := insert h (planned_hashes a), external_load := external_load a @ [i],
                              planned_embeds := planned_embeds a + num_embeds\<rparr>) m1)
            else Inr (Next (a\<lparr>planned_embeds := planned_embeds a + num_embeds,
                              compute_budget := compute_budget a - num_embeds,
                              planned_hashes := insert h (planned_hashes a), to_schedule := to_schedule a @ [i]\<rparr>) m1))))"

definition plan_step_at ::
  "encoder_sched \<Rightarrow> request \<Rightarrow> int \<Rightarrow> int \<Rightarrow> int \<Rightarrow> int \<Rightarrow> encoder_plan \<Rightarrow> encoder_cache_manager \<Rightarrow> plan_step result" where
  "plan_step_at env r computed new_toks shift i a m =
     rbind (py_index (mm_features r) i) (\<lambda>f.
       if is_encoder_decoder env \<and> computed > 0
       then rbind (rassert (pr_offset (mm_position f) = 0)) (\<lambda>_. Inr (Next a m))
       else if \<not> is_encoder_decoder env
       then (if mm_identifier f \<in> planned_hashes a then Inr (Next a m)
             else rbind (ecm_check r i m) (\<lambda>(hit, m1).
               if hit then Inr (Next a m1) else plan_input env r computed new_toks shift i f a m1))
       else plan_input env r computed new_toks shift i f a m)"

fun plan_loop ::
  "encoder_sched \<Rightarrow> request \<Rightarrow> int \<Rightarrow> int \<Rightarrow> int \<Rightarrow> int list \<Rightarrow> encoder_plan \<Rightarrow> encoder_cache_manager
   \<Rightarrow> (encoder_plan \<times> int \<times> encoder_cache_manager) result" where
  "plan_loop env r computed new_toks shift [] a m = Inr (a, new_toks, m)"
| "plan_loop env r computed new_toks shift (i # is) a m =
     rbind (plan_step_at env r computed new_toks shift i a m) (\<lambda>st.
       case st of
         Next a' m' \<Rightarrow> plan_loop env r computed new_toks shift is a' m'
       | Stop n m' \<Rightarrow> Inr (a, n, m'))"

definition try_schedule_encoder_inputs ::
  "encoder_sched \<Rightarrow> request \<Rightarrow> int \<Rightarrow> int \<Rightarrow> int \<Rightarrow> int \<Rightarrow> encoder_cache_manager
   \<Rightarrow> (encoder_plan \<times> int \<times> encoder_cache_manager) result" where
  "try_schedule_encoder_inputs env r computed new_toks budget shift m =
     (let empty_plan = \<lparr>to_schedule = [], external_load = [], compute_budget = budget, planned_hashes = {}, planned_embeds = 0\<rparr>
      in if new_toks = 0 \<or> \<not> has_encoder_inputs r then Inr (empty_plan, new_toks, m)
         else rbind (rassert (length (mm_features r) > 0)) (\<lambda>_.
           let (lo, hi) = get_mm_features_in_window (mm_features r) computed (computed + new_toks + shift);
               lo' = (if is_encoder_decoder env then 0 else lo)
           in plan_loop env r computed new_toks shift (py_range lo' hi) empty_plan m))"

text \<open>The allocation of the planned inputs in \<open>schedule\<close>, after the blocks of the request are allocated.\<close>

definition allocate_planned :: "request \<Rightarrow> encoder_plan \<Rightarrow> encoder_cache_manager \<Rightarrow> encoder_cache_manager result" where
  "allocate_planned r a m =
     rbind (rfold (ecm_allocate r) (to_schedule a) m) (rfold (ecm_allocate r) (external_load a))"

subsection \<open>Releasing inputs\<close>

text \<open>\<open>order\<close> is the iteration order of the set of cached input ids.\<close>

definition free_passed_input :: "bool \<Rightarrow> request \<Rightarrow> int \<Rightarrow> encoder_cache_manager \<Rightarrow> encoder_cache_manager result" where
  "free_passed_input encdec r i m =
     rbind (py_index (mm_features r) i) (\<lambda>f.
       if encdec \<and> num_computed_tokens r > 0 then ecm_free_input r i m
       else if pr_offset (mm_position f) + pr_length (mm_position f) \<le> num_computed_tokens r - num_output_placeholders r
       then ecm_free_input r i m
       else Inr m)"

definition free_encoder_inputs :: "bool \<Rightarrow> int list \<Rightarrow> request \<Rightarrow> encoder_cache_manager \<Rightarrow> encoder_cache_manager result" where
  "free_encoder_inputs encdec order r m =
     (if ecm_cached_ids r m = {} then Inr m else rfold (free_passed_input encdec r) order m)"

subsection \<open>What the model runner looks up\<close>

text \<open>
  The loop of \<open>_gather_mm_embeddings\<close> over one request, up to its look-up in the encoder cache: the
  hashes whose encoder output it asserts to be present.
\<close>

definition gather_step :: "int \<Rightarrow> int \<Rightarrow> mm_feature \<Rightarrow> string list result" where
  "gather_step computed scheduled f =
     (let p = mm_position f;
          start_idx = max (computed - pr_offset p) 0;
          end_idx = min (computed - pr_offset p + scheduled) (pr_length p)
      in rbind (rassert (start_idx < end_idx)) (\<lambda>_.
         rbind (get_embeds_indices_in_range p start_idx end_idx) (\<lambda>(lo, hi).
           Inr (if lo = hi then [] else [mm_identifier f]))))"

definition gather_mm_hashes :: "request \<Rightarrow> int \<Rightarrow> int \<Rightarrow> int \<Rightarrow> string list result" where
  "gather_mm_hashes r shift computed scheduled =
     (let start_tok = computed + shift;
          (lo, hi) = get_mm_features_in_window (mm_features r) start_tok (start_tok + scheduled)
      in rbind (rmap (\<lambda>i. rbind (py_index (mm_features r) i) (gather_step start_tok scheduled)) (py_range lo hi)) (\<lambda>hs.
         Inr (concat hs)))"

subsection \<open>The window search\<close>

lemma bisect_loop_spec:
  assumes "sorted (map key xs)" "lo \<le> hi" "hi \<le> length xs" "\<forall>j < lo. key (xs ! j) < x"
    "\<forall>j. hi \<le> j \<and> j < length xs \<longrightarrow> x \<le> key (xs ! j)"
  shows "bisect_loop key xs x lo hi \<le> length xs
    \<and> (\<forall>j < length xs. j < bisect_loop key xs x lo hi \<longleftrightarrow> key (xs ! j) < x)"
  using assms
proof (induction key xs x lo hi rule: bisect_loop.induct)
  case (1 key xs x lo hi)
  show ?case
  proof (cases "lo < hi")
    case False
    then show ?thesis using "1.prems" by (auto simp: bisect_loop.simps not_less)
  next
    case True
    let ?mid = "(lo + hi) div 2"
    have mid: "lo \<le> ?mid" "?mid < hi" "?mid < length xs" using True "1.prems"(3) by auto
    have le: "key (xs ! j) \<le> key (xs ! k)" if "j \<le> k" "k < length xs" for j k
      using sorted_nth_mono[OF "1.prems"(1), of j k] that by simp
    show ?thesis
    proof (cases "key (xs ! ?mid) < x")
      case below: True
      then have "\<forall>j < ?mid + 1. key (xs ! j) < x" using le[of _ ?mid] mid(3) by (force simp: less_Suc_eq_le)
      then show ?thesis using "1.IH"(1)[OF True refl below] "1.prems" mid True below
        by (subst (1 2) bisect_loop.simps) (simp add: Let_def)
    next
      case False
      then have "\<forall>j. ?mid \<le> j \<and> j < length xs \<longrightarrow> x \<le> key (xs ! j)" using le[of ?mid] by force
      then show ?thesis using "1.IH"(2)[OF True refl False] "1.prems" mid True False
        by (subst (1 2) bisect_loop.simps) (simp add: Let_def)
    qed
  qed
qed

lemma bisect_left_spec:
  assumes "sorted (map key xs)"
  shows "0 \<le> bisect_left key xs x" "bisect_left key xs x \<le> int (length xs)"
    "j < length xs \<Longrightarrow> int j < bisect_left key xs x \<longleftrightarrow> key (xs ! j) < x"
  using bisect_loop_spec[OF assms, of 0 "length xs" x] by (auto simp: bisect_left_def)

text \<open>Features in prompt order that do not overlap.\<close>

definition features_ordered :: "mm_feature list \<Rightarrow> bool" where
  "features_ordered fs \<longleftrightarrow> sorted (map mm_start fs) \<and> sorted (map mm_stop fs)"

lemma window_bounds:
  assumes "features_ordered fs" "get_mm_features_in_window fs a b = (lo, hi)"
  shows "0 \<le> lo" "hi \<le> int (length fs)"
    "i < length fs \<Longrightarrow> (lo \<le> int i \<and> int i < hi) \<longleftrightarrow> (a < mm_stop (fs ! i) \<and> mm_start (fs ! i) < b)"
proof -
  have w: "lo = bisect_left mm_stop fs (a + 1)" "hi = bisect_left mm_start fs b"
    using assms(2) by (simp_all add: get_mm_features_in_window_def)
  have s: "sorted (map mm_start fs)" "sorted (map mm_stop fs)" using assms(1) by (simp_all add: features_ordered_def)
  show "0 \<le> lo" "hi \<le> int (length fs)" using bisect_left_spec(1)[OF s(2)] bisect_left_spec(2)[OF s(1)] by (simp_all add: w)
  show "(lo \<le> int i \<and> int i < hi) \<longleftrightarrow> (a < mm_stop (fs ! i) \<and> mm_start (fs ! i) < b)" if "i < length fs"
    using bisect_left_spec(3)[OF s(2) that, of "a + 1"] bisect_left_spec(3)[OF s(1) that, of b] unfolding w by linarith
qed

subsection \<open>Embeddings of a range\<close>

definition feature_ok :: "mm_feature \<Rightarrow> bool" where
  "feature_ok f \<longleftrightarrow> 0 < pr_length (mm_position f)
     \<and> (case pr_is_embed (mm_position f) of None \<Rightarrow> True | Some bs \<Rightarrow> int (length bs) = pr_length (mm_position f))"

definition embeds_before :: "placeholder_range \<Rightarrow> int \<Rightarrow> int" where
  "embeds_before p k = (case pr_is_embed p of None \<Rightarrow> k | Some bs \<Rightarrow> \<Sum>b\<leftarrow>take (nat k) bs. of_bool b)"

lemma embeds_in_range:
  assumes "feature_ok f" "0 \<le> a" "a \<le> pr_length (mm_position f)" "b \<le> pr_length (mm_position f)"
  shows "get_embeds_indices_in_range (mm_position f) a b = Inr (embeds_before (mm_position f) a, embeds_before (mm_position f) b)"
proof (cases "pr_is_embed (mm_position f)")
  case None
  then show ?thesis by (simp add: get_embeds_indices_in_range_def embeds_cumsum_def embeds_before_def)
next
  case (Some bs)
  have len: "int (length bs) = pr_length (mm_position f)" using assms(1) Some by (simp add: feature_ok_def)
  have at: "py_index (map (\<lambda>k. \<Sum>b\<leftarrow>take (Suc k) bs. of_bool b) [0..<length bs]) (k - 1) = Inr (\<Sum>b\<leftarrow>take (nat k) bs. of_bool b :: int)"
    if "0 < k" "k \<le> pr_length (mm_position f)" for k
  proof -
    have "nat (k - 1) < length bs" "Suc (nat (k - 1)) = nat k" using that len by auto
    then show ?thesis using that len by (simp add: py_index_def)
  qed
  show ?thesis using at assms(2-4) Some by (simp add: get_embeds_indices_in_range_def embeds_cumsum_def embeds_before_def)
qed

lemma embeds_before_mono: "a \<le> b \<Longrightarrow> embeds_before p a \<le> embeds_before p b"
proof (cases "pr_is_embed p")
  case (Some bs)
  assume "a \<le> b"
  then have "take (nat b) bs = take (nat a) bs @ drop (nat a) (take (nat b) bs)"
    by (metis append_take_drop_id min.absorb1 nat_mono take_take)
  then have "(\<Sum>x\<leftarrow>take (nat b) bs. of_bool x :: int) = (\<Sum>x\<leftarrow>take (nat a) bs. of_bool x) + (\<Sum>x\<leftarrow>drop (nat a) (take (nat b) bs). of_bool x)"
    by (metis map_append sum_list_append)
  moreover have "0 \<le> (\<Sum>x\<leftarrow>drop (nat a) (take (nat b) bs). of_bool x :: int)" by (intro sum_list_nonneg) auto
  ultimately show ?thesis using Some by (simp add: embeds_before_def)
qed (simp add: embeds_before_def)

subsection \<open>One planned input\<close>

text \<open>
  \<open>plan_ok\<close>: the planned inputs are distinct items that are not cached, and the cache has room for
  all of them; the compute budget \<open>B\<close> is spent on those to be computed. \<open>item_ready\<close>: the item is
  planned or cached with a reference of the request.
\<close>

definition input_hash :: "request \<Rightarrow> int \<Rightarrow> string" where
  "input_hash r i = mm_identifier (mm_features r ! nat i)"

definition plan_ok :: "(string \<Rightarrow> int) \<Rightarrow> int \<Rightarrow> request \<Rightarrow> int \<Rightarrow> encoder_cache \<Rightarrow> encoder_plan \<Rightarrow> bool" where
  "plan_ok sz cap r B s a \<longleftrightarrow> enc_reach sz cap s
     \<and> (let ids = to_schedule a @ external_load a in
          (\<forall>i \<in> set ids. 0 \<le> i \<and> i < num_encoder_inputs r) \<and> distinct (map (input_hash r) ids)
          \<and> planned_hashes a = input_hash r ` set ids
          \<and> planned_embeds a = (\<Sum>i\<leftarrow>ids. sz (input_hash r i)))
     \<and> (\<forall>h \<in> planned_hashes a. dict_get (cached s) h = None)
     \<and> planned_embeds a \<le> num_free_slots s
     \<and> compute_budget a + (\<Sum>i\<leftarrow>to_schedule a. sz (input_hash r i)) = B \<and> 0 \<le> compute_budget a"

definition item_ready :: "request \<Rightarrow> encoder_cache \<Rightarrow> encoder_plan \<Rightarrow> string \<Rightarrow> bool" where
  "item_ready r s a h \<longleftrightarrow> h \<in> planned_hashes a \<or> (\<exists>refs. dict_get (cached s) h = Some refs \<and> request_id r \<in> refs)"

definition item_needed :: "int \<Rightarrow> int \<Rightarrow> mm_feature \<Rightarrow> bool" where
  "item_needed computed n f \<longleftrightarrow>
     embeds_before (mm_position f) (max 0 (computed - mm_start f))
     \<noteq> embeds_before (mm_position f) (min (pr_length (mm_position f)) (computed + n - mm_start f))"

lemma check_spec:
  assumes inv: "enc_inv sz s" and h: "feature_hash r i = Inr h"
  shows "\<exists>s'. check_and_update_cache r i s = Inr (dict_get (cached s) h \<noteq> None, s') \<and> enc_inv sz s'
    \<and> num_free_slots s' = num_free_slots s
    \<and> dict_get (cached s') = (case dict_get (cached s) h of None \<Rightarrow> dict_get (cached s)
                               | Some refs \<Rightarrow> (dict_get (cached s))(h \<mapsto> insert (request_id r) refs))"
proof -
  obtain s' where s': "check_and_update_cache r i s = Inr (dict_get (cached s) h \<noteq> None, s')" "enc_inv sz s'"
    using check_ok[OF assms] by blast
  have "num_free_slots s' = num_free_slots s
    \<and> dict_get (cached s') = (case dict_get (cached s) h of None \<Rightarrow> dict_get (cached s)
                               | Some refs \<Rightarrow> (dict_get (cached s))(h \<mapsto> insert (request_id r) refs))"
    using s'(1) by (auto simp: check_and_update_cache_def h rbind_eq_Inr_iff add_cached_id_def dict_index_def fun_eq_iff
        split: option.splits if_splits)
  then show ?thesis using s' by blast
qed

lemma input_at:
  assumes "0 \<le> i" "i < num_encoder_inputs r" "sized sz r"
  shows "py_index (mm_features r) i = Inr (mm_features r ! nat i)" "feature_hash r i = Inr (input_hash r i)"
    "get_num_encoder_embeds r i = Inr (sz (input_hash r i))" "get_num_embeds (mm_position (mm_features r ! nat i)) = sz (input_hash r i)"
    "0 \<le> sz (input_hash r i)"
proof -
  have i: "i < int (length (mm_features r))" using assms(2) by (simp add: num_encoder_inputs_def)
  then show ix: "py_index (mm_features r) i = Inr (mm_features r ! nat i)" using assms(1) by (simp add: py_index_nonneg)
  show "feature_hash r i = Inr (input_hash r i)" by (simp add: feature_hash_def ix input_hash_def)
  have "mm_features r ! nat i \<in> set (mm_features r)" using i assms(1) by (intro nth_mem) simp
  then show e: "get_num_embeds (mm_position (mm_features r ! nat i)) = sz (input_hash r i)" "0 \<le> sz (input_hash r i)"
    using assms(3) by (simp_all add: sized_def list_all_iff input_hash_def)
  show "get_num_encoder_embeds r i = Inr (sz (input_hash r i))" using i by (simp add: get_num_encoder_embeds_def ix e)
qed

lemma plan_ok_add:
  assumes "plan_ok sz cap r B s a" "0 \<le> i" "i < num_encoder_inputs r" "dict_get (cached s) (input_hash r i) = None"
    "input_hash r i \<notin> planned_hashes a" "sz (input_hash r i) + planned_embeds a \<le> num_free_slots s"
  shows "plan_ok sz cap r B s (a\<lparr>planned_hashes := insert (input_hash r i) (planned_hashes a), external_load := external_load a @ [i],
           planned_embeds := planned_embeds a + sz (input_hash r i)\<rparr>)"
    "sz (input_hash r i) \<le> compute_budget a \<Longrightarrow>
      plan_ok sz cap r B s (a\<lparr>planned_embeds := planned_embeds a + sz (input_hash r i),
        compute_budget := compute_budget a - sz (input_hash r i),
        planned_hashes := insert (input_hash r i) (planned_hashes a), to_schedule := to_schedule a @ [i]\<rparr>)"
  using assms by (auto simp: plan_ok_def Let_def)

lemma plan_input_spec:
  assumes ok: "plan_ok sz cap r B s a" and i: "0 \<le> i" "i < num_encoder_inputs r" and sz: "sized sz r"
    and f: "feature_ok (mm_features r ! nat i)" "computed < mm_stop (mm_features r ! nat i)"
    and fresh: "dict_get (cached s) (input_hash r i) = None" "input_hash r i \<notin> planned_hashes a"
  shows "\<exists>st s'. plan_input env r computed new_toks shift i (mm_features r ! nat i) a (EncoderCacheManager s) = Inr st
    \<and> (\<forall>h. item_ready r s a h \<longrightarrow> item_ready r s' a h)
    \<and> (case st of
         Next a' m' \<Rightarrow> m' = EncoderCacheManager s' \<and> plan_ok sz cap r B s' a'
           \<and> planned_hashes a \<subseteq> planned_hashes a'
           \<and> (item_needed computed new_toks (mm_features r ! nat i) \<longrightarrow> input_hash r i \<in> planned_hashes a')
       | Stop n m' \<Rightarrow> m' = EncoderCacheManager s' \<and> plan_ok sz cap r B s' a
           \<and> n = max 0 (mm_start (mm_features r ! nat i) - (computed + shift)))"
proof -
  let ?f = "mm_features r ! nat i" and ?h = "input_hash r i"
  note at = input_at[OF i sz]
  have reach: "enc_reach sz cap s" using ok by (simp add: plan_ok_def)
  then have inv: "enc_inv sz s" using enc_reach_inv by blast
  from can_allocate_spec[OF inv at(3), of "compute_budget a" "planned_embeds a"] obtain ok' s' k where
    c: "can_allocate r i (compute_budget a) (planned_embeds a) s = Inr (ok', s')"
    and ok': "ok' \<longleftrightarrow> sz ?h \<le> compute_budget a \<and> sz ?h + planned_embeds a \<le> num_freeable_slots s"
    and get: "\<forall>h. dict_get (cached s') h = (if h \<in> set (map fst (take k (freeable s))) then None else dict_get (cached s) h)"
    and room: "ok' \<longrightarrow> sz ?h + planned_embeds a \<le> num_free_slots s'" "\<not> ok' \<longrightarrow> s' = s" by blast
  have un: "dict_get (cached s) h = Some {}" if "h \<in> set (map fst (take k (freeable s)))" for h
  proof -
    have "h \<in> fst ` set (freeable s)" using that by (auto dest: in_set_takeD)
    then show ?thesis using core_split(3)[OF inv[unfolded enc_inv_def], of h] unfolding dict_get_keys by (auto split: if_splits)
  qed
  have ready: "\<forall>h. item_ready r s a h \<longrightarrow> item_ready r s' a h"
    using get un by (fastforce simp: item_ready_def)
  have "planned_embeds a \<le> num_free_slots s'" using room ok at(5) by (cases ok') (auto simp: plan_ok_def)
  then have keep: "plan_ok sz cap r B s' a" using ok get er_can_allocate[OF reach c] by (simp add: plan_ok_def Let_def)
  have range: "get_embeds_indices_in_range (mm_position ?f) (max 0 (computed - mm_start ?f))
      (min (pr_length (mm_position ?f)) (computed + new_toks - mm_start ?f))
    = Inr (embeds_before (mm_position ?f) (max 0 (computed - mm_start ?f)),
           embeds_before (mm_position ?f) (min (pr_length (mm_position ?f)) (computed + new_toks - mm_start ?f)))"
    using f by (intro embeds_in_range) (auto simp: feature_ok_def)
  have fresh': "dict_get (cached s') ?h = None" using fresh(1) get by simp
  define chunk where "chunk \<longleftrightarrow> es_disable_chunked env \<and> computed < mm_start ?f \<and> computed + new_toks < mm_stop ?f"
  define ext where "ext \<longleftrightarrow> (case ec_has env of None \<Rightarrow> False | Some has \<Rightarrow> has ?h)"
  define stop where "stop = max 0 (mm_start ?f - (computed + shift))"
  have step: "plan_input env r computed new_toks shift i ?f a (EncoderCacheManager s) =
    (if chunk then Inr (Stop stop (EncoderCacheManager s))
     else if \<not> ok' then Inr (Stop stop (EncoderCacheManager s'))
     else if \<not> item_needed computed new_toks ?f then Inr (Next a (EncoderCacheManager s'))
     else if ext
     then Inr (Next (a\<lparr>planned_hashes := insert ?h (planned_hashes a), external_load := external_load a @ [i],
                       planned_embeds := planned_embeds a + sz ?h\<rparr>) (EncoderCacheManager s'))
     else Inr (Next (a\<lparr>planned_embeds := planned_embeds a + sz ?h, compute_budget := compute_budget a - sz ?h,
                       planned_hashes := insert ?h (planned_hashes a), to_schedule := to_schedule a @ [i]\<rparr>) (EncoderCacheManager s')))"
  proof -
    have "ecm_can_allocate r i (compute_budget a) (planned_embeds a) (EncoderCacheManager s) = Inr (ok', EncoderCacheManager s')"
      using c by simp
    moreover have "(if computed + shift < mm_start ?f then mm_start ?f - (computed + shift) else 0) = stop" "max 0 (mm_start ?f - (computed + shift)) = stop"
      by (simp_all add: stop_def)
    ultimately show ?thesis using range at(4)
      by (simp add: plan_input_def Let_def item_needed_def input_hash_def[symmetric] chunk_def ext_def del: ecm_can_allocate.simps)
  qed
  consider "chunk" | "\<not> chunk" "\<not> ok'" | "\<not> chunk" "ok'" "\<not> item_needed computed new_toks ?f"
    | "\<not> chunk" "ok'" "item_needed computed new_toks ?f" by blast
  then show ?thesis
  proof cases
    case 1
    then show ?thesis using step ok by (intro exI[of _ "Stop stop (EncoderCacheManager s)"] exI[of _ s]) (simp add: stop_def)
  next
    case 2
    then show ?thesis using step keep ready by (intro exI[of _ "Stop stop (EncoderCacheManager s')"] exI[of _ s']) (simp add: stop_def)
  next
    case 3
    then show ?thesis using step keep ready by (intro exI[of _ "Next a (EncoderCacheManager s')"] exI[of _ s']) simp
  next
    case 4
    then have "sz ?h + planned_embeds a \<le> num_free_slots s'" "sz ?h \<le> compute_budget a" using room(1) ok' by auto
    note add = plan_ok_add[OF keep i fresh' fresh(2) this(1)] this(2)
    show ?thesis
    proof (cases ext)
      case True
      then show ?thesis using step 4 ready add(1) by (intro exI[of _ "Next _ (EncoderCacheManager s')"] exI[of _ s']) auto
    next
      case False
      then show ?thesis using step 4 ready add(2)[OF add(3)] by (intro exI[of _ "Next _ (EncoderCacheManager s')"] exI[of _ s']) auto
    qed
  qed
qed

lemma item_ready_mono:
  "item_ready r s a h \<Longrightarrow> planned_hashes a \<subseteq> planned_hashes a' \<Longrightarrow> item_ready r s a' h"
  by (auto simp: item_ready_def)

lemma plan_step_spec:
  assumes ok: "plan_ok sz cap r B s a" and i: "0 \<le> i" "i < num_encoder_inputs r" and sz: "sized sz r"
    and f: "feature_ok (mm_features r ! nat i)" "computed < mm_stop (mm_features r ! nat i)"
    and dec: "\<not> is_encoder_decoder env"
  shows "\<exists>st s'. plan_step_at env r computed new_toks shift i a (EncoderCacheManager s) = Inr st
    \<and> (\<forall>h. item_ready r s a h \<longrightarrow> item_ready r s' a h)
    \<and> (case st of
         Next a' m' \<Rightarrow> m' = EncoderCacheManager s' \<and> plan_ok sz cap r B s' a' \<and> planned_hashes a \<subseteq> planned_hashes a'
           \<and> (item_needed computed new_toks (mm_features r ! nat i) \<longrightarrow> item_ready r s' a' (input_hash r i))
       | Stop n m' \<Rightarrow> m' = EncoderCacheManager s' \<and> plan_ok sz cap r B s' a
           \<and> n = max 0 (mm_start (mm_features r ! nat i) - (computed + shift)))"
proof -
  let ?f = "mm_features r ! nat i" and ?h = "input_hash r i"
  note at = input_at[OF i sz]
  have reach: "enc_reach sz cap s" using ok by (simp add: plan_ok_def)
  then have inv: "enc_inv sz s" using enc_reach_inv by blast
  from check_spec[OF inv at(2)] obtain s1 where
    c: "check_and_update_cache r i s = Inr (dict_get (cached s) ?h \<noteq> None, s1)" "enc_inv sz s1" "num_free_slots s1 = num_free_slots s"
    and get: "dict_get (cached s1) = (case dict_get (cached s) ?h of None \<Rightarrow> dict_get (cached s)
                               | Some refs \<Rightarrow> (dict_get (cached s))(?h \<mapsto> insert (request_id r) refs))" by blast
  have ready: "item_ready r s a h \<Longrightarrow> item_ready r s1 a h" for h
    using get by (auto simp: item_ready_def split: option.splits)
  have dom: "dict_get (cached s1) h = None \<longleftrightarrow> dict_get (cached s) h = None" for h
    using get by (auto split: option.splits)
  have keep: "plan_ok sz cap r B s1 a" using ok c(3) er_check[OF reach c(1)] dom by (simp add: plan_ok_def)
  have step: "plan_step_at env r computed new_toks shift i a (EncoderCacheManager s) =
    (if ?h \<in> planned_hashes a then Inr (Next a (EncoderCacheManager s))
     else if dict_get (cached s) ?h \<noteq> None then Inr (Next a (EncoderCacheManager s1))
     else plan_input env r computed new_toks shift i ?f a (EncoderCacheManager s1))"
    using at(1) c(1) dec by (auto simp: plan_step_at_def input_hash_def)
  consider "?h \<in> planned_hashes a" | refs where "?h \<notin> planned_hashes a" "dict_get (cached s) ?h = Some refs"
    | "?h \<notin> planned_hashes a" "dict_get (cached s) ?h = None" by blast
  then show ?thesis
  proof cases
    case 1
    then show ?thesis using step ok by (intro exI[of _ "Next a (EncoderCacheManager s)"] exI[of _ s]) (simp add: item_ready_def)
  next
    case 2
    then have "item_ready r s1 a ?h" using get by (simp add: item_ready_def)
    then show ?thesis using 2 step keep ready by (intro exI[of _ "Next a (EncoderCacheManager s1)"] exI[of _ s1]) simp
  next
    case 3
    then have "dict_get (cached s1) ?h = None" using dom by simp
    from plan_input_spec[OF keep i sz f this 3(1), of env new_toks shift] 3 obtain st s' where
      "plan_step_at env r computed new_toks shift i a (EncoderCacheManager s) = Inr st" "\<forall>h. item_ready r s1 a h \<longrightarrow> item_ready r s' a h"
      "case st of
         Next a' m' \<Rightarrow> m' = EncoderCacheManager s' \<and> plan_ok sz cap r B s' a' \<and> planned_hashes a \<subseteq> planned_hashes a'
           \<and> (item_needed computed new_toks ?f \<longrightarrow> ?h \<in> planned_hashes a')
       | Stop n m' \<Rightarrow> m' = EncoderCacheManager s' \<and> plan_ok sz cap r B s' a \<and> n = max 0 (mm_start ?f - (computed + shift))"
      unfolding step by auto
    then show ?thesis using ready by (intro exI[of _ st] exI[of _ s']) (auto simp: item_ready_def split: plan_step.splits)
  qed
qed

subsection \<open>The whole plan\<close>

definition covered :: "request \<Rightarrow> int \<Rightarrow> int \<Rightarrow> encoder_cache \<Rightarrow> encoder_plan \<Rightarrow> int \<Rightarrow> bool" where
  "covered r computed n s a i \<longleftrightarrow> (item_needed computed n (mm_features r ! nat i) \<longrightarrow> item_ready r s a (input_hash r i))"

lemma plan_loop_spec:
  assumes "plan_ok sz cap r B s a" "sized sz r" "\<not> is_encoder_decoder env"
    "\<forall>i \<in> set is. 0 \<le> i \<and> i < num_encoder_inputs r \<and> feature_ok (mm_features r ! nat i) \<and> computed < mm_stop (mm_features r ! nat i)"
  shows "\<exists>a' n s' k. plan_loop env r computed new_toks shift is a (EncoderCacheManager s) = Inr (a', n, EncoderCacheManager s')
    \<and> plan_ok sz cap r B s' a' \<and> (\<forall>h. item_ready r s a h \<longrightarrow> item_ready r s' a' h)
    \<and> k \<le> length is \<and> (\<forall>j < k. covered r computed new_toks s' a' (is ! j))
    \<and> n = (if k < length is then max 0 (mm_start (mm_features r ! nat (is ! k)) - (computed + shift)) else new_toks)"
  using assms
proof (induction "is" arbitrary: s a)
  case Nil
  then show ?case by (intro exI[of _ a] exI[of _ new_toks] exI[of _ s] exI[of _ 0]) simp
next
  case (Cons i "is")
  from Cons.prems(4) have i: "0 \<le> i" "i < num_encoder_inputs r" "feature_ok (mm_features r ! nat i)" "computed < mm_stop (mm_features r ! nat i)"
    by simp_all
  from plan_step_spec[OF Cons.prems(1) i(1,2) Cons.prems(2) i(3,4) Cons.prems(3), of new_toks shift] obtain st s1 where
    st: "plan_step_at env r computed new_toks shift i a (EncoderCacheManager s) = Inr st" "\<forall>h. item_ready r s a h \<longrightarrow> item_ready r s1 a h"
      "case st of
         Next a' m' \<Rightarrow> m' = EncoderCacheManager s1 \<and> plan_ok sz cap r B s1 a' \<and> planned_hashes a \<subseteq> planned_hashes a'
           \<and> (item_needed computed new_toks (mm_features r ! nat i) \<longrightarrow> item_ready r s1 a' (input_hash r i))
       | Stop n m' \<Rightarrow> m' = EncoderCacheManager s1 \<and> plan_ok sz cap r B s1 a \<and> n = max 0 (mm_start (mm_features r ! nat i) - (computed + shift))"
    by blast
  show ?case
  proof (cases st)
    case (Stop n m')
    then show ?thesis using st by (intro exI[of _ a] exI[of _ n] exI[of _ s1] exI[of _ 0]) simp
  next
    case (Next a1 m')
    then have n1: "m' = EncoderCacheManager s1" "plan_ok sz cap r B s1 a1" "planned_hashes a \<subseteq> planned_hashes a1"
      "item_needed computed new_toks (mm_features r ! nat i) \<longrightarrow> item_ready r s1 a1 (input_hash r i)" using st(3) by simp_all
    from Cons.IH[OF n1(2) Cons.prems(2,3)] Cons.prems(4) obtain a' n s' k where
      l: "plan_loop env r computed new_toks shift is a1 (EncoderCacheManager s1) = Inr (a', n, EncoderCacheManager s')"
      "plan_ok sz cap r B s' a'" "\<forall>h. item_ready r s1 a1 h \<longrightarrow> item_ready r s' a' h"
      "k \<le> length is" "\<forall>j < k. covered r computed new_toks s' a' (is ! j)"
      "n = (if k < length is then max 0 (mm_start (mm_features r ! nat (is ! k)) - (computed + shift)) else new_toks)" by auto
    have "covered r computed new_toks s' a' ((i # is) ! j)" if "j < Suc k" for j
      using that l(3,5) n1(4) by (cases j) (auto simp: covered_def)
    moreover have "item_ready r s' a' h" if "item_ready r s a h" for h
      using that st(2) item_ready_mono n1(3) l(3) by blast
    moreover have "plan_loop env r computed new_toks shift (i # is) a (EncoderCacheManager s) = Inr (a', n, EncoderCacheManager s')"
      using st(1) Next n1(1) l(1) by simp
    ultimately show ?thesis using l(2,4,6) by (intro exI[of _ a'] exI[of _ n] exI[of _ s'] exI[of _ "Suc k"]) auto
  qed
qed

lemma allocate_planned_spec:
  assumes "enc_reach sz cap s" "sized sz r" "\<forall>i \<in> set ids. 0 \<le> i \<and> i < num_encoder_inputs r" "distinct (map (input_hash r) ids)"
    "\<forall>i \<in> set ids. dict_get (cached s) (input_hash r i) = None" "(\<Sum>i\<leftarrow>ids. sz (input_hash r i)) \<le> num_free_slots s"
  shows "\<exists>s'. rfold (ecm_allocate r) ids (EncoderCacheManager s) = Inr (EncoderCacheManager s') \<and> enc_reach sz cap s'
    \<and> (\<forall>h. dict_get (cached s') h = (if h \<in> input_hash r ` set ids then Some {request_id r} else dict_get (cached s) h))"
  using assms
proof (induction ids arbitrary: s)
  case Nil
  then show ?case by (intro exI[of _ s]) simp
next
  case (Cons i ids)
  let ?h = "input_hash r i"
  have i: "0 \<le> i" "i < num_encoder_inputs r" using Cons.prems(3) by simp_all
  note at = input_at[OF i Cons.prems(2)]
  have inv: "enc_inv sz s" using enc_reach_inv Cons.prems(1) by blast
  have "0 \<le> (\<Sum>i\<leftarrow>ids. sz (input_hash r i))" using input_at(5)[OF _ _ Cons.prems(2)] Cons.prems(3) by (intro sum_list_nonneg) auto
  then have room: "sz ?h \<le> num_free_slots s" using Cons.prems(6) by simp
  have new: "dict_get (cached s) ?h = None" using Cons.prems(5) by simp
  from enc_allocate_ok[OF inv at(2) new Cons.prems(2) room] obtain s1 where
    s1: "enc_allocate r i s = Inr s1" "dict_get (cached s1) = (dict_get (cached s))(?h \<mapsto> {request_id r})"
    "num_free_slots s1 = num_free_slots s - sz ?h" by blast
  have reach: "enc_reach sz cap s1" using er_allocate[OF Cons.prems(1,2) at(2) new s1(1)] .
  have "\<forall>j \<in> set ids. dict_get (cached s1) (input_hash r j) = None" using Cons.prems(4,5) s1(2) by (auto simp: image_iff)
  from Cons.IH[OF reach Cons.prems(2) _ _ this] Cons.prems(3,4,6) s1(3) obtain s' where
    s': "rfold (ecm_allocate r) ids (EncoderCacheManager s1) = Inr (EncoderCacheManager s')" "enc_reach sz cap s'"
    "\<forall>h. dict_get (cached s') h = (if h \<in> input_hash r ` set ids then Some {request_id r} else dict_get (cached s1) h)" by auto
  then show ?case using s1(1,2) by (intro exI[of _ s']) auto
qed

lemma gather_step_ok:
  assumes "feature_ok f" "computed < mm_stop f" "mm_start f < computed + n" "0 < n"
  shows "gather_step computed n f = Inr (if item_needed computed n f then [mm_identifier f] else [])"
proof -
  have "get_embeds_indices_in_range (mm_position f) (max (computed - mm_start f) 0) (min (computed - mm_start f + n) (pr_length (mm_position f)))
    = Inr (embeds_before (mm_position f) (max (computed - mm_start f) 0), embeds_before (mm_position f) (min (computed - mm_start f + n) (pr_length (mm_position f))))"
    using assms by (intro embeds_in_range) (auto simp: feature_ok_def)
  moreover have "max (computed - mm_start f) 0 < min (computed - mm_start f + n) (pr_length (mm_position f))"
    using assms by (auto simp: feature_ok_def)
  moreover have "min (computed - mm_start f + n) (pr_length (mm_position f)) = min (pr_length (mm_position f)) (computed + n - mm_start f)"
    "max (computed - mm_start f) 0 = max 0 (computed - mm_start f)" by simp_all
  ultimately show ?thesis by (simp add: gather_step_def item_needed_def)
qed

lemma gather_ok:
  assumes "features_ordered (mm_features r)" "\<forall>f \<in> set (mm_features r). feature_ok f" "0 < n"
  shows "\<exists>hs. gather_mm_hashes r 0 computed n = Inr hs \<and> (\<forall>h \<in> set hs. \<exists>i < length (mm_features r). h = input_hash r (int i)
    \<and> computed < mm_stop (mm_features r ! i) \<and> mm_start (mm_features r ! i) < computed + n \<and> item_needed computed n (mm_features r ! i))"
proof -
  let ?fs = "mm_features r"
  obtain lo hi where w: "get_mm_features_in_window ?fs computed (computed + n) = (lo, hi)" by fastforce
  note win = window_bounds[OF assms(1) w]
  let ?g = "\<lambda>i. if item_needed computed n (?fs ! nat i) then [mm_identifier (?fs ! nat i)] else []"
  have mem: "nat i < length ?fs" "computed < mm_stop (?fs ! nat i)" "mm_start (?fs ! nat i) < computed + n" if "i \<in> {lo..<hi}" for i
  proof -
    have i: "0 \<le> i" "i < int (length ?fs)" using that win(1,2) by auto
    then show n: "nat i < length ?fs" by linarith
    show "computed < mm_stop (?fs ! nat i)" "mm_start (?fs ! nat i) < computed + n" using win(3)[OF n] that i by auto
  qed
  have "rmap (\<lambda>i. rbind (py_index ?fs i) (gather_step computed n)) (py_range lo hi) = Inr (map ?g (py_range lo hi))"
  proof (rule rmap_total)
    fix i
    assume "i \<in> set (py_range lo hi)"
    then have i: "i \<in> {lo..<hi}" by simp
    then have "py_index ?fs i = Inr (?fs ! nat i)" using win(1) mem(1)[OF i] by (intro py_index_nonneg) auto
    then show "rbind (py_index ?fs i) (gather_step computed n) = Inr (?g i)"
      using gather_step_ok[OF _ mem(2,3)[OF i] assms(3)] mem(1)[OF i] assms(2) by simp
  qed
  then have "gather_mm_hashes r 0 computed n = Inr (concat (map ?g (py_range lo hi)))" by (simp add: gather_mm_hashes_def w)
  moreover have "\<exists>i < length ?fs. h = input_hash r (int i) \<and> computed < mm_stop (?fs ! i) \<and> mm_start (?fs ! i) < computed + n
      \<and> item_needed computed n (?fs ! i)" if "h \<in> set (concat (map ?g (py_range lo hi)))" for h
  proof -
    from that obtain i where i: "i \<in> {lo..<hi}" "item_needed computed n (?fs ! nat i)" "h = mm_identifier (?fs ! nat i)"
      by (auto split: if_splits)
    then show ?thesis using mem[OF i(1)] by (intro exI[of _ "nat i"]) (simp add: input_hash_def)
  qed
  ultimately show ?thesis by blast
qed

lemma item_needed_mono:
  assumes "item_needed computed n f" "n \<le> n'" "feature_ok f" "computed < mm_stop f" "mm_start f < computed + n" "0 \<le> n"
  shows "item_needed computed n' f"
proof -
  let ?p = "mm_position f"
  have "max 0 (computed - mm_start f) \<le> min (pr_length ?p) (computed + n - mm_start f)" using assms(3-6) by (auto simp: feature_ok_def)
  then have "embeds_before ?p (max 0 (computed - mm_start f)) < embeds_before ?p (min (pr_length ?p) (computed + n - mm_start f))"
    using assms(1) embeds_before_mono by (auto simp: item_needed_def intro: order.not_eq_order_implies_strict)
  also have "\<dots> \<le> embeds_before ?p (min (pr_length ?p) (computed + n' - mm_start f))" using assms(2) by (intro embeds_before_mono) auto
  finally show ?thesis by (simp add: item_needed_def)
qed

lemma try_schedule_spec:
  assumes reach: "enc_reach sz cap s" and sz: "sized sz r" and ord: "features_ordered (mm_features r)"
    and ok: "\<forall>f \<in> set (mm_features r). feature_ok f" and dec: "\<not> is_encoder_decoder env"
    and nn: "0 \<le> new_toks" "0 \<le> budget" "0 \<le> shift"
  shows "\<exists>a n s1. try_schedule_encoder_inputs env r computed new_toks budget shift (EncoderCacheManager s) = Inr (a, n, EncoderCacheManager s1)
    \<and> plan_ok sz cap r budget s1 a \<and> 0 \<le> n \<and> n \<le> new_toks
    \<and> (\<forall>i < length (mm_features r). computed < mm_stop (mm_features r ! i) \<longrightarrow> mm_start (mm_features r ! i) < computed + n
         \<longrightarrow> 0 < n \<longrightarrow> item_needed computed n (mm_features r ! i) \<longrightarrow> item_ready r s1 a (input_hash r (int i)))"
proof -
  let ?fs = "mm_features r"
  let ?a0 = "\<lparr>to_schedule = [], external_load = [], compute_budget = budget, planned_hashes = {}, planned_embeds = 0\<rparr>"
  have a0: "plan_ok sz cap r budget s ?a0"
    using reach nn(2) enc_reach_inv[OF reach] core_split(6) by (auto simp: plan_ok_def enc_inv_def)
  show ?thesis
  proof (cases "new_toks = 0 \<or> \<not> has_encoder_inputs r")
    case True
    then show ?thesis using a0 nn(1)
      by (intro exI[of _ ?a0] exI[of _ new_toks] exI[of _ s]) (auto simp: try_schedule_encoder_inputs_def has_encoder_inputs_def num_encoder_inputs_def)
  next
    case False
    obtain lo hi where w: "get_mm_features_in_window ?fs computed (computed + new_toks + shift) = (lo, hi)" by fastforce
    note win = window_bounds[OF ord w]
    have idx: "int i \<in> {lo..<hi} \<longleftrightarrow> computed < mm_stop (?fs ! i) \<and> mm_start (?fs ! i) < computed + new_toks + shift" if "i < length ?fs" for i
      using win(3)[OF that] by simp
    have mem: "0 \<le> i \<and> i < num_encoder_inputs r \<and> feature_ok (?fs ! nat i) \<and> computed < mm_stop (?fs ! nat i)" if "i \<in> {lo..<hi}" for i
    proof -
      have i: "0 \<le> i" "nat i < length ?fs" using that win(1,2) by auto
      then show ?thesis using idx[OF i(2)] that ok by (auto simp: num_encoder_inputs_def)
    qed
    from plan_loop_spec[OF a0 sz dec, of "py_range lo hi" computed new_toks shift] mem obtain a n s1 k where
      l: "plan_loop env r computed new_toks shift (py_range lo hi) ?a0 (EncoderCacheManager s) = Inr (a, n, EncoderCacheManager s1)"
      "plan_ok sz cap r budget s1 a" "k \<le> length (py_range lo hi)" "\<forall>j < k. covered r computed new_toks s1 a (py_range lo hi ! j)"
      "n = (if k < length (py_range lo hi) then max 0 (mm_start (?fs ! nat (py_range lo hi ! k)) - (computed + shift)) else new_toks)" by auto
    have stop: "n = max 0 (mm_start (?fs ! nat (lo + int k)) - (computed + shift)) \<and> lo + int k \<in> {lo..<hi}" if "lo + int k < hi"
      using that l(5) by (simp add: nth_py_range zless_nat_eq_int_zless)
    have "0 \<le> n \<and> n \<le> new_toks"
    proof (cases "lo + int k < hi")
      case True
      then have "nat (lo + int k) < length ?fs" using win(1,2) by linarith
      then show ?thesis using stop[OF True] idx[of "nat (lo + int k)"] win(1) nn by auto
    qed (use l(5) nn(1) in \<open>simp add: zless_nat_eq_int_zless\<close>)
    moreover have "item_ready r s1 a (input_hash r (int i))"
      if i: "i < length ?fs" "computed < mm_stop (?fs ! i)" "mm_start (?fs ! i) < computed + n" "0 < n" "item_needed computed n (?fs ! i)" for i
    proof -
      have le: "n \<le> new_toks" using calculation by simp
      have i_in: "int i \<in> {lo..<hi}" using idx[OF i(1)] i(2,3) le nn(3) by simp
      have "int i < lo + int k"
      proof (rule ccontr)
        assume ge: "\<not> int i < lo + int k"
        then have st: "n = mm_start (?fs ! nat (lo + int k)) - (computed + shift)" using stop i_in i(4) by (auto simp: max_def split: if_splits)
        have "nat (lo + int k) \<le> i" using ge by linarith
        then have "mm_start (?fs ! nat (lo + int k)) \<le> mm_start (?fs ! i)"
          using sorted_nth_mono[of "map mm_start ?fs" "nat (lo + int k)" i] ord i(1) by (simp add: features_ordered_def)
        then show False using st i(3) nn(3) by simp
      qed
      then have "nat (int i - lo) < k" using i_in by auto
      then have "covered r computed new_toks s1 a (py_range lo hi ! nat (int i - lo))" using l(4) by blast
      moreover have "py_range lo hi ! nat (int i - lo) = int i" using i_in by (subst nth_py_range) auto
      moreover have "item_needed computed new_toks (?fs ! i)" using item_needed_mono[OF i(5) le _ i(2,3)] ok i(1,4) by simp
      ultimately show ?thesis by (simp add: covered_def)
    qed
    moreover have "try_schedule_encoder_inputs env r computed new_toks budget shift (EncoderCacheManager s) = Inr (a, n, EncoderCacheManager s1)"
      using False l(1) dec by (simp add: try_schedule_encoder_inputs_def w has_encoder_inputs_def num_encoder_inputs_def)
    ultimately show ?thesis using l(2) by blast
  qed
qed

subsection \<open>Properties\<close>


definition plain_encoder_sched :: encoder_sched where
  "plain_encoder_sched = \<lparr>is_encoder_decoder = False, es_disable_chunked = False, ec_has = None\<rparr>"



text \<open>The release of all inputs of an encoder-decoder request, step after step.\<close>

lemma encdec_release:
  assumes "num_computed_tokens r > 0" "\<forall>i \<in> set order. 0 \<le> i \<and> i < num_encoder_inputs r"
  shows "rfold (free_passed_input True r) order (EncoderDecoderCacheManager s)
    = Inr (EncoderDecoderCacheManager (s\<lparr>ed_free_slots := ed_free_slots s
        + (\<Sum>i\<leftarrow>order. get_num_embeds (mm_position (mm_features r ! nat i)))\<rparr>))"
  using assms(2)
proof (induction order arbitrary: s)
  case (Cons i order)
  have "py_index (mm_features r) i = Inr (mm_features r ! nat i)" using Cons.prems by (simp add: py_index_nonneg num_encoder_inputs_def)
  then have "free_passed_input True r i (EncoderDecoderCacheManager s)
    = Inr (EncoderDecoderCacheManager (s\<lparr>ed_free_slots := ed_free_slots s + get_num_embeds (mm_position (mm_features r ! nat i))\<rparr>))"
    using assms(1) Cons.prems by (simp add: free_passed_input_def ed_free_encoder_input_def get_num_encoder_embeds_def num_encoder_inputs_def)
  then show ?case using Cons by (simp add: add.assoc)
qed simp

text \<open>
  C36: For an encoder-decoder model every step of a request that has computed a token adds the size of all
  its encoder inputs to \<open>num_free_slots\<close> again: after \<open>k\<close> steps the free slots have grown by \<open>k\<close> times
  the size, whatever the capacity, since \<open>get_cached_input_ids\<close> keeps returning all inputs.
\<close>

theorem encdec_free_slots_grow:
  assumes "num_computed_tokens r > 0" "0 < num_encoder_inputs r" "distinct order" "set order = ed_get_cached_input_ids r"
  shows "rfold (\<lambda>_. free_encoder_inputs True order r) (replicate k ()) (EncoderDecoderCacheManager s)
    = Inr (EncoderDecoderCacheManager (s\<lparr>ed_free_slots := ed_free_slots s
        + int k * (\<Sum>f\<leftarrow>mm_features r. get_num_embeds (mm_position f))\<rparr>))"
proof -
  let ?g = "\<lambda>i. get_num_embeds (mm_position (mm_features r ! nat i))"
  have ids: "ed_get_cached_input_ids r = {0..<num_encoder_inputs r}" by (simp add: ed_get_cached_input_ids_def num_encoder_inputs_def)
  have "(\<Sum>i\<leftarrow>order. ?g i) = sum ?g (set order)" using assms(3) by (rule sum_list_distinct_conv_sum_set)
  also have "\<dots> = (\<Sum>i\<leftarrow>py_range 0 (num_encoder_inputs r). ?g i)"
    unfolding assms(4) ids by (subst sum_list_distinct_conv_sum_set) simp_all
  also have "\<dots> = (\<Sum>f\<leftarrow>mm_features r. get_num_embeds (mm_position f))"
    by (rule arg_cong[where f = sum_list], rule nth_equalityI) (simp_all add: num_encoder_inputs_def nth_py_range)
  finally have total: "(\<Sum>i\<leftarrow>order. ?g i) = (\<Sum>f\<leftarrow>mm_features r. get_num_embeds (mm_position f))" .
  have one: "free_encoder_inputs True order r (EncoderDecoderCacheManager s) = Inr (EncoderDecoderCacheManager
      (s\<lparr>ed_free_slots := ed_free_slots s + (\<Sum>f\<leftarrow>mm_features r. get_num_embeds (mm_position f))\<rparr>))" for s
    using encdec_release[OF assms(1), of order s] assms(2,4) ids total by (simp add: free_encoder_inputs_def)
  show ?thesis by (induction k arbitrary: s) (simp_all add: one algebra_simps)
qed

theorem encdec_free_slots_grow_witness:
  "\<exists>s. ed_allocate ((image_request ''b'' [sample_image ''y'' 0 3])\<lparr>num_computed_tokens := 4\<rparr>) 0 (encdec_init 3) = Inr s
     \<and> ed_free_slots s = 0
     \<and> rfold (\<lambda>_. free_encoder_inputs True [0] ((image_request ''b'' [sample_image ''y'' 0 3])\<lparr>num_computed_tokens := 4\<rparr>)) [(), ()]
        (EncoderDecoderCacheManager s) = Inr (EncoderDecoderCacheManager (s\<lparr>ed_free_slots := 6\<rparr>))
     \<and> ed_cache_size s = 3"
proof -
  let ?r = "(image_request ''b'' [sample_image ''y'' 0 3])\<lparr>num_computed_tokens := 4\<rparr>"
  let ?s = "\<lparr>ed_cache_size = 3, ed_free_slots = 0, ed_allocated = [''y''], ed_to_free = []\<rparr>"
  have fs: "mm_features ?r = [sample_image ''y'' 0 3]" by (simp add: image_request_def sample_request_def sample_ec_request_def request_fields_def)
  have "{0} = {0..<1::int}" by auto
  then have "rfold (\<lambda>_. free_encoder_inputs True [0] ?r) (replicate 2 ()) (EncoderDecoderCacheManager ?s)
      = Inr (EncoderDecoderCacheManager (?s\<lparr>ed_free_slots := 6\<rparr>))"
    using encdec_free_slots_grow[of ?r "[0]" 2 ?s] fs by (simp add: ed_get_cached_input_ids_def num_encoder_inputs_def)
  moreover have "replicate 2 () = [(), ()]" by (simp add: numeral_2_eq_2)
  moreover have "ed_allocate ?r 0 (encdec_init 3) = Inr ?s"
    by (simp add: ed_allocate_def get_num_encoder_embeds_def feature_hash_def fs py_index_def encdec_init_def)
  ultimately show ?thesis by (intro exI[of _ ?s]) simp
qed

end
