(* ===== verification/Heapq.thy ===== *)
theory Heapq
  imports Prelude
begin

section \<open>Python's binary heaps\<close>

text \<open>
  The functions of Python's \<open>heapq\<close> that the priority queue of requests uses, on a list and over the
  \<open>__lt__\<close> of its elements. \<open>_siftup\<close> moves the hole down to a leaf along the smaller children and
  then lets \<open>_siftdown\<close> bring the item up again. The item in hand is an argument of the loops; it
  is written when they stop.
\<close>

abbreviation par :: "nat \<Rightarrow> nat" where
  "par k \<equiv> (k - 1) div 2"

function siftdown :: "('a \<Rightarrow> 'a \<Rightarrow> bool) \<Rightarrow> 'a list \<Rightarrow> nat \<Rightarrow> nat \<Rightarrow> 'a \<Rightarrow> 'a list" where
  "siftdown lt xs startpos pos newitem =
     (if pos > startpos
      then let parent = xs ! par pos
           in if lt newitem parent then siftdown lt (xs[pos := parent]) startpos (par pos) newitem
              else xs[pos := newitem]
      else xs[pos := newitem])"
  by pat_completeness auto
termination by (relation "measure (\<lambda>(_, _, _, pos, _). pos)") auto

definition smaller_child :: "('a \<Rightarrow> 'a \<Rightarrow> bool) \<Rightarrow> 'a list \<Rightarrow> nat \<Rightarrow> nat" where
  "smaller_child lt xs pos =
     (let c = 2 * pos + 1 in if c + 1 < length xs \<and> \<not> lt (xs ! c) (xs ! (c + 1)) then c + 1 else c)"

function sift_to_leaf :: "('a \<Rightarrow> 'a \<Rightarrow> bool) \<Rightarrow> 'a list \<Rightarrow> nat \<Rightarrow> 'a list \<times> nat" where
  "sift_to_leaf lt xs pos =
     (if 2 * pos + 1 < length xs
      then let c = smaller_child lt xs pos in sift_to_leaf lt (xs[pos := xs ! c]) c
      else (xs, pos))"
  by pat_completeness auto
termination by (relation "measure (\<lambda>(_, xs, pos). length xs - pos)") (auto simp: smaller_child_def Let_def)

definition siftup :: "('a \<Rightarrow> 'a \<Rightarrow> bool) \<Rightarrow> 'a list \<Rightarrow> nat \<Rightarrow> 'a list" where
  "siftup lt xs pos =
     (let newitem = xs ! pos; (ys, p) = sift_to_leaf lt xs pos
      in siftdown lt (ys[p := newitem]) pos p newitem)"

declare siftdown.simps [simp del] sift_to_leaf.simps [simp del]

definition heappush :: "('a \<Rightarrow> 'a \<Rightarrow> bool) \<Rightarrow> 'a list \<Rightarrow> 'a \<Rightarrow> 'a list" where
  "heappush lt xs x = siftdown lt (xs @ [x]) 0 (length xs) x"

text \<open>\<open>list.pop\<close> on an empty list raises \<open>IndexError\<close>.\<close>

definition heappop :: "('a \<Rightarrow> 'a \<Rightarrow> bool) \<Rightarrow> 'a list \<Rightarrow> ('a \<times> 'a list) result" where
  "heappop lt xs =
     (if xs = [] then Inl IndexError
      else let lastelt = last xs; ys = butlast xs
           in if ys \<noteq> [] then Inr (ys ! 0, siftup lt (ys[0 := lastelt]) 0) else Inr (lastelt, ys))"

definition heapify :: "('a \<Rightarrow> 'a \<Rightarrow> bool) \<Rightarrow> 'a list \<Rightarrow> 'a list" where
  "heapify lt xs = foldl (siftup lt) xs (rev [0..<length xs div 2])"

subsection \<open>The heap order\<close>

text \<open>Every parent from position \<open>s\<close> on is not above its children.\<close>

definition heap_from :: "('a \<Rightarrow> 'a \<Rightarrow> bool) \<Rightarrow> nat \<Rightarrow> 'a list \<Rightarrow> bool" where
  "heap_from lt s xs \<longleftrightarrow> (\<forall>k < length xs. 0 < k \<longrightarrow> s \<le> par k \<longrightarrow> \<not> lt (xs ! k) (xs ! par k))"

text \<open>\<open>p\<close> is below \<open>s\<close> in the tree of positions.\<close>

inductive below :: "nat \<Rightarrow> nat \<Rightarrow> bool" for s where
  below_refl: "below s s"
| below_child: "below s (par p) \<Longrightarrow> s < p \<Longrightarrow> below s p"

inductive_cases below_par: "below s p"

lemma par_less: "0 < k \<Longrightarrow> par k < k"
  by arith

lemma below_step: "below s p \<Longrightarrow> s < p \<Longrightarrow> below s (par p) \<and> s \<le> par p"
proof (induction rule: below.induct)
  case (below_child p)
  then show ?case by (cases "s < par p") (auto elim: below_par)
qed simp

lemma below_zero: "below 0 p"
proof (induction p rule: less_induct)
  case (less p)
  then show ?case by (cases "p = 0") (auto intro: below.intros)
qed

lemma smaller_child_cases:
  assumes "2 * pos + 1 < length xs"
  shows "smaller_child lt xs pos < length xs" "pos < smaller_child lt xs pos" "par (smaller_child lt xs pos) = pos"
  using assms by (auto simp: smaller_child_def Let_def)

lemma mset_move:
  assumes "p < length xs" "q < length xs" "p \<noteq> q"
  shows "mset (xs[p := xs ! q, q := v]) = mset (xs[p := v])"
proof -
  have "(xs[p := v])[q := (xs[p := v]) ! p, p := (xs[p := v]) ! q] = xs[p := xs ! q, q := v]"
    using assms by (intro nth_equalityI) (auto simp: nth_list_update)
  then show ?thesis using mset_swap[of p "xs[p := v]" q] assms by simp
qed

lemma siftdown_length: "length (siftdown lt xs s p x) = length xs"
  by (induction lt xs s p x rule: siftdown.induct) (subst siftdown.simps, simp add: Let_def)

lemma sift_to_leaf_length: "length (fst (sift_to_leaf lt xs p)) = length xs"
  by (induction lt xs p rule: sift_to_leaf.induct) (subst sift_to_leaf.simps, simp add: Let_def)

lemma siftup_length: "length (siftup lt xs p) = length xs"
  using sift_to_leaf_length[of lt xs p] by (auto simp: siftup_def siftdown_length Let_def split: prod.splits)

lemma heappop_length: "heappop lt xs = Inr (x, ys) \<Longrightarrow> length ys < length xs"
  by (auto simp: heappop_def Let_def siftup_length length_greater_0_conv[symmetric] split: if_splits simp del: length_greater_0_conv)

text \<open>The order of the elements: what \<open>__lt__\<close> has to satisfy.\<close>

locale weak_order =
  fixes lt :: "'a \<Rightarrow> 'a \<Rightarrow> bool"
  assumes lt_irrefl: "\<not> lt x x"
    and lt_trans: "lt x y \<Longrightarrow> lt y z \<Longrightarrow> lt x z"
    and not_lt_trans: "\<not> lt y x \<Longrightarrow> \<not> lt z y \<Longrightarrow> \<not> lt z x"
begin

lemma lt_not_lt: "lt x y \<Longrightarrow> \<not> lt y x"
  using lt_irrefl lt_trans by blast

lemma siftdown_props:
  assumes "p < length xs" "below s p"
    and "\<And>k. k < length xs \<Longrightarrow> 0 < k \<Longrightarrow> s \<le> par k \<Longrightarrow> k \<noteq> p \<Longrightarrow> \<not> lt (xs[p := x] ! k) (xs[p := x] ! par k)"
    and "\<And>k. k < length xs \<Longrightarrow> 0 < k \<Longrightarrow> par k = p \<Longrightarrow> s < p \<Longrightarrow> \<not> lt (xs[p := x] ! k) (xs[p := x] ! par p)"
  shows "heap_from lt s (siftdown lt xs s p x) \<and> mset (siftdown lt xs s p x) = mset (xs[p := x])
    \<and> length (siftdown lt xs s p x) = length xs"
  using assms
proof (induction p arbitrary: xs rule: less_induct)
  case (less p)
  let ?q = "par p" and ?ys = "xs[p := x]"
  note ord = less.prems(3) and grand = less.prems(4)
  show ?case
  proof (cases "s < p \<and> lt x (xs ! ?q)")
    case False
    have up: "\<not> lt x (xs ! ?q)" if "0 < p" "s \<le> ?q" using False that by auto
    have "heap_from lt s ?ys" unfolding heap_from_def
    proof (intro allI impI)
      fix k
      assume k: "k < length ?ys" "0 < k" "s \<le> par k"
      show "\<not> lt (?ys ! k) (?ys ! par k)"
        using ord[of k] up k less.prems(1) by (cases "k = p") (auto simp: nth_list_update)
    qed
    then show ?thesis using False by (auto simp: siftdown.simps[of lt xs])
  next
    case True
    let ?xs' = "xs[p := xs ! ?q]"
    let ?zs = "?xs'[?q := x]"
    have pq: "0 < p" "?q < p" "?q < length xs" "p \<noteq> ?q" using True less.prems(1) by auto
    have b: "below s ?q" "s \<le> ?q" using below_step[OF less.prems(2)] True by auto
    have z: "?zs ! k = (if k = ?q then x else if k = p then xs ! ?q else ?ys ! k)" if "k < length xs" for k
      using that pq less.prems(1) by (auto simp: nth_list_update)
    have y: "?ys ! p = x" "?ys ! ?q = xs ! ?q" using pq less.prems(1) by auto
    have x: "lt x (xs ! ?q)" using True by simp
    have lower: "\<not> lt (?ys ! k) x" if "\<not> lt (?ys ! k) (xs ! ?q)" for k
      using that x lt_not_lt not_lt_trans by blast
    have "heap_from lt s (siftdown lt ?xs' s ?q x) \<and> mset (siftdown lt ?xs' s ?q x) = mset (?xs'[?q := x])
      \<and> length (siftdown lt ?xs' s ?q x) = length ?xs'"
    proof (rule less.IH[OF pq(2)])
      show "\<not> lt (?zs ! k) (?zs ! par k)" if k: "k < length ?xs'" "0 < k" "s \<le> par k" "k \<noteq> ?q" for k
      proof -
        have pk: "par k < length xs" "k < length xs" using k(1) by auto
        consider "k = p" | "k \<noteq> p" "par k = p" | "k \<noteq> p" "par k = ?q" | "k \<noteq> p" "par k \<noteq> p" "par k \<noteq> ?q" by blast
        then show ?thesis
        proof cases
          case 1
          then show ?thesis using z pk pq(3,4) lt_not_lt[OF x] less.prems(1) by simp
        next
          case 2
          then show ?thesis using z[OF pk(1)] z[OF pk(2)] grand[of k] k pq(4) True y(2) pk by auto
        next
          case 3
          then show ?thesis using z[OF pk(1)] z[OF pk(2)] ord[of k] k lower[of k] y(2) pk by auto
        next
          case 4
          then show ?thesis using z[OF pk(1)] z[OF pk(2)] ord[of k] k pk by auto
        qed
      qed
      show "\<not> lt (?zs ! k) (?zs ! par ?q)" if k: "k < length ?xs'" "0 < k" "par k = ?q" "s < ?q" for k
      proof -
        have "par ?q < ?q" using k(4) by (intro par_less) simp
        moreover have "?q < k" using par_less[OF k(2)] k(3) by simp
        ultimately have pk: "k < length xs" "par ?q < length xs" "k \<noteq> ?q" "par ?q \<noteq> ?q" "par ?q \<noteq> p" using k(1) pq(2,3) by simp_all
        have up: "s \<le> par ?q" using below_step[OF b(1) k(4)] by simp
        then have top: "\<not> lt (xs ! ?q) (?ys ! par ?q)" using ord[of ?q] pq(3,4) k(4) y(2) by simp
        have other: "\<not> lt (?ys ! k) (?ys ! par ?q)" if "k \<noteq> p"
        proof -
          have "\<not> lt (?ys ! k) (xs ! ?q)" using ord[OF pk(1) k(2) _ that] b(2) y(2) unfolding k(3) by simp
          then show ?thesis using top not_lt_trans by blast
        qed
        have "?zs ! par ?q = ?ys ! par ?q" by (simp only: z[OF pk(2)] pk(4,5) if_False)
        moreover have "?zs ! k = (if k = p then xs ! ?q else ?ys ! k)" by (simp only: z[OF pk(1)] pk(3) if_False)
        ultimately show ?thesis using top other by presburger
      qed
    qed (use pq b in auto)
    moreover have "mset (?xs'[?q := x]) = mset ?ys" using mset_move[OF less.prems(1) pq(3,4)] .
    ultimately show ?thesis using True by (simp add: siftdown.simps[of lt xs] Let_def)
  qed
qed

lemma smaller_child_least:
  assumes "k < length xs" "0 < k" "par k = p"
  shows "\<not> lt (xs ! k) (xs ! smaller_child lt xs p)"
proof -
  have "k = 2 * p + 1 \<or> k = 2 * p + 2" using assms(2,3) by arith
  then show ?thesis using assms(1) lt_irrefl lt_not_lt by (auto simp: smaller_child_def Let_def)
qed

lemma sift_to_leaf_props:
  assumes "p < length xs" "below s p" "sift_to_leaf lt xs p = (ys, q)"
    and "\<And>k. k < length xs \<Longrightarrow> 0 < k \<Longrightarrow> s \<le> par k \<Longrightarrow> k \<noteq> p \<Longrightarrow> par k \<noteq> p \<Longrightarrow> \<not> lt (xs ! k) (xs ! par k)"
    and "\<And>k. k < length xs \<Longrightarrow> 0 < k \<Longrightarrow> par k = p \<Longrightarrow> s < p \<Longrightarrow> \<not> lt (xs ! k) (xs ! par p)"
  shows "q < length xs \<and> below s q \<and> length ys = length xs \<and> length xs \<le> 2 * q + 1
    \<and> mset (ys[q := x]) = mset (xs[p := x])
    \<and> (\<forall>k < length xs. 0 < k \<longrightarrow> s \<le> par k \<longrightarrow> k \<noteq> q \<longrightarrow> \<not> lt (ys ! k) (ys ! par k))"
  using assms
proof (induction "length xs - p" arbitrary: p xs rule: less_induct)
  case less
  note ord = less.prems(4) and grand = less.prems(5)
  show ?case
  proof (cases "2 * p + 1 < length xs")
    case False
    then have "ys = xs" "q = p" using less.prems(3) by (simp_all add: sift_to_leaf.simps[of lt xs])
    moreover have "par k \<noteq> p" if "k < length xs" "0 < k" for k using that False by auto
    ultimately show ?thesis using less.prems(1,2) ord False by auto
  next
    case True
    let ?c = "smaller_child lt xs p"
    let ?xs' = "xs[p := xs ! ?c]"
    note c = smaller_child_cases[OF True, of lt]
    have rec: "sift_to_leaf lt ?xs' ?c = (ys, q)" using less.prems(3) True by (simp add: sift_to_leaf.simps[of lt xs] Let_def)
    have sp: "s \<le> p" using less.prems(2) by (cases rule: below.cases) auto
    have b: "below s ?c" using below_child[of s ?c] less.prems(2) c(2,3) sp by simp
    have x': "?xs' ! k = (if k = p then xs ! ?c else xs ! k)" if "k < length xs" for k using that by (simp add: nth_list_update)
    have "q < length ?xs' \<and> below s q \<and> length ys = length ?xs' \<and> length ?xs' \<le> 2 * q + 1
      \<and> mset (ys[q := x]) = mset (?xs'[?c := x])
      \<and> (\<forall>k < length ?xs'. 0 < k \<longrightarrow> s \<le> par k \<longrightarrow> k \<noteq> q \<longrightarrow> \<not> lt (ys ! k) (ys ! par k))"
    proof (rule less.hyps[OF _ _ b rec])
      show "length ?xs' - ?c < length xs - p" using c by simp
      show "?c < length ?xs'" using c by simp
      show "\<not> lt (?xs' ! k) (?xs' ! par k)" if k: "k < length ?xs'" "0 < k" "s \<le> par k" "k \<noteq> ?c" "par k \<noteq> ?c" for k
      proof -
        have pk: "k < length xs" "par k < length xs" using k(1) by auto
        consider "k = p" | "k \<noteq> p" "par k = p" | "k \<noteq> p" "par k \<noteq> p" by blast
        then show ?thesis
        proof cases
          case 1
          then have "s < p" "par k \<noteq> p" using k(2,3) by auto
          then show ?thesis using 1 x'[OF pk(1)] x'[OF pk(2)] grand[OF c(1) _ c(3)] c(2) by simp
        next
          case 2
          then show ?thesis using x'[OF pk(1)] x'[OF pk(2)] smaller_child_least[OF pk(1) k(2) 2(2)] by simp
        next
          case 3
          then show ?thesis using x'[OF pk(1)] x'[OF pk(2)] ord[OF pk(1) k(2,3)] by simp
        qed
      qed
      show "\<not> lt (?xs' ! k) (?xs' ! par ?c)" if k: "k < length ?xs'" "0 < k" "par k = ?c" "s < ?c" for k
      proof -
        have "k \<noteq> p" "par k \<noteq> p" using k(2,3) c(2) by auto
        then show ?thesis using k ord[of k] x'[of k] less.prems(1) c(3) by auto
      qed
    qed
    moreover have "mset (?xs'[?c := x]) = mset (xs[p := x])" using mset_move[OF less.prems(1) c(1)] c(2) by simp
    ultimately show ?thesis by simp
  qed
qed

lemma siftup_props:
  assumes "p < length xs" "heap_from lt (Suc p) xs"
  shows "heap_from lt p (siftup lt xs p) \<and> mset (siftup lt xs p) = mset xs \<and> length (siftup lt xs p) = length xs"
proof -
  obtain ys q where sl: "sift_to_leaf lt xs p = (ys, q)" by fastforce
  have leaf: "q < length xs" "below p q" "length ys = length xs" "length xs \<le> 2 * q + 1"
    "mset (ys[q := xs ! p]) = mset (xs[p := xs ! p])"
    "\<And>k. k < length xs \<Longrightarrow> 0 < k \<Longrightarrow> p \<le> par k \<Longrightarrow> k \<noteq> q \<Longrightarrow> \<not> lt (ys ! k) (ys ! par k)"
    using sift_to_leaf_props[OF assms(1) below_refl sl, of "xs ! p"] assms(2) by (auto simp: heap_from_def)
  have "par k \<noteq> q" if "k < length xs" "0 < k" for k using that leaf(4) by auto
  then have "heap_from lt p (siftdown lt (ys[q := xs ! p]) p q (xs ! p))
    \<and> mset (siftdown lt (ys[q := xs ! p]) p q (xs ! p)) = mset (ys[q := xs ! p, q := xs ! p])
    \<and> length (siftdown lt (ys[q := xs ! p]) p q (xs ! p)) = length (ys[q := xs ! p])"
    using leaf by (intro siftdown_props) (auto simp: nth_list_update)
  then show ?thesis using leaf(3,5) by (simp add: siftup_def sl Let_def)
qed

lemma heappush_props:
  assumes "heap_from lt 0 xs"
  shows "heap_from lt 0 (heappush lt xs x) \<and> mset (heappush lt xs x) = add_mset x (mset xs)"
proof -
  have "heap_from lt 0 (siftdown lt (xs @ [x]) 0 (length xs) x) \<and> mset (siftdown lt (xs @ [x]) 0 (length xs) x) = mset ((xs @ [x])[length xs := x])
    \<and> length (siftdown lt (xs @ [x]) 0 (length xs) x) = length (xs @ [x])"
  proof (rule siftdown_props)
    show "\<not> lt ((xs @ [x])[length xs := x] ! k) ((xs @ [x])[length xs := x] ! par k)"
      if "k < length (xs @ [x])" "0 < k" "0 \<le> par k" "k \<noteq> length xs" for k
      using that assms by (auto simp: nth_append heap_from_def)
  qed (use below_zero in auto)
  then show ?thesis by (simp add: heappush_def)
qed

lemma heap_root_least:
  assumes "heap_from lt 0 xs" "k < length xs"
  shows "\<not> lt (xs ! k) (xs ! 0)"
  using assms(2)
proof (induction k rule: less_induct)
  case (less k)
  show ?case
  proof (cases "k = 0")
    case False
    then have "\<not> lt (xs ! par k) (xs ! 0)" "\<not> lt (xs ! k) (xs ! par k)"
      using less assms(1) by (auto simp: heap_from_def)
    then show ?thesis using not_lt_trans by blast
  qed (simp add: lt_irrefl)
qed

lemma heappop_props:
  assumes "heap_from lt 0 xs" "xs \<noteq> []"
  shows "\<exists>ys. heappop lt xs = Inr (xs ! 0, ys) \<and> heap_from lt 0 ys \<and> mset xs = add_mset (xs ! 0) (mset ys)"
proof (cases "butlast xs = []")
  case True
  then have "xs = [last xs]" using assms(2) by (metis append_Nil append_butlast_last_id)
  then show ?thesis using True assms(2) by (cases xs) (auto simp: heappop_def heap_from_def)
next
  case False
  let ?l = "last xs" and ?b = "butlast xs"
  have xs: "xs = ?b @ [?l]" using assms(2) by simp
  have b0: "?b ! 0 = xs ! 0" using False nth_butlast[of 0 xs] by (simp add: length_greater_0_conv[symmetric] del: length_greater_0_conv)
  have "heap_from lt (Suc 0) (?b[0 := ?l])" unfolding heap_from_def
  proof (intro allI impI)
    fix k
    assume k: "k < length (?b[0 := ?l])" "0 < k" "Suc 0 \<le> par k"
    then have "\<not> lt (xs ! k) (xs ! par k)" using assms(1) by (auto simp: heap_from_def)
    moreover have "par k < length ?b" using k by auto
    ultimately show "\<not> lt (?b[0 := ?l] ! k) (?b[0 := ?l] ! par k)" using k by (auto simp: nth_list_update nth_butlast)
  qed
  then have up: "heap_from lt 0 (siftup lt (?b[0 := ?l]) 0)" "mset (siftup lt (?b[0 := ?l]) 0) = mset (?b[0 := ?l])"
    using siftup_props[of 0 "?b[0 := ?l]"] False by (simp_all add: length_greater_0_conv[symmetric] del: length_greater_0_conv)
  have "mset (?b[0 := ?l]) = add_mset ?l (mset ?b - {#?b ! 0#})"
    by (rule mset_update) (use False in \<open>simp add: length_greater_0_conv[symmetric] del: length_greater_0_conv\<close>)
  moreover have "mset xs = add_mset ?l (mset ?b)" by (subst xs) simp
  moreover have "?b ! 0 \<in># mset ?b" using False nth_mem[of 0 ?b] by (simp add: length_greater_0_conv[symmetric] del: length_greater_0_conv)
  ultimately have "mset xs = add_mset (xs ! 0) (mset (?b[0 := ?l]))" unfolding b0[symmetric] by simp
  then show ?thesis using False assms(2) up b0 by (simp add: heappop_def)
qed

lemma heapify_props: "heap_from lt 0 (heapify lt xs) \<and> mset (heapify lt xs) = mset xs"
proof -
  have step: "heap_from lt n ys \<Longrightarrow> n \<le> length ys
    \<Longrightarrow> heap_from lt 0 (foldl (siftup lt) ys (rev [0..<n])) \<and> mset (foldl (siftup lt) ys (rev [0..<n])) = mset ys" for n ys
  proof (induction n arbitrary: ys)
    case (Suc n)
    then have "heap_from lt n (siftup lt ys n) \<and> mset (siftup lt ys n) = mset ys \<and> length (siftup lt ys n) = length ys"
      using siftup_props[of n ys] by simp
    then show ?case using Suc by simp
  qed simp
  have "heap_from lt (length xs div 2) xs" by (auto simp: heap_from_def)
  then show ?thesis using step[of "length xs div 2" xs] by (simp add: heapify_def)
qed

end

end
