(* ===== verification/Request_Queue.thy ===== *)
theory Request_Queue
  imports Heapq Block_Hash
begin

section \<open>Queues of waiting requests\<close>

text \<open>
  \<open>vllm/v1/core/sched/request_queue.py\<close>: the first-come-first-served queue on a deque and the priority
  queue on a heap ordered by \<open>Request.__lt__\<close>. A queue entry is the request with the
  fields the order reads; where the scheduler changes one of them it refreshes the entry. Equality of requests is identity of the objects, so removal compares \<open>obj_id\<close>.
\<close>

datatype scheduling_policy = FCFS | PRIORITY

subsection \<open>FCFSRequestQueue\<close>

definition fcfs_add_request :: "request list \<Rightarrow> request \<Rightarrow> request list" where
  "fcfs_add_request q r = q @ [r]"

definition fcfs_pop_request :: "request list \<Rightarrow> (request \<times> request list) result" where
  "fcfs_pop_request q = (case q of [] \<Rightarrow> Inl IndexError | r # rs \<Rightarrow> Inr (r, rs))"

definition fcfs_peek_request :: "request list \<Rightarrow> request result" where
  "fcfs_peek_request q = (if q = [] then Inl IndexError else Inr (q ! 0))"

definition fcfs_prepend_request :: "request list \<Rightarrow> request \<Rightarrow> request list" where
  "fcfs_prepend_request q r = r # q"

text \<open>\<open>extendleft\<close> appends the items on the left one by one.\<close>

definition fcfs_prepend_requests :: "request list \<Rightarrow> request list \<Rightarrow> request list" where
  "fcfs_prepend_requests q rs = fold (#) rs q"

fun remove_first :: "request \<Rightarrow> request list \<Rightarrow> request list result" where
  "remove_first r [] = Inl ValueError"
| "remove_first r (x # xs) =
     (if obj_id x = obj_id r then Inr xs else rbind (remove_first r xs) (\<lambda>ys. Inr (x # ys)))"

definition keep_requests :: "request list \<Rightarrow> request list \<Rightarrow> request list" where
  "keep_requests rs q = filter (\<lambda>x. obj_id x \<notin> obj_id ` set rs) q"

definition fcfs_remove_request :: "request list \<Rightarrow> request \<Rightarrow> request list result" where
  "fcfs_remove_request q r = remove_first r q"

definition fcfs_remove_requests :: "request list \<Rightarrow> request list \<Rightarrow> request list" where
  "fcfs_remove_requests q rs = keep_requests rs q"

definition fcfs_iter :: "request list \<Rightarrow> request list" where
  "fcfs_iter q = q"

subsection \<open>PriorityRequestQueue\<close>

definition prio_add_request :: "request list \<Rightarrow> request \<Rightarrow> request list" where
  "prio_add_request q r = heappush request_lt q r"

definition prio_pop_request :: "request list \<Rightarrow> (request \<times> request list) result" where
  "prio_pop_request q = (if q = [] then Inl IndexError else heappop request_lt q)"

definition prio_peek_request :: "request list \<Rightarrow> request result" where
  "prio_peek_request q = (if q = [] then Inl IndexError else Inr (q ! 0))"

definition prio_prepend_request :: "request list \<Rightarrow> request \<Rightarrow> request list" where
  "prio_prepend_request q r = prio_add_request q r"

definition prio_prepend_requests :: "request list \<Rightarrow> request list \<Rightarrow> request list" where
  "prio_prepend_requests q rs = foldl prio_add_request q rs"

definition prio_remove_request :: "request list \<Rightarrow> request \<Rightarrow> request list result" where
  "prio_remove_request q r = rbind (remove_first r q) (\<lambda>xs. Inr (heapify request_lt xs))"

definition prio_remove_requests :: "request list \<Rightarrow> request list \<Rightarrow> request list" where
  "prio_remove_requests q rs = heapify request_lt (keep_requests rs q)"

function prio_iter :: "request list \<Rightarrow> request list" where
  "prio_iter heap_copy =
     (case heappop request_lt heap_copy of Inl _ \<Rightarrow> [] | Inr (r, rest) \<Rightarrow> r # prio_iter rest)"
  by pat_completeness auto
termination
  by (relation "measure length") (auto simp: heappop_length)

declare prio_iter.simps [simp del]

subsection \<open>RequestQueue\<close>

datatype request_queue = FCFSRequestQueue "request list" | PriorityRequestQueue "request list"

definition create_request_queue :: "scheduling_policy \<Rightarrow> request_queue" where
  "create_request_queue policy = (case policy of PRIORITY \<Rightarrow> PriorityRequestQueue [] | FCFS \<Rightarrow> FCFSRequestQueue [])"

fun rq_iter :: "request_queue \<Rightarrow> request list" where
  "rq_iter (FCFSRequestQueue q) = fcfs_iter q"
| "rq_iter (PriorityRequestQueue q) = prio_iter q"

fun rq_len :: "request_queue \<Rightarrow> int" where
  "rq_len (FCFSRequestQueue q) = int (length q)"
| "rq_len (PriorityRequestQueue q) = int (length q)"

fun rq_bool :: "request_queue \<Rightarrow> bool" where
  "rq_bool (FCFSRequestQueue q) = (int (length q) > 0)"
| "rq_bool (PriorityRequestQueue q) = (q \<noteq> [])"

fun rq_add :: "request_queue \<Rightarrow> request \<Rightarrow> request_queue" where
  "rq_add (FCFSRequestQueue q) r = FCFSRequestQueue (fcfs_add_request q r)"
| "rq_add (PriorityRequestQueue q) r = PriorityRequestQueue (prio_add_request q r)"

fun rq_pop :: "request_queue \<Rightarrow> (request \<times> request_queue) result" where
  "rq_pop (FCFSRequestQueue q) = map_sum id (map_prod id FCFSRequestQueue) (fcfs_pop_request q)"
| "rq_pop (PriorityRequestQueue q) = map_sum id (map_prod id PriorityRequestQueue) (prio_pop_request q)"

fun rq_peek :: "request_queue \<Rightarrow> request result" where
  "rq_peek (FCFSRequestQueue q) = fcfs_peek_request q"
| "rq_peek (PriorityRequestQueue q) = prio_peek_request q"

fun rq_prepend :: "request_queue \<Rightarrow> request \<Rightarrow> request_queue" where
  "rq_prepend (FCFSRequestQueue q) r = FCFSRequestQueue (fcfs_prepend_request q r)"
| "rq_prepend (PriorityRequestQueue q) r = PriorityRequestQueue (prio_prepend_request q r)"

fun rq_prepend_requests :: "request_queue \<Rightarrow> request_queue \<Rightarrow> request_queue" where
  "rq_prepend_requests (FCFSRequestQueue q) other = FCFSRequestQueue (fcfs_prepend_requests q (rq_iter other))"
| "rq_prepend_requests (PriorityRequestQueue q) other = PriorityRequestQueue (prio_prepend_requests q (rq_iter other))"

fun rq_remove :: "request_queue \<Rightarrow> request \<Rightarrow> request_queue result" where
  "rq_remove (FCFSRequestQueue q) r = map_sum id FCFSRequestQueue (fcfs_remove_request q r)"
| "rq_remove (PriorityRequestQueue q) r = map_sum id PriorityRequestQueue (prio_remove_request q r)"

fun rq_remove_requests :: "request_queue \<Rightarrow> request list \<Rightarrow> request_queue" where
  "rq_remove_requests (FCFSRequestQueue q) rs = FCFSRequestQueue (fcfs_remove_requests q rs)"
| "rq_remove_requests (PriorityRequestQueue q) rs = PriorityRequestQueue (prio_remove_requests q rs)"

subsection \<open>The queue contract\<close>

text \<open>
  What the scheduler relies on: iteration and repeated popping give the same order, \<open>peek\<close> shows the
  next request, an added request is in the queue once, and an empty queue raises. The client
  lemmas are about filling and draining a queue.
\<close>

fun pop_many :: "('q \<Rightarrow> (request \<times> 'q) result) \<Rightarrow> nat \<Rightarrow> 'q \<Rightarrow> (request list \<times> 'q) result" where
  "pop_many pop 0 q = Inr ([], q)"
| "pop_many pop (Suc n) q = rbind (pop q) (\<lambda>(r, q'). rbind (pop_many pop n q') (\<lambda>(rs, q''). Inr (r # rs, q'')))"

locale queue_contract =
  fixes inv :: "'q \<Rightarrow> bool"
    and add :: "'q \<Rightarrow> request \<Rightarrow> 'q"
    and pop :: "'q \<Rightarrow> (request \<times> 'q) result"
    and peek :: "'q \<Rightarrow> request result"
    and iter :: "'q \<Rightarrow> request list"
  assumes add_law: "inv q \<Longrightarrow> inv (add q r) \<and> mset (iter (add q r)) = add_mset r (mset (iter q))"
    and pop_empty: "inv q \<Longrightarrow> iter q = [] \<Longrightarrow> pop q = Inl IndexError"
    and pop_law: "inv q \<Longrightarrow> iter q = r # rs \<Longrightarrow> \<exists>q'. pop q = Inr (r, q') \<and> inv q' \<and> iter q' = rs"
    and peek_law: "inv q \<Longrightarrow> peek q = (case iter q of [] \<Rightarrow> Inl IndexError | r # rs \<Rightarrow> Inr r)"
begin

lemma fill: "inv q \<Longrightarrow> inv (foldl add q rs) \<and> mset (iter (foldl add q rs)) = mset rs + mset (iter q)"
  by (induction rs arbitrary: q) (auto simp: add_law)

lemma drain: "inv q \<Longrightarrow> \<exists>q'. pop_many pop (length (iter q)) q = Inr (iter q, q') \<and> inv q' \<and> iter q' = []"
proof (induction "iter q" arbitrary: q)
  case Nil
  then show ?case by (intro exI[of _ q]) (metis list.size(3) pop_many.simps(1))
next
  case (Cons r rs)
  from pop_law[OF Cons.prems, of r rs] Cons.hyps(2) obtain q1 where q1: "pop q = Inr (r, q1)" "inv q1" "iter q1 = rs" by metis
  from Cons.hyps(1)[of q1] q1 obtain q' where "pop_many pop (length rs) q1 = Inr (rs, q')" "inv q'" "iter q' = []" by metis
  then show ?case using q1(1) Cons.hyps(2)[symmetric] by simp
qed

lemma fill_drain:
  assumes "inv q" "iter q = []"
  shows "\<exists>q'. pop_many pop (length rs) (foldl add q rs) = Inr (iter (foldl add q rs), q') \<and> inv q' \<and> iter q' = []"
    "mset (iter (foldl add q rs)) = mset rs"
proof -
  show m: "mset (iter (foldl add q rs)) = mset rs" using fill[OF assms(1), of rs] assms(2) by simp
  then have "length (iter (foldl add q rs)) = length rs" by (metis size_mset)
  then show "\<exists>q'. pop_many pop (length rs) (foldl add q rs) = Inr (iter (foldl add q rs), q') \<and> inv q' \<and> iter q' = []"
    using drain[of "foldl add q rs"] fill[OF assms(1), of rs] by auto
qed

lemma peek_pop: "inv q \<Longrightarrow> peek q = map_sum id fst (pop q)"
  using pop_empty[of q] pop_law[of q] peek_law[of q] by (cases "iter q") fastforce+

end

interpretation fcfs: queue_contract "\<lambda>_. True" fcfs_add_request fcfs_pop_request fcfs_peek_request fcfs_iter
  by unfold_locales
    (auto simp: fcfs_add_request_def fcfs_pop_request_def fcfs_peek_request_def fcfs_iter_def split: list.splits)

subsection \<open>The priority order\<close>

interpretation req: weak_order request_lt
proof unfold_locales
  show "\<not> request_lt x x" for x by (rule request_lt_irrefl)
  show "request_lt x y \<Longrightarrow> request_lt y z \<Longrightarrow> request_lt x z" for x y z by (rule request_lt_trans)
  show "\<not> request_lt y x \<Longrightarrow> \<not> request_lt z y \<Longrightarrow> \<not> request_lt z x" for x y z
    by (auto simp: request_lt_def not_less split: if_splits dest: order.antisym order.trans)
qed

lemma prio_iter_pop:
  assumes "heap_from request_lt 0 q" "q \<noteq> []"
  shows "\<exists>q'. prio_pop_request q = Inr (q ! 0, q') \<and> heap_from request_lt 0 q' \<and> prio_iter q = q ! 0 # prio_iter q'
    \<and> mset q = add_mset (q ! 0) (mset q')"
  using req.heappop_props[OF assms] assms(2) by (auto simp: prio_pop_request_def prio_iter.simps[of q])

lemma prio_iter_Nil [simp]: "prio_iter [] = []"
  by (simp add: prio_iter.simps heappop_def)

lemma prio_iter_mset: "heap_from request_lt 0 q \<Longrightarrow> mset (prio_iter q) = mset q"
proof (induction "length q" arbitrary: q rule: less_induct)
  case less
  show ?case
  proof (cases "q = []")
    case False
    from prio_iter_pop[OF less.prems False] obtain q' where
      q': "heap_from request_lt 0 q'" "prio_iter q = q ! 0 # prio_iter q'" "mset q = add_mset (q ! 0) (mset q')" by blast
    have "length q' < length q" using arg_cong[OF q'(3), of size] by simp
    then show ?thesis using less.hyps q' by simp
  qed simp
qed

lemma prio_iter_sorted: "heap_from request_lt 0 q \<Longrightarrow> sorted_wrt (\<lambda>a b. \<not> request_lt b a) (prio_iter q)"
proof (induction "length q" arbitrary: q rule: less_induct)
  case less
  show ?case
  proof (cases "q = []")
    case False
    from prio_iter_pop[OF less.prems False] obtain q' where
      q': "heap_from request_lt 0 q'" "prio_iter q = q ! 0 # prio_iter q'" "mset q = add_mset (q ! 0) (mset q')" by blast
    have "length q' < length q" using arg_cong[OF q'(3), of size] by simp
    then have "sorted_wrt (\<lambda>a b. \<not> request_lt b a) (prio_iter q')" using less.hyps q'(1) by simp
    moreover have "\<not> request_lt x (q ! 0)" if "x \<in> set (prio_iter q')" for x
    proof -
      have "x \<in> set q" using that prio_iter_mset[OF q'(1)] q'(3) by (metis set_mset_mset set_mset_add_mset_insert insertCI)
      then show ?thesis using req.heap_root_least[OF less.prems] by (metis in_set_conv_nth)
    qed
    ultimately show ?thesis using q'(2) by simp
  qed simp
qed

interpretation prio: queue_contract "heap_from request_lt 0" prio_add_request prio_pop_request prio_peek_request prio_iter
proof unfold_locales
  fix q :: "request list"
  assume q: "heap_from request_lt 0 q"
  have empty: "prio_iter q = [] \<longleftrightarrow> q = []" using prio_iter_mset[OF q] by (metis mset_zero_iff)
  show "heap_from request_lt 0 (prio_add_request q r) \<and> mset (prio_iter (prio_add_request q r)) = add_mset r (mset (prio_iter q))" for r
    using req.heappush_props[OF q, of r] prio_iter_mset q by (simp add: prio_add_request_def)
  show "prio_iter q = [] \<Longrightarrow> prio_pop_request q = Inl IndexError" using empty by (simp add: prio_pop_request_def)
  show "prio_iter q = r # rs \<Longrightarrow> \<exists>q'. prio_pop_request q = Inr (r, q') \<and> heap_from request_lt 0 q' \<and> prio_iter q' = rs" for r rs
    using prio_iter_pop[OF q] empty by fastforce
  show "prio_peek_request q = (case prio_iter q of [] \<Rightarrow> Inl IndexError | r # rs \<Rightarrow> Inr r)"
    using prio_iter_pop[OF q] empty by (cases "q = []") (auto simp: prio_peek_request_def)
qed

subsection \<open>Properties\<close>

text \<open>The queues a scheduler of either policy can build.\<close>

inductive rq_reach :: "request_queue \<Rightarrow> bool" where
  rq_create: "rq_reach (create_request_queue p)"
| rq_added: "rq_reach q \<Longrightarrow> rq_reach (rq_add q r)"
| rq_popped: "rq_reach q \<Longrightarrow> rq_pop q = Inr (r, q') \<Longrightarrow> rq_reach q'"
| rq_prepended: "rq_reach q \<Longrightarrow> rq_reach (rq_prepend q r)"
| rq_prepended_all: "rq_reach q \<Longrightarrow> rq_reach other \<Longrightarrow> rq_reach (rq_prepend_requests q other)"
| rq_removed: "rq_reach q \<Longrightarrow> rq_remove q r = Inr q' \<Longrightarrow> rq_reach q'"
| rq_removed_all: "rq_reach q \<Longrightarrow> rq_reach (rq_remove_requests q rs)"

fun rq_inv :: "request_queue \<Rightarrow> bool" where
  "rq_inv (FCFSRequestQueue q) = True"
| "rq_inv (PriorityRequestQueue q) = heap_from request_lt 0 q"

fun is_priority :: "request_queue \<Rightarrow> bool" where
  "is_priority (FCFSRequestQueue q) = False"
| "is_priority (PriorityRequestQueue q) = True"

interpretation rq: queue_contract rq_inv rq_add rq_pop rq_peek rq_iter
proof unfold_locales
  fix q :: request_queue
  assume q: "rq_inv q"
  show "rq_inv (rq_add q r) \<and> mset (rq_iter (rq_add q r)) = add_mset r (mset (rq_iter q))" for r
    using q fcfs.add_law prio.add_law by (cases q) simp_all
  show "rq_iter q = [] \<Longrightarrow> rq_pop q = Inl IndexError"
    using q fcfs.pop_empty prio.pop_empty by (cases q) simp_all
  show "rq_iter q = r # rs \<Longrightarrow> \<exists>q'. rq_pop q = Inr (r, q') \<and> rq_inv q' \<and> rq_iter q' = rs" for r rs
    using q fcfs.pop_law prio.pop_law by (cases q) fastforce+
  show "rq_peek q = (case rq_iter q of [] \<Rightarrow> Inl IndexError | r # rs \<Rightarrow> Inr r)"
    using q fcfs.peek_law prio.peek_law by (cases q) simp_all
qed

lemma fcfs_prepend_requests_eq: "fcfs_prepend_requests q rs = rev rs @ q"
  by (simp add: fcfs_prepend_requests_def fold_Cons_rev)

lemma rq_prepend_law:
  assumes "rq_inv q"
  shows "rq_inv (rq_prepend q r)" "mset (rq_iter (rq_prepend q r)) = add_mset r (mset (rq_iter q))"
    "rq_inv (rq_prepend_requests q other)" "mset (rq_iter (rq_prepend_requests q other)) = mset (rq_iter other) + mset (rq_iter q)"
proof -
  show "rq_inv (rq_prepend q r)" "mset (rq_iter (rq_prepend q r)) = add_mset r (mset (rq_iter q))"
    using assms prio.add_law by (cases q; simp add: prio_prepend_request_def fcfs_prepend_request_def fcfs_iter_def)+
  show "rq_inv (rq_prepend_requests q other)" "mset (rq_iter (rq_prepend_requests q other)) = mset (rq_iter other) + mset (rq_iter q)"
    using assms prio.fill by (cases q; simp add: prio_prepend_requests_def fcfs_prepend_requests_eq fcfs_iter_def)+
qed

lemma rq_remove_law:
  assumes "rq_inv q"
  shows "rq_remove q r = Inr q' \<Longrightarrow> rq_inv q'" "rq_inv (rq_remove_requests q rs)"
    "mset (rq_iter (rq_remove_requests q rs)) = filter_mset (\<lambda>x. obj_id x \<notin> obj_id ` set rs) (mset (rq_iter q))"
proof -
  show "rq_inv q'" if "rq_remove q r = Inr q'"
  proof (cases q)
    case (FCFSRequestQueue xs)
    then show ?thesis using that by (cases "fcfs_remove_request xs r") auto
  next
    case (PriorityRequestQueue xs)
    then show ?thesis using that req.heapify_props by (cases "remove_first r xs") (auto simp: prio_remove_request_def)
  qed
  show "rq_inv (rq_remove_requests q rs)" using req.heapify_props by (cases q) (simp_all add: prio_remove_requests_def)
  show "mset (rq_iter (rq_remove_requests q rs)) = filter_mset (\<lambda>x. obj_id x \<notin> obj_id ` set rs) (mset (rq_iter q))"
    using assms req.heapify_props prio_iter_mset
    by (cases q) (simp_all add: prio_remove_requests_def fcfs_remove_requests_def keep_requests_def fcfs_iter_def)
qed

lemma rq_reach_inv: "rq_reach q \<Longrightarrow> rq_inv q"
proof (induction rule: rq_reach.induct)
  case (rq_create p)
  show ?case by (cases p) (simp_all add: create_request_queue_def heap_from_def)
next
  case (rq_popped q r q')
  then show ?case using rq.pop_law[of q] rq.pop_empty[of q] by (cases "rq_iter q") fastforce+
qed (simp_all add: rq.add_law rq_prepend_law rq_remove_law)

text \<open>
  C24: On every queue of waiting requests that the operations can build, of either policy: iterating gives
  the order in which popping hands the requests out, in the priority queue sorted by \<open>Request.__lt__\<close>;
  popping or peeking an empty queue raises \<open>IndexError\<close> and otherwise both agree; the length is right;
  prepending another queue adds exactly its requests, and \<open>remove_requests\<close> removes exactly
  the given objects.
\<close>

theorem request_queue_order:
  assumes "rq_reach q"
  shows "(is_priority q \<longrightarrow> sorted_wrt (\<lambda>a b. \<not> request_lt b a) (rq_iter q))
    \<and> (case rq_iter q of
         [] \<Rightarrow> rq_pop q = Inl IndexError
       | r # rs \<Rightarrow> \<exists>q'. rq_pop q = Inr (r, q') \<and> rq_reach q' \<and> rq_iter q' = rs)
    \<and> rq_peek q = map_sum id fst (rq_pop q)
    \<and> rq_len q = int (length (rq_iter q)) \<and> rq_bool q = (rq_iter q \<noteq> [])
    \<and> mset (rq_iter (rq_prepend_requests q other)) = mset (rq_iter other) + mset (rq_iter q)
    \<and> mset (rq_iter (rq_remove_requests q rs)) = filter_mset (\<lambda>x. obj_id x \<notin> obj_id ` set rs) (mset (rq_iter q))"
proof -
  have inv: "rq_inv q" using rq_reach_inv[OF assms] .
  have len: "rq_len q = int (length (rq_iter q)) \<and> rq_bool q = (rq_iter q \<noteq> [])"
  proof (cases q)
    case (PriorityRequestQueue xs)
    then have "mset (prio_iter xs) = mset xs" using inv prio_iter_mset by simp
    then show ?thesis using PriorityRequestQueue mset_eq_length by fastforce
  qed (simp add: fcfs_iter_def)
  have "is_priority q \<longrightarrow> sorted_wrt (\<lambda>a b. \<not> request_lt b a) (rq_iter q)"
    using inv prio_iter_sorted by (cases q) simp_all
  moreover have "case rq_iter q of
         [] \<Rightarrow> rq_pop q = Inl IndexError
       | r # rs \<Rightarrow> \<exists>q'. rq_pop q = Inr (r, q') \<and> rq_reach q' \<and> rq_iter q' = rs"
    using rq.pop_empty[OF inv] rq.pop_law[OF inv] rq_popped[OF assms] by (force split: list.splits)
  ultimately show ?thesis using rq.peek_pop[OF inv] rq_prepend_law(4)[OF inv] rq_remove_law(3)[OF inv] len by blast
qed

theorem request_queue_order_witness:
  "\<exists>q'. rq_pop (rq_add (rq_add (create_request_queue PRIORITY) ((sample_request ''a'' [] [] None None)\<lparr>priority := 2\<rparr>))
          (sample_request ''b'' [] [] None None))
     = Inr (sample_request ''b'' [] [] None None, q') \<and> rq_iter q' = [(sample_request ''a'' [] [] None None)\<lparr>priority := 2\<rparr>]"
proof -
  let ?a = "(sample_request ''a'' [] [] None None)\<lparr>priority := 2\<rparr>" and ?b = "sample_request ''b'' [] [] None None"
  let ?q = "rq_add (rq_add (create_request_queue PRIORITY) ?a) ?b"
  have lt: "request_lt ?b ?a" "\<not> request_lt ?a ?b"
    by (simp_all add: request_lt_def sample_request_def sample_ec_request_def request_fields_def)
  have q: "?q = PriorityRequestQueue [?b, ?a]"
    by (simp add: create_request_queue_def prio_add_request_def heappush_def siftdown.simps lt(1))
  have it: "rq_iter ?q = [?b, ?a]" unfolding q
    by (simp add: prio_iter.simps heappop_def siftup_def sift_to_leaf.simps siftdown.simps)
  have "rq_reach ?q" by (intro rq_added rq_create)
  from request_queue_order[OF this, of ?q "[]"] have "case [?b, ?a] of
         [] \<Rightarrow> rq_pop ?q = Inl IndexError
       | r # rs \<Rightarrow> \<exists>q'. rq_pop ?q = Inr (r, q') \<and> rq_reach q' \<and> rq_iter q' = rs" unfolding it by blast
  then show ?thesis by (simp del: rq_add.simps rq_pop.simps rq_iter.simps) blast
qed

text \<open>
  Requests added one by one to a new queue of either policy come out completely when as many are
  popped: first come first served in the order of arrival, under the priority policy sorted by \<open>Request.__lt__\<close>.
\<close>

theorem request_queue_delivers_all:
  "\<exists>out q'. pop_many rq_pop (length rs) (foldl rq_add (create_request_queue p) rs) = Inr (out, q') \<and> rq_iter q' = []
     \<and> (case p of FCFS \<Rightarrow> out = rs | PRIORITY \<Rightarrow> mset out = mset rs \<and> sorted_wrt (\<lambda>a b. \<not> request_lt b a) out)"
proof -
  let ?q = "foldl rq_add (create_request_queue p) rs"
  have inv: "rq_inv (create_request_queue p)" using rq_reach_inv rq_create by blast
  have empty: "rq_iter (create_request_queue p) = []" by (cases p) (simp_all add: create_request_queue_def fcfs_iter_def)
  obtain q' where q': "pop_many rq_pop (length rs) ?q = Inr (rq_iter ?q, q')" "rq_iter q' = []"
    using rq.fill_drain(1)[OF inv empty, of rs] by blast
  have F: "foldl rq_add (FCFSRequestQueue xs) rs = FCFSRequestQueue (xs @ rs)" for xs rs
    by (induction rs arbitrary: xs) (simp_all add: fcfs_add_request_def)
  have P: "\<exists>ys. foldl rq_add (PriorityRequestQueue xs) rs = PriorityRequestQueue ys" for xs rs
    by (induction rs arbitrary: xs) simp_all
  have "case p of FCFS \<Rightarrow> rq_iter ?q = rs | PRIORITY \<Rightarrow> mset (rq_iter ?q) = mset rs \<and> sorted_wrt (\<lambda>a b. \<not> request_lt b a) (rq_iter ?q)"
  proof (cases p)
    case FCFS
    then show ?thesis by (simp add: create_request_queue_def F fcfs_iter_def)
  next
    case PRIORITY
    then obtain ys where ys: "?q = PriorityRequestQueue ys" using P by (auto simp: create_request_queue_def)
    have "rq_inv ?q" using rq.fill[OF inv] by blast
    then show ?thesis using PRIORITY rq.fill_drain(2)[OF inv empty, of rs] prio_iter_sorted unfolding ys by simp
  qed
  then show ?thesis using q' by blast
qed

end
