(* ===== verification/Scheduler_State.thy ===== *)
theory Scheduler_State
  imports KV_Cache_Manager Encoder_Scheduling Request_Queue
begin

section \<open>The scheduler's state\<close>

text \<open>
  \<open>vllm/v1/core/sched/scheduler.py\<close>: the fields of \<open>Scheduler\<close> and the operations on its queues. Requests
  are mutable objects that the queues, the running list and the \<open>requests\<close> dictionary share; here
  \<open>requests\<close> is the store, keyed by the request id, and every other place holds a reference: the id, or in
  the waiting queues the request as it was when it was enqueued, of which only the
  fields of the queue order are read. Connectors and the structured output manager are parameters: what
  the scheduler calls of them acts on a state \<open>world\<close> of their own. \<open>id_order\<close> is the order in which a Python set of
  input ids is iterated over.
\<close>

datatype pause_state = UNPAUSED | PAUSED_NEW | PAUSED_ALL

record streaming_update =
  su_mm_features :: "mm_feature list"
  su_prompt_token_ids :: "int list option"
  su_max_tokens :: int
  su_arrival_time :: rat
  su_sampling_params :: "sampling_params option"

record prefill_stats =
  ps_num_prompt_tokens :: int
  ps_num_computed_tokens :: int
  ps_num_cached_tokens :: int
  ps_num_local_cached_tokens :: int
  ps_num_external_cached_tokens :: int

text \<open>What a step hands to the workers (\<open>vllm/v1/core/sched/output.py\<close>).\<close>

record new_request_data =
  nr_req_id :: string
  nr_prompt_token_ids :: "int list option"
  nr_mm_features :: "mm_feature list"
  nr_block_ids :: "int list list"
  nr_num_computed_tokens :: int
  nr_prefill_token_ids :: "int list option"

record cached_request_data =
  cr_req_ids :: "string list"
  cr_resumed_req_ids :: "string set"
  cr_new_token_ids :: "int list list"
  cr_all_token_ids :: "(string, int list) dict"
  cr_new_block_ids :: "int list list option list"
  cr_num_computed_tokens :: "int list"
  cr_num_output_tokens :: "int list"

record scheduler_output =
  so_new_reqs :: "new_request_data list"
  so_cached_reqs :: cached_request_data
  so_num_scheduled_tokens :: "(string, int) dict"
  so_total_num_scheduled_tokens :: int
  so_spec_decode_tokens :: "(string, int list) dict"
  so_encoder_inputs :: "(string, int list) dict"
  so_num_common_prefix_blocks :: "int list"
  so_preempted_req_ids :: "string set"
  so_finished_req_ids :: "string set"
  so_free_encoder_mm_hashes :: "string list"
  so_new_block_ids_to_zero :: "int list option"
  so_has_structured_output :: bool
  so_pending_structured_output :: bool
  so_num_invalid_spec_tokens :: "(string, int) dict option"

text \<open>What the connectors of the workers report after a step; the block ids are a set.\<close>

record kv_connector_output =
  ko_invalid_block_ids :: "int list"
  ko_finished_recving :: "string list"
  ko_finished_sending :: "string list"

record 'x kv_connector =
  kvc_get_num_new_matched_tokens :: "request \<Rightarrow> int \<Rightarrow> 'x \<Rightarrow> (int option \<times> bool) \<times> 'x"
  kvc_update_state_after_alloc :: "request \<Rightarrow> kv_cache_blocks \<Rightarrow> int \<Rightarrow> 'x \<Rightarrow> 'x"
  kvc_on_new_request :: "request \<Rightarrow> 'x \<Rightarrow> 'x"
  kvc_supports_hma :: bool
  kvc_request_finished :: "request \<Rightarrow> int list \<Rightarrow> 'x \<Rightarrow> bool \<times> 'x"
  kvc_request_finished_all_groups :: "request \<Rightarrow> int list list \<Rightarrow> 'x \<Rightarrow> bool \<times> 'x"
  kvc_build_connector_meta :: "scheduler_output \<Rightarrow> 'x \<Rightarrow> 'x"
  kvc_update_connector_output :: "kv_connector_output \<Rightarrow> 'x \<Rightarrow> 'x"
  kvc_reset_cache :: "'x \<Rightarrow> bool option \<times> 'x"
  kvc_has_pending_push_work :: "'x \<Rightarrow> bool"

record 'x ec_connector =
  ecc_has_cache_item :: "string \<Rightarrow> 'x \<Rightarrow> bool"
  ecc_update_state_after_alloc :: "request \<Rightarrow> int \<Rightarrow> 'x \<Rightarrow> 'x"
  ecc_ensure_cache_available :: "request \<Rightarrow> int \<Rightarrow> 'x \<Rightarrow> bool \<times> 'x"
  ecc_build_connector_meta :: "scheduler_output \<Rightarrow> 'x \<Rightarrow> 'x"

record 'x sched_config =
  policy :: scheduling_policy
  max_num_running_reqs :: int
  max_num_scheduled_tokens :: int
  max_model_len :: int
  num_sampled_tokens_per_step :: int
  long_prefill_token_threshold :: int
  enable_chunked_prefill :: bool
  disable_chunked_mm :: bool
  encoder_decoder :: bool
  max_num_encoder_input :: int
  use_eagle :: bool
  lookahead_tokens :: int
  has_mamba_layers :: bool
  need_mamba_block_aligned_split :: bool
  cache_block_size :: int
  block_size_of :: int
  recompute_kv_load_failures :: bool
  scheduler_reserve_full_isl :: bool
  max_loras :: "int option"
  log_stats :: bool
  needs_kv_cache_zeroing :: bool
  use_pp :: bool
  async_scheduling :: bool
  use_v2_model_runner :: bool
  pp_size :: int
  num_spec_tokens :: int
  connector :: "'x kv_connector option"
  ec_conn :: "'x ec_connector option"
  grammar_ready :: "request \<Rightarrow> 'x \<Rightarrow> bool"
  should_advance :: "request \<Rightarrow> 'x \<Rightarrow> bool"
  accept_tokens :: "request \<Rightarrow> int list \<Rightarrow> 'x \<Rightarrow> bool \<times> 'x"
  validate_tokens :: "request \<Rightarrow> int list \<Rightarrow> 'x \<Rightarrow> int list"
  hasher :: "block_hasher option"
  id_order :: "int set \<Rightarrow> int list"

record 'x scheduler =
  requests :: "(string, request) dict"
  waiting :: request_queue
  skipped_waiting :: request_queue
  running :: "string list"
  finished_req_ids :: "string set"
  prev_step_scheduled_req_ids :: "string set"
  inflight_prefills :: "string list"
  num_waiting_for_streaming_input :: int
  finished_recving :: "string set"
  failed_recving :: "string set"
  enc_mgr :: encoder_cache_manager
  kv_mgr :: kv_cache_manager
  current_step :: int
  pause :: pause_state
  prefill_stats_of :: "(string, prefill_stats) dict"
  streaming_queues :: "(string, streaming_update option list) dict"
  connector_stats :: "prefix_cache_stats option"
  world :: 'x

definition get_req :: "'x scheduler \<Rightarrow> string \<Rightarrow> request result" where
  "get_req s rid = dict_index (requests s) rid"

definition put_req :: "request \<Rightarrow> 'x scheduler \<Rightarrow> 'x scheduler" where
  "put_req r s = s\<lparr>requests := dict_set (request_id r) r (requests s)\<rparr>"

definition add_inflight :: "string \<Rightarrow> 'x scheduler \<Rightarrow> 'x scheduler" where
  "add_inflight rid s =
     s\<lparr>inflight_prefills := (if rid \<in> set (inflight_prefills s) then inflight_prefills s else inflight_prefills s @ [rid])\<rparr>"

definition discard_inflight :: "string \<Rightarrow> 'x scheduler \<Rightarrow> 'x scheduler" where
  "discard_inflight rid s = s\<lparr>inflight_prefills := filter (\<lambda>x. x \<noteq> rid) (inflight_prefills s)\<rparr>"

definition enc_free_request :: "'x sched_config \<Rightarrow> request \<Rightarrow> 'x scheduler \<Rightarrow> 'x scheduler result" where
  "enc_free_request cfg r s =
     rbind (ecm_free (id_order cfg (ecm_cached_ids r (enc_mgr s))) r (enc_mgr s)) (\<lambda>em. Inr (s\<lparr>enc_mgr := em\<rparr>))"

subsection \<open>Block-aligned chunks for Mamba layers\<close>

definition mamba_block_aligned_split :: "'x sched_config \<Rightarrow> request \<Rightarrow> int \<Rightarrow> int \<Rightarrow> int \<Rightarrow> int \<Rightarrow> int" where
  "mamba_block_aligned_split cfg r new_toks local_toks external_toks uncached_common =
     (let computed = num_computed_tokens r + local_toks + external_toks
      in if computed < max (num_prompt_tokens r) (num_tokens r - 1)
         then
           let bs = cache_block_size cfg;
               last0 = num_tokens r - num_tokens r mod bs;
               last = (if use_eagle cfg then max (last0 - bs) 0 else last0);
               after_sched = computed + new_toks;
               n1 = (if after_sched < last then new_toks div bs * bs
                     else if computed < last \<and> last < after_sched then last - computed
                     else new_toks)
           in if uncached_common \<ge> bs \<and> n1 > uncached_common then uncached_common div bs * bs else n1
         else new_toks)"

subsection \<open>The waiting queues\<close>

definition is_blocked_waiting_status :: "request_status \<Rightarrow> bool" where
  "is_blocked_waiting_status st \<longleftrightarrow>
     st \<in> {WAITING_FOR_STRUCTURED_OUTPUT_GRAMMAR, WAITING_FOR_REMOTE_KVS, WAITING_FOR_STREAMING_REQ}"

definition enqueue_waiting_request :: "request \<Rightarrow> 'x scheduler \<Rightarrow> 'x scheduler" where
  "enqueue_waiting_request r s =
     (if is_blocked_waiting_status (status r) then s\<lparr>skipped_waiting := rq_add (skipped_waiting s) r\<rparr>
      else s\<lparr>waiting := rq_add (waiting s) r\<rparr>)"

text \<open>The queue to take the next request from; \<open>True\<close> stands for \<open>self.waiting\<close>.\<close>

definition select_waiting_queue :: "'x sched_config \<Rightarrow> 'x scheduler \<Rightarrow> bool option result" where
  "select_waiting_queue cfg s =
     (if policy cfg = FCFS
      then Inr (if rq_bool (skipped_waiting s) then Some False else if rq_bool (waiting s) then Some True else None)
      else if rq_bool (waiting s) \<and> rq_bool (skipped_waiting s)
      then rbind (rq_peek (waiting s)) (\<lambda>w. rbind (rq_peek (skipped_waiting s)) (\<lambda>k. Inr (Some (request_lt w k))))
      else Inr (if rq_bool (waiting s) then Some True else if rq_bool (skipped_waiting s) then Some False else None))"

definition the_queue :: "bool \<Rightarrow> 'x scheduler \<Rightarrow> request_queue" where
  "the_queue b s = (if b then waiting s else skipped_waiting s)"

definition pop_queue :: "bool \<Rightarrow> 'x scheduler \<Rightarrow> (request \<times> 'x scheduler) result" where
  "pop_queue b s =
     rbind (rq_pop (the_queue b s)) (\<lambda>(r, q). Inr (r, if b then s\<lparr>waiting := q\<rparr> else s\<lparr>skipped_waiting := q\<rparr>))"

subsection \<open>Preemption\<close>

definition preempt_request :: "'x sched_config \<Rightarrow> rat \<Rightarrow> string \<Rightarrow> 'x scheduler \<Rightarrow> 'x scheduler result" where
  "preempt_request cfg now rid s =
     rbind (get_req s rid) (\<lambda>r.
     rbind (rassert (status r = RUNNING)) (\<lambda>_.
     rbind (km_free r (kv_mgr s)) (\<lambda>km.
     rbind (enc_free_request cfg r (s\<lparr>kv_mgr := km\<rparr>)) (\<lambda>s1.
       let r1 = r\<lparr>status := PREEMPTED, num_computed_tokens := 0, spec_token_ids := [], num_preemptions := num_preemptions r + 1\<rparr>;
           r2 = (if log_stats cfg then record_event EV_PREEMPTED (Some now) now r1 else r1)
       in Inr ((put_req r2 (discard_inflight rid s1))\<lparr>waiting := rq_prepend (waiting s1) r2\<rparr>)))))"

subsection \<open>Finishing requests\<close>

definition free_blocks_of :: "request \<Rightarrow> 'x scheduler \<Rightarrow> 'x scheduler result" where
  "free_blocks_of r s =
     rbind (rassert (req_is_finished r)) (\<lambda>_.
     rbind (km_free r (kv_mgr s)) (\<lambda>km.
     rbind (dict_index (requests s) (request_id r)) (\<lambda>_.
       Inr (s\<lparr>kv_mgr := km, requests := dict_del (request_id r) (requests s)\<rparr>))))"

definition connector_finished :: "'x sched_config \<Rightarrow> request \<Rightarrow> 'x scheduler \<Rightarrow> (bool \<times> 'x scheduler) result" where
  "connector_finished cfg r s =
     (case connector cfg of
        None \<Rightarrow> Inr (False, s)
      | Some c \<Rightarrow>
          rbind (km_remove_skipped_blocks (request_id r) (num_computed_tokens r) (kv_mgr s)) (\<lambda>km.
            let ids = km_get_block_ids (request_id r) km
            in if \<not> kvc_supports_hma c
               then rbind (rassert (num_kv_cache_groups km = 1)) (\<lambda>_.
                    rbind (py_index ids 0) (\<lambda>ids0.
                      case kvc_request_finished c r ids0 (world s) of (d, w) \<Rightarrow> Inr (d, s\<lparr>kv_mgr := km, world := w\<rparr>)))
               else case kvc_request_finished_all_groups c r ids (world s) of (d, w) \<Rightarrow> Inr (d, s\<lparr>kv_mgr := km, world := w\<rparr>)))"

definition free_request :: "'x sched_config \<Rightarrow> request \<Rightarrow> bool \<Rightarrow> 'x scheduler \<Rightarrow> 'x scheduler result" where
  "free_request cfg r delay s =
     rbind (rassert (req_is_finished r)) (\<lambda>_.
     rbind (connector_finished cfg r (discard_inflight (request_id r) s)) (\<lambda>(connector_delay, s1).
     rbind (enc_free_request cfg r s1) (\<lambda>s2.
       let s3 = s2\<lparr>finished_req_ids := insert (request_id r) (finished_req_ids s2)\<rparr>
       in if delay \<or> connector_delay then Inr s3 else free_blocks_of r s3)))"

text \<open>
  \<open>finish_requests\<close>: the first pass collects the live requests, the second one finishes them. \<open>ids\<close> lists the
  set of request ids, without repetition; it is the list of all keys where the caller passes \<open>None\<close>.
\<close>

definition collect_step ::
  "string \<Rightarrow> 'x scheduler \<times> request list \<times> string list \<times> request list \<Rightarrow> 'x scheduler \<times> request list \<times> string list \<times> request list" where
  "collect_step rid = (\<lambda>(s, valid, run, wait).
     case dict_get (requests s) rid of
       None \<Rightarrow> (s, valid, run, wait)
     | Some r \<Rightarrow>
         if req_is_finished r then (s, valid, run, wait)
         else if status r = RUNNING then (s, valid @ [r], run @ [rid], wait)
         else ((if status r = WAITING_FOR_STREAMING_REQ
                then s\<lparr>num_waiting_for_streaming_input := num_waiting_for_streaming_input s - 1\<rparr> else s),
               valid @ [r], run, wait @ [r]))"

definition finish_one :: "'x sched_config \<Rightarrow> request_status \<Rightarrow> request \<Rightarrow> 'x scheduler \<Rightarrow> 'x scheduler result" where
  "finish_one cfg st r s =
     (let remote = (status r = WAITING_FOR_REMOTE_KVS);
          delay = (remote \<and> request_id r \<notin> finished_recving s);
          s1 = (if remote then s\<lparr>finished_recving := finished_recving s - {request_id r},
                                 failed_recving := failed_recving s - {request_id r}\<rparr> else s);
          r1 = r\<lparr>status := st\<rparr>
      in free_request cfg r1 delay (put_req r1 s1))"

definition finish_requests ::
  "'x sched_config \<Rightarrow> string list \<Rightarrow> request_status \<Rightarrow> 'x scheduler \<Rightarrow> (string list \<times> 'x scheduler) result" where
  "finish_requests cfg ids st s =
     rbind (rassert (status_is_finished st)) (\<lambda>_.
       case fold collect_step ids (s, [], [], []) of (s0, valid, run, wait) \<Rightarrow>
         let s1 = (if run \<noteq> [] then s0\<lparr>running := remove_all (running s0) run\<rparr> else s0);
             s2 = (if wait \<noteq> [] then s1\<lparr>waiting := rq_remove_requests (waiting s1) wait,
                                         skipped_waiting := rq_remove_requests (skipped_waiting s1) wait\<rparr> else s1)
         in rbind (rfold (finish_one cfg st) valid s2) (\<lambda>s3. Inr (map request_id valid, s3)))"

end
