(* ===== verification/Schedule_Running.thy ===== *)
theory Schedule_Running
  imports Scheduler_State
begin

section \<open>Scheduling the running requests\<close>

text \<open>
  The first loop of \<open>Scheduler.schedule\<close>: every running request gets tokens within the token budget, and
  when the KV cache has no room for them, the request of lowest priority is preempted. The
  local variables of \<open>schedule\<close> are a record; \<open>idx\<close> is \<open>req_index\<close>.
\<close>

record step_acc =
  acc_new :: "string list"
  acc_resumed :: "string list"
  acc_running :: "string list"
  acc_preempted :: "string list"
  acc_blocks :: "(string, kv_cache_blocks) dict"
  acc_tokens :: "(string, int) dict"
  token_budget :: int
  acc_encoder :: "(string, int list) dict"
  encoder_budget :: int
  acc_spec :: "(string, int list) dict"

definition enc_env :: "'x sched_config \<Rightarrow> 'x scheduler \<Rightarrow> encoder_sched" where
  "enc_env cfg s = \<lparr>is_encoder_decoder = encoder_decoder cfg, es_disable_chunked = disable_chunked_mm cfg,
     ec_has = map_option (\<lambda>c h. ecc_has_cache_item c h (world s)) (ec_conn cfg)\<rparr>"

text \<open>Scheduling the encoder inputs of a request: the plan, if it has any, and the tokens that are left.\<close>

definition plan_encoder ::
  "'x sched_config \<Rightarrow> request \<Rightarrow> int \<Rightarrow> int \<Rightarrow> int \<Rightarrow> 'x scheduler \<Rightarrow> (encoder_plan option \<times> int \<times> 'x scheduler) result" where
  "plan_encoder cfg r computed new_toks budget s =
     (if has_encoder_inputs r
      then rbind (try_schedule_encoder_inputs (enc_env cfg s) r computed new_toks budget (if use_eagle cfg then 1 else 0) (enc_mgr s))
             (\<lambda>(a, n, em). Inr (Some a, n, s\<lparr>enc_mgr := em\<rparr>))
      else Inr (None, new_toks, s))"

definition allocate_encoder :: "'x sched_config \<Rightarrow> request \<Rightarrow> int \<Rightarrow> 'x scheduler \<Rightarrow> 'x scheduler result" where
  "allocate_encoder cfg r i s =
     rbind (ecm_allocate r i (enc_mgr s)) (\<lambda>em.
       Inr (s\<lparr>enc_mgr := em,
              world := (case ec_conn cfg of None \<Rightarrow> world s | Some c \<Rightarrow> ecc_update_state_after_alloc c r i (world s))\<rparr>))"

definition commit_encoder ::
  "'x sched_config \<Rightarrow> request \<Rightarrow> encoder_plan option \<Rightarrow> 'x scheduler \<Rightarrow> step_acc \<Rightarrow> ('x scheduler \<times> step_acc) result" where
  "commit_encoder cfg r plan s a =
     (case plan of
        None \<Rightarrow> Inr (s, a)
      | Some p \<Rightarrow>
          rbind (rfold (allocate_encoder cfg r) (to_schedule p) s) (\<lambda>s1.
          rbind (rfold (allocate_encoder cfg r) (external_load p) s1) (\<lambda>s2.
            Inr (s2, if to_schedule p \<noteq> []
                     then a\<lparr>acc_encoder := dict_set (request_id r) (to_schedule p) (acc_encoder a), encoder_budget := compute_budget p\<rparr>
                     else a))))"

subsection \<open>Preempting the request of lowest priority\<close>

text \<open>\<open>max(self.running, key=lambda r: (r.priority, r.arrival_time))\<close>: the first of the largest.\<close>

definition later :: "request \<Rightarrow> request \<Rightarrow> bool" where
  "later a b \<longleftrightarrow> priority a > priority b \<or> (priority a = priority b \<and> arrival_time a > arrival_time b)"

definition lowest_priority :: "(string \<times> request) list \<Rightarrow> (string \<times> request) result" where
  "lowest_priority rs =
     (case rs of [] \<Rightarrow> Inl ValueError | e # es \<Rightarrow> Inr (foldl (\<lambda>m x. if later (snd x) (snd m) then x else m) e es))"

text \<open>Taking back what the preempted request was given in this step.\<close>

definition unschedule :: "string \<Rightarrow> request \<Rightarrow> step_acc \<Rightarrow> step_acc result" where
  "unschedule vid v a =
     rbind (dict_index (acc_tokens a) vid) (\<lambda>n.
     rbind (dict_index (acc_blocks a) vid) (\<lambda>_.
     rbind (case dict_get (acc_encoder a) vid of
              None \<Rightarrow> Inr 0
            | Some is \<Rightarrow> rbind (rmap (get_num_encoder_embeds v) is) (\<lambda>es. Inr (sum_list es))) (\<lambda>e.
       Inr (a\<lparr>acc_running := remove1 vid (acc_running a), token_budget := token_budget a + n,
              acc_tokens := dict_del vid (acc_tokens a), acc_blocks := dict_del vid (acc_blocks a),
              acc_spec := dict_del vid (acc_spec a), acc_encoder := dict_del vid (acc_encoder a),
              encoder_budget := encoder_budget a + e\<rparr>))))"

definition choose_victim ::
  "'x sched_config \<Rightarrow> 'x scheduler \<Rightarrow> step_acc \<Rightarrow> int \<Rightarrow> (string \<times> 'x scheduler \<times> step_acc \<times> int) result" where
  "choose_victim cfg s a idx =
     (if policy cfg = PRIORITY
      then rbind (rmap (\<lambda>rid. rbind (get_req s rid) (\<lambda>r. Inr (rid, r))) (running s)) (\<lambda>rs.
           rbind (lowest_priority rs) (\<lambda>(vid, v).
             let s1 = s\<lparr>running := remove1 vid (running s)\<rparr>
             in if vid \<in> set (acc_running a)
                then rbind (unschedule vid v a) (\<lambda>a1. Inr (vid, s1, a1, idx - 1))
                else Inr (vid, s1, a, idx)))
      else if running s = [] then Inl IndexError
      else Inr (last (running s), s\<lparr>running := butlast (running s)\<rparr>, a, idx))"

definition preempt_lowest ::
  "'x sched_config \<Rightarrow> rat \<Rightarrow> 'x scheduler \<Rightarrow> step_acc \<Rightarrow> int \<Rightarrow> (string \<times> 'x scheduler \<times> step_acc \<times> int) result" where
  "preempt_lowest cfg now s a idx =
     rbind (choose_victim cfg s a idx) (\<lambda>(vid, s1, a1, idx1).
     rbind (preempt_request cfg now vid s1) (\<lambda>s2.
       Inr (vid, s2, a1\<lparr>acc_preempted := acc_preempted a1 @ [vid]\<rparr>, idx1)))"

definition allocate_for :: "string \<Rightarrow> slot_args \<Rightarrow> 'x scheduler \<Rightarrow> (kv_cache_blocks option \<times> 'x scheduler) result" where
  "allocate_for rid args s =
     rbind (get_req s rid) (\<lambda>r.
     rbind (allocate_slots r args (kv_mgr s)) (\<lambda>(blocks, r', km). Inr (blocks, put_req r' (s\<lparr>kv_mgr := km\<rparr>))))"

lemma allocate_for_running: "allocate_for rid args s = Inr (b, s') \<Longrightarrow> running s' = running s"
  by (auto simp: allocate_for_def rbind_eq_Inr_iff put_req_def)

lemma preempt_request_running: "preempt_request cfg now rid s = Inr s' \<Longrightarrow> running s' = running s"
  by (auto simp: preempt_request_def enc_free_request_def rbind_eq_Inr_iff put_req_def discard_inflight_def Let_def)

lemma lowest_priority_mem: "lowest_priority rs = Inr e \<Longrightarrow> e \<in> set rs"
proof -
  have "foldl (\<lambda>m x. if later (snd x) (snd m) then x else m) e es \<in> set (e # es)" for e and es :: "(string \<times> request) list"
    by (induction es arbitrary: e) (auto split: if_splits)
  then show "lowest_priority rs = Inr e \<Longrightarrow> e \<in> set rs" by (auto simp: lowest_priority_def split: list.splits)
qed

lemma choose_victim_running:
  assumes "choose_victim cfg s a idx = Inr (vid, s', a', idx')"
  shows "vid \<in> set (running s)" "running s' = (if policy cfg = PRIORITY then remove1 vid (running s) else butlast (running s))"
    "idx' = idx \<or> idx' = idx - 1" "running s' = butlast (running s) \<longrightarrow> policy cfg \<noteq> PRIORITY \<longrightarrow> vid = last (running s)"
proof -
  have mem: "vid' \<in> set (running s)"
    if "rmap (\<lambda>rid. rbind (get_req s rid) (\<lambda>r. Inr (rid, r))) (running s) = Inr rs" "(vid', v) \<in> set rs" for rs vid' v
    using that by (force simp: rmap_eq_Inr_iff list_all2_conv_all_nth in_set_conv_nth rbind_eq_Inr_iff)
  show "vid \<in> set (running s)" "running s' = (if policy cfg = PRIORITY then remove1 vid (running s) else butlast (running s))"
    "idx' = idx \<or> idx' = idx - 1" "running s' = butlast (running s) \<longrightarrow> policy cfg \<noteq> PRIORITY \<longrightarrow> vid = last (running s)"
    using assms mem by (auto simp: choose_victim_def rbind_eq_Inr_iff Let_def dest!: lowest_priority_mem split: if_splits prod.splits)
qed

lemma preempt_lowest_running:
  assumes "preempt_lowest cfg now s a idx = Inr (vid, s', a', idx')"
  shows "length (running s') = length (running s) - 1" "running s \<noteq> []" "idx' = idx \<or> idx' = idx - 1"
proof -
  obtain s1 a1 where c: "choose_victim cfg s a idx = Inr (vid, s1, a1, idx')" "preempt_request cfg now vid s1 = Inr s'"
    using assms by (auto simp: preempt_lowest_def rbind_eq_Inr_iff)
  note v = choose_victim_running[OF c(1)]
  show "running s \<noteq> []" using v(1) by auto
  show "length (running s') = length (running s) - 1"
    using v(1,2) preempt_request_running[OF c(2)] by (simp add: length_remove1)
  show "idx' = idx \<or> idx' = idx - 1" by (rule v(3))
qed

text \<open>The inner loop: allocate, and preempt until it succeeds or the request itself is preempted.\<close>

function allocate_or_preempt ::
  "'x sched_config \<Rightarrow> rat \<Rightarrow> string \<Rightarrow> int \<Rightarrow> 'x scheduler \<Rightarrow> step_acc \<Rightarrow> int
   \<Rightarrow> (kv_cache_blocks option \<times> 'x scheduler \<times> step_acc \<times> int) result" where
  "allocate_or_preempt cfg now rid n s a idx =
     rbind (allocate_for rid ((default_slot_args n)\<lparr>num_lookahead_tokens := lookahead_tokens cfg\<rparr>) s) (\<lambda>(blocks, s1).
       case blocks of
         Some b \<Rightarrow> Inr (Some b, s1, a, idx)
       | None \<Rightarrow>
           rbind (preempt_lowest cfg now s1 a idx) (\<lambda>(vid, s2, a2, idx2).
             if vid = rid then Inr (None, s2, a2, idx2) else allocate_or_preempt cfg now rid n s2 a2 idx2))"
  by pat_completeness auto
termination
proof (relation "measure (\<lambda>(_, _, _, _, s, _, _). length (running s))", simp)
  fix cfg :: "'x sched_config" and now rid n s a idx x b s1 y vid z s2 w a2 idx2
  assume "allocate_for rid ((default_slot_args n)\<lparr>num_lookahead_tokens := lookahead_tokens cfg\<rparr>) s = Inr x"
    "(b, s1) = x" "preempt_lowest cfg now s1 a idx = Inr y" "(vid, z) = y" "(s2, w) = z" "(a2, idx2) = w"
  then show "((cfg, now, rid, n, s2, a2, idx2), (cfg, now, rid, n, s, a, idx)) \<in> measure (\<lambda>(_, _, _, _, s, _, _). length (running s))"
    using preempt_lowest_running[of cfg now s1 a idx vid s2 a2 idx2] allocate_for_running[of rid _ s b s1] by auto
qed

declare allocate_or_preempt.simps [simp del]

subsection \<open>One running request\<close>

definition async_done :: "request \<Rightarrow> bool" where
  "async_done r \<longleftrightarrow> num_output_placeholders r > 0
     \<and> num_computed_tokens r + 2 - num_output_placeholders r \<ge> num_prompt_tokens r + max_tokens r"

definition running_new_tokens :: "'x sched_config \<Rightarrow> request \<Rightarrow> int \<Rightarrow> int" where
  "running_new_tokens cfg r budget =
     (let n0 = num_tokens_with_spec r + num_output_placeholders r - num_computed_tokens r;
          th = long_prefill_token_threshold cfg;
          n1 = (if 0 < th \<and> th < n0 then th else n0);
          n2 = min n1 budget
      in min n2 (max_model_len cfg - num_computed_tokens r - num_sampled_tokens_per_step cfg))"

definition schedule_spec :: "request \<Rightarrow> int \<Rightarrow> step_acc \<Rightarrow> step_acc" where
  "schedule_spec r n a =
     (let k = n + num_computed_tokens r - num_tokens r - num_output_placeholders r
      in if spec_token_ids r \<noteq> [] \<and> k > 0
         then a\<lparr>acc_spec := dict_set (request_id r)
                  (if int (length (spec_token_ids r)) > k then take (nat k) (spec_token_ids r) else spec_token_ids r) (acc_spec a)\<rparr>
         else a)"

definition record_running ::
  "'x sched_config \<Rightarrow> string \<Rightarrow> int \<Rightarrow> kv_cache_blocks \<Rightarrow> encoder_plan option \<Rightarrow> 'x scheduler \<Rightarrow> step_acc \<Rightarrow> ('x scheduler \<times> step_acc) result" where
  "record_running cfg rid n b plan s a =
     rbind (get_req s rid) (\<lambda>r.
       let a1 = a\<lparr>acc_running := acc_running a @ [rid], acc_blocks := dict_set rid b (acc_blocks a),
                  acc_tokens := dict_set rid n (acc_tokens a), token_budget := token_budget a - n\<rparr>;
           a2 = schedule_spec r n a1;
           r1 = (if spec_token_ids r \<noteq> [] then r\<lparr>spec_token_ids := []\<rparr> else r)
       in commit_encoder cfg r1 plan (put_req r1 s) a2)"

text \<open>The result says whether the loop goes on, and with which \<open>req_index\<close>.\<close>

definition run_step ::
  "'x sched_config \<Rightarrow> rat \<Rightarrow> 'x scheduler \<Rightarrow> step_acc \<Rightarrow> int \<Rightarrow> (bool \<times> 'x scheduler \<times> step_acc \<times> int) result" where
  "run_step cfg now s a idx =
     rbind (py_index (running s) idx) (\<lambda>rid.
     rbind (get_req s rid) (\<lambda>r.
       if async_done r then Inr (True, s, a, idx + 1)
       else if current_step s < next_decode_eligible_step r then Inr (True, s, a, idx + 1)
       else
         rbind (plan_encoder cfg r (num_computed_tokens r) (running_new_tokens cfg r (token_budget a)) (encoder_budget a) s)
           (\<lambda>(plan, n1, s1).
         let n = (if need_mamba_block_aligned_split cfg then mamba_block_aligned_split cfg r n1 0 0 0 else n1)
         in if n = 0 then Inr (True, s1, a, idx + 1)
            else
              rbind (allocate_or_preempt cfg now rid n s1 a idx) (\<lambda>(blocks, s2, a2, idx2).
                case blocks of
                  None \<Rightarrow> Inr (False, s2, a2, idx2)
                | Some b \<Rightarrow> rbind (record_running cfg rid n b plan s2 a2) (\<lambda>(s3, a3). Inr (True, s3, a3, idx2 + 1))))))"

lemma allocate_or_preempt_running:
  "allocate_or_preempt cfg now rid n s a idx = Inr (b, s', a', idx')
   \<Longrightarrow> int (length (running s')) - idx' \<le> int (length (running s)) - idx \<and> idx' \<le> idx"
proof (induction cfg now rid n s a idx arbitrary: b s' a' idx' rule: allocate_or_preempt.induct)
  case (1 cfg now rid n s a idx)
  from "1.prems" obtain blocks s1 where
    al: "allocate_for rid ((default_slot_args n)\<lparr>num_lookahead_tokens := lookahead_tokens cfg\<rparr>) s = Inr (blocks, s1)"
    by (subst (asm) allocate_or_preempt.simps) (auto simp: rbind_eq_Inr_iff)
  note run = allocate_for_running[OF al]
  show ?case
  proof (cases blocks)
    case (Some x)
    then show ?thesis using "1.prems" al run by (subst (asm) allocate_or_preempt.simps) auto
  next
    case None
    then obtain vid s2 a2 idx2 where p: "preempt_lowest cfg now s1 a idx = Inr (vid, s2, a2, idx2)"
      and rest: "(if vid = rid then Inr (None, s2, a2, idx2) else allocate_or_preempt cfg now rid n s2 a2 idx2) = Inr (b, s', a', idx')"
      using "1.prems" al by (subst (asm) allocate_or_preempt.simps) (auto simp: rbind_eq_Inr_iff)
    have step: "int (length (running s2)) - idx2 \<le> int (length (running s)) - idx \<and> idx2 \<le> idx"
      using preempt_lowest_running[OF p] run by (cases "running s") auto
    show ?thesis
    proof (cases "vid = rid")
      case False
      then have "allocate_or_preempt cfg now rid n s2 a2 idx2 = Inr (b, s', a', idx')" using rest by simp
      from "1.IH"[OF al refl None p refl refl refl False this] show ?thesis using step by linarith
    qed (use rest step in auto)
  qed
qed

lemma plan_encoder_running: "plan_encoder cfg r c n bud s = Inr (p, n', s') \<Longrightarrow> running s' = running s"
  by (auto simp: plan_encoder_def rbind_eq_Inr_iff split: if_splits)

lemma commit_encoder_running: "commit_encoder cfg r p s a = Inr (s', a') \<Longrightarrow> running s' = running s"
proof -
  have fold: "rfold (allocate_encoder cfg r) is s = Inr s' \<Longrightarrow> running s' = running s" for "is" s s'
    by (rule rfold_invariant[where P = "\<lambda>x. running x = running s"]) (auto simp: allocate_encoder_def rbind_eq_Inr_iff)
  show "commit_encoder cfg r p s a = Inr (s', a') \<Longrightarrow> running s' = running s"
    by (auto simp: commit_encoder_def rbind_eq_Inr_iff split: option.splits dest!: fold)
qed

lemma record_running_running: "record_running cfg rid n b plan s a = Inr (s', a') \<Longrightarrow> running s' = running s"
  by (auto simp: record_running_def rbind_eq_Inr_iff Let_def put_req_def dest!: commit_encoder_running split: if_splits)

lemma run_step_measure:
  assumes "run_step cfg now s a idx = Inr (True, s', a', idx')" "idx < int (length (running s))"
  shows "nat (int (length (running s')) - idx') < nat (int (length (running s)) - idx)"
proof -
  obtain rid r where r: "py_index (running s) idx = Inr rid" "get_req s rid = Inr r"
    using assms(1) by (auto simp: run_step_def rbind_eq_Inr_iff)
  show ?thesis
  proof (cases "async_done r \<or> current_step s < next_decode_eligible_step r")
    case True
    then show ?thesis using assms r by (auto simp: run_step_def split: if_splits)
  next
    case False
    then obtain plan n1 s1 where p: "plan_encoder cfg r (num_computed_tokens r) (running_new_tokens cfg r (token_budget a)) (encoder_budget a) s = Inr (plan, n1, s1)"
      using assms(1) r by (auto simp: run_step_def rbind_eq_Inr_iff)
    let ?n = "if need_mamba_block_aligned_split cfg then mamba_block_aligned_split cfg r n1 0 0 0 else n1"
    have l1: "length (running s1) = length (running s)" using plan_encoder_running[OF p] by simp
    show ?thesis
    proof (cases "?n = 0")
      case True
      then show ?thesis using assms r False p l1 by (auto simp: run_step_def Let_def)
    next
      case n: False
      then obtain b s2 a2 idx2 where al: "allocate_or_preempt cfg now rid ?n s1 a idx = Inr (Some b, s2, a2, idx2)"
        and rec: "record_running cfg rid ?n b plan s2 a2 = Inr (s', a')" "idx' = idx2 + 1"
        using assms(1) r False p by (auto simp: run_step_def rbind_eq_Inr_iff Let_def split: option.splits prod.splits)
      then show ?thesis using allocate_or_preempt_running[OF al] record_running_running[OF rec(1)] l1 assms(2) by (simp only: zless_nat_conj) linarith
    qed
  qed
qed

function run_loop ::
  "'x sched_config \<Rightarrow> rat \<Rightarrow> 'x scheduler \<Rightarrow> step_acc \<Rightarrow> int \<Rightarrow> ('x scheduler \<times> step_acc) result" where
  "run_loop cfg now s a idx =
     (if idx < int (length (running s)) \<and> token_budget a > 0
      then rbind (run_step cfg now s a idx) (\<lambda>(go, s', a', idx').
             if go then run_loop cfg now s' a' idx' else Inr (s', a'))
      else Inr (s, a))"
  by pat_completeness auto
termination
  by (relation "measure (\<lambda>(_, _, s, _, idx). nat (int (length (running s)) - idx))") (auto dest: run_step_measure)

declare run_loop.simps [simp del]

end
