(* ===== verification/Schedule_Waiting.thy ===== *)
theory Schedule_Waiting
  imports Schedule_Running
begin

section \<open>Scheduling the waiting requests\<close>

text \<open>
  The second loop of \<open>Scheduler.schedule\<close>: requests are taken from the waiting queues while the token
  budget and the limit of running requests allow it; a request that has to wait for something else
  is put aside for this step. The state of the loop is the scheduler, the local variables, the
  queue \<open>step_skipped_waiting\<close> and the LoRA adapters in use.
\<close>

subsection \<open>Blocked requests\<close>

definition request_remaining_blocks :: "'x sched_config \<Rightarrow> string \<Rightarrow> 'x scheduler \<Rightarrow> (int \<times> 'x scheduler) result" where
  "request_remaining_blocks cfg rid s =
     rbind (get_req s rid) (\<lambda>r.
       let full = min (num_tokens r) (max_model_len cfg); km = kv_mgr s
       in rbind (co_get_num_blocks_to_allocate rid full (replicate (num_kv_cache_groups km) []) 0 (num_computed_tokens r) full True
                   (km_coordinator km)) (\<lambda>(n, c). Inr (n, s\<lparr>kv_mgr := with_coordinator c km\<rparr>)))"

definition inflight_prefill_reserved_blocks :: "'x sched_config \<Rightarrow> 'x scheduler \<Rightarrow> (int \<times> 'x scheduler) result" where
  "inflight_prefill_reserved_blocks cfg s =
     rfold (\<lambda>rid (n, s). rbind (request_remaining_blocks cfg rid s) (\<lambda>(k, s'). Inr (n + k, s'))) (inflight_prefills s) (0, s)"

definition cache_request_blocks :: "request \<Rightarrow> 'x scheduler \<Rightarrow> (request \<times> 'x scheduler) result" where
  "cache_request_blocks r s =
     rbind (km_cache_blocks r (num_computed_tokens r) (kv_mgr s)) (\<lambda>(r', km). Inr (r', put_req r' (s\<lparr>kv_mgr := km\<rparr>)))"

definition update_waiting_for_remote_kv :: "'x sched_config \<Rightarrow> request \<Rightarrow> 'x scheduler \<Rightarrow> (request \<times> 'x scheduler) result" where
  "update_waiting_for_remote_kv cfg r s =
     rbind (rassert (connector cfg \<noteq> None)) (\<lambda>_.
     rbind (if request_id r \<in> failed_recving s
            then rbind (if num_computed_tokens r \<noteq> 0 then cache_request_blocks r s
                        else rbind (km_free r (kv_mgr s)) (\<lambda>km. Inr (r, s\<lparr>kv_mgr := km\<rparr>))) (\<lambda>(r1, s1).
                   Inr (r1, s1\<lparr>failed_recving := failed_recving s1 - {request_id r}\<rparr>))
            else rbind (cache_request_blocks r s) (\<lambda>(r1, s1).
                   let r2 = (if num_computed_tokens r1 = num_tokens r1 then r1\<lparr>num_computed_tokens := num_tokens r1 - 1\<rparr> else r1)
                   in Inr (r2, put_req r2 s1))) (\<lambda>(r1, s1).
       if request_id r \<in> finished_recving s1
       then Inr (r1, s1\<lparr>finished_recving := finished_recving s1 - {request_id r}\<rparr>)
       else Inl KeyError))"

definition try_promote_blocked_waiting_request ::
  "'x sched_config \<Rightarrow> request \<Rightarrow> 'x scheduler \<Rightarrow> (bool \<times> 'x scheduler) result" where
  "try_promote_blocked_waiting_request cfg r s =
     (if status r = WAITING_FOR_REMOTE_KVS
      then if request_id r \<notin> finished_recving s then Inr (False, s)
           else rbind (update_waiting_for_remote_kv cfg r s) (\<lambda>(r1, s1).
                  Inr (True, put_req (r1\<lparr>status := (if num_preemptions r1 \<noteq> 0 then PREEMPTED else WAITING)\<rparr>) s1))
      else if status r = WAITING_FOR_STRUCTURED_OUTPUT_GRAMMAR
      then if \<not> (structured_output_request r \<noteq> None \<and> grammar_ready cfg r (world s)) then Inr (False, s)
           else Inr (True, put_req (r\<lparr>status := WAITING\<rparr>) s)
      else if status r = WAITING_FOR_STREAMING_REQ
      then rbind (rassert (dict_get_default (streaming_queues s) (request_id r) [] = [])) (\<lambda>_. Inr (False, s))
      else Inl AssertionError)"

subsection \<open>Cached tokens of a waiting request\<close>

definition local_hit :: "'x sched_config \<Rightarrow> request \<Rightarrow> 'x scheduler \<Rightarrow> ((kv_cache_blocks \<times> int) \<times> 'x scheduler) result" where
  "local_hit cfg r s =
     (let km = kv_mgr s; c = km_coordinator km in
      case (connector cfg, has_mamba_layers cfg, co_class c) of
        (Some k, True, HybridKVCacheCoordinator hbs gs) \<Rightarrow>
          rbind (find_longest_cache_hit_per_group hbs gs (block_hashes r) (num_tokens r - 1) c) (\<lambda>(computed, lens).
          rbind (if lens = [] then Inl ValueError else Inr (Max (set lens))) (\<lambda>n.
          rbind (if km_log_stats km
                 then (case km_stats km of
                         None \<Rightarrow> Inl AssertionError
                       | Some st \<Rightarrow> Inr (s\<lparr>kv_mgr := km\<lparr>km_stats := Some (stats_record (num_tokens r) n (num_preemptions r > 0) st)\<rparr>\<rparr>))
                 else Inr s) (\<lambda>s1. Inr ((create_kv_cache_blocks km computed, n), s1))))
      | _ \<Rightarrow>
          (case get_computed_blocks r km of
             None \<Rightarrow> Inl Diverge
           | Some res \<Rightarrow> rbind res (\<lambda>(x, km'). Inr (x, s\<lparr>kv_mgr := km'\<rparr>))))"

record wait_hit =
  wh_blocks :: kv_cache_blocks
  wh_local :: int
  wh_external :: int
  wh_async :: bool
  wh_queries :: int
  wh_hits :: int
  wh_computed :: int
  wh_uncached_common :: int

text \<open>The tokens an external cache has; \<open>None\<close> when the connector cannot tell yet.\<close>

definition external_hit ::
  "'x sched_config \<Rightarrow> request \<Rightarrow> int \<Rightarrow> 'x scheduler \<Rightarrow> (int \<times> bool \<times> int \<times> int) option \<times> 'x scheduler" where
  "external_hit cfg r local_toks s =
     (case connector cfg of
        None \<Rightarrow> (Some (0, False, 0, 0), s)
      | Some c \<Rightarrow>
          (case kvc_get_num_new_matched_tokens c r local_toks (world s) of ((e, async), w) \<Rightarrow>
             (map_option (\<lambda>n. (n, async, num_tokens r - local_toks, n)) e, s\<lparr>world := w\<rparr>)))"

definition ec_available :: "'x sched_config \<Rightarrow> request \<Rightarrow> int \<Rightarrow> 'x scheduler \<Rightarrow> bool \<times> 'x scheduler" where
  "ec_available cfg r computed s =
     (case ec_conn cfg of
        None \<Rightarrow> (True, s)
      | Some c \<Rightarrow>
          if mm_features r = [] then (True, s)
          else (case ecc_ensure_cache_available c r computed (world s) of (ok, w) \<Rightarrow> (ok, s\<lparr>world := w\<rparr>)))"

definition prefill_stats_set :: "int \<Rightarrow> int \<Rightarrow> int \<Rightarrow> prefill_stats result" where
  "prefill_stats_set num_prompt local_toks external_toks =
     rbind (rassert (local_toks + external_toks \<le> num_prompt)) (\<lambda>_.
       Inr \<lparr>ps_num_prompt_tokens = num_prompt, ps_num_computed_tokens = num_prompt - (local_toks + external_toks),
            ps_num_cached_tokens = local_toks + external_toks, ps_num_local_cached_tokens = local_toks,
            ps_num_external_cached_tokens = external_toks\<rparr>)"

definition set_prefill_stats :: "request \<Rightarrow> int \<Rightarrow> int \<Rightarrow> 'x scheduler \<Rightarrow> 'x scheduler result" where
  "set_prefill_stats r local_toks external_toks s =
     (case dict_get (prefill_stats_of s) (request_id r) of
        None \<Rightarrow> Inr s
      | Some _ \<Rightarrow>
          rbind (rassert (local_toks + external_toks \<le> num_prompt_tokens r)) (\<lambda>_.
          rbind (prefill_stats_set (num_prompt_tokens r) local_toks external_toks) (\<lambda>ps.
            Inr (s\<lparr>prefill_stats_of := dict_set (request_id r) ps (prefill_stats_of s)\<rparr>))))"

definition lookup_hits :: "'x sched_config \<Rightarrow> request \<Rightarrow> 'x scheduler \<Rightarrow> (wait_hit option \<times> 'x scheduler) result" where
  "lookup_hits cfg r s =
     (if num_computed_tokens r = 0
      then
        rbind (local_hit cfg r s) (\<lambda>((blocks, l), s1).
          let common = (if has_mamba_layers cfg
                        then (case num_uncached_common_prefix_tokens (km_coordinator (kv_mgr s1)) of None \<Rightarrow> 0 | Some n \<Rightarrow> n)
                        else 0)
          in case external_hit cfg r l s1 of
               (None, s2) \<Rightarrow> Inr (None, s2)
             | (Some (e, async, q, h), s2) \<Rightarrow>
                 rbind (rassert (l + e \<le> num_tokens r)) (\<lambda>_.
                   case ec_available cfg r (l + e) s2 of (ok, s3) \<Rightarrow>
                     if \<not> ok then Inr (None, s3)
                     else rbind (set_prefill_stats r l e s3) (\<lambda>s4.
                       Inr (Some \<lparr>wh_blocks = blocks, wh_local = l, wh_external = e, wh_async = async, wh_queries = q,
                                  wh_hits = h, wh_computed = l + e, wh_uncached_common = common\<rparr>, s4))))
      else Inr (Some \<lparr>wh_blocks = Empty_KV_Cache_Blocks (num_kv_cache_groups (kv_mgr s)), wh_local = 0, wh_external = 0,
                      wh_async = False, wh_queries = 0, wh_hits = 0, wh_computed = num_computed_tokens r,
                      wh_uncached_common = 0\<rparr>, s))"

subsection \<open>Tokens for a waiting request\<close>

text \<open>The number of tokens to schedule and the encoder plan; \<open>None\<close> when the loop has to stop.\<close>

definition waiting_new_tokens :: "'x sched_config \<Rightarrow> request \<Rightarrow> wait_hit \<Rightarrow> int" where
  "waiting_new_tokens cfg r hit =
     (let n0 = num_tokens r - wh_computed hit; th = long_prefill_token_threshold cfg
      in if 0 < th \<and> th < n0 then th else n0)"

definition wait_tokens ::
  "'x sched_config \<Rightarrow> request \<Rightarrow> wait_hit \<Rightarrow> step_acc \<Rightarrow> 'x scheduler \<Rightarrow> ((int \<times> encoder_plan option) option \<times> 'x scheduler) result" where
  "wait_tokens cfg r hit a s =
     (if wh_async hit
      then rbind (rassert (wh_external hit > 0)) (\<lambda>_. Inr (Some (0, None), s))
      else
        let n1 = waiting_new_tokens cfg r hit
        in if \<not> enable_chunked_prefill cfg \<and> n1 > token_budget a then Inr (None, s)
           else
             let n2 = min n1 (token_budget a)
             in rbind (rassert (n2 > 0)) (\<lambda>_.
                rbind (plan_encoder cfg r (wh_computed hit) n2 (encoder_budget a) s) (\<lambda>(plan, n3, s1).
                  if has_encoder_inputs r \<and> n3 = 0 then Inr (None, s1)
                  else if need_mamba_block_aligned_split cfg
                  then let n4 = mamba_block_aligned_split cfg r n3 (wh_local hit) (wh_external hit) (wh_uncached_common hit)
                       in Inr (if n4 = 0 then None else Some (n4, plan), s1)
                  else Inr (Some (n3, plan), s1))))"

definition num_encoder_tokens_of :: "'x sched_config \<Rightarrow> request \<Rightarrow> encoder_plan option \<Rightarrow> int result" where
  "num_encoder_tokens_of cfg r plan =
     (case plan of
        None \<Rightarrow> Inr 0
      | Some p \<Rightarrow>
          if encoder_decoder cfg \<and> has_encoder_inputs r \<and> to_schedule p \<noteq> []
          then rbind (rmap (get_num_encoder_embeds r) (to_schedule p)) (\<lambda>es. Inr (sum_list es))
          else Inr 0)"

definition wait_slot_args :: "'x sched_config \<Rightarrow> wait_hit \<Rightarrow> int \<Rightarrow> int \<Rightarrow> int \<Rightarrow> bool \<Rightarrow> slot_args" where
  "wait_slot_args cfg hit n enc_tokens reserved any_running =
     \<lparr>num_new_tokens = n, num_new_computed_tokens = wh_local hit, new_computed_blocks = Some (wh_blocks hit),
      num_lookahead_tokens = (if wh_async hit \<and> use_eagle cfg then 0 else lookahead_tokens cfg),
      num_external_computed_tokens = wh_external hit, delay_cache_blocks = wh_async hit,
      num_encoder_tokens = enc_tokens, full_sequence_must_fit = scheduler_reserve_full_isl cfg,
      reserved_blocks = reserved, has_scheduled_reqs = any_running\<rparr>"

definition notify_connector :: "'x sched_config \<Rightarrow> request \<Rightarrow> wait_hit \<Rightarrow> 'x scheduler \<Rightarrow> 'x scheduler" where
  "notify_connector cfg r hit s =
     (case connector cfg of
        None \<Rightarrow> s
      | Some c \<Rightarrow>
          s\<lparr>world := kvc_update_state_after_alloc c r (km_get_blocks (request_id r) (kv_mgr s)) (wh_external hit) (world s),
            connector_stats := (if wh_queries hit \<noteq> 0
                                then map_option (stats_record (wh_queries hit) (wh_hits hit) (num_preemptions r > 0)) (connector_stats s)
                                else connector_stats s)\<rparr>)"

subsection \<open>One waiting request\<close>

type_synonym 'x wait_state = "'x scheduler \<times> step_acc \<times> request_queue \<times> int set"

definition skip_waiting :: "bool \<Rightarrow> request \<Rightarrow> 'x wait_state \<Rightarrow> (bool \<times> 'x wait_state) result" where
  "skip_waiting b r = (\<lambda>(s, a, k, loras).
     rbind (pop_queue b s) (\<lambda>(_, s1). Inr (True, s1, a, rq_prepend k r, loras)))"

text \<open>The request has its blocks: it starts to load or to run.\<close>

definition start_async_load :: "request \<Rightarrow> wait_hit \<Rightarrow> 'x wait_state \<Rightarrow> 'x wait_state" where
  "start_async_load r hit = (\<lambda>(s, a, k, loras).
     let r1 = r\<lparr>status := WAITING_FOR_REMOTE_KVS, num_computed_tokens := wh_computed hit\<rparr>
     in (add_inflight (request_id r) (put_req r1 s), a, rq_prepend k r1, loras))"

definition start_running ::
  "'x sched_config \<Rightarrow> rat \<Rightarrow> request \<Rightarrow> wait_hit \<Rightarrow> int \<Rightarrow> encoder_plan option \<Rightarrow> 'x wait_state \<Rightarrow> 'x wait_state result" where
  "start_running cfg now r hit n plan = (\<lambda>(s, a, k, loras).
     let rid = request_id r;
         r1 = (if log_stats cfg then record_event EV_SCHEDULED (Some now) now r else r)
     in rbind (if status r1 = WAITING then Inr (a\<lparr>acc_new := acc_new a @ [rid]\<rparr>)
               else if status r1 = PREEMPTED then Inr (a\<lparr>acc_resumed := acc_resumed a @ [rid]\<rparr>)
               else Inl RuntimeError) (\<lambda>a1.
        let loras1 = (case (max_loras cfg, req_lora_request r1) of (Some _, Some l) \<Rightarrow> insert (lora_int_id l) loras | _ \<Rightarrow> loras);
            a2 = a1\<lparr>acc_blocks := dict_set rid (km_get_blocks rid (kv_mgr s)) (acc_blocks a1),
                    acc_tokens := dict_set rid n (acc_tokens a1), token_budget := token_budget a1 - n\<rparr>;
            r2 = r1\<lparr>status := RUNNING, num_computed_tokens := wh_computed hit\<rparr>;
            s1 = put_req r2 (s\<lparr>running := running s @ [rid]\<rparr>);
            s2 = (if wh_computed hit + n < num_tokens r2 then add_inflight rid s1 else s1)
        in rbind (commit_encoder cfg r2 plan s2 a2) (\<lambda>(s3, a3). Inr (s3, a3, k, loras1))))"

definition admit_waiting ::
  "'x sched_config \<Rightarrow> rat \<Rightarrow> bool \<Rightarrow> string \<Rightarrow> wait_hit \<Rightarrow> int \<Rightarrow> encoder_plan option \<Rightarrow> 'x wait_state \<Rightarrow> (bool \<times> 'x wait_state) result" where
  "admit_waiting cfg now b rid hit n plan = (\<lambda>(s, a, k, loras).
     rbind (get_req s rid) (\<lambda>r.
     rbind (num_encoder_tokens_of cfg r plan) (\<lambda>enc_tokens.
     rbind (if wh_async hit then inflight_prefill_reserved_blocks cfg s else Inr (0, s)) (\<lambda>(reserved, s1).
     rbind (allocate_for rid (wait_slot_args cfg hit n enc_tokens reserved (running s1 \<noteq> [])) s1) (\<lambda>(blocks, s2).
     rbind (get_req s2 rid) (\<lambda>r2.
       if blocks = None
       then rbind (if has_encoder_inputs r2 then enc_free_request cfg r2 s2 else Inr s2) (\<lambda>s3. Inr (False, s3, a, k, loras))
       else
         rbind (pop_queue b (notify_connector cfg r2 hit s2)) (\<lambda>(_, s3).
           if wh_async hit then Inr (True, start_async_load r2 hit (s3, a, k, loras))
           else rbind (start_running cfg now r2 hit n plan (s3, a, k, loras)) (\<lambda>st. Inr (True, st)))))))))"

definition lora_full :: "'x sched_config \<Rightarrow> request \<Rightarrow> int set \<Rightarrow> bool" where
  "lora_full cfg r loras \<longleftrightarrow>
     (case (max_loras cfg, req_lora_request r) of
        (Some m, Some l) \<Rightarrow> int (card loras) = m \<and> lora_int_id l \<notin> loras
      | _ \<Rightarrow> False)"

definition consider_waiting ::
  "'x sched_config \<Rightarrow> rat \<Rightarrow> bool \<Rightarrow> request \<Rightarrow> 'x wait_state \<Rightarrow> (bool \<times> 'x wait_state) result" where
  "consider_waiting cfg now b r = (\<lambda>(s, a, k, loras).
     if lora_full cfg r loras then skip_waiting b r (s, a, k, loras)
     else
       rbind (lookup_hits cfg r s) (\<lambda>(found, s1).
       case found of
         None \<Rightarrow> skip_waiting b r (s1, a, k, loras)
       | Some hit \<Rightarrow>
           rbind (wait_tokens cfg r hit a s1) (\<lambda>(toks, s2).
           case toks of
             None \<Rightarrow> Inr (False, s2, a, k, loras)
           | Some (n, plan) \<Rightarrow> admit_waiting cfg now b (request_id r) hit n plan (s2, a, k, loras))))"

definition wait_step :: "'x sched_config \<Rightarrow> rat \<Rightarrow> 'x wait_state \<Rightarrow> (bool \<times> 'x wait_state) result" where
  "wait_step cfg now = (\<lambda>(s, a, k, loras).
     rbind (select_waiting_queue cfg s) (\<lambda>sel.
     rbind (case sel of None \<Rightarrow> Inl AssertionError | Some b \<Rightarrow> Inr b) (\<lambda>b.
     rbind (rq_peek (the_queue b s)) (\<lambda>r0.
     rbind (get_req s (request_id r0)) (\<lambda>r.
     rbind (if is_blocked_waiting_status (status r) then try_promote_blocked_waiting_request cfg r s else Inr (True, s)) (\<lambda>(ok, s1).
     rbind (get_req s1 (request_id r0)) (\<lambda>r1.
       if \<not> ok then skip_waiting b r1 (s1, a, k, loras) else consider_waiting cfg now b r1 (s1, a, k, loras))))))))"

subsection \<open>What a step keeps of the queues\<close>

definition same_queues :: "'x scheduler \<Rightarrow> 'x scheduler \<Rightarrow> bool" where
  "same_queues s s' \<longleftrightarrow> waiting s' = waiting s \<and> skipped_waiting s' = skipped_waiting s \<and> running s' = running s"

lemma same_queues_refl [simp]: "same_queues s s"
  by (simp add: same_queues_def)

lemma same_queues_trans [trans]: "same_queues s t \<Longrightarrow> same_queues t u \<Longrightarrow> same_queues s u"
  by (simp add: same_queues_def)

text \<open>\<open>same_core\<close>: the requests are the same too.\<close>

definition same_core :: "'x scheduler \<Rightarrow> 'x scheduler \<Rightarrow> bool" where
  "same_core s s' \<longleftrightarrow> same_queues s s' \<and> requests s' = requests s"

lemma same_core_refl [simp]: "same_core s s"
  by (simp add: same_core_def)

lemma same_core_trans [trans]: "same_core s t \<Longrightarrow> same_core t u \<Longrightarrow> same_core s u"
  by (auto simp: same_core_def intro: same_queues_trans)

lemma same_core_queues: "same_core s s' \<Longrightarrow> same_queues s s'"
  by (simp add: same_core_def)

named_theorems queue_frame \<open>operations that keep the queues\<close>

lemma put_req_same [simp]: "same_queues s (put_req r s)"
  by (simp add: put_req_def same_queues_def)

lemma put_req_upd [simp]: "same_queues s (put_req r (s\<lparr>kv_mgr := km\<rparr>))"
  by (simp add: put_req_def same_queues_def)

lemma allocate_for_same [queue_frame]: "allocate_for rid args s = Inr (b, s') \<Longrightarrow> same_queues s s'"
  by (auto simp: allocate_for_def rbind_eq_Inr_iff)

lemma enc_free_request_same [queue_frame]: "enc_free_request cfg r s = Inr s' \<Longrightarrow> same_core s s'"
  by (auto simp: enc_free_request_def rbind_eq_Inr_iff same_core_def same_queues_def)

lemma plan_encoder_same [queue_frame]: "plan_encoder cfg r c n bud s = Inr (p, n', s') \<Longrightarrow> same_core s s'"
  by (auto simp: plan_encoder_def rbind_eq_Inr_iff same_core_def same_queues_def split: if_splits)

lemma commit_encoder_same [queue_frame]: "commit_encoder cfg r p s a = Inr (s', a') \<Longrightarrow> same_core s s'"
proof -
  have fold: "rfold (allocate_encoder cfg r) is s = Inr s' \<Longrightarrow> same_core s s'" for "is" s s'
    by (rule rfold_invariant[where P = "\<lambda>x. same_core s x"]) (auto simp: allocate_encoder_def rbind_eq_Inr_iff same_core_def same_queues_def)
  show "commit_encoder cfg r p s a = Inr (s', a') \<Longrightarrow> same_core s s'"
    by (auto simp: commit_encoder_def rbind_eq_Inr_iff split: option.splits dest!: fold intro: same_core_trans)
qed

lemma request_remaining_blocks_same [queue_frame]: "request_remaining_blocks cfg rid s = Inr (n, s') \<Longrightarrow> same_core s s'"
  by (auto simp: request_remaining_blocks_def rbind_eq_Inr_iff Let_def same_core_def same_queues_def)

lemma inflight_same [queue_frame]: "inflight_prefill_reserved_blocks cfg s = Inr (n, s') \<Longrightarrow> same_core s s'"
  unfolding inflight_prefill_reserved_blocks_def
  using rfold_invariant[where P = "\<lambda>x. same_core s (snd x)" and s = "(0, s)"
      and f = "\<lambda>rid (n, s). rbind (request_remaining_blocks cfg rid s) (\<lambda>(k, s'). Inr (n + k, s'))"]
  by (fastforce simp: rbind_eq_Inr_iff dest: request_remaining_blocks_same intro: same_core_trans)

lemma cache_request_blocks_same [queue_frame]: "cache_request_blocks r s = Inr (r', s') \<Longrightarrow> same_queues s s'"
  by (auto simp: cache_request_blocks_def rbind_eq_Inr_iff)

lemma update_waiting_same [queue_frame]: "update_waiting_for_remote_kv cfg r s = Inr (r', s') \<Longrightarrow> same_queues s s'"
  by (auto simp: update_waiting_for_remote_kv_def rbind_eq_Inr_iff Let_def same_queues_def put_req_def
      split: if_splits dest!: cache_request_blocks_same)

lemma try_promote_same [queue_frame]: "try_promote_blocked_waiting_request cfg r s = Inr (ok, s') \<Longrightarrow> same_queues s s'"
  by (auto simp: try_promote_blocked_waiting_request_def rbind_eq_Inr_iff put_req_def same_queues_def
      split: if_splits dest!: update_waiting_same)

lemma local_hit_same [queue_frame]: "local_hit cfg r s = Inr (x, s') \<Longrightarrow> same_core s s'"
  by (auto simp: local_hit_def rbind_eq_Inr_iff Let_def same_core_def same_queues_def
      split: if_splits option.splits bool.splits coordinator_class.splits prod.splits)

lemma external_hit_same [queue_frame]: "external_hit cfg r l s = (x, s') \<Longrightarrow> same_core s s'"
  by (auto simp: external_hit_def same_core_def same_queues_def split: option.splits prod.splits)

lemma ec_available_same [queue_frame]: "ec_available cfg r c s = (ok, s') \<Longrightarrow> same_core s s'"
  by (auto simp: ec_available_def same_core_def same_queues_def split: option.splits prod.splits if_splits)

lemma set_prefill_stats_same [queue_frame]: "set_prefill_stats r l e s = Inr s' \<Longrightarrow> same_core s s'"
  by (auto simp: set_prefill_stats_def same_core_def same_queues_def rbind_eq_Inr_iff split: option.splits)

lemma lookup_hits_same [queue_frame]:
  assumes "lookup_hits cfg r s = Inr (x, s')"
  shows "same_core s s'"
proof (cases "num_computed_tokens r = 0")
  case False
  then show ?thesis using assms by (auto simp: lookup_hits_def)
next
  case True
  then obtain bl l s1 where l: "local_hit cfg r s = Inr ((bl, l), s1)" using assms by (auto simp: lookup_hits_def rbind_eq_Inr_iff)
  obtain m s2 where m: "external_hit cfg r l s1 = (m, s2)" by fastforce
  have s2: "same_core s s2" using local_hit_same[OF l] external_hit_same[OF m] by (rule same_core_trans)
  show ?thesis
  proof (cases m)
    case None
    then show ?thesis using assms True l m s2 by (auto simp: lookup_hits_def Let_def)
  next
    case (Some t)
    obtain e async q h where t: "t = (e, async, q, h)" by (cases t)
    obtain ok s3 where o: "ec_available cfg r (l + e) s2 = (ok, s3)" by fastforce
    then have s3: "same_core s s3" using s2 ec_available_same same_core_trans by blast
    show ?thesis using assms True l m Some t o s3
      by (auto simp: lookup_hits_def Let_def rbind_eq_Inr_iff split: if_splits intro: same_core_trans dest!: set_prefill_stats_same)
  qed
qed

lemma wait_tokens_same [queue_frame]: "wait_tokens cfg r hit a s = Inr (x, s') \<Longrightarrow> same_core s s'"
  by (auto simp: wait_tokens_def rbind_eq_Inr_iff Let_def split: if_splits dest!: plan_encoder_same)

lemma notify_connector_same [simp]: "same_core s (notify_connector cfg r hit s)"
  by (simp add: notify_connector_def same_core_def same_queues_def split: option.splits)

definition queued :: "'x scheduler \<Rightarrow> nat" where
  "queued s = nat (rq_len (waiting s)) + nat (rq_len (skipped_waiting s))"

lemma queued_same: "same_queues s s' \<Longrightarrow> queued s' = queued s"
  by (simp add: same_queues_def queued_def)

lemma rq_pop_len: "rq_pop q = Inr (r, q') \<Longrightarrow> nat (rq_len q') < nat (rq_len q)"
proof (cases q)
  case (FCFSRequestQueue xs)
  then show "rq_pop q = Inr (r, q') \<Longrightarrow> nat (rq_len q') < nat (rq_len q)"
    by (cases xs) (auto simp: fcfs_pop_request_def)
next
  case (PriorityRequestQueue xs)
  then show "rq_pop q = Inr (r, q') \<Longrightarrow> nat (rq_len q') < nat (rq_len q)"
    using heappop_length[of request_lt xs] by (cases "heappop request_lt xs") (auto simp: prio_pop_request_def split: if_splits)
qed

lemma pop_queue_queued: "pop_queue b s = Inr (r, s') \<Longrightarrow> queued s' < queued s"
  using rq_pop_len by (fastforce simp: pop_queue_def rbind_eq_Inr_iff the_queue_def queued_def split: if_splits)

lemma start_running_queued: "start_running cfg now r hit n plan (s, a, k, l) = Inr (s', a', k', l') \<Longrightarrow> queued s' = queued s"
  by (auto simp: start_running_def rbind_eq_Inr_iff Let_def queued_def put_req_def add_inflight_def same_core_def same_queues_def
      split: if_splits dest!: commit_encoder_same)

lemma admit_waiting_queued:
  assumes "admit_waiting cfg now b rid hit n plan (s, a, k, l) = Inr (True, s', a', k', l')"
  shows "queued s' < queued s"
proof -
  obtain r enc reserved s1 blocks s2 r2 s3 x where
    e: "(if wh_async hit then inflight_prefill_reserved_blocks cfg s else Inr (0, s)) = Inr (reserved, s1)"
    "allocate_for rid (wait_slot_args cfg hit n enc reserved (running s1 \<noteq> [])) s1 = Inr (blocks, s2)"
    "pop_queue b (notify_connector cfg r2 hit s2) = Inr (x, s3)"
    "(if wh_async hit then Inr (True, start_async_load r2 hit (s3, a, k, l))
      else rbind (start_running cfg now r2 hit n plan (s3, a, k, l)) (\<lambda>st. Inr (True, st))) = Inr (True, s', a', k', l')"
    using assms by (auto simp: admit_waiting_def rbind_eq_Inr_iff split: if_splits)
  have "same_queues s s1" using e(1) same_core_queues[OF inflight_same] by (auto split: if_splits)
  then have "same_queues s (notify_connector cfg r2 hit s2)"
    using allocate_for_same[OF e(2)] same_queues_trans same_core_queues[OF notify_connector_same] by blast
  then have "queued s3 < queued s" using pop_queue_queued[OF e(3)] queued_same by fastforce
  moreover have "queued s' = queued s3"
    using e(4) start_running_queued[of cfg now r2 hit n plan s3 a k l]
    by (auto simp: start_async_load_def queued_def put_req_def add_inflight_def rbind_eq_Inr_iff Let_def split: if_splits)
  ultimately show ?thesis by simp
qed

lemma skip_waiting_queued:
  "skip_waiting b r (s, a, k, l) = Inr (go, s', a', k', l') \<Longrightarrow> queued s' < queued s"
  by (auto simp: skip_waiting_def rbind_eq_Inr_iff dest: pop_queue_queued)

lemma consider_waiting_queued:
  assumes "consider_waiting cfg now b r (s, a, k, l) = Inr (True, s', a', k', l')"
  shows "queued s' < queued s"
proof (cases "lora_full cfg r l")
  case True
  then show ?thesis using assms skip_waiting_queued by (auto simp: consider_waiting_def)
next
  case False
  then obtain found s1 where f: "lookup_hits cfg r s = Inr (found, s1)" using assms by (auto simp: consider_waiting_def rbind_eq_Inr_iff)
  note q1 = queued_same[OF same_core_queues[OF lookup_hits_same[OF f]]]
  show ?thesis
  proof (cases found)
    case None
    then show ?thesis using assms False f skip_waiting_queued q1 by (fastforce simp: consider_waiting_def)
  next
    case (Some hit)
    then obtain n plan s2 where w: "wait_tokens cfg r hit a s1 = Inr (Some (n, plan), s2)"
      "admit_waiting cfg now b (request_id r) hit n plan (s2, a, k, l) = Inr (True, s', a', k', l')"
      using assms False f by (auto simp: consider_waiting_def rbind_eq_Inr_iff split: option.splits)
    then show ?thesis using admit_waiting_queued[OF w(2)] queued_same[OF same_core_queues[OF wait_tokens_same[OF w(1)]]] q1 by simp
  qed
qed

lemma wait_step_queued:
  assumes "wait_step cfg now (s, a, k, l) = Inr (True, s', a', k', l')"
  shows "queued s' < queued s"
proof -
  obtain b r ok s1 r1 where
    e: "(if is_blocked_waiting_status (status r) then try_promote_blocked_waiting_request cfg r s else Inr (True, s)) = Inr (ok, s1)"
    "(if \<not> ok then skip_waiting b r1 (s1, a, k, l) else consider_waiting cfg now b r1 (s1, a, k, l)) = Inr (True, s', a', k', l')"
    using assms by (auto simp: wait_step_def rbind_eq_Inr_iff)
  have "queued s1 = queued s" using e(1) by (auto split: if_splits dest!: try_promote_same queued_same)
  then show ?thesis using e(2) skip_waiting_queued consider_waiting_queued by (fastforce split: if_splits)
qed

text \<open>The loop over the waiting requests.\<close>

function wait_loop :: "'x sched_config \<Rightarrow> rat \<Rightarrow> 'x wait_state \<Rightarrow> 'x wait_state result" where
  "wait_loop cfg now (s, a, k, loras) =
     (if (rq_bool (waiting s) \<or> rq_bool (skipped_waiting s)) \<and> token_budget a > 0
      then if int (length (running s)) = max_num_running_reqs cfg then Inr (s, a, k, loras)
           else rbind (wait_step cfg now (s, a, k, loras)) (\<lambda>(go, s', a', k', loras').
                  if go then wait_loop cfg now (s', a', k', loras') else Inr (s', a', k', loras'))
      else Inr (s, a, k, loras))"
  by pat_completeness auto
termination by (relation "measure (\<lambda>(_, _, s, _). queued s)") (auto dest: wait_step_queued)

declare wait_loop.simps [simp del]

end
