(* ===== verification/Scheduler_Step.thy ===== *)
theory Scheduler_Step
  imports Schedule_Waiting
begin

section \<open>The scheduling step\<close>

text \<open>
  \<open>Scheduler.schedule\<close> as a whole: the two loops, the assertions on their result, the output for the
  workers (\<open>vllm/v1/core/sched/output.py\<close>) and the update of the scheduled requests, with the overrides of
  \<open>AsyncScheduler\<close>, which is the scheduler's class when \<open>async_scheduling\<close> is set. The block snapshot
  for routed experts is left out.
\<close>

subsection \<open>The scheduler output\<close>

definition from_request :: "request \<Rightarrow> int list list \<Rightarrow> int list option \<Rightarrow> new_request_data" where
  "from_request r ids prefill =
     \<lparr>nr_req_id = request_id r, nr_prompt_token_ids = prompt_token_ids r, nr_mm_features = mm_features r, nr_block_ids = ids,
      nr_num_computed_tokens = num_computed_tokens r, nr_prefill_token_ids = prefill\<rparr>"

definition new_req_data :: "'x sched_config \<Rightarrow> 'x scheduler \<Rightarrow> step_acc \<Rightarrow> string \<Rightarrow> new_request_data result" where
  "new_req_data cfg s a rid =
     rbind (get_req s rid) (\<lambda>r.
     rbind (dict_index (acc_blocks a) rid) (\<lambda>b.
       Inr (from_request r (kcb_block_ids (km_pool (kv_mgr s)) b) (if use_v2_model_runner cfg then Some (all_token_ids r) else None))))"

text \<open>One pass of the loop of \<open>_make_cached_request_data\<close>; \<open>resumed\<close> tells the second part of the chain.\<close>

definition cached_req_step ::
  "'x sched_config \<Rightarrow> 'x scheduler \<Rightarrow> step_acc \<Rightarrow> bool \<Rightarrow> string \<Rightarrow> cached_request_data \<Rightarrow> cached_request_data result" where
  "cached_req_step cfg s a resumed rid d =
     rbind (get_req s rid) (\<lambda>r.
     rbind (if use_pp cfg \<and> \<not> async_scheduling cfg
            then rbind (dict_index (acc_tokens a) rid) (\<lambda>n.
                   let k = n - int (length (dict_get_default (acc_spec a) rid []))
                   in Inr (cr_new_token_ids d @ [py_slice (all_token_ids r) (num_computed_tokens r) (num_computed_tokens r + k)]))
            else Inr (cr_new_token_ids d)) (\<lambda>toks.
     let prev = (rid \<in> prev_step_scheduled_req_ids s) in
     rbind (rassert (\<not> (resumed \<and> prev))) (\<lambda>_.
     rbind (dict_index (acc_blocks a) rid) (\<lambda>b.
       Inr \<lparr>cr_req_ids = cr_req_ids d @ [rid],
            cr_resumed_req_ids = (if resumed then insert rid (cr_resumed_req_ids d) else cr_resumed_req_ids d),
            cr_new_token_ids = toks,
            cr_all_token_ids = (if prev then cr_all_token_ids d else dict_set rid (all_token_ids r) (cr_all_token_ids d)),
            cr_new_block_ids = cr_new_block_ids d @ [kcb_get_block_ids (km_pool (kv_mgr s)) True b],
            cr_num_computed_tokens = cr_num_computed_tokens d @ [num_computed_tokens r],
            cr_num_output_tokens = cr_num_output_tokens d @ [num_output_tokens r + num_output_placeholders r]\<rparr>))))"

definition make_cached_request_data ::
  "'x sched_config \<Rightarrow> 'x scheduler \<Rightarrow> step_acc \<Rightarrow> string list \<Rightarrow> string list \<Rightarrow> cached_request_data result" where
  "make_cached_request_data cfg s a running_ids resumed_ids =
     rbind (rfold (cached_req_step cfg s a False) running_ids
              \<lparr>cr_req_ids = [], cr_resumed_req_ids = {}, cr_new_token_ids = [], cr_all_token_ids = [], cr_new_block_ids = [],
               cr_num_computed_tokens = [], cr_num_output_tokens = []\<rparr>)
       (rfold (cached_req_step cfg s a True) resumed_ids)"

subsection \<open>After scheduling\<close>

definition advance_computed :: "string \<times> int \<Rightarrow> scheduler_output \<times> 'x scheduler \<Rightarrow> (scheduler_output \<times> 'x scheduler) result" where
  "advance_computed = (\<lambda>(rid, n) (out, s).
     rbind (get_req s rid) (\<lambda>r.
       let r1 = r\<lparr>num_computed_tokens := num_computed_tokens r + n\<rparr>;
           r2 = r1\<lparr>is_prefill_chunk := (num_computed_tokens r1 < num_tokens r1 + num_output_placeholders r1)\<rparr>;
           out1 = out\<lparr>so_has_structured_output := so_has_structured_output out \<or> (use_structured_output r2 \<and> \<not> is_prefill_chunk r2)\<rparr>;
           s1 = put_req r2 s
       in Inr (out1, if is_prefill_chunk r2 then s1 else discard_inflight rid s1)))"

definition base_update_after_schedule :: "scheduler_output \<Rightarrow> 'x scheduler \<Rightarrow> (scheduler_output \<times> 'x scheduler) result" where
  "base_update_after_schedule out s =
     rbind (rfold advance_computed (so_num_scheduled_tokens out) (out, s)) (\<lambda>(out1, s1). Inr (out1, s1\<lparr>finished_req_ids := {}\<rparr>))"

text \<open>\<open>AsyncScheduler\<close> reserves placeholders for the tokens of the step.\<close>

definition async_placeholders ::
  "'x sched_config \<Rightarrow> string \<times> int \<Rightarrow> scheduler_output \<times> 'x scheduler \<Rightarrow> (scheduler_output \<times> 'x scheduler) result" where
  "async_placeholders cfg = (\<lambda>(rid, n) (out, s).
     rbind (get_req s rid) (\<lambda>r.
       if is_prefill_chunk r then Inr (out, s)
       else
         let out1 = out\<lparr>so_pending_structured_output := so_pending_structured_output out
                          \<or> (use_structured_output r \<and> num_output_placeholders r > 0)\<rparr>;
             k = int (length (dict_get_default (so_spec_decode_tokens out) rid []));
             r1 = r\<lparr>num_output_placeholders := num_output_placeholders r + (num_sampled_tokens_per_step cfg + k),
                    spec_token_ids := replicate (nat (num_spec_tokens cfg)) (- 1)\<rparr>;
             r2 = (if use_v2_model_runner cfg then r1\<lparr>next_decode_eligible_step := current_step s + pp_size cfg\<rparr> else r1)
         in Inr (out1, put_req r2 s)))"

definition update_after_schedule :: "'x sched_config \<Rightarrow> scheduler_output \<Rightarrow> 'x scheduler \<Rightarrow> (scheduler_output \<times> 'x scheduler) result" where
  "update_after_schedule cfg out s =
     rbind (base_update_after_schedule out s) (\<lambda>(out1, s1).
       if async_scheduling cfg then rfold (async_placeholders cfg) (so_num_scheduled_tokens out1) (out1, s1)
       else Inr (out1, s1))"

subsection \<open>The scheduling step\<close>

definition initial_acc :: "'x sched_config \<Rightarrow> 'x scheduler \<Rightarrow> step_acc" where
  "initial_acc cfg s =
     \<lparr>acc_new = [], acc_resumed = [], acc_running = [], acc_preempted = [], acc_blocks = [], acc_tokens = [],
      token_budget = (if pause s = PAUSED_ALL then 0 else max_num_scheduled_tokens cfg),
      acc_encoder = [], encoder_budget = max_num_encoder_input cfg, acc_spec = []\<rparr>"

definition running_loras :: "'x sched_config \<Rightarrow> string list \<Rightarrow> 'x scheduler \<Rightarrow> int set result" where
  "running_loras cfg ids s =
     (case max_loras cfg of
        None \<Rightarrow> Inr {}
      | Some m \<Rightarrow>
          rbind (rmap (get_req s) ids) (\<lambda>rs.
            let loras = set (filter (\<lambda>i. i > 0) (map lora_int_id (List.map_filter req_lora_request rs)))
            in rbind (rassert (int (card loras) \<le> m)) (\<lambda>_. Inr loras)))"

text \<open>The two loops of \<open>schedule\<close>.\<close>

definition schedule_loops :: "'x sched_config \<Rightarrow> rat \<Rightarrow> 'x scheduler \<Rightarrow> ('x scheduler \<times> step_acc) result" where
  "schedule_loops cfg now s =
     rbind (run_loop cfg now s (initial_acc cfg s) 0) (\<lambda>(s1, a1).
     rbind (running_loras cfg (acc_running a1) s1) (\<lambda>loras.
       if acc_preempted a1 = [] \<and> pause s1 = UNPAUSED
       then rbind (wait_loop cfg now (s1, a1, create_request_queue (policy cfg), loras)) (\<lambda>(s2, a2, k, _).
              Inr (if rq_bool k then s2\<lparr>skipped_waiting := rq_prepend_requests (skipped_waiting s2) k\<rparr> else s2, a2))
       else Inr (s1, a1)))"

definition total_scheduled :: "step_acc \<Rightarrow> int" where
  "total_scheduled a = sum_list (map snd (acc_tokens a))"

definition check_constraints :: "'x sched_config \<Rightarrow> 'x scheduler \<Rightarrow> step_acc \<Rightarrow> unit result" where
  "check_constraints cfg s a =
     rbind (rassert (total_scheduled a \<le> max_num_scheduled_tokens cfg)) (\<lambda>_.
     rbind (rassert (token_budget a \<ge> 0)) (\<lambda>_.
     rbind (rassert (int (length (running s)) \<le> max_num_running_reqs cfg)) (\<lambda>_.
       rassert (length (acc_new a) + length (acc_resumed a) + length (acc_running a) \<le> length (running s)))))"

definition take_freed_hashes :: "'x scheduler \<Rightarrow> string list \<times> 'x scheduler" where
  "take_freed_hashes s =
     (case enc_mgr s of
        EncoderCacheManager m \<Rightarrow> (case get_freed_mm_hashes m of (hs, m') \<Rightarrow> (hs, s\<lparr>enc_mgr := EncoderCacheManager m'\<rparr>))
      | EncoderDecoderCacheManager m \<Rightarrow>
          (case ed_get_freed_mm_hashes m of (hs, m') \<Rightarrow> (hs, s\<lparr>enc_mgr := EncoderDecoderCacheManager m'\<rparr>)))"

definition make_output :: "'x sched_config \<Rightarrow> 'x scheduler \<Rightarrow> step_acc \<Rightarrow> (scheduler_output \<times> 'x scheduler) result" where
  "make_output cfg s a =
     (let (common, s1) = (case running s of
             [] \<Rightarrow> (replicate (num_kv_cache_groups (kv_mgr s)) 0, s)
           | rid # _ \<Rightarrow> (case km_get_num_common_prefix_blocks rid (kv_mgr s) of (ns, km) \<Rightarrow> (ns, s\<lparr>kv_mgr := km\<rparr>)));
          new_ids = (if use_v2_model_runner cfg then acc_new a @ acc_resumed a else acc_new a);
          resumed_ids = (if use_v2_model_runner cfg then [] else acc_resumed a)
      in
      rbind (rmap (new_req_data cfg s1 a) new_ids) (\<lambda>new_data.
      rbind (make_cached_request_data cfg s1 a (acc_running a) resumed_ids) (\<lambda>cached_data.
        let s2 = s1\<lparr>prev_step_scheduled_req_ids := fst ` set (acc_tokens a)\<rparr>;
            (zero, s3) = (if needs_kv_cache_zeroing cfg
                          then (case km_take_new_block_ids (kv_mgr s2) of (ids, km) \<Rightarrow> (if ids = [] then None else Some ids, s2\<lparr>kv_mgr := km\<rparr>))
                          else (None, s2));
            (hashes, s4) = take_freed_hashes s3
        in Inr (\<lparr>so_new_reqs = new_data, so_cached_reqs = cached_data, so_num_scheduled_tokens = acc_tokens a,
                 so_total_num_scheduled_tokens = total_scheduled a, so_spec_decode_tokens = acc_spec a,
                 so_encoder_inputs = acc_encoder a, so_num_common_prefix_blocks = common,
                 so_preempted_req_ids = set (acc_preempted a), so_finished_req_ids = finished_req_ids s4,
                 so_free_encoder_mm_hashes = hashes, so_new_block_ids_to_zero = zero,
                 so_has_structured_output = False, so_pending_structured_output = False,
                 so_num_invalid_spec_tokens = None\<rparr>, s4))))"

text \<open>The connectors build their meta data from the output, an opaque object, and reset their state.\<close>

definition build_connector_metas :: "'x sched_config \<Rightarrow> scheduler_output \<Rightarrow> 'x scheduler \<Rightarrow> 'x scheduler" where
  "build_connector_metas cfg out s =
     (let w1 = (case connector cfg of None \<Rightarrow> world s | Some c \<Rightarrow> kvc_build_connector_meta c out (world s));
          w2 = (case ec_conn cfg of None \<Rightarrow> w1 | Some c \<Rightarrow> ecc_build_connector_meta c out w1)
      in s\<lparr>world := w2\<rparr>)"

definition schedule :: "'x sched_config \<Rightarrow> rat \<Rightarrow> 'x scheduler \<Rightarrow> (scheduler_output \<times> 'x scheduler) result" where
  "schedule cfg now s =
     rbind (schedule_loops cfg now (s\<lparr>current_step := current_step s + 1, kv_mgr := km_new_step_starts (kv_mgr s)\<rparr>)) (\<lambda>(s1, a).
     rbind (check_constraints cfg s1 a) (\<lambda>_.
     rbind (make_output cfg s1 a) (\<lambda>(out, s2). update_after_schedule cfg out (build_connector_metas cfg out s2))))"

end
