(* ===== verification/Scheduler_Invariant.thy ===== *)
theory Scheduler_Invariant
  imports Scheduler_Step
begin

section \<open>Invariants of a scheduling step\<close>

text \<open>
  What the two loops of \<open>schedule\<close> keep: the store maps every id to its request, the queues are
  well formed, no request is lost or duplicated between the running list and the queues, and the
  token budget and the tokens given out add up to the budget of the step.
\<close>

subsection \<open>The request that allocation returns\<close>

lemma cache_full_blocks_request:
  "cache_full_blocks r blocks nc nf bs gid bm p = Inr (r', p') \<Longrightarrow> same_but_cache r r'"
  by (auto simp: cache_full_blocks_def block_stored_event_def result_simps Let_def dest!: extra_keys_fold_frame
      split: if_splits)

lemma cache_blocks_request: "cache_blocks r n ret (m, p) = Inr (r', m', p') \<Longrightarrow> same_but_cache r r'"
proof -
  have base: "base_cache_blocks r n ret (m, p) = Inr (r', m1, p1) \<Longrightarrow> same_but_cache r r'" for m1 p1
    by (auto simp: base_cache_blocks_def result_simps Let_def dest!: cache_full_blocks_request split: if_splits)
  show "cache_blocks r n ret (m, p) = Inr (r', m', p') \<Longrightarrow> same_but_cache r r'"
    by (auto simp: cache_blocks_def mamba_cache_blocks_def result_simps Let_def dest!: base split: manager_sub.splits if_splits)
qed

lemma co_cache_request:
  assumes "co_cache_blocks r n c = Inr (r', c')"
  shows "same_but_cache r r'"
proof -
  have "for_managers (co_cache_step c n) i ms (r0, p) = Inr (xs, ms', r1, p') \<Longrightarrow> same_but_cache r0 r1" for i ms r0 p xs ms' r1 p'
  proof (induction ms arbitrary: i r0 p xs ms')
    case (Cons m ms)
    then obtain y m2 r2 p2 ys ms2 where "co_cache_step c n i m (r0, p) = Inr (y, m2, r2, p2)"
      "for_managers (co_cache_step c n) (i + 1) ms (r2, p2) = Inr (ys, ms2, r1, p')"
      by (auto simp: rbind_eq_Inr_iff)
    moreover from this(1) have "same_but_cache r0 r2" by (auto simp: co_cache_step_def rbind_eq_Inr_iff dest: cache_blocks_request)
    ultimately show ?case using Cons.IH same_but_cache_trans by blast
  qed simp
  then show ?thesis using assms by (auto simp: co_cache_blocks_def rbind_eq_Inr_iff)
qed

lemma allocate_slots_request: "allocate_slots r a km = Inr (b, r', km') \<Longrightarrow> same_but_cache r r'"
  by (auto simp: allocate_slots_def rbind_eq_Inr_iff split: if_splits prod.splits dest!: co_cache_request)

lemma km_cache_request: "km_cache_blocks r n km = Inr (r', km') \<Longrightarrow> same_but_cache r r'"
  by (auto simp: km_cache_blocks_def rbind_eq_Inr_iff split: if_splits dest!: co_cache_request)

subsection \<open>The store of requests\<close>

definition req_ok :: "request \<Rightarrow> bool" where
  "req_ok r \<longleftrightarrow> sorted (map mm_start (mm_features r))"

definition store_ok :: "'x scheduler \<Rightarrow> bool" where
  "store_ok s \<longleftrightarrow> (\<forall>rid r. dict_get (requests s) rid = Some r \<longrightarrow> request_id r = rid \<and> req_ok r)"

lemma get_req_iff: "get_req s rid = Inr r \<longleftrightarrow> dict_get (requests s) rid = Some r"
  by (auto simp: get_req_def dict_index_def split: option.splits)

lemma store_okD: "store_ok s \<Longrightarrow> get_req s rid = Inr r \<Longrightarrow> request_id r = rid \<and> req_ok r"
  by (auto simp: store_ok_def get_req_iff)

lemma store_req_ok: "get_req s rid = Inr r \<Longrightarrow> store_ok s \<Longrightarrow> req_ok r"
  using store_okD by blast

lemma store_put: "store_ok s \<Longrightarrow> req_ok r \<Longrightarrow> store_ok (put_req r s)"
  by (auto simp: store_ok_def put_req_def)

lemma store_same: "requests s' = requests s \<Longrightarrow> store_ok s' = store_ok s"
  by (simp add: store_ok_def)

lemma store_core: "same_core s s' \<Longrightarrow> store_ok s' = store_ok s"
  by (simp add: same_core_def store_ok_def)

lemma req_ok_cache: "same_but_cache r r' \<Longrightarrow> req_ok r' = req_ok r \<and> request_id r' = request_id r"
  by (auto simp: same_but_cache_def req_ok_def)

lemma req_ok_simps [simp]:
  "req_ok (r\<lparr>status := st\<rparr>) = req_ok r" "req_ok (r\<lparr>num_computed_tokens := n\<rparr>) = req_ok r"
  "req_ok (r\<lparr>spec_token_ids := ts\<rparr>) = req_ok r" "req_ok (r\<lparr>num_preemptions := n\<rparr>) = req_ok r"
  "req_ok (record_event e t now r) = req_ok r"
  by (simp_all add: req_ok_def record_event_def)

lemma store_upd [simp]:
  "store_ok (s\<lparr>kv_mgr := km\<rparr>) = store_ok s" "store_ok (s\<lparr>enc_mgr := em\<rparr>) = store_ok s" "store_ok (s\<lparr>running := rs\<rparr>) = store_ok s"
  "store_ok (s\<lparr>waiting := q\<rparr>) = store_ok s" "store_ok (s\<lparr>skipped_waiting := q\<rparr>) = store_ok s"
  "store_ok (s\<lparr>failed_recving := x\<rparr>) = store_ok s" "store_ok (s\<lparr>finished_recving := x\<rparr>) = store_ok s"
  "store_ok (discard_inflight rid s) = store_ok s" "store_ok (add_inflight rid s) = store_ok s"
  by (simp_all add: store_ok_def discard_inflight_def add_inflight_def)

lemma allocate_for_store: "store_ok s \<Longrightarrow> allocate_for rid args s = Inr (b, s') \<Longrightarrow> store_ok s'"
  by (auto simp: allocate_for_def rbind_eq_Inr_iff intro!: store_put dest!: allocate_slots_request req_ok_cache dest: store_req_ok)

lemma preempt_request_store: "store_ok s \<Longrightarrow> preempt_request cfg now rid s = Inr s' \<Longrightarrow> store_ok s'"
  using store_req_ok[of s rid]
  by (auto simp: preempt_request_def rbind_eq_Inr_iff Let_def enc_free_request_def intro!: store_put)

lemma cache_request_blocks_store:
  "store_ok s \<Longrightarrow> req_ok r \<Longrightarrow> cache_request_blocks r s = Inr (r', s') \<Longrightarrow> store_ok s' \<and> req_ok r' \<and> request_id r' = request_id r"
  by (auto simp: cache_request_blocks_def rbind_eq_Inr_iff intro!: store_put dest!: km_cache_request req_ok_cache)

lemma update_waiting_store:
  assumes st: "store_ok s" "req_ok r" and res: "update_waiting_for_remote_kv cfg r s = Inr (r', s')"
  shows "store_ok s' \<and> req_ok r' \<and> request_id r' = request_id r"
proof -
  obtain r1 s1 where r1: "r' = r1" "s' = s1\<lparr>finished_recving := finished_recving s1 - {request_id r}\<rparr>"
    and b: "(if request_id r \<in> failed_recving s
            then rbind (if num_computed_tokens r \<noteq> 0 then cache_request_blocks r s
                        else rbind (km_free r (kv_mgr s)) (\<lambda>km. Inr (r, s\<lparr>kv_mgr := km\<rparr>))) (\<lambda>(r1, s1).
                   Inr (r1, s1\<lparr>failed_recving := failed_recving s1 - {request_id r}\<rparr>))
            else rbind (cache_request_blocks r s) (\<lambda>(r1, s1).
                   let r2 = (if num_computed_tokens r1 = num_tokens r1 then r1\<lparr>num_computed_tokens := num_tokens r1 - 1\<rparr> else r1)
                   in Inr (r2, put_req r2 s1))) = Inr (r1, s1)"
    using res unfolding update_waiting_for_remote_kv_def rbind_eq_Inr_iff by (force split: if_splits)
  show ?thesis
  proof (cases "request_id r \<in> failed_recving s \<and> num_computed_tokens r = 0")
    case True
    then show ?thesis using b r1 st by (auto simp: rbind_eq_Inr_iff)
  next
    case False
    then obtain r2 s2 where c: "cache_request_blocks r s = Inr (r2, s2)" using b by (auto simp: rbind_eq_Inr_iff split: if_splits)
    note c' = cache_request_blocks_store[OF st c]
    show ?thesis using b r1 False c c' by (auto simp: Let_def split: if_splits intro!: store_put)
  qed
qed

lemma try_promote_store:
  assumes "store_ok s" "req_ok r" "try_promote_blocked_waiting_request cfg r s = Inr (ok, s')"
  shows "store_ok s'"
proof (cases "status r = WAITING_FOR_REMOTE_KVS \<and> request_id r \<in> finished_recving s")
  case True
  then obtain r1 s1 where u: "update_waiting_for_remote_kv cfg r s = Inr (r1, s1)"
    "s' = put_req (r1\<lparr>status := (if num_preemptions r1 \<noteq> 0 then PREEMPTED else WAITING)\<rparr>) s1"
    using assms(3) by (auto simp: try_promote_blocked_waiting_request_def rbind_eq_Inr_iff)
  then show ?thesis using update_waiting_store[OF assms(1,2) u(1)] by (auto intro!: store_put)
next
  case False
  then show ?thesis using assms
    by (auto simp: try_promote_blocked_waiting_request_def rbind_eq_Inr_iff split: if_splits intro!: store_put)
qed

subsection \<open>Bounds on the tokens of a request\<close>

lemma plan_input_stop:
  assumes "plan_input env r computed n shift i f a m = Inr (Stop k m')"
  shows "k = max 0 (mm_start f - (computed + shift))"
proof (cases "es_disable_chunked env \<and> computed < mm_start f \<and> computed + n < mm_stop f")
  case True
  then show ?thesis using assms by (simp add: plan_input_def)
next
  case False
  then obtain ok m1 where ok: "ecm_can_allocate r i (compute_budget a) (planned_embeds a) m = Inr (ok, m1)"
    using assms unfolding plan_input_def Let_def by (simp only: if_False rbind_eq_Inr_iff) auto
  show ?thesis
  proof (cases ok)
    case True
    then show ?thesis using assms False ok unfolding plan_input_def Let_def
      by (simp only: if_False rbind.simps prod.case not_True_eq_False rbind_eq_Inr_iff) (auto split: if_splits)
  next
    case False': False
    then show ?thesis using assms False ok unfolding plan_input_def Let_def
      by (simp only: if_False rbind.simps prod.case) (auto split: if_splits)
  qed
qed

lemma plan_step_stop:
  assumes "plan_step_at env r computed n shift i a m = Inr (Stop k m')"
  shows "\<exists>f. py_index (mm_features r) i = Inr f \<and> k = max 0 (mm_start f - (computed + shift))"
proof -
  obtain f where f: "py_index (mm_features r) i = Inr f" using assms by (auto simp: plan_step_at_def rbind_eq_Inr_iff)
  then have "\<exists>m1. plan_input env r computed n shift i f a m1 = Inr (Stop k m')"
    using assms by (auto simp: plan_step_at_def rbind_eq_Inr_iff simp del: max_def split: if_splits)
  then show ?thesis using f plan_input_stop by blast
qed

lemma plan_loop_bound:
  assumes "plan_loop env r computed n shift is a m = Inr (a', k, m')"
    and "\<And>i f. i \<in> set is \<Longrightarrow> py_index (mm_features r) i = Inr f \<Longrightarrow> mm_start f < computed + n + shift"
  shows "k \<le> max 0 n \<and> (0 \<le> n \<longrightarrow> 0 \<le> k)"
  using assms
proof (induction "is" arbitrary: a m)
  case (Cons i "is")
  obtain st where st: "plan_step_at env r computed n shift i a m = Inr st" using Cons.prems(1) by (auto simp: rbind_eq_Inr_iff)
  show ?case
  proof (cases st)
    case (Next a1 m1)
    then have "plan_loop env r computed n shift is a1 m1 = Inr (a', k, m')" using Cons.prems(1) st by simp
    then show ?thesis by (rule Cons.IH) (use Cons.prems(2) in auto)
  next
    case (Stop k' m1)
    then obtain f where f: "py_index (mm_features r) i = Inr f" "k' = max 0 (mm_start f - (computed + shift))"
      using plan_step_stop st by blast
    moreover have "mm_start f < computed + n + shift" using Cons.prems(2)[OF _ f(1)] by simp
    ultimately show ?thesis using Cons.prems(1) st Stop by auto
  qed
qed auto

lemma plan_encoder_bound:
  assumes "plan_encoder cfg r computed n budget s = Inr (p, k, s')" "req_ok r"
  shows "k \<le> max 0 n \<and> (0 \<le> n \<longrightarrow> 0 \<le> k)"
proof (cases "has_encoder_inputs r")
  case True
  let ?sh = "if use_eagle cfg then 1 else 0 :: int"
  obtain a em where t: "try_schedule_encoder_inputs (enc_env cfg s) r computed n budget ?sh (enc_mgr s) = Inr (a, k, em)"
    using assms(1) True by (auto simp: plan_encoder_def rbind_eq_Inr_iff)
  obtain lo hi where w: "get_mm_features_in_window (mm_features r) computed (computed + n + ?sh) = (lo, hi)" by fastforce
  then have hi: "hi = bisect_left mm_start (mm_features r) (computed + n + ?sh)" and lo: "0 \<le> lo"
    by (auto simp: get_mm_features_in_window_def bisect_left_def)
  show ?thesis
  proof (cases "n = 0")
    case False
    let ?lo = "if encoder_decoder cfg then 0 else lo"
    have "plan_loop (enc_env cfg s) r computed n ?sh (py_range ?lo hi)
        \<lparr>to_schedule = [], external_load = [], compute_budget = budget, planned_hashes = {}, planned_embeds = 0\<rparr> (enc_mgr s) = Inr (a, k, em)"
      using t False True w by (auto simp: try_schedule_encoder_inputs_def rbind_eq_Inr_iff enc_env_def)
    moreover have "mm_start f < computed + n + ?sh" if "i \<in> set (py_range ?lo hi)" "py_index (mm_features r) i = Inr f" for i f
    proof -
      have "0 \<le> i" "i < hi" using that(1) lo by (auto split: if_splits)
      moreover have "f = mm_features r ! nat i" "nat i < length (mm_features r)"
        using that(2) \<open>0 \<le> i\<close> by (auto simp: py_index_def split: if_splits)
      ultimately show ?thesis using bisect_left_spec(3)[of mm_start "mm_features r" "nat i" "computed + n + ?sh"] assms(2) hi
        by (simp add: req_ok_def)
    qed
    ultimately show ?thesis by (rule plan_loop_bound)
  qed (use t True in \<open>auto simp: try_schedule_encoder_inputs_def\<close>)
qed (use assms(1) in \<open>auto simp: plan_encoder_def\<close>)

lemma mamba_split_bound:
  assumes "0 < cache_block_size cfg"
  shows "mamba_block_aligned_split cfg r n l e u \<le> n" "0 \<le> n \<Longrightarrow> 0 \<le> mamba_block_aligned_split cfg r n l e u"
proof -
  let ?bs = "cache_block_size cfg"
  have d: "k div ?bs * ?bs \<le> k" for k using assms by (simp add: minus_mod_eq_div_mult[symmetric])
  have d0: "0 \<le> k \<Longrightarrow> 0 \<le> k div ?bs * ?bs" for k using assms by (simp add: pos_imp_zdiv_nonneg_iff)
  show "mamba_block_aligned_split cfg r n l e u \<le> n"
    using d[of n] d[of u] by (auto simp: mamba_block_aligned_split_def Let_def)
  show "0 \<le> n \<Longrightarrow> 0 \<le> mamba_block_aligned_split cfg r n l e u"
    using d0[of n] d0[of u] assms by (auto simp: mamba_block_aligned_split_def Let_def)
qed

subsection \<open>Where the requests are\<close>

text \<open>
  Every request is in one place: the running list with status \<open>RUNNING\<close>, or one of the waiting queues with
  a status of a waiting request. \<open>k\<close> is the queue of the requests a step has put aside.
\<close>

definition stat :: "'x scheduler \<Rightarrow> string \<Rightarrow> request_status option" where
  "stat s rid = map_option status (dict_get (requests s) rid)"

definition waits :: "request_status \<Rightarrow> bool" where
  "waits st \<longleftrightarrow> st = WAITING \<or> st = PREEMPTED \<or> is_blocked_waiting_status st"

definition queue_ids :: "request_queue \<Rightarrow> string multiset" where
  "queue_ids q = image_mset request_id (mset (rq_iter q))"

definition queued_ids :: "request_queue \<Rightarrow> 'x scheduler \<Rightarrow> string multiset" where
  "queued_ids k s = queue_ids (waiting s) + queue_ids (skipped_waiting s) + queue_ids k"

definition all_ids :: "request_queue \<Rightarrow> 'x scheduler \<Rightarrow> string multiset" where
  "all_ids k s = mset (running s) + queued_ids k s"

definition sched_inv :: "request_queue \<Rightarrow> 'x scheduler \<Rightarrow> bool" where
  "sched_inv k s \<longleftrightarrow> store_ok s \<and> rq_inv (waiting s) \<and> rq_inv (skipped_waiting s) \<and> rq_inv k
     \<and> (\<forall>x. count (all_ids k s) x \<le> 1)
     \<and> (\<forall>rid \<in> set (running s). stat s rid = Some RUNNING)
     \<and> (\<forall>rid \<in># queued_ids k s. \<exists>st. stat s rid = Some st \<and> waits st)"

definition keeps :: "'x scheduler \<Rightarrow> 'x scheduler \<Rightarrow> bool" where
  "keeps s s' \<longleftrightarrow> same_queues s s' \<and> store_ok s' \<and> (\<forall>rid. stat s' rid = stat s rid)"

lemma keeps_all_ids: "same_queues s s' \<Longrightarrow> all_ids k s' = all_ids k s \<and> queued_ids k s' = queued_ids k s"
  by (simp add: same_queues_def all_ids_def queued_ids_def)

lemma keeps_inv: "keeps s s' \<Longrightarrow> sched_inv k s \<Longrightarrow> sched_inv k s' \<and> all_ids k s' = all_ids k s"
  using keeps_all_ids[of s s' k] by (auto simp: keeps_def sched_inv_def same_queues_def)

lemma keeps_trans: "keeps s t \<Longrightarrow> keeps t u \<Longrightarrow> keeps s u"
  by (auto simp: keeps_def intro: same_queues_trans)

lemma core_keeps: "same_core s s' \<Longrightarrow> store_ok s \<Longrightarrow> keeps s s'"
  by (auto simp: keeps_def same_core_def stat_def store_ok_def)

lemma inv_store: "sched_inv k s \<Longrightarrow> store_ok s"
  by (simp add: sched_inv_def)

lemma stat_put: "stat (put_req r s) = (stat s)(request_id r := Some (status r))"
  by (auto simp: stat_def put_req_def)

lemma stat_get: "get_req s rid = Inr r \<Longrightarrow> stat s rid = Some (status r)"
  by (simp add: stat_def get_req_iff)

lemma stat_upd [simp]:
  "stat (s\<lparr>kv_mgr := km\<rparr>) = stat s" "stat (s\<lparr>enc_mgr := em\<rparr>) = stat s" "stat (s\<lparr>running := rs\<rparr>) = stat s"
  "stat (s\<lparr>waiting := q\<rparr>) = stat s" "stat (s\<lparr>skipped_waiting := q\<rparr>) = stat s" "stat (s\<lparr>failed_recving := x\<rparr>) = stat s"
  "stat (s\<lparr>finished_recving := x\<rparr>) = stat s" "stat (discard_inflight rid s) = stat s" "stat (add_inflight rid s) = stat s"
  by (auto simp: stat_def fun_eq_iff discard_inflight_def add_inflight_def)

lemma allocate_for_keeps:
  assumes "store_ok s" "allocate_for rid args s = Inr (b, s')"
  shows "keeps s s'"
proof -
  obtain r r' km where r: "get_req s rid = Inr r" "allocate_slots r args (kv_mgr s) = Inr (b, r', km)" "s' = put_req r' (s\<lparr>kv_mgr := km\<rparr>)"
    using assms(2) by (auto simp: allocate_for_def rbind_eq_Inr_iff)
  have "request_id r' = rid" "status r' = status r"
    using allocate_slots_request[OF r(2)] store_okD[OF assms(1) r(1)] by (auto simp: same_but_cache_def)
  then show ?thesis using allocate_for_store[OF assms] stat_get[OF r(1)] allocate_for_same[OF assms(2)] r(3)
    by (auto simp: keeps_def stat_put)
qed

lemma put_keeps:
  assumes "store_ok s" "get_req s rid = Inr r" "req_ok r'" "request_id r' = rid" "status r' = status r"
  shows "keeps s (put_req r' s)"
  using assms store_put[of s r'] stat_get[OF assms(2)] by (auto simp: keeps_def stat_put)

lemma preempt_request_moves:
  assumes "preempt_request cfg now rid s = Inr s'" "store_ok s" "rq_inv (waiting s)"
  shows "running s' = running s" "skipped_waiting s' = skipped_waiting s" "rq_inv (waiting s')"
    "queue_ids (waiting s') = add_mset rid (queue_ids (waiting s))" "stat s' = (stat s)(rid := Some PREEMPTED)" "store_ok s'"
proof -
  obtain r km s1 r2 where r: "get_req s rid = Inr r" and f: "enc_free_request cfg r (s\<lparr>kv_mgr := km\<rparr>) = Inr s1"
    and s': "s' = (put_req r2 (discard_inflight rid s1))\<lparr>waiting := rq_prepend (waiting s1) r2\<rparr>"
    and r2: "r2 = (let r1 = r\<lparr>status := PREEMPTED, num_computed_tokens := 0, spec_token_ids := [], num_preemptions := num_preemptions r + 1\<rparr>
                   in if log_stats cfg then record_event EV_PREEMPTED (Some now) now r1 else r1)"
    using assms(1) by (auto simp: preempt_request_def rbind_eq_Inr_iff Let_def)
  have id: "request_id r2 = rid" "status r2 = PREEMPTED"
    using store_okD[OF assms(2) r] by (auto simp: r2 record_event_def Let_def)
  have s1: "same_core s s1" using enc_free_request_same[OF f] by (simp add: same_core_def same_queues_def)
  then have st: "stat s1 = stat s" by (simp add: stat_def fun_eq_iff same_core_def)
  have q: "waiting s1 = waiting s" "running s1 = running s" "skipped_waiting s1 = skipped_waiting s"
    using s1 by (simp_all add: same_core_def same_queues_def)
  show "running s' = running s" "skipped_waiting s' = skipped_waiting s" "rq_inv (waiting s')"
    "queue_ids (waiting s') = add_mset rid (queue_ids (waiting s))"
    using q rq_prepend_law(1,2)[OF assms(3)] id(1) by (simp_all add: s' put_req_def discard_inflight_def queue_ids_def)
  show "stat s' = (stat s)(rid := Some PREEMPTED)" using st id by (simp add: s' stat_put)
  show "store_ok s'" using preempt_request_store[OF assms(2,1)] .
qed

lemma choose_victim_moves:
  assumes "choose_victim cfg s a idx = Inr (vid, s', a', idx')"
  shows "\<exists>rs. s' = s\<lparr>running := rs\<rparr> \<and> mset (running s) = add_mset vid (mset rs)"
proof -
  have "\<exists>rs. s' = s\<lparr>running := rs\<rparr>" using assms
    by (auto simp: choose_victim_def rbind_eq_Inr_iff Let_def split: if_splits)
  then obtain rs where rs: "s' = s\<lparr>running := rs\<rparr>" ..
  have "mset (running s) = add_mset vid (mset rs)"
  proof (cases "policy cfg = PRIORITY")
    case True
    then show ?thesis using choose_victim_running(1,2)[OF assms] rs by (simp add: insert_DiffM)
  next
    case False
    have ne: "running s \<noteq> []" using choose_victim_running(1)[OF assms] by auto
    have "rs = butlast (running s)" "vid = last (running s)" using choose_victim_running(2,4)[OF assms] rs False by simp_all
    then have "running s = rs @ [vid]" using ne by simp
    then show ?thesis by simp
  qed
  then show ?thesis using rs by blast
qed

text \<open>Preempting a request that was taken off the running list.\<close>

lemma preempt_inv:
  assumes inv: "sched_inv k s" and p: "preempt_request cfg now vid (s\<lparr>running := rs\<rparr>) = Inr s'"
    and rs: "mset (running s) = add_mset vid (mset rs)"
  shows "sched_inv k s' \<and> all_ids k s' = all_ids k s \<and> running s' = rs"
proof -
  let ?s1 = "s\<lparr>running := rs\<rparr>"
  have q: "store_ok ?s1" "rq_inv (waiting ?s1)" using inv by (auto simp: sched_inv_def)
  note m = preempt_request_moves[OF p q]
  have qi: "queued_ids k s' = add_mset vid (queued_ids k s)" "running s' = rs" using m(1,2,4) by (simp_all add: queued_ids_def)
  have all: "all_ids k s' = all_ids k s" using qi rs by (simp add: all_ids_def)
  have "count (all_ids k s) vid \<le> 1" using inv by (simp add: sched_inv_def)
  then have new: "vid \<notin> set rs" using rs by (simp add: all_ids_def flip: count_mset_0_iff)
  have set: "set (running s) = insert vid (set rs)" using arg_cong[OF rs, of set_mset] by simp
  have "sched_inv k s'" unfolding sched_inv_def
  proof (intro conjI)
    show "\<forall>rid \<in> set (running s'). stat s' rid = Some RUNNING" using inv new set m(5) qi(2) by (auto simp: sched_inv_def)
    show "\<forall>rid \<in># queued_ids k s'. \<exists>st. stat s' rid = Some st \<and> waits st"
      using inv m(5) qi(1) by (auto simp: sched_inv_def waits_def)
  qed (use inv m all in \<open>auto simp: sched_inv_def\<close>)
  then show ?thesis using all qi(2) by simp
qed

lemma preempt_lowest_inv:
  assumes inv: "sched_inv k s" and p: "preempt_lowest cfg now s a idx = Inr (vid, s', a', idx')"
  shows "sched_inv k s' \<and> all_ids k s' = all_ids k s \<and> mset (running s) = add_mset vid (mset (running s'))"
proof -
  obtain s1 a1 where c: "choose_victim cfg s a idx = Inr (vid, s1, a1, idx')" "preempt_request cfg now vid s1 = Inr s'"
    using p by (auto simp: preempt_lowest_def rbind_eq_Inr_iff)
  obtain rs where rs: "s1 = s\<lparr>running := rs\<rparr>" "mset (running s) = add_mset vid (mset rs)" using choose_victim_moves[OF c(1)] by blast
  show ?thesis using preempt_inv[OF inv c(2)[unfolded rs(1)] rs(2)] rs(2) by simp
qed

subsection \<open>The loop over the running requests\<close>

text \<open>Rules for the two loops: what allocation and preemption keep, and what one pass keeps.\<close>

lemma allocate_or_preempt_rule:
  assumes "allocate_or_preempt cfg now rid n s a idx = Inr (b, s', a', idx')" "P s a idx"
    and "\<And>args s a idx b s1. P s a idx \<Longrightarrow> allocate_for rid args s = Inr (b, s1) \<Longrightarrow> P s1 a idx"
    and "\<And>s a idx vid s2 a2 idx2. P s a idx \<Longrightarrow> preempt_lowest cfg now s a idx = Inr (vid, s2, a2, idx2)
           \<Longrightarrow> if vid = rid then Q s2 a2 else P s2 a2 idx2"
  shows "if b = None then Q s' a' else P s' a' idx'"
  using assms(1,2)
proof (induction cfg \<equiv> cfg now \<equiv> now rid \<equiv> rid n \<equiv> n s a idx rule: allocate_or_preempt.induct)
  case (1 s a idx)
  from "1.prems"(1) obtain blocks s1 where
    al: "allocate_for rid ((default_slot_args n)\<lparr>num_lookahead_tokens := lookahead_tokens cfg\<rparr>) s = Inr (blocks, s1)"
    by (subst (asm) allocate_or_preempt.simps) (auto simp: rbind_eq_Inr_iff)
  have P1: "P s1 a idx" using assms(3) "1.prems"(2) al by blast
  show ?case
  proof (cases blocks)
    case (Some x)
    then show ?thesis using "1.prems" al P1 by (subst (asm) allocate_or_preempt.simps) auto
  next
    case None
    then obtain vid s2 a2 idx2 where p: "preempt_lowest cfg now s1 a idx = Inr (vid, s2, a2, idx2)"
      and rest: "(if vid = rid then Inr (None, s2, a2, idx2) else allocate_or_preempt cfg now rid n s2 a2 idx2) = Inr (b, s', a', idx')"
      using "1.prems" al by (subst (asm) allocate_or_preempt.simps) (auto simp: rbind_eq_Inr_iff)
    note step = assms(4)[OF P1 p]
    show ?thesis
    proof (cases "vid = rid")
      case False
      then show ?thesis using "1.hyps"[OF al refl None p refl refl refl False] rest step by simp
    qed (use rest step in auto)
  qed
qed

lemma run_step_cases:
  assumes "run_step cfg now s a idx = Inr (go, s', a', idx')"
  obtains (skip) "go" "same_core s s'" "a' = a" "idx' = idx + 1"
  | (tried) rid r plan n1 n s1 b s2 a2 idx2 where
      "py_index (running s) idx = Inr rid" "get_req s rid = Inr r" "same_core s s1"
      "plan_encoder cfg r (num_computed_tokens r) (running_new_tokens cfg r (token_budget a)) (encoder_budget a) s = Inr (plan, n1, s1)"
      "n = (if need_mamba_block_aligned_split cfg then mamba_block_aligned_split cfg r n1 0 0 0 else n1)"
      "allocate_or_preempt cfg now rid n s1 a idx = Inr (b, s2, a2, idx2)"
      "if b = None then \<not> go \<and> s' = s2 \<and> a' = a2
       else go \<and> record_running cfg rid n (the b) plan s2 a2 = Inr (s', a') \<and> idx' = idx2 + 1"
proof -
  obtain rid r where r: "py_index (running s) idx = Inr rid" "get_req s rid = Inr r"
    using assms by (auto simp: run_step_def rbind_eq_Inr_iff)
  show ?thesis
  proof (cases "async_done r \<or> current_step s < next_decode_eligible_step r")
    case True
    then show ?thesis using assms r skip by (auto simp: run_step_def split: if_splits)
  next
    case False
    then obtain plan n1 s1 where p: "plan_encoder cfg r (num_computed_tokens r) (running_new_tokens cfg r (token_budget a)) (encoder_budget a) s = Inr (plan, n1, s1)"
      using assms r by (auto simp: run_step_def rbind_eq_Inr_iff)
    let ?n = "if need_mamba_block_aligned_split cfg then mamba_block_aligned_split cfg r n1 0 0 0 else n1"
    note core = plan_encoder_same[OF p]
    show ?thesis
    proof (cases "?n = 0")
      case True
      then show ?thesis using assms r False p core skip by (simp add: run_step_def Let_def)
    next
      case n: False
      then obtain b s2 a2 idx2 where al: "allocate_or_preempt cfg now rid ?n s1 a idx = Inr (b, s2, a2, idx2)"
        and rest: "(case b of None \<Rightarrow> Inr (False, s2, a2, idx2)
                  | Some x \<Rightarrow> rbind (record_running cfg rid ?n x plan s2 a2) (\<lambda>(s3, a3). Inr (True, s3, a3, idx2 + 1))) = Inr (go, s', a', idx')"
        using assms r False p by (auto simp: run_step_def rbind_eq_Inr_iff Let_def)
      from rest show ?thesis by (intro tried[OF r core p refl al]) (cases b; auto simp: rbind_eq_Inr_iff)
    qed
  qed
qed

lemma run_loop_rule:
  assumes "run_loop cfg now s a idx = Inr (s', a')" "P s a idx"
    and "\<And>s a idx go s1 a1 idx1. P s a idx \<Longrightarrow> idx < int (length (running s)) \<Longrightarrow> token_budget a > 0
           \<Longrightarrow> run_step cfg now s a idx = Inr (go, s1, a1, idx1) \<Longrightarrow> if go then P s1 a1 idx1 else Q s1 a1"
    and "\<And>s a idx. P s a idx \<Longrightarrow> Q s a"
  shows "Q s' a'"
  using assms(1,2)
proof (induction cfg \<equiv> cfg now \<equiv> now s a idx rule: run_loop.induct)
  case (1 s a idx)
  show ?case
  proof (cases "idx < int (length (running s)) \<and> token_budget a > 0")
    case True
    then obtain go s1 a1 idx1 where st: "run_step cfg now s a idx = Inr (go, s1, a1, idx1)"
      and rest: "(if go then run_loop cfg now s1 a1 idx1 else Inr (s1, a1)) = Inr (s', a')"
      using "1.prems"(1) by (subst (asm) run_loop.simps) (auto simp: rbind_eq_Inr_iff)
    note step = assms(3)[OF "1.prems"(2) conjunct1[OF True] conjunct2[OF True] st]
    show ?thesis
    proof (cases go)
      case True': True
      then show ?thesis using "1.hyps"[OF True st refl refl refl True'] rest step by simp
    qed (use rest step in auto)
  next
    case False
    then show ?thesis using "1.prems" assms(4) by (subst (asm) run_loop.simps) auto
  qed
qed

lemma record_running_keeps:
  assumes "record_running cfg rid n b plan s a = Inr (s', a')" "store_ok s"
  shows "keeps s s'"
proof -
  obtain r where r: "get_req s rid = Inr r" using assms(1) by (auto simp: record_running_def rbind_eq_Inr_iff)
  let ?r1 = "if spec_token_ids r \<noteq> [] then r\<lparr>spec_token_ids := []\<rparr> else r"
  have "\<exists>a2. commit_encoder cfg ?r1 plan (put_req ?r1 s) a2 = Inr (s', a')"
    using assms(1) r unfolding record_running_def Let_def by auto
  then have c: "same_core (put_req ?r1 s) s'" using commit_encoder_same by blast
  have p: "keeps s (put_req ?r1 s)" using store_okD[OF assms(2) r] by (intro put_keeps[OF assms(2) r]) auto
  then have "store_ok (put_req ?r1 s)" by (simp add: keeps_def)
  from keeps_trans[OF p core_keeps[OF c this]] show ?thesis .
qed

text \<open>The invariant with the ids of all the requests fixed.\<close>

definition holds_ids :: "string multiset \<Rightarrow> request_queue \<Rightarrow> 'x scheduler \<Rightarrow> bool" where
  "holds_ids M k s \<longleftrightarrow> sched_inv k s \<and> all_ids k s = M"

lemma holds_keeps: "keeps s s' \<Longrightarrow> holds_ids M k s \<Longrightarrow> holds_ids M k s'"
  using keeps_inv by (auto simp: holds_ids_def)

lemma holds_store: "holds_ids M k s \<Longrightarrow> store_ok s"
  by (simp add: holds_ids_def sched_inv_def)

lemma holds_core: "same_core s s' \<Longrightarrow> holds_ids M k s \<Longrightarrow> holds_ids M k s'"
  using holds_keeps[OF core_keeps] holds_store by blast

lemma holds_allocate: "allocate_for rid args s = Inr (b, s') \<Longrightarrow> holds_ids M k s \<Longrightarrow> holds_ids M k s'"
  using holds_keeps[OF allocate_for_keeps] holds_store by blast

lemma holds_record: "record_running cfg rid n b plan s a = Inr (s', a') \<Longrightarrow> holds_ids M k s \<Longrightarrow> holds_ids M k s'"
  using holds_keeps[OF record_running_keeps] holds_store by blast

lemma holds_preempt: "preempt_lowest cfg now s a idx = Inr (vid, s', a', idx') \<Longrightarrow> holds_ids M k s \<Longrightarrow> holds_ids M k s'"
  using preempt_lowest_inv[of k s cfg now a idx] by (simp add: holds_ids_def)

lemma allocate_or_preempt_holds:
  assumes "allocate_or_preempt cfg now rid n s a idx = Inr (b, s', a', idx')" "holds_ids M k s"
  shows "holds_ids M k s'"
proof -
  have "if b = None then holds_ids M k s' else holds_ids M k s'"
    by (rule allocate_or_preempt_rule[where P = "\<lambda>x _ _. holds_ids M k x", OF assms])
      (auto elim: holds_allocate holds_preempt split: if_splits)
  then show ?thesis by (simp split: if_splits)
qed

lemma run_step_holds:
  assumes "run_step cfg now s a idx = Inr (go, s', a', idx')" "holds_ids M k s"
  shows "holds_ids M k s'"
  using assms(1)
proof (cases rule: run_step_cases)
  case skip
  then show ?thesis using holds_core assms(2) by blast
next
  case (tried rid r plan n1 n s1 b s2 a2 idx2)
  have "holds_ids M k s2" using allocate_or_preempt_holds[OF tried(6)] holds_core[OF tried(3) assms(2)] .
  then show ?thesis using tried(7) holds_record by (cases b) auto
qed

lemma run_loop_holds:
  assumes "run_loop cfg now s a idx = Inr (s', a')" "holds_ids M k s"
  shows "holds_ids M k s'"
  by (rule run_loop_rule[where P = "\<lambda>x _ _. holds_ids M k x", OF assms]) (auto elim: run_step_holds)

subsection \<open>The loop over the waiting requests\<close>

definition head_id :: "bool \<Rightarrow> 'x scheduler \<Rightarrow> string \<Rightarrow> bool" where
  "head_id b s rid \<longleftrightarrow> (\<exists>r. rq_peek (the_queue b s) = Inr r \<and> request_id r = rid)"

lemma head_same: "same_queues s s' \<Longrightarrow> head_id b s' rid = head_id b s rid"
  by (simp add: head_id_def the_queue_def same_queues_def)

lemma rq_pop_moves:
  assumes "rq_pop q = Inr (r, q')" "rq_inv q"
  shows "rq_inv q' \<and> queue_ids q = add_mset (request_id r) (queue_ids q') \<and> rq_peek q = Inr r"
proof (cases "rq_iter q")
  case Nil
  then show ?thesis using rq.pop_empty[OF assms(2)] assms(1) by simp
next
  case (Cons x xs)
  from rq.pop_law[OF assms(2) this] assms(1) have "r = x" "rq_inv q'" "rq_iter q' = xs" by auto
  then show ?thesis using Cons rq.peek_pop[OF assms(2)] assms(1) by (simp add: queue_ids_def)
qed

lemma queued_not_running: "x \<in># q \<Longrightarrow> count (mset xs + q) x \<le> 1 \<Longrightarrow> x \<notin> set xs"
proof
  assume "x \<in># q" "count (mset xs + q) x \<le> 1" "x \<in> set xs"
  moreover from this have "1 \<le> count (mset xs) x" "1 \<le> count q x" by (simp_all only: count_greater_eq_one_iff set_mset_mset)
  ultimately show False by simp
qed

lemma holds_count: "holds_ids M k s \<Longrightarrow> count (mset (running s) + queued_ids k s) x \<le> 1"
  unfolding holds_ids_def sched_inv_def all_ids_def by blast

lemma holds_all: "holds_ids M k s \<Longrightarrow> all_ids k s = M \<and> (\<forall>x. count M x \<le> 1)"
  unfolding holds_ids_def sched_inv_def by auto

lemma holds_queues: "holds_ids M k s \<Longrightarrow> rq_inv (waiting s) \<and> rq_inv (skipped_waiting s) \<and> rq_inv k"
  by (simp add: holds_ids_def sched_inv_def)

lemma head_queued:
  assumes "head_id b s rid" "rq_inv (waiting s)" "rq_inv (skipped_waiting s)"
  shows "rid \<in># queued_ids k s"
proof -
  have q: "rq_inv (the_queue b s)" using assms(2,3) by (simp add: the_queue_def)
  obtain r where r: "rq_peek (the_queue b s) = Inr r" "request_id r = rid" using assms(1) by (auto simp: head_id_def)
  then have "r \<in> set (rq_iter (the_queue b s))" using rq.peek_law[OF q] by (auto split: list.splits)
  then show ?thesis using r(2) by (force simp: queued_ids_def queue_ids_def the_queue_def split: if_splits)
qed

lemma pop_queue_moves:
  assumes "pop_queue b s = Inr (r, s')" "rq_inv (waiting s)" "rq_inv (skipped_waiting s)"
  shows "head_id b s (request_id r)" "rq_inv (waiting s')" "rq_inv (skipped_waiting s')"
    "queued_ids k s = add_mset (request_id r) (queued_ids k s')" "running s' = running s" "requests s' = requests s"
proof -
  obtain q where q: "rq_pop (the_queue b s) = Inr (r, q)" "s' = (if b then s\<lparr>waiting := q\<rparr> else s\<lparr>skipped_waiting := q\<rparr>)"
    using assms(1) by (auto simp: pop_queue_def rbind_eq_Inr_iff)
  have "rq_inv (the_queue b s)" using assms(2,3) by (simp add: the_queue_def)
  note m = rq_pop_moves[OF q(1) this]
  show "head_id b s (request_id r)" using m by (auto simp: head_id_def)
  show "rq_inv (waiting s')" "rq_inv (skipped_waiting s')" "queued_ids k s = add_mset (request_id r) (queued_ids k s')"
    "running s' = running s" "requests s' = requests s"
    using m q(2) assms(2,3) by (auto simp: queued_ids_def the_queue_def split: if_splits)
qed

text \<open>The popped request is put aside, or starts to run.\<close>

lemma holds_set_aside:
  assumes h: "holds_ids M k s" and pop: "pop_queue b s = Inr (r0, s3)" and r: "request_id r = request_id r0" "waits (status r)"
    and s': "same_queues s3 s'" "store_ok s'" "stat s' = (stat s3)(request_id r := Some (status r))"
  shows "holds_ids M (rq_prepend k r) s'"
proof -
  have inv: "rq_inv (waiting s)" "rq_inv (skipped_waiting s)" "rq_inv k" using h by (simp_all add: holds_ids_def sched_inv_def)
  note p = pop_queue_moves[OF pop inv(1,2)]
  note k = rq_prepend_law(1,2)[OF inv(3), of r]
  have q: "queued_ids (rq_prepend k r) s' = queued_ids k s"
    using p(4)[of k] r(1) k(2) s'(1) by (simp add: queued_ids_def queue_ids_def same_queues_def)
  have run: "running s' = running s" using s'(1) p(5) by (simp add: same_queues_def)
  have all: "all_ids (rq_prepend k r) s' = all_ids k s" using q run by (simp add: all_ids_def)
  have "stat s3 = stat s" using p(6) by (simp add: stat_def fun_eq_iff)
  then have st: "stat s' = (stat s)(request_id r0 := Some (status r))" using s'(3) r(1) by simp
  have "request_id r0 \<in># queued_ids k s" using p(4)[of k] by simp
  moreover have "count (mset (running s) + queued_ids k s) (request_id r0) \<le> 1" using h by (rule holds_count)
  ultimately have "request_id r0 \<notin> set (running s)" by (rule queued_not_running)
  then have "sched_inv (rq_prepend k r) s'" using h st q run all k(1) p(2,3) s'(1,2) r(2)
    by (auto simp: holds_ids_def sched_inv_def same_queues_def)
  then show ?thesis using all h by (simp add: holds_ids_def)
qed

lemma holds_start:
  assumes h: "holds_ids M k s" and pop: "pop_queue b s = Inr (r0, s3)" and rid: "rid = request_id r0"
    and s': "waiting s' = waiting s3" "skipped_waiting s' = skipped_waiting s3" "running s' = running s3 @ [rid]" "store_ok s'"
      "stat s' = (stat s3)(rid := Some RUNNING)"
  shows "holds_ids M k s'" "rid \<notin> set (running s3)" "running s3 = running s"
proof -
  have inv: "rq_inv (waiting s)" "rq_inv (skipped_waiting s)" "rq_inv k" using h by (simp_all add: holds_ids_def sched_inv_def)
  note p = pop_queue_moves[OF pop inv(1,2)]
  have q: "queued_ids k s = add_mset rid (queued_ids k s')" using p(4)[of k] rid s'(1,2) by (simp add: queued_ids_def)
  have run: "running s' = running s @ [rid]" using s'(3) p(5) by simp
  have all: "all_ids k s' = all_ids k s" using q run by (simp add: all_ids_def)
  have st: "stat s' = (stat s)(rid := Some RUNNING)" using s'(5) p(6) by (simp add: stat_def fun_eq_iff)
  have "rid \<in># queued_ids k s" using q by simp
  then have nr: "rid \<notin> set (running s)" using holds_count[OF h] by (rule queued_not_running)
  have "count (queued_ids k s) rid \<le> 1" using holds_count[OF h, of rid] by simp
  then have nq: "rid \<notin># queued_ids k s'" using q by (simp add: not_in_iff)
  show "holds_ids M k s'" unfolding holds_ids_def sched_inv_def
  proof (intro conjI)
    show "\<forall>x. count (all_ids k s') x \<le> 1" "all_ids k s' = M" using holds_all[OF h] all by simp_all
    show "\<forall>rid \<in> set (running s'). stat s' rid = Some RUNNING" using h st run by (auto simp: holds_ids_def sched_inv_def)
    show "\<forall>rid \<in># queued_ids k s'. \<exists>st. stat s' rid = Some st \<and> waits st"
      using h st q nq by (auto simp: holds_ids_def sched_inv_def)
  qed (use p s' inv in simp_all)
  show "rid \<notin> set (running s3)" "running s3 = running s" using nr p(5) by simp_all
qed

lemma holds_restat:
  assumes "holds_ids M k s" "same_queues s s'" "store_ok s'" "rid \<in># queued_ids k s"
    "stat s' = (stat s)(rid := Some st)" "waits st"
  shows "holds_ids M k s'"
proof -
  have nr: "rid \<notin> set (running s)" using assms(4) holds_count[OF assms(1)] by (rule queued_not_running)
  note q = keeps_all_ids[OF assms(2), of k]
  show ?thesis unfolding holds_ids_def sched_inv_def
  proof (intro conjI)
    show "\<forall>x. count (all_ids k s') x \<le> 1" "all_ids k s' = M" using holds_all[OF assms(1)] q by simp_all
    show "\<forall>rid \<in> set (running s'). stat s' rid = Some RUNNING"
      using assms(1,2,5) nr by (auto simp: holds_ids_def sched_inv_def same_queues_def)
    show "\<forall>rid \<in># queued_ids k s'. \<exists>st. stat s' rid = Some st \<and> waits st"
      using assms(1,5,6) q by (auto simp: holds_ids_def sched_inv_def)
  qed (use assms(1,2,3) in \<open>simp_all add: holds_ids_def sched_inv_def same_queues_def\<close>)
qed

lemma cache_request_blocks_keeps:
  assumes "cache_request_blocks r s = Inr (r', s')" "store_ok s" "get_req s (request_id r) = Inr r"
  shows "keeps s s' \<and> request_id r' = request_id r \<and> status r' = status r \<and> req_ok r'"
proof -
  obtain km where km: "km_cache_blocks r (num_computed_tokens r) (kv_mgr s) = Inr (r', km)" "s' = put_req r' (s\<lparr>kv_mgr := km\<rparr>)"
    using assms(1) by (auto simp: cache_request_blocks_def rbind_eq_Inr_iff)
  have r': "request_id r' = request_id r" "status r' = status r" using km_cache_request[OF km(1)] by (auto simp: same_but_cache_def)
  have ok: "store_ok s'" "req_ok r'" using cache_request_blocks_store[OF assms(2) _ assms(1)] store_okD[OF assms(2,3)] by simp_all
  then have "keeps s s'" using stat_get[OF assms(3)] r' km(2) cache_request_blocks_same[OF assms(1)] by (auto simp: keeps_def stat_put)
  then show ?thesis using r' ok by simp
qed

lemma update_waiting_keeps:
  assumes "update_waiting_for_remote_kv cfg r s = Inr (r', s')" "store_ok s" "get_req s (request_id r) = Inr r"
  shows "stat s' = stat s \<and> request_id r' = request_id r"
proof (cases "request_id r \<in> failed_recving s \<and> num_computed_tokens r = 0")
  case True
  then show ?thesis using assms(1) by (auto simp: update_waiting_for_remote_kv_def rbind_eq_Inr_iff split: if_splits)
next
  case False
  then obtain r2 s2 where c: "cache_request_blocks r s = Inr (r2, s2)"
    using assms(1) by (auto simp: update_waiting_for_remote_kv_def rbind_eq_Inr_iff split: if_splits)
  note k = cache_request_blocks_keeps[OF c assms(2,3)]
  then have st: "stat s2 = stat s" "stat s (request_id r) = Some (status r)" using stat_get[OF assms(3)] by (auto simp: keeps_def)
  show ?thesis using assms(1) False c k st
    by (auto simp: update_waiting_for_remote_kv_def rbind_eq_Inr_iff Let_def stat_put fun_eq_iff split: if_splits)
qed

lemma try_promote_holds:
  assumes p: "try_promote_blocked_waiting_request cfg r s = Inr (ok, s')" and h: "holds_ids M k s"
    and r: "get_req s (request_id r) = Inr r" "request_id r \<in># queued_ids k s"
  shows "holds_ids M k s'"
proof -
  note st = holds_store[OF h]
  note s' = try_promote_same[OF p] try_promote_store[OF st store_req_ok[OF r(1) st] p]
  consider "s' = s" | stx where "waits stx" "stat s' = (stat s)(request_id r := Some stx)"
  proof (cases "status r = WAITING_FOR_REMOTE_KVS \<and> request_id r \<in> finished_recving s")
    case True
    then obtain r1 s1 where u: "update_waiting_for_remote_kv cfg r s = Inr (r1, s1)"
      "s' = put_req (r1\<lparr>status := (if num_preemptions r1 \<noteq> 0 then PREEMPTED else WAITING)\<rparr>) s1"
      using p by (auto simp: try_promote_blocked_waiting_request_def rbind_eq_Inr_iff)
    then show ?thesis using update_waiting_keeps[OF u(1) st r(1)] that(2)[of "if num_preemptions r1 \<noteq> 0 then PREEMPTED else WAITING"]
      by (simp add: stat_put waits_def)
  next
    case False
    then show ?thesis using p that(1) that(2)[of WAITING]
      by (auto simp: try_promote_blocked_waiting_request_def rbind_eq_Inr_iff stat_put waits_def split: if_splits)
  qed
  then show ?thesis using h s' r(2) by cases (auto intro: holds_restat)
qed

lemma skip_waiting_holds:
  assumes sk: "skip_waiting b r (s, a, k, l) = Inr (go, s', a', k', l')" and h: "holds_ids M k s"
    and r: "get_req s (request_id r) = Inr r" "head_id b s (request_id r)"
  shows "holds_ids M k' s'"
proof -
  obtain r0 where r0: "pop_queue b s = Inr (r0, s')" "k' = rq_prepend k r"
    using sk by (auto simp: skip_waiting_def rbind_eq_Inr_iff)
  note q = conjunct1[OF holds_queues[OF h]] conjunct1[OF conjunct2[OF holds_queues[OF h]]]
  note p = pop_queue_moves[OF r0(1) q]
  have id: "request_id r = request_id r0" using p(1) r(2) by (auto simp: head_id_def)
  have "request_id r \<in># queued_ids k s" by (rule head_queued[OF r(2) q])
  then have w: "waits (status r)" using h stat_get[OF r(1)] by (auto simp: holds_ids_def sched_inv_def)
  have "stat s' = (stat s')(request_id r := Some (status r))" using stat_get[OF r(1)] p(6) by (auto simp: stat_def fun_eq_iff)
  moreover have "store_ok s'" using holds_store[OF h] store_same[OF p(6)] by simp
  ultimately show ?thesis unfolding r0(2) using holds_set_aside[OF h r0(1) id w same_queues_refl] by simp
qed

lemma start_running_effect:
  assumes "start_running cfg now r hit n plan (s, a, k, l) = Inr (s', a', k', l')" "store_ok s" "req_ok r"
  shows "waiting s' = waiting s" "skipped_waiting s' = skipped_waiting s" "running s' = running s @ [request_id r]" "store_ok s'"
    "stat s' = (stat s)(request_id r := Some RUNNING)" "k' = k"
proof -
  let ?r1 = "if log_stats cfg then record_event EV_SCHEDULED (Some now) now r else r"
  let ?r2 = "?r1\<lparr>status := RUNNING, num_computed_tokens := wh_computed hit\<rparr>"
  let ?s1 = "put_req ?r2 (s\<lparr>running := running s @ [request_id r]\<rparr>)"
  let ?s2 = "if wh_computed hit + n < num_tokens ?r2 then add_inflight (request_id r) ?s1 else ?s1"
  have "\<exists>a2. commit_encoder cfg ?r2 plan ?s2 a2 = Inr (s', a')" and k: "k' = k"
    using assms(1) unfolding start_running_def Let_def by (auto simp: rbind_eq_Inr_iff)
  then have c: "same_core ?s2 s'" using commit_encoder_same by blast
  have id: "request_id ?r2 = request_id r" "status ?r2 = RUNNING" "req_ok ?r2" using assms(3) by (simp_all add: record_event_def req_ok_def)
  have s2: "waiting ?s2 = waiting s" "skipped_waiting ?s2 = skipped_waiting s" "running ?s2 = running s @ [request_id r]"
    by (simp_all add: put_req_def add_inflight_def)
  have st: "stat ?s2 = (stat s)(request_id r := Some RUNNING)" using id by (simp add: stat_put)
  have ok: "store_ok ?s2" using store_put[of "s\<lparr>running := running s @ [request_id r]\<rparr>" ?r2] assms(2) id(3) by simp
  show "waiting s' = waiting s" "skipped_waiting s' = skipped_waiting s" "running s' = running s @ [request_id r]"
    using c s2 unfolding same_core_def same_queues_def by metis+
  show "store_ok s'" using store_core[OF c] ok by simp
  show "stat s' = (stat s)(request_id r := Some RUNNING)" using c st unfolding same_core_def stat_def fun_eq_iff by metis
  show "k' = k" by (rule k)
qed

lemma admit_waiting_cases:
  assumes "admit_waiting cfg now b rid hit n plan (s, a, k, l) = Inr (go, s', a', k', l')" "holds_ids M k s" "head_id b s rid"
  obtains (full) "\<not> go" "holds_ids M k s'" "a' = a" "k' = k" "running s' = running s"
  | (admitted) s2 r2 r0 s3 where "go" "holds_ids M k s2" "running s2 = running s" "pop_queue b s2 = Inr (r0, s3)"
      "get_req s3 rid = Inr r2" "request_id r2 = rid" "request_id r0 = rid" "req_ok r2" "store_ok s3"
      "(if wh_async hit then Inr (start_async_load r2 hit (s3, a, k, l)) else start_running cfg now r2 hit n plan (s3, a, k, l)) = Inr (s', a', k', l')"
proof -
  obtain r enc reserved s1 blocks s2 r2 where
    e: "(if wh_async hit then inflight_prefill_reserved_blocks cfg s else Inr (0, s)) = Inr (reserved, s1)"
    "allocate_for rid (wait_slot_args cfg hit n enc reserved (running s1 \<noteq> [])) s1 = Inr (blocks, s2)"
    "get_req s2 rid = Inr r2"
    "(if blocks = None
       then rbind (if has_encoder_inputs r2 then enc_free_request cfg r2 s2 else Inr s2) (\<lambda>s3. Inr (False, s3, a, k, l))
       else rbind (pop_queue b (notify_connector cfg r2 hit s2)) (\<lambda>(_, s3).
           if wh_async hit then Inr (True, start_async_load r2 hit (s3, a, k, l))
           else rbind (start_running cfg now r2 hit n plan (s3, a, k, l)) (\<lambda>st. Inr (True, st)))) = Inr (go, s', a', k', l')"
    using assms(1) by (auto simp: admit_waiting_def rbind_eq_Inr_iff)
  have c1: "same_core s s1" using e(1) inflight_same by (auto split: if_splits)
  have h2: "holds_ids M k s2" using holds_allocate[OF e(2) holds_core[OF c1 assms(2)]] .
  have q2: "same_queues s s2" using same_queues_trans[OF same_core_queues[OF c1] allocate_for_same[OF e(2)]] .
  show ?thesis
  proof (cases "blocks = None")
    case True
    then have "same_core s2 s'" "a' = a" "k' = k" "\<not> go"
      using e(4) by (auto simp: rbind_eq_Inr_iff split: if_splits dest: enc_free_request_same)
    then show ?thesis using holds_core[OF _ h2] q2 full by (auto simp: same_core_def same_queues_def)
  next
    case False
    let ?s2 = "notify_connector cfg r2 hit s2"
    obtain r0 s3 where p: "pop_queue b ?s2 = Inr (r0, s3)"
      and rest: "(if wh_async hit then Inr (start_async_load r2 hit (s3, a, k, l)) else start_running cfg now r2 hit n plan (s3, a, k, l)) = Inr (s', a', k', l')" "go"
      using e(4) False by (auto simp: rbind_eq_Inr_iff split: if_splits)
    have c: "same_core s2 ?s2" by simp
    have h: "holds_ids M k ?s2" using holds_core[OF c h2] .
    note m = pop_queue_moves[OF p conjunct1[OF holds_queues[OF h]] conjunct1[OF conjunct2[OF holds_queues[OF h]]]]
    have "head_id b ?s2 rid" using assms(3) head_same[OF same_queues_trans[OF q2 same_core_queues[OF c]]] by blast
    then have r0: "request_id r0 = rid" using m(1) by (auto simp: head_id_def)
    have g: "get_req s3 rid = Inr r2" using e(3) m(6) c by (simp add: get_req_def same_core_def)
    have st: "store_ok s3" using store_same[OF m(6)] holds_store[OF h] by simp
    have run: "running ?s2 = running s" using q2 c by (simp add: same_core_def same_queues_def)
    show ?thesis using admitted[OF rest(2) h run p g _ r0 _ st rest(1)] store_okD[OF st g] by simp
  qed
qed

lemma admit_waiting_holds:
  assumes "admit_waiting cfg now b rid hit n plan (s, a, k, l) = Inr (go, s', a', k', l')" "holds_ids M k s" "head_id b s rid"
  shows "holds_ids M k' s'"
  using assms
proof (cases rule: admit_waiting_cases)
  case (admitted s2 r2 r0 s3)
  show ?thesis
  proof (cases "wh_async hit")
    case True
    let ?r1 = "r2\<lparr>status := WAITING_FOR_REMOTE_KVS, num_computed_tokens := wh_computed hit\<rparr>"
    have s': "s' = add_inflight (request_id r2) (put_req ?r1 s3)" "k' = rq_prepend k ?r1"
      using admitted(10) True by (auto simp: start_async_load_def Let_def)
    show ?thesis unfolding s'(2)
    proof (rule holds_set_aside[OF admitted(2,4)])
      show "same_queues s3 s'" by (simp add: s'(1) same_queues_def add_inflight_def put_req_def)
      show "store_ok s'" using admitted(8,9) by (simp add: s'(1) store_put)
      show "stat s' = (stat s3)(request_id ?r1 := Some (status ?r1))" by (simp add: s'(1) stat_put)
    qed (use admitted(6,7) in \<open>simp_all add: waits_def is_blocked_waiting_status_def\<close>)
  next
    case False
    then have "start_running cfg now r2 hit n plan (s3, a, k, l) = Inr (s', a', k', l')" using admitted(10) by simp
    note e = start_running_effect[OF this admitted(9,8)]
    show ?thesis unfolding e(6) using holds_start(1)[OF admitted(2,4) _ e(1,2) _ e(4)] e(3,5) admitted(6,7) by simp
  qed
qed simp

lemma consider_waiting_cases:
  assumes "consider_waiting cfg now b r (s, a, k, l) = Inr (go, s', a', k', l')"
  obtains (skip) s1 where "same_core s s1" "skip_waiting b r (s1, a, k, l) = Inr (go, s', a', k', l')"
  | (stop) "\<not> go" "same_core s s'" "a' = a" "k' = k"
  | (admit) hit s1 n plan s2 where "same_core s s1" "wait_tokens cfg r hit a s1 = Inr (Some (n, plan), s2)" "same_core s s2"
      "admit_waiting cfg now b (request_id r) hit n plan (s2, a, k, l) = Inr (go, s', a', k', l')"
proof (cases "lora_full cfg r l")
  case True
  then show ?thesis using assms skip[OF same_core_refl] by (simp add: consider_waiting_def)
next
  case False
  then obtain found s1 where f: "lookup_hits cfg r s = Inr (found, s1)" using assms by (auto simp: consider_waiting_def rbind_eq_Inr_iff)
  note c1 = lookup_hits_same[OF f]
  show ?thesis
  proof (cases found)
    case None
    then show ?thesis using assms False f skip[OF c1] by (simp add: consider_waiting_def)
  next
    case (Some hit)
    then obtain toks s2 where w: "wait_tokens cfg r hit a s1 = Inr (toks, s2)"
      and rest: "(case toks of None \<Rightarrow> Inr (False, s2, a, k, l)
        | Some (n, plan) \<Rightarrow> admit_waiting cfg now b (request_id r) hit n plan (s2, a, k, l)) = Inr (go, s', a', k', l')"
      using assms False f by (auto simp: consider_waiting_def rbind_eq_Inr_iff)
    note c2 = same_core_trans[OF c1 wait_tokens_same[OF w]]
    show ?thesis
    proof (cases toks)
      case None
      then show ?thesis using rest c2 stop by simp
    next
      case t: (Some p)
      then show ?thesis using rest w admit[OF c1 _ c2] by (cases p) simp
    qed
  qed
qed

lemma wait_step_cases:
  assumes "wait_step cfg now (s, a, k, l) = Inr (go, s', a', k', l')" "holds_ids M k s"
  obtains (skip) s1 b r where "holds_ids M k s1" "same_queues s s1" "head_id b s1 (request_id r)" "get_req s1 (request_id r) = Inr r"
      "skip_waiting b r (s1, a, k, l) = Inr (go, s', a', k', l')"
  | (considered) s1 b r where "holds_ids M k s1" "same_queues s s1" "head_id b s1 (request_id r)" "get_req s1 (request_id r) = Inr r"
      "consider_waiting cfg now b r (s1, a, k, l) = Inr (go, s', a', k', l')"
proof -
  obtain b r0 r ok s1 r1 where e: "rq_peek (the_queue b s) = Inr r0" "get_req s (request_id r0) = Inr r"
    "(if is_blocked_waiting_status (status r) then try_promote_blocked_waiting_request cfg r s else Inr (True, s)) = Inr (ok, s1)"
    "get_req s1 (request_id r0) = Inr r1"
    "(if \<not> ok then skip_waiting b r1 (s1, a, k, l) else consider_waiting cfg now b r1 (s1, a, k, l)) = Inr (go, s', a', k', l')"
    using assms(1) by (auto simp: wait_step_def rbind_eq_Inr_iff)
  note q = conjunct1[OF holds_queues[OF assms(2)]] conjunct1[OF conjunct2[OF holds_queues[OF assms(2)]]]
  have id: "request_id r = request_id r0" using store_okD[OF holds_store[OF assms(2)] e(2)] by simp
  have hd: "head_id b s (request_id r0)" using e(1) by (auto simp: head_id_def)
  have qs: "same_queues s s1" using e(3) by (auto split: if_splits dest: try_promote_same)
  have h1: "holds_ids M k s1"
  proof (cases "is_blocked_waiting_status (status r)")
    case True
    then have p: "try_promote_blocked_waiting_request cfg r s = Inr (ok, s1)" using e(3) by simp
    show ?thesis using try_promote_holds[OF p assms(2)] e(2) id head_queued[OF hd q] by simp
  qed (use e(3) assms(2) in auto)
  have id1: "request_id r1 = request_id r0" using store_okD[OF holds_store[OF h1] e(4)] by simp
  have "head_id b s1 (request_id r1)" "get_req s1 (request_id r1) = Inr r1" using hd head_same[OF qs] id1 e(4) by simp_all
  then show ?thesis using e(5) skip[OF h1 qs] considered[OF h1 qs] by (cases ok) auto
qed

lemma wait_step_holds:
  assumes "wait_step cfg now (s, a, k, l) = Inr (go, s', a', k', l')" "holds_ids M k s"
  shows "holds_ids M k' s'"
  using assms
proof (cases rule: wait_step_cases)
  case (skip s1 b r)
  then show ?thesis using skip_waiting_holds by blast
next
  case (considered s1 b r)
  have hd: "head_id b s2 (request_id r)" "get_req s2 (request_id r) = Inr r" "holds_ids M k s2" if "same_core s1 s2" for s2
    using head_same[OF same_core_queues[OF that], of b] holds_core[OF that considered(1)] that considered(3,4)
    by (simp_all add: same_core_def get_req_def)
  from considered(5) show ?thesis
  proof (cases rule: consider_waiting_cases)
    case (skip s2)
    then show ?thesis using skip_waiting_holds hd by blast
  next
    case stop
    then show ?thesis using hd(3) by blast
  next
    case (admit hit s2 n plan s3)
    then show ?thesis using admit_waiting_holds hd by blast
  qed
qed

lemma wait_loop_rule:
  assumes "wait_loop cfg now (s, a, k, l) = Inr (s', a', k', l')" "P s a k"
    and "\<And>s a k l go s1 a1 k1 l1. P s a k \<Longrightarrow> token_budget a > 0 \<Longrightarrow> int (length (running s)) \<noteq> max_num_running_reqs cfg
           \<Longrightarrow> wait_step cfg now (s, a, k, l) = Inr (go, s1, a1, k1, l1) \<Longrightarrow> P s1 a1 k1"
  shows "P s' a' k'"
  using assms(1,2)
proof (induction cfg \<equiv> cfg now \<equiv> now "(s, a, k, l)" arbitrary: s a k l rule: wait_loop.induct)
  case (1 s a k l)
  let ?g = "(rq_bool (waiting s) \<or> rq_bool (skipped_waiting s)) \<and> token_budget a > 0"
  show ?case
  proof (cases "?g \<and> int (length (running s)) \<noteq> max_num_running_reqs cfg")
    case True
    then obtain go s1 a1 k1 l1 where st: "wait_step cfg now (s, a, k, l) = Inr (go, s1, a1, k1, l1)"
      and rest: "(if go then wait_loop cfg now (s1, a1, k1, l1) else Inr (s1, a1, k1, l1)) = Inr (s', a', k', l')"
      using "1.prems"(1) by (subst (asm) wait_loop.simps) (auto simp: rbind_eq_Inr_iff)
    have P1: "P s1 a1 k1" using assms(3)[OF "1.prems"(2) _ _ st] True by simp
    show ?thesis
    proof (cases go)
      case True': True
      then show ?thesis using "1.hyps"[OF _ _ st refl refl refl refl True'] True P1 rest by simp
    qed (use rest P1 in auto)
  next
    case False
    then show ?thesis using "1.prems" by (subst (asm) wait_loop.simps) (auto split: if_splits)
  qed
qed

lemma wait_loop_holds:
  assumes "wait_loop cfg now (s, a, k, l) = Inr (s', a', k', l')" "holds_ids M k s"
  shows "holds_ids M k' s'"
  by (rule wait_loop_rule[where P = "\<lambda>s a k. holds_ids M k s", OF assms]) (auto elim: wait_step_holds)

end
