(* ===== verification/Scheduler_Budget.thy ===== *)
theory Scheduler_Budget
  imports Scheduler_Invariant
begin

section \<open>Budgets of a scheduling step\<close>

text \<open>
  The tokens handed out and the rest of the token budget always add up to the budget of the step, also
  when a request that was scheduled in this step is preempted again; every scheduled request is running
  and scheduled once. With this the assertions at the end of \<open>schedule\<close> hold.
\<close>

subsection \<open>Lists with an element removed\<close>

lemma take_remove1_in: "x \<in> set (take i xs) \<Longrightarrow> take (i - 1) (remove1 x xs) = remove1 x (take i xs)"
proof (induction xs arbitrary: i)
  case (Cons y xs)
  then show ?case
  proof (cases i)
    case (Suc j)
    then show ?thesis using Cons.prems Cons.IH[of j] by (cases j) auto
  qed simp
qed simp

lemma drop_remove1_in: "x \<in> set (take i xs) \<Longrightarrow> i \<le> j \<Longrightarrow> drop (j - 1) (remove1 x xs) = drop j xs"
proof (induction xs arbitrary: i j)
  case (Cons y xs)
  obtain i' where i: "i = Suc i'" using Cons.prems(1) by (cases i) auto
  obtain j' where j: "j = Suc j'" using Cons.prems(2) i by (cases j) auto
  show ?case
  proof (cases "x = y")
    case False
    then have x: "x \<in> set (take i' xs)" using Cons.prems(1) i by simp
    then obtain i'' where "i' = Suc i''" by (cases i') auto
    then obtain j'' where "j' = Suc j''" using Cons.prems(2) i j by (cases j') auto
    then show ?thesis using Cons.IH[OF x, of j'] Cons.prems(2) i j False by simp
  qed (simp add: j)
qed simp

lemma take_remove1_sub: "set (take i xs) - {x} \<subseteq> set (take i (remove1 x xs))"
proof (induction xs arbitrary: i)
  case (Cons y xs)
  have "set (take j xs) \<subseteq> set (take (Suc j) xs)" for j by (rule set_take_subset_set_take) simp
  then show ?case using Cons.IH[of "i - 1"] by (cases i) auto
qed simp

lemma drop_remove1_sub: "set (drop j (remove1 x xs)) \<subseteq> set (drop j xs)"
proof (induction xs arbitrary: j)
  case (Cons y xs)
  have "set (drop (Suc j) xs) \<subseteq> set (drop j xs)" for j by (rule set_drop_subset_set_drop) simp
  then show ?case using Cons.IH[of "j - 1"] by (cases j) (auto dest: notin_set_remove1 in_set_dropD)
qed simp

lemma drop_butlast_sub: "set (drop j (butlast xs)) \<subseteq> set (drop j xs)"
  by (simp add: drop_butlast) (meson in_set_butlastD subsetI)

subsection \<open>The tokens of a step\<close>

definition tokens_ok :: "int \<Rightarrow> step_acc \<Rightarrow> bool" where
  "tokens_ok B a \<longleftrightarrow> dict_ok (acc_tokens a) \<and> (\<forall>rid n. dict_get (acc_tokens a) rid = Some n \<longrightarrow> 0 \<le> n)
     \<and> token_budget a + total_scheduled a = B \<and> 0 \<le> token_budget a"

definition acc_ids :: "step_acc \<Rightarrow> string list" where
  "acc_ids a = acc_new a @ acc_resumed a @ acc_running a"

definition acc_ok :: "int \<Rightarrow> 'x scheduler \<Rightarrow> step_acc \<Rightarrow> bool" where
  "acc_ok B s a \<longleftrightarrow> distinct (acc_ids a) \<and> set (acc_ids a) \<subseteq> set (running s)
     \<and> fst ` set (acc_tokens a) = set (acc_ids a) \<and> tokens_ok B a"

lemma total_fsum: "total_scheduled a = fsum (acc_tokens a)"
  by (simp add: total_scheduled_def fsum_def)

lemma tokens_add:
  assumes "tokens_ok B a" "rid \<notin> fst ` set (acc_tokens a)" "0 \<le> n" "n \<le> token_budget a"
    "acc_tokens a' = dict_set rid n (acc_tokens a)" "token_budget a' = token_budget a - n"
  shows "tokens_ok B a'"
proof -
  have "dict_get (acc_tokens a) rid = None" using assms(2) by (simp add: map_of_eq_None_iff)
  then show ?thesis using assms fsum_set[of "acc_tokens a" rid n] by (auto simp: tokens_ok_def total_fsum)
qed

lemma tokens_take_back:
  assumes "tokens_ok B a" "dict_get (acc_tokens a) vid = Some n"
    "acc_tokens a' = dict_del vid (acc_tokens a)" "token_budget a' = token_budget a + n"
  shows "tokens_ok B a'"
proof -
  have "dict_ok (acc_tokens a)" "0 \<le> n" using assms(1,2) by (auto simp: tokens_ok_def)
  then show ?thesis using assms fsum_del[of "acc_tokens a" vid n] by (auto simp: tokens_ok_def total_fsum)
qed

text \<open>A running request has no fewer tokens than are computed, and room for the tokens it samples.\<close>

definition progress_ok :: "'x sched_config \<Rightarrow> request \<Rightarrow> bool" where
  "progress_ok cfg r \<longleftrightarrow> num_computed_tokens r \<le> num_tokens_with_spec r + num_output_placeholders r
     \<and> num_computed_tokens r + num_sampled_tokens_per_step cfg \<le> max_model_len cfg"

definition all_progress :: "'x sched_config \<Rightarrow> 'x scheduler \<Rightarrow> string set \<Rightarrow> bool" where
  "all_progress cfg s X \<longleftrightarrow> (\<forall>rid \<in> X. \<forall>r. get_req s rid = Inr r \<longrightarrow> progress_ok cfg r)"

lemma running_new_tokens_bounds:
  assumes "progress_ok cfg r" "0 < b"
  shows "0 \<le> running_new_tokens cfg r b" "running_new_tokens cfg r b \<le> b"
  using assms by (auto simp: running_new_tokens_def progress_ok_def Let_def)

lemma progress_cache: "same_but_cache r r' \<Longrightarrow> progress_ok cfg r' = progress_ok cfg r"
  by (auto simp: same_but_cache_def progress_ok_def num_tokens_with_spec_def num_tokens_def)

lemma allocate_for_progress:
  assumes "allocate_for rid args s = Inr (b, s')" "store_ok s" "all_progress cfg s X"
  shows "all_progress cfg s' X"
proof -
  obtain r r' km where r: "get_req s rid = Inr r" "allocate_slots r args (kv_mgr s) = Inr (b, r', km)" "s' = put_req r' (s\<lparr>kv_mgr := km\<rparr>)"
    using assms(1) by (auto simp: allocate_for_def rbind_eq_Inr_iff)
  have id: "request_id r' = rid" using allocate_slots_request[OF r(2)] store_okD[OF assms(2) r(1)] by (auto simp: same_but_cache_def)
  have "progress_ok cfg r' = progress_ok cfg r" by (rule progress_cache[OF allocate_slots_request[OF r(2)]])
  then show ?thesis using assms(3) r(1) unfolding r(3) all_progress_def get_req_iff by (auto simp: put_req_def id)
qed

lemma preempt_request_other:
  assumes "preempt_request cfg now vid s = Inr s'" "store_ok s" "x \<noteq> vid"
  shows "get_req s' x = get_req s x"
proof -
  obtain r km s1 r2 where r: "get_req s vid = Inr r" and f: "enc_free_request cfg r (s\<lparr>kv_mgr := km\<rparr>) = Inr s1"
    and s': "s' = (put_req r2 (discard_inflight vid s1))\<lparr>waiting := rq_prepend (waiting s1) r2\<rparr>" "request_id r2 = request_id r"
    using assms(1) by (auto simp: preempt_request_def rbind_eq_Inr_iff Let_def record_event_def)
  have "request_id r2 = vid" using store_okD[OF assms(2) r] s'(2) by simp
  moreover have "requests s1 = requests s" using enc_free_request_same[OF f] by (simp add: same_core_def)
  ultimately show ?thesis using assms(3) s'(1) by (simp add: get_req_def dict_index_def put_req_def discard_inflight_def)
qed

subsection \<open>The positions of the running requests\<close>

text \<open>
  Before position \<open>i\<close> are the requests that were scheduled, from \<open>j\<close> on those that were not looked at yet.
\<close>

definition slots_ok :: "'x sched_config \<Rightarrow> int \<Rightarrow> 'x scheduler \<Rightarrow> step_acc \<Rightarrow> nat \<Rightarrow> nat \<Rightarrow> bool" where
  "slots_ok cfg B s a i j \<longleftrightarrow> store_ok s \<and> distinct (running s) \<and> acc_new a = [] \<and> acc_resumed a = [] \<and> distinct (acc_running a)
     \<and> set (acc_running a) \<subseteq> set (take i (running s)) \<and> fst ` set (acc_tokens a) = set (acc_running a) \<and> tokens_ok B a
     \<and> all_progress cfg s (set (drop j (running s)))"

lemma slots_intro:
  assumes "store_ok s" "distinct (running s)" "acc_new a = []" "acc_resumed a = []" "distinct (acc_running a)"
    "set (acc_running a) \<subseteq> set (take i (running s))" "fst ` set (acc_tokens a) = set (acc_running a)" "tokens_ok B a"
    "all_progress cfg s (set (drop j (running s)))"
  shows "slots_ok cfg B s a i j"
  using assms by (simp add: slots_ok_def)

lemma slots_acc: "slots_ok cfg B s a i j \<Longrightarrow> acc_ok B s a"
  by (auto simp: slots_ok_def acc_ok_def acc_ids_def dest: in_set_takeD)

lemma slots_core: "same_core s s' \<Longrightarrow> slots_ok cfg B s a i j \<Longrightarrow> slots_ok cfg B s' a i j"
  using store_core[of s s'] by (auto simp: slots_ok_def same_core_def same_queues_def all_progress_def get_req_def)

lemma slots_allocate:
  assumes "allocate_for rid args s = Inr (b, s')" "slots_ok cfg B s a i j"
  shows "slots_ok cfg B s' a i j"
  using assms allocate_for_progress[OF assms(1)] allocate_for_store[OF _ assms(1)] allocate_for_running[OF assms(1)]
  by (simp add: slots_ok_def)

lemma unschedule_effect:
  assumes "unschedule vid v a = Inr a'"
  shows "\<exists>n. dict_get (acc_tokens a) vid = Some n \<and> acc_tokens a' = dict_del vid (acc_tokens a) \<and> token_budget a' = token_budget a + n"
    "acc_running a' = remove1 vid (acc_running a)" "acc_new a' = acc_new a" "acc_resumed a' = acc_resumed a"
  using assms by (auto simp: unschedule_def rbind_eq_Inr_iff dict_index_def split: option.splits)

lemma choose_victim_acc:
  assumes "choose_victim cfg s a idx = Inr (vid, s', a', idx')"
  shows "if policy cfg = PRIORITY \<and> vid \<in> set (acc_running a) then idx' = idx - 1 \<and> (\<exists>v. unschedule vid v a = Inr a') else idx' = idx \<and> a' = a"
  using assms by (auto simp: choose_victim_def rbind_eq_Inr_iff Let_def split: if_splits)

text \<open>Choosing a victim: \<open>rid\<close> is the request that needs room.\<close>

lemma choose_victim_slots:
  assumes c: "choose_victim cfg s a (int i) = Inr (vid, s', a', idx')" and sl: "slots_ok cfg B s a i (Suc i)"
    and fcfs: "policy cfg \<noteq> PRIORITY \<Longrightarrow> i < length (running s)"
  shows "\<exists>i'. idx' = int i' \<and> slots_ok cfg B s' a' i' (Suc i') \<and> (\<forall>x \<in> set (take (Suc i) (running s)). x \<noteq> vid \<longrightarrow> x \<in> set (take (Suc i') (running s')))
    \<and> set (acc_running a') = set (acc_running a) - {vid} \<and> vid \<notin> set (running s') \<and> token_budget a \<le> token_budget a'"
proof -
  let ?R = "running s"
  obtain rs where s': "s' = s\<lparr>running := rs\<rparr>" using choose_victim_moves[OF c] by blast
  note st = choose_victim_running[OF c]
  have d: "store_ok s" "distinct ?R" "distinct (acc_running a)" "set (acc_running a) \<subseteq> set (take i ?R)" "tokens_ok B a"
    "fst ` set (acc_tokens a) = set (acc_running a)" "all_progress cfg s (set (drop (Suc i) ?R))" "acc_new a = []" "acc_resumed a = []"
    using sl by (simp_all add: slots_ok_def)
  have run: "running s' = rs" and ok: "store_ok s'" using s' d(1) by simp_all
  have prog: "all_progress cfg s' X" if "X \<subseteq> set (drop (Suc i) ?R)" for X
    using d(7) that s' by (auto simp: all_progress_def get_req_def)
  show ?thesis
  proof (cases "policy cfg = PRIORITY \<and> vid \<in> set (acc_running a)")
    case True
    then obtain v where u: "idx' = int i - 1" "unschedule vid v a = Inr a'" using choose_victim_acc[OF c] by auto
    note e = unschedule_effect[OF u(2)]
    obtain n where n: "dict_get (acc_tokens a) vid = Some n" "acc_tokens a' = dict_del vid (acc_tokens a)" "token_budget a' = token_budget a + n"
      using e(1) by blast
    have vt: "vid \<in> set (take i ?R)" using True d(4) by blast
    have R: "rs = remove1 vid ?R" using st(2) True run by simp
    have i: "0 < i" using vt by (cases i) auto
    have tk: "set (take (i - 1) rs) = set (take i ?R) - {vid}" "set (take i rs) = set (take (Suc i) ?R) - {vid}"
      using take_remove1_in[OF vt] take_remove1_in[of vid "Suc i" ?R] set_take_subset_set_take[of i "Suc i" ?R] vt d(2)
      by (auto simp: R)
    have "slots_ok cfg B s' a' (i - 1) (Suc (i - 1))"
    proof (rule slots_intro)
      show "tokens_ok B a'" by (rule tokens_take_back[OF d(5) n])
      show "all_progress cfg s' (set (drop (Suc (i - 1)) (running s')))"
        by (rule prog) (use drop_remove1_in[OF vt, of "Suc i"] i in \<open>simp add: run R\<close>)
      show "fst ` set (acc_tokens a') = set (acc_running a')" using d(3,6) e(2) n(2) by (simp add: dict_keys_del)
      show "set (acc_running a') \<subseteq> set (take (i - 1) (running s'))" using d(3,4) e(2) tk(1) run by auto
    qed (use ok d e run R in simp_all)
    moreover have "0 \<le> n" using d(5) n(1) by (simp add: tokens_ok_def)
    ultimately show ?thesis using u(1) i tk(2) e(2) d(2,3) n(3) run R by (intro exI[of _ "i - 1"]) auto
  next
    case False
    then have u: "idx' = int i" "a' = a" using choose_victim_acc[OF c] by (simp_all split: if_splits)
    have v: "vid \<notin> set (acc_running a) \<and> set (take m ?R) - {vid} \<subseteq> set (take m rs) \<and> set (drop (Suc i) rs) \<subseteq> set (drop (Suc i) ?R)
      \<and> distinct rs \<and> vid \<notin> set rs" for m
    proof (cases "policy cfg = PRIORITY")
      case True
      then have "rs = remove1 vid ?R" using st(2) run by simp
      then show ?thesis using False True take_remove1_sub[of m ?R vid] drop_remove1_sub[of "Suc i" vid ?R] d(2) by simp
    next
      case F: False
      have R: "rs = butlast ?R" "vid = last ?R" "?R \<noteq> []" using st F run by auto
      have RR: "?R = rs @ [vid]" using R by simp
      then have "i \<le> length rs" using fcfs[OF F] by simp
      then have "take i ?R = take i rs" using RR by simp
      moreover have "vid \<notin> set rs" "distinct rs" using RR d(2) by auto
      moreover have "set (take m ?R) - {vid} \<subseteq> set (take m rs)" unfolding RR by (cases "m - length rs") auto
      ultimately show ?thesis using d(4) drop_butlast_sub[of "Suc i" ?R] R(1) by (auto dest: in_set_takeD)
    qed
    have "slots_ok cfg B s' a i (Suc i)"
      by (rule slots_intro) (use d ok run v[of i] prog[of "set (drop (Suc i) rs)"] in auto)
    then show ?thesis using u v[of "Suc i"] run by (intro exI[of _ i]) auto
  qed
qed

definition needs_room :: "'x sched_config \<Rightarrow> int \<Rightarrow> string \<Rightarrow> int \<Rightarrow> 'x scheduler \<Rightarrow> step_acc \<Rightarrow> int \<Rightarrow> bool" where
  "needs_room cfg B rid n s a idx \<longleftrightarrow> (\<exists>i. idx = int i \<and> slots_ok cfg B s a i (Suc i) \<and> rid \<in> set (take (Suc i) (running s))
     \<and> rid \<notin> set (acc_running a) \<and> n \<le> token_budget a \<and> (policy cfg \<noteq> PRIORITY \<longrightarrow> i < length (running s) \<and> running s ! i = rid))"

lemma preempt_lowest_room:
  assumes p: "preempt_lowest cfg now s a idx = Inr (vid, s', a', idx')" and nr: "needs_room cfg B rid n s a idx"
  shows "if vid = rid then acc_ok B s' a' else needs_room cfg B rid n s' a' idx'"
proof -
  obtain i where i: "idx = int i" "slots_ok cfg B s a i (Suc i)" "rid \<in> set (take (Suc i) (running s))" "rid \<notin> set (acc_running a)"
    "n \<le> token_budget a" and fcfs: "policy cfg \<noteq> PRIORITY \<longrightarrow> i < length (running s) \<and> running s ! i = rid"
    using nr by (auto simp: needs_room_def)
  obtain s1 a1 where c: "choose_victim cfg s a (int i) = Inr (vid, s1, a1, idx')" and pr: "preempt_request cfg now vid s1 = Inr s'"
    and a': "a' = a1\<lparr>acc_preempted := acc_preempted a1 @ [vid]\<rparr>"
    using p i(1) by (auto simp: preempt_lowest_def rbind_eq_Inr_iff)
  from choose_victim_slots[OF c i(2)] fcfs obtain i' where
    i': "idx' = int i'" "slots_ok cfg B s1 a1 i' (Suc i')"
      "\<forall>x \<in> set (take (Suc i) (running s)). x \<noteq> vid \<longrightarrow> x \<in> set (take (Suc i') (running s1))"
      "set (acc_running a1) = set (acc_running a) - {vid}" "vid \<notin> set (running s1)" "token_budget a \<le> token_budget a1" by blast
  have run: "running s' = running s1" by (rule preempt_request_running[OF pr])
  have st1: "store_ok s1" using i'(2) by (simp add: slots_ok_def)
  have "get_req s' x = get_req s1 x" if "x \<in> set (drop (Suc i') (running s1))" for x
    using preempt_request_other[OF pr st1] i'(5) in_set_dropD[OF that] by metis
  then have "all_progress cfg s' (set (drop (Suc i') (running s')))" using i'(2) run by (simp add: slots_ok_def all_progress_def)
  then have sl: "slots_ok cfg B s' a' i' (Suc i')" using i'(2) run preempt_request_store[OF st1 pr] a'
    by (simp add: slots_ok_def tokens_ok_def total_scheduled_def)
  show ?thesis
  proof (cases "vid = rid")
    case False
    have "i' < length (running s') \<and> running s' ! i' = rid" if F: "policy cfg \<noteq> PRIORITY"
    proof -
      have ii: "i' = i" using choose_victim_acc[OF c] F i'(1) by simp
      have R: "running s' = butlast (running s)" "vid = last (running s)" "running s \<noteq> []"
        using choose_victim_running[OF c] F run by auto
      have "i \<noteq> length (running s) - 1" using fcfs F False R(2,3) by (metis last_conv_nth)
      then have "i < length (butlast (running s))" using fcfs F by simp linarith
      then show ?thesis using fcfs F R(1) ii nth_butlast[of i "running s"] by simp
    qed
    then have "needs_room cfg B rid n s' a' idx'" unfolding needs_room_def
      by (intro exI[of _ i']) (use i'(1,3,4,6) i(3,4,5) False sl run a' in auto)
    then show ?thesis using False by simp
  qed (use slots_acc[OF sl] in simp)
qed

lemma needs_room_allocate:
  "allocate_for rid args s = Inr (b, s') \<Longrightarrow> needs_room cfg B rid n s a idx \<Longrightarrow> needs_room cfg B rid n s' a idx"
  using allocate_for_running[of rid args s b s'] slots_allocate[of rid args s b s'] by (auto simp: needs_room_def)

lemma allocate_or_preempt_room:
  assumes "allocate_or_preempt cfg now rid n s a idx = Inr (b, s', a', idx')" "needs_room cfg B rid n s a idx"
  shows "if b = None then acc_ok B s' a' else needs_room cfg B rid n s' a' idx'"
  by (rule allocate_or_preempt_rule[where P = "needs_room cfg B rid n" and Q = "acc_ok B", OF assms])
    (rule needs_room_allocate preempt_lowest_room; assumption)+

lemma commit_encoder_acc:
  "commit_encoder cfg r p s a = Inr (s', a') \<Longrightarrow> acc_new a' = acc_new a \<and> acc_resumed a' = acc_resumed a \<and> acc_running a' = acc_running a
    \<and> acc_tokens a' = acc_tokens a \<and> token_budget a' = token_budget a"
  by (auto simp: commit_encoder_def rbind_eq_Inr_iff split: option.splits)

lemma schedule_spec_acc:
  "acc_new (schedule_spec r n a) = acc_new a \<and> acc_resumed (schedule_spec r n a) = acc_resumed a \<and> acc_running (schedule_spec r n a) = acc_running a
    \<and> acc_tokens (schedule_spec r n a) = acc_tokens a \<and> token_budget (schedule_spec r n a) = token_budget a"
  by (simp add: schedule_spec_def Let_def)

lemma record_running_slots:
  assumes rec: "record_running cfg rid n b plan s a = Inr (s', a')" and nr: "needs_room cfg B rid n s a idx" and n: "0 \<le> n"
  shows "\<exists>i. idx = int i \<and> slots_ok cfg B s' a' (Suc i) (Suc i)"
proof -
  obtain i where i: "idx = int i" "slots_ok cfg B s a i (Suc i)" "rid \<in> set (take (Suc i) (running s))" "rid \<notin> set (acc_running a)"
    "n \<le> token_budget a" using nr by (auto simp: needs_room_def)
  obtain r where r: "get_req s rid = Inr r" using rec by (auto simp: record_running_def rbind_eq_Inr_iff)
  let ?a1 = "a\<lparr>acc_running := acc_running a @ [rid], acc_blocks := dict_set rid b (acc_blocks a),
                  acc_tokens := dict_set rid n (acc_tokens a), token_budget := token_budget a - n\<rparr>"
  let ?r1 = "if spec_token_ids r \<noteq> [] then r\<lparr>spec_token_ids := []\<rparr> else r"
  have ce: "commit_encoder cfg ?r1 plan (put_req ?r1 s) (schedule_spec r n ?a1) = Inr (s', a')"
    using rec r unfolding record_running_def Let_def by simp
  have a': "acc_new a' = acc_new a" "acc_resumed a' = acc_resumed a" "acc_running a' = acc_running a @ [rid]"
    "acc_tokens a' = dict_set rid n (acc_tokens a)" "token_budget a' = token_budget a - n"
    using commit_encoder_acc[OF ce] schedule_spec_acc[of r n ?a1] by simp_all
  note k = record_running_keeps[OF rec]
  have run: "running s' = running s" by (rule record_running_running[OF rec])
  have d: "store_ok s" "distinct (running s)" "distinct (acc_running a)" "set (acc_running a) \<subseteq> set (take i (running s))" "tokens_ok B a"
    "fst ` set (acc_tokens a) = set (acc_running a)" "all_progress cfg s (set (drop (Suc i) (running s)))" "acc_new a = []" "acc_resumed a = []"
    using i(2) by (simp_all add: slots_ok_def)
  have "slots_ok cfg B s' a' (Suc i) (Suc i)"
  proof (rule slots_intro)
    show "store_ok s'" using k d(1) by (simp add: keeps_def)
    show "tokens_ok B a'" by (rule tokens_add[OF d(5) _ n i(5) a'(4,5)]) (use d(6) i(4) in simp)
    show "set (acc_running a') \<subseteq> set (take (Suc i) (running s'))"
      using a'(3) d(4) i(3) run set_take_subset_set_take[of i "Suc i" "running s"] by auto
    show "fst ` set (acc_tokens a') = set (acc_running a')" using a'(3,4) d(6) by (simp add: dict_keys_set)
    have "rid \<notin> set (drop (Suc i) (running s))" using i(3) d(2) set_take_disj_set_drop_if_distinct[of "running s" "Suc i" "Suc i"] by auto
    moreover have "requests s' = requests (put_req ?r1 s)" using commit_encoder_same[OF ce] by (simp add: same_core_def)
    moreover have "request_id ?r1 = rid" using store_okD[OF d(1) r] by simp
    ultimately show "all_progress cfg s' (set (drop (Suc i) (running s')))"
      using d(7) run by (auto simp: all_progress_def get_req_iff put_req_def)
  qed (use d a' run i(4) in simp_all)
  then show ?thesis using i(1) by blast
qed

lemma slots_next: "slots_ok cfg B s a i i \<Longrightarrow> slots_ok cfg B s a i (Suc i) \<and> slots_ok cfg B s a (Suc i) (Suc i)"
  using set_take_subset_set_take[of i "Suc i" "running s"] set_drop_subset_set_drop[of i "Suc i" "running s"]
  by (auto simp: slots_ok_def all_progress_def)

lemma aligned_bounds:
  assumes "plan_encoder cfg r c m bud s = Inr (p, n1, s')" "req_ok r" "0 \<le> m" "m \<le> b" "0 < cache_block_size cfg"
    "n = (if need_mamba_block_aligned_split cfg then mamba_block_aligned_split cfg r n1 l e u else n1)"
  shows "0 \<le> n \<and> n \<le> b"
  using plan_encoder_bound[OF assms(1,2)] assms(3,4,6) mamba_split_bound(1)[OF assms(5), of r n1 l e u]
    mamba_split_bound(2)[OF assms(5), of n1 r l e u] by (auto split: if_splits)

lemma run_step_slots:
  assumes st: "run_step cfg now s a (int i) = Inr (go, s', a', idx')" and sl: "slots_ok cfg B s a i i"
    and g: "i < length (running s)" "token_budget a > 0" "0 < cache_block_size cfg"
  shows "if go then \<exists>i'. idx' = int i' \<and> slots_ok cfg B s' a' i' i' else acc_ok B s' a'"
  using st
proof (cases rule: run_step_cases)
  case skip
  then have "slots_ok cfg B s' a' (Suc i) (Suc i)" using slots_core[OF skip(2), of cfg B a] slots_next[OF sl] by simp
  then show ?thesis using skip by (auto intro!: exI[of _ "Suc i"])
next
  case (tried rid r plan n1 n s1 b s2 a2 idx2)
  have rid: "rid = running s ! i" using tried(1) g(1) by simp
  have d: "store_ok s" "distinct (running s)" "set (acc_running a) \<subseteq> set (take i (running s))" "all_progress cfg s (set (drop i (running s)))"
    using sl by (simp_all add: slots_ok_def)
  have mem: "rid \<in> set (drop i (running s))" "rid \<in> set (take (Suc i) (running s))" "rid \<notin> set (take i (running s))"
    using g(1) d(2) rid id_take_nth_drop[OF g(1)]
    by (auto simp: take_Suc_conv_app_nth Cons_nth_drop_Suc[symmetric] distinct_conv_nth in_set_conv_nth nth_eq_iff_index_eq)
  have pr: "progress_ok cfg r" using d(4) mem(1) tried(2) by (auto simp: all_progress_def)
  have n: "0 \<le> n \<and> n \<le> token_budget a"
    by (rule aligned_bounds[OF tried(4) _ _ _ g(3) tried(5)])
      (use store_req_ok[OF tried(2) d(1)] running_new_tokens_bounds[OF pr g(2)] in simp_all)
  have run1: "running s1 = running s" using tried(3) by (simp add: same_core_def same_queues_def)
  have "slots_ok cfg B s1 a i (Suc i)" using slots_core[OF tried(3)] slots_next[OF sl] by blast
  then have nr: "needs_room cfg B rid n s1 a (int i)" unfolding needs_room_def
    by (intro exI[of _ i]) (use mem d(3) n g(1) rid run1 in auto)
  note al = allocate_or_preempt_room[OF tried(6) nr]
  show ?thesis
  proof (cases b)
    case None
    then show ?thesis using al tried(7) by simp
  next
    case (Some x)
    then have rec: "record_running cfg rid n x plan s2 a2 = Inr (s', a')" "go" "idx' = idx2 + 1" using tried(7) by simp_all
    from record_running_slots[OF rec(1)] al Some n obtain i' where "idx2 = int i'" "slots_ok cfg B s' a' (Suc i') (Suc i')" by auto
    then show ?thesis using rec(2,3) by (auto intro!: exI[of _ "Suc i'"])
  qed
qed

lemma run_step_length:
  assumes "run_step cfg now s a idx = Inr (go, s', a', idx')"
  shows "length (running s') \<le> length (running s)"
  using assms
proof (cases rule: run_step_cases)
  case (tried rid r plan n1 n s1 b s2 a2 idx2)
  have run1: "running s1 = running s" using tried(3) by (simp add: same_core_def same_queues_def)
  have "if b = None then length (running s2) \<le> length (running s) else length (running s2) \<le> length (running s)"
    by (rule allocate_or_preempt_rule[where P = "\<lambda>x _ _. length (running x) \<le> length (running s)", OF tried(6)])
      (use run1 in \<open>auto dest!: allocate_for_running preempt_lowest_running(1)\<close>)
  then show ?thesis using tried(7) by (auto split: if_splits dest: record_running_running)
qed (simp add: same_core_def same_queues_def)

lemma run_loop_acc:
  assumes "run_loop cfg now s a 0 = Inr (s', a')" "slots_ok cfg B s a 0 0" "0 < cache_block_size cfg"
  shows "acc_ok B s' a' \<and> length (running s') \<le> length (running s)"
proof -
  let ?P = "\<lambda>x y idx. \<exists>i. idx = int i \<and> slots_ok cfg B x y i i"
  have "acc_ok B s' a'"
  proof (rule run_loop_rule[where P = ?P and Q = "acc_ok B", OF assms(1)])
    show "?P s a 0" using assms(2) by (intro exI[of _ 0]) simp
    show "if go then ?P s1 a1 idx1 else acc_ok B s1 a1" if P: "?P x y idx" and st: "idx < int (length (running x))" "token_budget y > 0"
      "run_step cfg now x y idx = Inr (go, s1, a1, idx1)" for x y idx go s1 a1 idx1
    proof -
      obtain i where "idx = int i" "slots_ok cfg B x y i i" using P by blast
      then show ?thesis using run_step_slots[of cfg now x y i go s1 a1 idx1 B] st assms(3) by simp
    qed
  qed (auto dest: slots_acc)
  moreover have "length (running s') \<le> length (running s)"
  proof (rule run_loop_rule[where P = "\<lambda>x _ _. length (running x) \<le> length (running s)" and Q = "\<lambda>x _. length (running x) \<le> length (running s)", OF assms(1)])
    show "if go then length (running s1) \<le> length (running s) else length (running s1) \<le> length (running s)"
      if "length (running x) \<le> length (running s)" "run_step cfg now x y idx = Inr (go, s1, a1, idx1)" for x y idx go s1 a1 idx1
      using run_step_length[OF that(2)] that(1) by simp
  qed simp_all
  ultimately show ?thesis ..
qed

subsection \<open>The waiting requests\<close>

lemma wait_tokens_bounds:
  assumes "wait_tokens cfg r hit a s = Inr (Some (n, plan), s')" "\<not> wh_async hit" "req_ok r" "0 < cache_block_size cfg"
  shows "0 \<le> n \<and> n \<le> token_budget a"
proof -
  let ?m = "min (waiting_new_tokens cfg r hit) (token_budget a)"
  obtain n3 where p: "plan_encoder cfg r (wh_computed hit) ?m (encoder_budget a) s = Inr (plan, n3, s')" "?m > 0"
    and n: "n = (if need_mamba_block_aligned_split cfg
        then mamba_block_aligned_split cfg r n3 (wh_local hit) (wh_external hit) (wh_uncached_common hit) else n3)"
    using assms(1,2) by (auto simp: wait_tokens_def rbind_eq_Inr_iff Let_def split: if_splits)
  show ?thesis by (rule aligned_bounds[OF p(1) assms(3) _ _ assms(4) n]) (use p(2) in simp_all)
qed

lemma start_running_acc:
  assumes st: "start_running cfg now r hit n plan (s, a, k, l) = Inr (s', a', k', l')"
    and ok: "acc_ok B s a" "request_id r \<notin> set (running s)" "running s' = running s @ [request_id r]" "0 \<le> n" "n \<le> token_budget a"
  shows "acc_ok B s' a'"
proof -
  let ?rid = "request_id r"
  let ?given = "\<lambda>x. acc_tokens x = dict_set ?rid n (acc_tokens a) \<and> token_budget x = token_budget a - n
    \<and> mset (acc_ids x) = add_mset ?rid (mset (acc_ids a))"
  obtain a2 r2 s2 where ce: "commit_encoder cfg r2 plan s2 a2 = Inr (s', a')" and a2: "?given a2"
    using st unfolding start_running_def Let_def prod.case rbind_eq_Inr_iff
    by (elim exE conjE) (fastforce simp: acc_ids_def split: if_splits prod.splits)
  have "?given a'" using a2 commit_encoder_acc[OF ce] by (simp add: acc_ids_def)
  then have tk: "acc_tokens a' = dict_set ?rid n (acc_tokens a)" "token_budget a' = token_budget a - n"
    and ids: "mset (acc_ids a') = add_mset ?rid (mset (acc_ids a))" by simp_all
  have set: "set (acc_ids a') = insert (request_id r) (set (acc_ids a))" using arg_cong[OF ids, of set_mset] by simp
  have new: "request_id r \<notin> set (acc_ids a)" using ok(1,2) by (auto simp: acc_ok_def)
  have "distinct (acc_ids a')" using ok(1) new mset_eq_imp_distinct_iff[of "acc_ids a'" "request_id r # acc_ids a"] ids
    by (simp add: acc_ok_def)
  moreover have "tokens_ok B a'" by (rule tokens_add[OF _ _ ok(4,5) tk]) (use ok(1) new in \<open>simp_all add: acc_ok_def\<close>)
  ultimately show ?thesis using ok(1,3) set tk(1) by (auto simp: acc_ok_def dict_keys_set)
qed

definition wait_ok :: "'x sched_config \<Rightarrow> string multiset \<Rightarrow> int \<Rightarrow> 'x scheduler \<Rightarrow> step_acc \<Rightarrow> request_queue \<Rightarrow> bool" where
  "wait_ok cfg M B s a k \<longleftrightarrow> holds_ids M k s \<and> acc_ok B s a \<and> int (length (running s)) \<le> max_num_running_reqs cfg"

lemma acc_ok_running: "running s' = running s \<Longrightarrow> acc_ok B s' a = acc_ok B s a"
  by (simp add: acc_ok_def)

lemma skip_waiting_same: "skip_waiting b r (s, a, k, l) = Inr (go, s', a', k', l') \<Longrightarrow> running s' = running s \<and> a' = a"
  by (auto simp: skip_waiting_def pop_queue_def rbind_eq_Inr_iff)

lemma admit_waiting_acc:
  assumes ad: "admit_waiting cfg now b rid hit n plan (s, a, k, l) = Inr (go, s', a', k', l')"
    and w: "wait_ok cfg M B s a k" "head_id b s rid" "int (length (running s)) \<noteq> max_num_running_reqs cfg"
    and n: "\<not> wh_async hit \<Longrightarrow> 0 \<le> n \<and> n \<le> token_budget a"
  shows "acc_ok B s' a' \<and> int (length (running s')) \<le> max_num_running_reqs cfg"
proof -
  have h: "holds_ids M k s" and ok: "acc_ok B s a" "int (length (running s)) < max_num_running_reqs cfg"
    using w by (simp_all add: wait_ok_def)
  from ad h w(2) show ?thesis
  proof (cases rule: admit_waiting_cases)
    case full
    then show ?thesis using ok acc_ok_running[of s' s B a] by simp
  next
    case (admitted s2 r2 r0 s3)
    note q = holds_queues[OF admitted(2)]
    have run3: "running s3 = running s" using pop_queue_moves(5)[OF admitted(4)] q admitted(3) by simp
    show ?thesis
    proof (cases "wh_async hit")
      case True
      then have "running s' = running s" "a' = a" using admitted(10) run3
        by (auto simp: start_async_load_def Let_def put_req_def add_inflight_def)
      then show ?thesis using ok acc_ok_running[of s' s B a] by simp
    next
      case False
      then have st: "start_running cfg now r2 hit n plan (s3, a, k, l) = Inr (s', a', k', l')" using admitted(10) by simp
      note e = start_running_effect[OF st admitted(9,8)]
      have nr: "request_id r2 \<notin> set (running s3)"
        using holds_start(2)[OF admitted(2,4) _ e(1,2) _ e(4)] e(3,5) admitted(6,7) by simp
      have "acc_ok B s' a'"
        by (rule start_running_acc[OF st _ nr e(3)]) (use n[OF False] ok(1) acc_ok_running[OF run3, of B a] in simp_all)
      then show ?thesis using e(3) run3 ok(2) by simp
    qed
  qed
qed

lemma wait_step_ok:
  assumes st: "wait_step cfg now (s, a, k, l) = Inr (go, s', a', k', l')" and w: "wait_ok cfg M B s a k"
    and max: "int (length (running s)) \<noteq> max_num_running_reqs cfg" and bs: "0 < cache_block_size cfg"
  shows "wait_ok cfg M B s' a' k'"
proof -
  have h: "holds_ids M k s" using w by (simp add: wait_ok_def)
  have same: "wait_ok cfg M B s' a' k'" if "running s' = running s" "a' = a"
    using w wait_step_holds[OF st h] that acc_ok_running[OF that(1), of B a] by (simp add: wait_ok_def)
  from st h show ?thesis
  proof (cases rule: wait_step_cases)
    case (skip s1 b r)
    show ?thesis using same skip_waiting_same[OF skip(5)] skip(2) by (simp add: same_queues_def)
  next
    case (considered s1 b r)
    have run1: "running s2 = running s" if "same_core s1 s2" for s2
      using that considered(2) by (simp add: same_core_def same_queues_def)
    from considered(5) show ?thesis
    proof (cases rule: consider_waiting_cases)
      case (skip s2)
      show ?thesis using same skip_waiting_same[OF skip(2)] run1[OF skip(1)] by simp
    next
      case stop
      then show ?thesis using same run1 by simp
    next
      case (admit hit s2 n plan s3)
      have w3: "wait_ok cfg M B s3 a k"
        using w holds_core[OF admit(3) considered(1)] run1[OF admit(3)] acc_ok_running[OF run1[OF admit(3)], of B a] by (simp add: wait_ok_def)
      have hd: "head_id b s3 (request_id r)" using considered(3) head_same[OF same_core_queues[OF admit(3)], of b] by simp
      have rq: "req_ok r" using store_req_ok[OF considered(4) holds_store[OF considered(1)]] .
      have "acc_ok B s' a' \<and> int (length (running s')) \<le> max_num_running_reqs cfg"
        by (rule admit_waiting_acc[OF admit(4) w3 hd]) (use max run1[OF admit(3)] wait_tokens_bounds[OF admit(2) _ rq bs] in simp_all)
      then show ?thesis using wait_step_holds[OF st h] by (simp add: wait_ok_def)
    qed
  qed
qed

lemma wait_loop_ok:
  assumes "wait_loop cfg now (s, a, k, l) = Inr (s', a', k', l')" "wait_ok cfg M B s a k" "0 < cache_block_size cfg"
  shows "wait_ok cfg M B s' a' k'"
  by (rule wait_loop_rule[where P = "wait_ok cfg M B", OF assms(1,2)]) (rule wait_step_ok[OF _ _ _ assms(3)])

subsection \<open>The step as a whole\<close>

abbreviation none_aside :: request_queue where
  "none_aside \<equiv> FCFSRequestQueue []"

definition scheduler_ok :: "'x scheduler \<Rightarrow> bool" where
  "scheduler_ok s = sched_inv none_aside s"

definition request_ids :: "'x scheduler \<Rightarrow> string multiset" where
  "request_ids s = all_ids none_aside s"

lemma holds_none: "holds_ids M none_aside s \<longleftrightarrow> scheduler_ok s \<and> request_ids s = M"
  by (simp add: holds_ids_def scheduler_ok_def request_ids_def)

lemma holds_create: "holds_ids M (create_request_queue p) s = holds_ids M none_aside s"
  by (cases p) (simp_all add: create_request_queue_def holds_ids_def sched_inv_def all_ids_def queued_ids_def queue_ids_def
      fcfs_iter_def heap_from_def)

lemma rq_bool_iter: "rq_inv k \<Longrightarrow> rq_bool k = (rq_iter k \<noteq> [])"
  using prio_iter_mset by (cases k) (auto simp: fcfs_iter_def simp flip: mset_zero_iff)

lemma holds_merge:
  assumes "holds_ids M k s"
  shows "holds_ids M none_aside (if rq_bool k then s\<lparr>skipped_waiting := rq_prepend_requests (skipped_waiting s) k\<rparr> else s)"
proof -
  have q: "rq_inv (skipped_waiting s)" "rq_inv k" using holds_queues[OF assms] by simp_all
  let ?s = "if rq_bool k then s\<lparr>skipped_waiting := rq_prepend_requests (skipped_waiting s) k\<rparr> else s"
  have "queued_ids none_aside ?s = queued_ids k s" "rq_inv (skipped_waiting ?s)"
    using rq_prepend_law(3,4)[OF q(1), of k] rq_bool_iter[OF q(2)] q(1) by (auto simp: queued_ids_def queue_ids_def fcfs_iter_def)
  moreover have "running ?s = running s" "waiting ?s = waiting s" "stat ?s = stat s" "store_ok ?s = store_ok s" by simp_all
  ultimately show ?thesis using assms holds_all[OF assms] unfolding holds_ids_def sched_inv_def all_ids_def by simp
qed

lemma initial_slots:
  assumes "scheduler_ok s" "all_progress cfg s (set (running s))" "0 \<le> max_num_scheduled_tokens cfg"
  shows "slots_ok cfg (token_budget (initial_acc cfg s)) s (initial_acc cfg s) 0 0"
proof (rule slots_intro)
  have le: "count (mset (running s)) x \<le> 1" for x
    using holds_count[of "request_ids s" none_aside s x] assms(1) holds_none[of "request_ids s" s] by simp
  have "count (mset (running s)) x = (if x \<in> set (running s) then 1 else 0)" for x
    using le[of x] count_greater_eq_one_iff[of "mset (running s)" x] by (simp add: le_antisym)
  then show "distinct (running s)" by (simp add: distinct_count_atmost_1)
qed (use assms in \<open>auto simp: initial_acc_def scheduler_ok_def sched_inv_def tokens_ok_def total_scheduled_def\<close>)

lemma schedule_loops_ok:
  assumes sl: "schedule_loops cfg now s = Inr (s', a)" and ok: "scheduler_ok s" "all_progress cfg s (set (running s))"
    and cfg: "0 \<le> max_num_scheduled_tokens cfg" "0 < cache_block_size cfg" "int (length (running s)) \<le> max_num_running_reqs cfg"
  shows "wait_ok cfg (request_ids s) (token_budget (initial_acc cfg s)) s' a none_aside"
proof -
  let ?B = "token_budget (initial_acc cfg s)" and ?M = "request_ids s"
  obtain s1 a1 loras where r: "run_loop cfg now s (initial_acc cfg s) 0 = Inr (s1, a1)"
    and rest: "(if acc_preempted a1 = [] \<and> pause s1 = UNPAUSED
       then rbind (wait_loop cfg now (s1, a1, create_request_queue (policy cfg), loras)) (\<lambda>(s2, a2, k, _).
              Inr (if rq_bool k then s2\<lparr>skipped_waiting := rq_prepend_requests (skipped_waiting s2) k\<rparr> else s2, a2))
       else Inr (s1, a1)) = Inr (s', a)"
    using sl by (auto simp: schedule_loops_def rbind_eq_Inr_iff)
  have h1: "holds_ids ?M none_aside s1" by (rule run_loop_holds[OF r]) (simp add: holds_none ok(1))
  have w1: "wait_ok cfg ?M ?B s1 a1 none_aside"
    using run_loop_acc[OF r initial_slots[OF ok cfg(1)] cfg(2)] h1 cfg(3) by (simp add: wait_ok_def)
  show ?thesis
  proof (cases "acc_preempted a1 = [] \<and> pause s1 = UNPAUSED")
    case True
    then obtain s2 k l where w: "wait_loop cfg now (s1, a1, create_request_queue (policy cfg), loras) = Inr (s2, a, k, l)"
      and s': "s' = (if rq_bool k then s2\<lparr>skipped_waiting := rq_prepend_requests (skipped_waiting s2) k\<rparr> else s2)"
      using rest by (auto simp: rbind_eq_Inr_iff)
    have w2: "wait_ok cfg ?M ?B s2 a k" by (rule wait_loop_ok[OF w _ cfg(2)]) (use w1 in \<open>simp add: wait_ok_def holds_create\<close>)
    then have "holds_ids ?M none_aside s'" unfolding s' by (intro holds_merge) (simp add: wait_ok_def)
    moreover have "running s' = running s2" using s' by simp
    ultimately show ?thesis using w2 acc_ok_running[of s' s2 ?B a] by (simp add: wait_ok_def)
  next
    case False
    then show ?thesis using rest w1 by (auto split: if_splits)
  qed
qed

lemma wait_ok_constraints:
  assumes "wait_ok cfg M B s a k" "B \<le> max_num_scheduled_tokens cfg"
  shows "check_constraints cfg s a = Inr ()"
proof -
  have "length (acc_ids a) = card (set (acc_ids a))" "set (acc_ids a) \<subseteq> set (running s)"
    using assms(1) by (simp_all add: wait_ok_def acc_ok_def distinct_card)
  then have "length (acc_ids a) \<le> length (running s)" by (metis card_length card_mono finite_set le_trans)
  then show ?thesis using assms by (auto simp: check_constraints_def wait_ok_def acc_ok_def tokens_ok_def acc_ids_def)
qed

text \<open>What follows the two loops keeps the requests where they are.\<close>

lemma make_output_core: "make_output cfg s a = Inr (out, s') \<Longrightarrow> same_core s s'"
  by (auto simp: make_output_def take_freed_hashes_def rbind_eq_Inr_iff Let_def same_core_def same_queues_def
      split: list.splits prod.splits if_splits encoder_cache_manager.splits)

lemma advance_computed_holds:
  assumes a: "advance_computed p (out, s) = Inr (out', s')" and h: "holds_ids M k s"
  shows "holds_ids M k s'"
proof -
  obtain rid n where p: "p = (rid, n)" by fastforce
  obtain r where r: "get_req s rid = Inr r" using a by (auto simp: advance_computed_def p rbind_eq_Inr_iff)
  let ?r1 = "r\<lparr>num_computed_tokens := num_computed_tokens r + n\<rparr>"
  let ?r2 = "?r1\<lparr>is_prefill_chunk := (num_computed_tokens ?r1 < num_tokens ?r1 + num_output_placeholders ?r1)\<rparr>"
  have s': "s' = (if is_prefill_chunk ?r2 then put_req ?r2 s else discard_inflight rid (put_req ?r2 s))"
    using a r unfolding advance_computed_def p Let_def prod.case by simp
  note id = store_okD[OF holds_store[OF h] r]
  have "keeps s (put_req ?r2 s)" by (rule put_keeps[OF holds_store[OF h] r]) (use id in \<open>simp_all add: req_ok_def\<close>)
  then have h1: "holds_ids M k (put_req ?r2 s)" using holds_keeps h by blast
  have "same_core (put_req ?r2 s) s'" unfolding s' by (simp add: same_core_def same_queues_def discard_inflight_def)
  then show ?thesis using h1 by (rule holds_core)
qed

lemma async_placeholders_holds:
  assumes a: "async_placeholders cfg p (out, s) = Inr (out', s')" and h: "holds_ids M k s"
  shows "holds_ids M k s'"
proof -
  obtain rid n where p: "p = (rid, n)" by fastforce
  obtain r where r: "get_req s rid = Inr r" using a by (auto simp: async_placeholders_def p rbind_eq_Inr_iff)
  let ?k = "int (length (dict_get_default (so_spec_decode_tokens out) rid []))"
  let ?r1 = "r\<lparr>num_output_placeholders := num_output_placeholders r + (num_sampled_tokens_per_step cfg + ?k),
                    spec_token_ids := replicate (nat (num_spec_tokens cfg)) (- 1)\<rparr>"
  let ?r2 = "if use_v2_model_runner cfg then ?r1\<lparr>next_decode_eligible_step := current_step s + pp_size cfg\<rparr> else ?r1"
  have s': "s' = (if is_prefill_chunk r then s else put_req ?r2 s)"
    using a r unfolding async_placeholders_def p Let_def prod.case by (simp split: if_splits)
  note id = store_okD[OF holds_store[OF h] r]
  have "keeps s (put_req ?r2 s)" by (rule put_keeps[OF holds_store[OF h] r]) (use id in \<open>simp_all add: req_ok_def\<close>)
  then show ?thesis using holds_keeps h s' by (simp split: if_splits)
qed

lemma update_after_schedule_holds:
  assumes "update_after_schedule cfg out s = Inr (out', s')" "holds_ids M k s"
  shows "holds_ids M k s'"
proof -
  obtain out1 s1 where b: "base_update_after_schedule out s = Inr (out1, s1)"
    and rest: "(if async_scheduling cfg then rfold (async_placeholders cfg) (so_num_scheduled_tokens out1) (out1, s1) else Inr (out1, s1)) = Inr (out', s')"
    using assms(1) by (auto simp: update_after_schedule_def rbind_eq_Inr_iff)
  obtain s0 where f: "rfold advance_computed (so_num_scheduled_tokens out) (out, s) = Inr (out1, s0)" "s1 = s0\<lparr>finished_req_ids := {}\<rparr>"
    using b by (auto simp: base_update_after_schedule_def rbind_eq_Inr_iff)
  have "holds_ids M k (snd (out1, s0))"
    by (rule rfold_invariant[where P = "\<lambda>x. holds_ids M k (snd x)", OF f(1)])
      (use assms(2) in \<open>auto elim: advance_computed_holds\<close>)
  then have h1: "holds_ids M k s1" using holds_core[of s0 s1] f(2) by (simp add: same_core_def same_queues_def)
  show ?thesis
  proof (cases "async_scheduling cfg")
    case True
    then have r: "rfold (async_placeholders cfg) (so_num_scheduled_tokens out1) (out1, s1) = Inr (out', s')" using rest by simp
    have "holds_ids M k (snd (out', s'))"
      by (rule rfold_invariant[where P = "\<lambda>x. holds_ids M k (snd x)", OF r])
        (use h1 in \<open>auto elim: async_placeholders_holds\<close>)
    then show ?thesis by simp
  qed (use rest h1 in simp)
qed

end
