(* ===== verification/Scheduler_Properties.thy ===== *)
theory Scheduler_Properties
  imports Scheduler_Budget Slot_Allocation
begin

section \<open>Properties of a scheduling step\<close>

text \<open>
  The theorems on \<open>schedule\<close>, and a small scheduler on which their witnesses run: no connectors, one
  full-attention group of four blocks of two tokens.
\<close>

definition sample_config :: "scheduling_policy \<Rightarrow> unit sched_config" where
  "sample_config p =
     \<lparr>policy = p, max_num_running_reqs = 2, max_num_scheduled_tokens = 4, max_model_len = 100, num_sampled_tokens_per_step = 1,
      long_prefill_token_threshold = 0, enable_chunked_prefill = True, disable_chunked_mm = False, encoder_decoder = False,
      max_num_encoder_input = 8, use_eagle = False, lookahead_tokens = 0, has_mamba_layers = False,
      need_mamba_block_aligned_split = False, cache_block_size = 2, block_size_of = 2, recompute_kv_load_failures = True,
      scheduler_reserve_full_isl = False, max_loras = None, log_stats = False, needs_kv_cache_zeroing = False, use_pp = False,
      async_scheduling = False, use_v2_model_runner = False, pp_size = 1, num_spec_tokens = 0, connector = None, ec_conn = None,
      grammar_ready = (\<lambda>_ _. True), should_advance = (\<lambda>_ _. False), accept_tokens = (\<lambda>_ _ w. (True, w)),
      validate_tokens = (\<lambda>_ ts _. ts), hasher = None, id_order = (\<lambda>S. sorted_list_of_set S)\<rparr>"

definition sample_scheduler :: "scheduling_policy \<Rightarrow> kv_cache_manager \<Rightarrow> unit scheduler" where
  "sample_scheduler p km =
     \<lparr>requests = [], waiting = create_request_queue p, skipped_waiting = create_request_queue p, running = [],
      finished_req_ids = {}, prev_step_scheduled_req_ids = {}, inflight_prefills = [], num_waiting_for_streaming_input = 0,
      finished_recving = {}, failed_recving = {}, enc_mgr = EncoderCacheManager (encoder_cache_init 8), kv_mgr = km,
      current_step = 0, pause = UNPAUSED, prefill_stats_of = [], streaming_queues = [], connector_stats = None, world = ()\<rparr>"

text \<open>A waiting request of the sample scheduler, with its object identity.\<close>

definition waiting_request :: "string \<Rightarrow> int \<Rightarrow> int list \<Rightarrow> request" where
  "waiting_request rid oid toks = (sample_request rid toks [] None None)\<lparr>obj_id := oid\<rparr>"

definition two_waiting :: "kv_cache_manager \<Rightarrow> unit scheduler" where
  "two_waiting km =
     (let a = waiting_request ''a'' 0 [1, 2, 3]; b = waiting_request ''b'' 1 [5, 6]
      in put_req b (put_req a ((sample_scheduler FCFS km)\<lparr>waiting := FCFSRequestQueue [a, b]\<rparr>)))"

lemma two_waiting_ok: "scheduler_ok (two_waiting km)" "running (two_waiting km) = []"
  "request_ids (two_waiting km) = {#''a'', ''b''#}"
proof -
  let ?a = "waiting_request ''a'' 0 [1, 2, 3]" and ?b = "waiting_request ''b'' 1 [5, 6]"
  have r: "request_id ?a = ''a''" "request_id ?b = ''b''" "status ?a = WAITING" "status ?b = WAITING" "mm_features ?a = []" "mm_features ?b = []"
    by (simp_all add: waiting_request_def sample_request_def sample_ec_request_def request_fields_def)
  have f: "requests (two_waiting km) = [(''a'', ?a), (''b'', ?b)]" "waiting (two_waiting km) = FCFSRequestQueue [?a, ?b]"
    "skipped_waiting (two_waiting km) = FCFSRequestQueue []" "running (two_waiting km) = []"
    by (simp_all add: two_waiting_def Let_def put_req_def sample_scheduler_def create_request_queue_def r)
  have st: "store_ok (two_waiting km)" by (simp add: store_ok_def f(1) r req_ok_def)
  have q: "queued_ids none_aside (two_waiting km) = {#''a'', ''b''#}" by (simp add: queued_ids_def queue_ids_def f fcfs_iter_def r)
  show "running (two_waiting km) = []" by (rule f(4))
  show "request_ids (two_waiting km) = {#''a'', ''b''#}" by (simp add: request_ids_def all_ids_def q f(4))
  show "scheduler_ok (two_waiting km)" unfolding scheduler_ok_def sched_inv_def all_ids_def q
    using st by (simp add: f stat_def r waits_def)
qed

lemma schedule_loops_holds:
  assumes sl: "schedule_loops cfg now s = Inr (s', a)" and h: "holds_ids M none_aside s"
  shows "holds_ids M none_aside s'"
proof -
  obtain s1 a1 loras where r: "run_loop cfg now s (initial_acc cfg s) 0 = Inr (s1, a1)"
    and rest: "(if acc_preempted a1 = [] \<and> pause s1 = UNPAUSED
       then rbind (wait_loop cfg now (s1, a1, create_request_queue (policy cfg), loras)) (\<lambda>(s2, a2, k, _).
              Inr (if rq_bool k then s2\<lparr>skipped_waiting := rq_prepend_requests (skipped_waiting s2) k\<rparr> else s2, a2))
       else Inr (s1, a1)) = Inr (s', a)"
    using sl by (auto simp: schedule_loops_def rbind_eq_Inr_iff)
  note h1 = run_loop_holds[OF r h]
  show ?thesis
  proof (cases "acc_preempted a1 = [] \<and> pause s1 = UNPAUSED")
    case True
    then obtain s2 k l where w: "wait_loop cfg now (s1, a1, create_request_queue (policy cfg), loras) = Inr (s2, a, k, l)"
      and s': "s' = (if rq_bool k then s2\<lparr>skipped_waiting := rq_prepend_requests (skipped_waiting s2) k\<rparr> else s2)"
      using rest by (auto simp: rbind_eq_Inr_iff)
    have "holds_ids M k s2" by (rule wait_loop_holds[OF w]) (simp add: holds_create h1)
    then show ?thesis unfolding s' by (rule holds_merge)
  next
    case False
    then show ?thesis using rest h1 by (auto split: if_splits)
  qed
qed

lemma schedule_holds:
  assumes sc: "schedule cfg now s = Inr (out, s')" and h: "holds_ids M none_aside s"
  shows "holds_ids M none_aside s'"
proof -
  let ?s = "s\<lparr>current_step := current_step s + 1, kv_mgr := km_new_step_starts (kv_mgr s)\<rparr>"
  obtain s1 a o1 s2 where e: "schedule_loops cfg now ?s = Inr (s1, a)" "make_output cfg s1 a = Inr (o1, s2)"
    "update_after_schedule cfg o1 (build_connector_metas cfg o1 s2) = Inr (out, s')"
    using sc by (auto simp: schedule_def rbind_eq_Inr_iff)
  have "same_core s ?s" by (simp add: same_core_def same_queues_def)
  then have "holds_ids M none_aside s1" using schedule_loops_holds[OF e(1)] holds_core h by blast
  then have "holds_ids M none_aside s2" by (rule holds_core[OF make_output_core[OF e(2)]])
  moreover have "same_core s2 (build_connector_metas cfg o1 s2)" by (simp add: build_connector_metas_def Let_def same_core_def same_queues_def)
  ultimately have "holds_ids M none_aside (build_connector_metas cfg o1 s2)" using holds_core by blast
  then show ?thesis by (rule update_after_schedule_holds[OF e(3)])
qed

subsection \<open>Properties\<close>

text \<open>
  C1: A scheduling step loses no request and duplicates none: the ids in the running list and in the two waiting
  queues together are the same before and after \<open>schedule\<close>, each request stays in exactly one place, the
  requests in the running list are those with status \<open>RUNNING\<close> and those in the queues have the
  status of a waiting request, whatever is preempted, resumed, admitted or set aside on the way.
\<close>

theorem schedule_conserves_requests:
  assumes "scheduler_ok s" "schedule cfg now s = Inr (out, s')"
  shows "scheduler_ok s' \<and> request_ids s' = request_ids s"
  using schedule_holds[OF assms(2), of "request_ids s"] assms(1) by (simp add: holds_none)

text \<open>
  C2: A step keeps its limits. When every running request has no more tokens computed than it has tokens and room
  for the tokens it samples, the assertions at the end of \<open>schedule\<close> hold on whatever the two loops
  produce, with preemptions of requests that were already scheduled in this step included: the tokens handed
  out and the rest of the budget are together the budget of the step, the running list respects its
  limit, and exactly the scheduled requests, each once and all of them running, have tokens.
\<close>

theorem schedule_within_limits:
  assumes "schedule_loops cfg now s = Inr (s', a)" "scheduler_ok s" "all_progress cfg s (set (running s))"
    "0 \<le> max_num_scheduled_tokens cfg" "0 < cache_block_size cfg" "int (length (running s)) \<le> max_num_running_reqs cfg"
  shows "check_constraints cfg s' a = Inr ()
    \<and> token_budget a + total_scheduled a = (if pause s = PAUSED_ALL then 0 else max_num_scheduled_tokens cfg)
    \<and> distinct (acc_ids a) \<and> set (acc_ids a) \<subseteq> set (running s') \<and> fst ` set (acc_tokens a) = set (acc_ids a)"
proof -
  have w: "wait_ok cfg (request_ids s) (token_budget (initial_acc cfg s)) s' a none_aside"
    by (rule schedule_loops_ok[OF assms(1-6)])
  have B: "token_budget (initial_acc cfg s) = (if pause s = PAUSED_ALL then 0 else max_num_scheduled_tokens cfg)"
    by (simp add: initial_acc_def)
  then have "check_constraints cfg s' a = Inr ()" using wait_ok_constraints[OF w] assms(4) by simp
  then show ?thesis using w B by (simp add: wait_ok_def acc_ok_def tokens_ok_def)
qed

theorem schedule_conserves_requests_witness:
  "\<exists>km out s. schedule (sample_config FCFS) 0 (two_waiting km) = Inr (out, s)
     \<and> so_num_scheduled_tokens out = [(''a'', 3), (''b'', 1)] \<and> running s = [''a'', ''b''] \<and> request_ids s = {#''a'', ''b''#}"
proof -
  have "rbind sample_manager (\<lambda>km. rbind (schedule (sample_config FCFS) 0 (two_waiting km)) (\<lambda>(out, s).
      Inr (so_num_scheduled_tokens out, running s))) = Inr ([(''a'', 3), (''b'', 1)], [''a'', ''b''])" by code_simp
  then obtain km out s where "schedule (sample_config FCFS) 0 (two_waiting km) = Inr (out, s)"
    "so_num_scheduled_tokens out = [(''a'', 3), (''b'', 1)]" "running s = [''a'', ''b'']"
    by (auto simp: rbind_eq_Inr_iff)
  then show ?thesis using schedule_conserves_requests[OF two_waiting_ok(1)] two_waiting_ok(3) by metis
qed

theorem schedule_within_limits_witness:
  "\<exists>km s a. schedule_loops (sample_config FCFS) 0 (two_waiting km) = Inr (s, a) \<and> acc_tokens a = [(''a'', 3), (''b'', 1)]
     \<and> check_constraints (sample_config FCFS) s a = Inr () \<and> token_budget a + total_scheduled a = 4"
proof -
  have "rbind sample_manager (\<lambda>km. rbind (schedule_loops (sample_config FCFS) 0 (two_waiting km)) (\<lambda>(s, a).
      Inr (acc_tokens a))) = Inr [(''a'', 3), (''b'', 1)]" by code_simp
  then obtain km s a where l: "schedule_loops (sample_config FCFS) 0 (two_waiting km) = Inr (s, a)" "acc_tokens a = [(''a'', 3), (''b'', 1)]"
    by (auto simp: rbind_eq_Inr_iff)
  have c: "max_num_scheduled_tokens (sample_config FCFS) = 4" "0 < cache_block_size (sample_config FCFS)"
    "max_num_running_reqs (sample_config FCFS) = 2" "pause (two_waiting km) = UNPAUSED"
    by (simp_all add: sample_config_def two_waiting_def sample_scheduler_def put_req_def Let_def)
  have "all_progress (sample_config FCFS) (two_waiting km) (set (running (two_waiting km)))"
    "int (length (running (two_waiting km))) \<le> max_num_running_reqs (sample_config FCFS)"
    by (simp_all add: all_progress_def two_waiting_ok(2) c(3))
  then show ?thesis using schedule_within_limits[OF l(1) two_waiting_ok(1)] l c by auto
qed

end
