(* ===== verification/Scheduler_Update.thy ===== *)
theory Scheduler_Update
  imports Scheduler_Step
begin

section \<open>Adding, updating and resetting requests\<close>

text \<open>
  The other entry points of \<open>Scheduler\<close>: new requests and streaming sessions, the update with the output of
  the model runner, KV transfer failures, draft tokens and resets. Log probabilities, routed experts, the
  split of the outputs by client and the statistics objects are left out. A Python set of request ids is
  a list here; its order is not specified by the code.
\<close>

subsection \<open>Streaming sessions\<close>

definition streaming_from_request :: "request \<Rightarrow> streaming_update option" where
  "streaming_from_request r =
     (if \<not> resumable r then None
      else Some \<lparr>su_mm_features = mm_features r, su_prompt_token_ids = prompt_token_ids r, su_max_tokens = max_tokens r,
                 su_arrival_time = arrival_time r, su_sampling_params = req_sampling_params r\<rparr>)"

text \<open>The entry of a queue is the request itself: where the fields of the order change, the entry does.\<close>

fun rq_refresh :: "request \<Rightarrow> request_queue \<Rightarrow> request_queue" where
  "rq_refresh r (FCFSRequestQueue q) = FCFSRequestQueue (map (\<lambda>x. if obj_id x = obj_id r then r else x) q)"
| "rq_refresh r (PriorityRequestQueue q) = PriorityRequestQueue (map (\<lambda>x. if obj_id x = obj_id r then r else x) q)"

definition refresh_queues :: "request \<Rightarrow> 'x scheduler \<Rightarrow> 'x scheduler" where
  "refresh_queues r s = s\<lparr>waiting := rq_refresh r (waiting s), skipped_waiting := rq_refresh r (skipped_waiting s)\<rparr>"

definition shift_feature :: "int \<Rightarrow> mm_feature \<Rightarrow> mm_feature" where
  "shift_feature base f = f\<lparr>mm_position := (mm_position f)\<lparr>pr_offset := pr_offset (mm_position f) + base\<rparr>\<rparr>"

text \<open>The request after the update; the last sampled token is dropped, it was not computed.\<close>

definition session_tokens :: "streaming_update \<Rightarrow> request \<Rightarrow> request result" where
  "session_tokens u r =
     (let n = num_computed_tokens r;
          kept = py_slice (all_token_ids r) (num_prompt_tokens r) n;
          toks = py_upto (all_token_ids r) n;
          new = (case su_prompt_token_ids u of None \<Rightarrow> [] | Some t \<Rightarrow> t)
      in case prompt_token_ids r of
           None \<Rightarrow> Inl AssertionError
         | Some p \<Rightarrow> Inr (r\<lparr>output_token_ids := [], prompt_token_ids := Some (p @ kept @ new),
             mm_features := mm_features r @ map (shift_feature (int (length toks))) (su_mm_features u),
             all_token_ids := toks @ new\<rparr>))"

definition update_request_as_session ::
  "'x sched_config \<Rightarrow> rat \<Rightarrow> request \<Rightarrow> streaming_update \<Rightarrow> 'x scheduler \<Rightarrow> (request \<times> 'x scheduler) result" where
  "update_request_as_session cfg now r u s =
     rbind (session_tokens u r) (\<lambda>r1.
     rbind (update_block_hashes (hasher cfg) r1) (\<lambda>r2.
       let r3 = r2\<lparr>num_prompt_tokens := int (length (the (prompt_token_ids r2))), arrival_time := su_arrival_time u,
                   req_sampling_params := su_sampling_params u, status := WAITING\<rparr>;
           r4 = (if log_stats cfg then record_event EV_QUEUED None now r3 else r3);
           s1 = (if status r = WAITING_FOR_STREAMING_REQ
                 then s\<lparr>num_waiting_for_streaming_input := num_waiting_for_streaming_input s - 1\<rparr> else s)
       in Inr (r4, refresh_queues r4 (put_req r4 s1))))"

definition handle_stopped_request ::
  "'x sched_config \<Rightarrow> rat \<Rightarrow> request \<Rightarrow> 'x scheduler \<Rightarrow> (bool \<times> request \<times> 'x scheduler) result" where
  "handle_stopped_request cfg now r s =
     (if \<not> resumable r then Inr (True, r, s)
      else
        case dict_get_default (streaming_queues s) (request_id r) [] of
          [] \<Rightarrow>
            let r1 = r\<lparr>status := WAITING_FOR_STREAMING_REQ\<rparr>;
                s1 = (put_req r1 s)\<lparr>num_waiting_for_streaming_input := num_waiting_for_streaming_input s + 1\<rparr>
            in Inr (False, r1, enqueue_waiting_request r1 s1)
        | update # rest \<Rightarrow>
            let s1 = s\<lparr>streaming_queues := dict_set (request_id r) rest (streaming_queues s)\<rparr>
            in (case update of
                  None \<Rightarrow> Inr (True, r, s1)
                | Some u \<Rightarrow>
                    rbind (update_request_as_session cfg now r u s1) (\<lambda>(r2, s2).
                      Inr (False, r2, enqueue_waiting_request r2 s2))))"

definition new_prefill_stats :: prefill_stats where
  "new_prefill_stats = \<lparr>ps_num_prompt_tokens = 0, ps_num_computed_tokens = 0, ps_num_cached_tokens = 0,
     ps_num_local_cached_tokens = 0, ps_num_external_cached_tokens = 0\<rparr>"

text \<open>A new request object comes with fresh prefill statistics and no streaming queue.\<close>

definition fresh_request :: "request \<Rightarrow> 'x scheduler \<Rightarrow> 'x scheduler" where
  "fresh_request r s =
     s\<lparr>prefill_stats_of := dict_set (request_id r) new_prefill_stats (prefill_stats_of s),
       streaming_queues := (if resumable r then dict_set (request_id r) [] (streaming_queues s)
                            else dict_del (request_id r) (streaming_queues s))\<rparr>"

definition add_request :: "'x sched_config \<Rightarrow> rat \<Rightarrow> request \<Rightarrow> 'x scheduler \<Rightarrow> 'x scheduler result" where
  "add_request cfg now r s =
     (case dict_get (requests s) (request_id r) of
        Some existing \<Rightarrow>
          let update = streaming_from_request r
          in if status existing \<noteq> WAITING_FOR_STREAMING_REQ
             then (case dict_get (streaming_queues s) (request_id r) of
                     None \<Rightarrow> Inl AssertionError
                   | Some q \<Rightarrow> Inr (s\<lparr>streaming_queues := dict_set (request_id r) (q @ [update]) (streaming_queues s)\<rparr>))
             else (case update of
                     Some u \<Rightarrow> rbind (update_request_as_session cfg now existing u s) (\<lambda>(_, s1). Inr s1)
                   | None \<Rightarrow> rbind (finish_requests cfg [request_id r] FINISHED_ABORTED s) (\<lambda>(_, s1). Inr s1))
      | None \<Rightarrow>
          let s1 = put_req r (enqueue_waiting_request r (fresh_request r s));
              s2 = (case connector cfg of None \<Rightarrow> s1 | Some c \<Rightarrow> s1\<lparr>world := kvc_on_new_request c r (world s1)\<rparr>)
          in Inr (if log_stats cfg then put_req (record_event EV_QUEUED None now r) s2 else s2))"

subsection \<open>The output of the model runner\<close>

text \<open>The fields of \<open>ModelRunnerOutput\<close> the scheduler reads; of a pooler output only its presence matters.\<close>

record model_runner_output =
  mr_req_id_to_index :: "(string, int) dict"
  mr_sampled_token_ids :: "int list list"
  mr_pooler_output :: "bool list"
  mr_prompt_logprobs :: "string list"
  mr_kv_connector_output :: "kv_connector_output option"

record engine_core_output =
  eo_request_id :: string
  eo_new_token_ids :: "int list"
  eo_finish_reason :: "finish_reason option"
  eo_pooling_output :: bool
  eo_stop_reason :: "stop_reason option"
  eo_events :: "(engine_core_event_type \<times> rat) list option"
  eo_prefill_stats :: "prefill_stats option"

text \<open>Rejected draft tokens do not count as computed.\<close>

definition reject_drafts :: "'x sched_config \<Rightarrow> int list \<Rightarrow> int list \<Rightarrow> request \<Rightarrow> request" where
  "reject_drafts cfg spec gen r =
     (if spec \<noteq> [] \<and> (gen \<noteq> [] \<or> num_sampled_tokens_per_step cfg = 0)
      then let accepted = max (int (length gen) - num_sampled_tokens_per_step cfg) 0;
               rejected = int (length spec) - accepted
           in r\<lparr>num_computed_tokens := (if num_computed_tokens r > 0 then num_computed_tokens r - rejected else num_computed_tokens r),
                num_output_placeholders := (if num_output_placeholders r > 0 then num_output_placeholders r - rejected
                                            else num_output_placeholders r)\<rparr>
      else r)"

text \<open>\<open>_update_request_with_output\<close>: tokens are appended until one of them stops the request.\<close>

fun append_and_check :: "block_hasher option \<Rightarrow> int \<Rightarrow> request \<Rightarrow> int list \<Rightarrow> (int list \<times> bool \<times> request) result" where
  "append_and_check hash mml r [] = Inr ([], False, r)"
| "append_and_check hash mml r (t # ts) =
     rbind (append_output_token_ids hash r [t]) (\<lambda>r1.
     rbind (check_stop r1 mml) (\<lambda>(stopped, r2).
       if stopped then Inr ([t], True, r2)
       else rbind (append_and_check hash mml r2 ts) (\<lambda>(us, st, r3). Inr (t # us, st, r3))))"

definition update_request_with_output ::
  "'x sched_config \<Rightarrow> request \<Rightarrow> int list \<Rightarrow> 'x scheduler \<Rightarrow> (int list \<times> bool \<times> 'x scheduler) result" where
  "update_request_with_output cfg r toks s =
     (if \<not> async_scheduling cfg
      then rbind (append_and_check (hasher cfg) (max_model_len cfg) r toks) (\<lambda>(new, stopped, r1). Inr (new, stopped, put_req r1 s))
      else if async_tokens_to_discard r > 0
      then Inr ([], False, put_req (r\<lparr>async_tokens_to_discard := async_tokens_to_discard r - 1\<rparr>) s)
      else
        rbind (append_and_check (hasher cfg) (max_model_len cfg) r toks) (\<lambda>(new, stopped, r1).
          let r2 = r1\<lparr>num_output_placeholders := num_output_placeholders r1 - int (length new)\<rparr>
          in rbind (rassert (num_output_placeholders r2 \<ge> 0)) (\<lambda>_.
             if status r = RUNNING
             then rbind (km_cache_blocks r2 (num_computed_tokens r2 - num_output_placeholders r2) (kv_mgr s)) (\<lambda>(r3, km).
                    Inr (new, stopped, put_req r3 (s\<lparr>kv_mgr := km\<rparr>)))
             else Inr (new, stopped, put_req r2 s))))"

definition check_output ::
  "'x sched_config \<Rightarrow> request \<Rightarrow> int list \<Rightarrow> bool \<Rightarrow> 'x scheduler \<Rightarrow> (int list \<times> bool \<times> 'x scheduler) result" where
  "check_output cfg r gen pooled s =
     (if gen \<noteq> [] then update_request_with_output cfg r gen s
      else if req_pooling_params r \<noteq> None \<and> pooled then Inr (gen, True, put_req (r\<lparr>status := FINISHED_STOPPED\<rparr>) s)
      else Inr (gen, False, s))"

definition advance_grammar ::
  "'x sched_config \<Rightarrow> string \<Rightarrow> int list \<Rightarrow> bool \<Rightarrow> 'x scheduler \<Rightarrow> (bool \<times> 'x scheduler) result" where
  "advance_grammar cfg rid new stopped s =
     rbind (get_req s rid) (\<lambda>r.
       if new \<noteq> [] \<and> should_advance cfg r (world s)
       then rbind (rassert (structured_output_request r \<noteq> None)) (\<lambda>_.
            rbind (rassert (grammar_ready cfg r (world s))) (\<lambda>_.
              case accept_tokens cfg r new (world s) of (ok, w) \<Rightarrow>
                let s1 = s\<lparr>world := w\<rparr>
                in Inr (if ok then (stopped, s1) else (True, put_req (r\<lparr>status := FINISHED_ERROR, resumable := False\<rparr>) s1))))
       else Inr (stopped, s))"

text \<open>The outputs so far and the requests that stopped while running, and while preempted.\<close>

record output_acc =
  oa_outputs :: "engine_core_output list"
  oa_stopped_running :: "request list"
  oa_stopped_preempted :: "request list"

definition stop_request ::
  "'x sched_config \<Rightarrow> rat \<Rightarrow> request_status \<Rightarrow> string \<Rightarrow> bool \<Rightarrow> output_acc \<Rightarrow> 'x scheduler
   \<Rightarrow> (finish_reason option \<times> request \<times> output_acc \<times> 'x scheduler) result" where
  "stop_request cfg now status_before rid stopped a s =
     rbind (get_req s rid) (\<lambda>r.
       if \<not> stopped then Inr (None, r, a, s)
       else
         rbind (handle_stopped_request cfg now r s) (\<lambda>(finished, r1, s1).
         rbind (if finished then free_request cfg r1 False s1 else Inr s1) (\<lambda>s2.
           Inr (get_finished_reason r, r1,
                if status_before = RUNNING then a\<lparr>oa_stopped_running := oa_stopped_running a @ [r1]\<rparr>
                else a\<lparr>oa_stopped_preempted := oa_stopped_preempted a @ [r1]\<rparr>, s2))))"

definition emit_output ::
  "model_runner_output \<Rightarrow> string \<Rightarrow> int list \<Rightarrow> bool \<Rightarrow> bool \<Rightarrow> finish_reason option \<Rightarrow> request \<Rightarrow> output_acc \<Rightarrow> 'x scheduler
   \<Rightarrow> (output_acc \<times> 'x scheduler) result" where
  "emit_output mro rid new pooled stopped reason r a s =
     (if new \<noteq> [] \<or> pooled \<or> stopped
      then case take_req_events r of (evs, r1) \<Rightarrow>
             let out = \<lparr>eo_request_id = rid, eo_new_token_ids = new, eo_finish_reason = reason, eo_pooling_output = pooled,
                        eo_stop_reason = stop_reason r, eo_events = evs, eo_prefill_stats = dict_get (prefill_stats_of s) rid\<rparr>;
                 s1 = s\<lparr>prefill_stats_of := dict_del rid (prefill_stats_of s)\<rparr>
             in Inr (a\<lparr>oa_outputs := oa_outputs a @ [out]\<rparr>, if dict_get (requests s1) rid = None then s1 else put_req r1 s1)
      else rbind (rassert (rid \<notin> set (mr_prompt_logprobs mro))) (\<lambda>_. Inr (a, s)))"

definition output_step ::
  "'x sched_config \<Rightarrow> rat \<Rightarrow> scheduler_output \<Rightarrow> model_runner_output \<Rightarrow> string list \<Rightarrow> string \<times> int
   \<Rightarrow> output_acc \<times> 'x scheduler \<Rightarrow> (output_acc \<times> 'x scheduler) result" where
  "output_step cfg now out mro failed = (\<lambda>(rid, n) (a, s).
     rbind (rassert (n > 0)) (\<lambda>_.
     if rid \<in> set failed then Inr (a, s)
     else case dict_get (requests s) rid of
       None \<Rightarrow> Inr (a, s)
     | Some r \<Rightarrow>
         if req_is_finished r then Inr (a, s)
         else
           rbind (dict_index (mr_req_id_to_index mro) rid) (\<lambda>i.
           rbind (if mr_sampled_token_ids mro = [] then Inr [] else py_index (mr_sampled_token_ids mro) i) (\<lambda>gen.
           let r1 = reject_drafts cfg (dict_get_default (so_spec_decode_tokens out) rid []) gen r; s1 = put_req r1 s in
           rbind (if has_encoder_inputs r1
                  then rbind (free_encoder_inputs (encoder_decoder cfg) (id_order cfg (ecm_cached_ids r1 (enc_mgr s1))) r1 (enc_mgr s1))
                         (\<lambda>em. Inr (s1\<lparr>enc_mgr := em\<rparr>))
                  else Inr s1) (\<lambda>s2.
           rbind (if mr_pooler_output mro = [] then Inr False else py_index (mr_pooler_output mro) i) (\<lambda>pooled.
           rbind (check_output cfg r1 gen pooled s2) (\<lambda>(new, stopped0, s3).
           rbind (advance_grammar cfg rid new stopped0 s3) (\<lambda>(stopped, s4).
           rbind (stop_request cfg now (status r1) rid stopped a s4) (\<lambda>(reason, r5, a1, s5).
             emit_output mro rid new pooled stopped reason r5 a1 s5)))))))))"

subsection \<open>KV transfers\<close>

definition finish_recving :: "string \<Rightarrow> 'x scheduler \<Rightarrow> 'x scheduler result" where
  "finish_recving rid s =
     (case dict_get (requests s) rid of
        None \<Rightarrow> Inl AssertionError
      | Some r \<Rightarrow>
          if status r = WAITING_FOR_REMOTE_KVS then Inr (s\<lparr>finished_recving := insert rid (finished_recving s)\<rparr>)
          else rbind (rassert (status_is_finished (status r))) (\<lambda>_. free_blocks_of r s))"

definition finish_sending :: "string \<Rightarrow> 'x scheduler \<Rightarrow> 'x scheduler result" where
  "finish_sending rid s =
     (case dict_get (requests s) rid of None \<Rightarrow> Inl AssertionError | Some r \<Rightarrow> free_blocks_of r s)"

definition update_from_kv_xfer_finished :: "'x sched_config \<Rightarrow> kv_connector_output \<Rightarrow> 'x scheduler \<Rightarrow> 'x scheduler result" where
  "update_from_kv_xfer_finished cfg ko s =
     (let s1 = (case connector cfg of None \<Rightarrow> s | Some c \<Rightarrow> s\<lparr>world := kvc_update_connector_output c ko (world s)\<rparr>)
      in rbind (rfold finish_recving (ko_finished_recving ko) s1) (rfold finish_sending (ko_finished_sending ko)))"

text \<open>
  Blocks that failed to load. One pass over the blocks of a request: the first block that no other
  request recomputes truncates its computed tokens. \<open>marked\<close> are the blocks some request recomputes.
\<close>

record invalid_scan =
  is_request :: request
  is_affected :: bool
  is_marked_one :: bool
  is_marked :: "int set"
  is_evict :: "int set"

definition invalid_step :: "'x sched_config \<Rightarrow> int list \<Rightarrow> bool \<Rightarrow> int list \<Rightarrow> nat \<times> int \<Rightarrow> invalid_scan \<Rightarrow> invalid_scan" where
  "invalid_step cfg invalid evict ids = (\<lambda>(idx, b) st.
     if b \<notin> set invalid then st
     else if b \<in> is_marked st then st\<lparr>is_affected := True\<rparr>
     else
       let st1 = st\<lparr>is_affected := True, is_marked := insert b (is_marked st)\<rparr>
       in if is_marked_one st then st1
          else st1\<lparr>is_marked_one := True,
                   is_request := (is_request st)\<lparr>num_computed_tokens := int idx * block_size_of cfg\<rparr>,
                   is_evict := (if evict then is_evict st \<union> set (drop idx ids) else is_evict st)\<rparr>)"

definition update_request_with_invalid_blocks ::
  "'x sched_config \<Rightarrow> int list \<Rightarrow> (string, int) dict \<Rightarrow> bool \<Rightarrow> string
   \<Rightarrow> (string list \<times> int set \<times> int set) \<times> 'x scheduler \<Rightarrow> ((string list \<times> int set \<times> int set) \<times> 'x scheduler) result" where
  "update_request_with_invalid_blocks cfg invalid sched evict rid = (\<lambda>((affected, marked, evs), s).
     rbind (get_req s rid) (\<lambda>r.
     rbind (case km_get_block_ids rid (kv_mgr s) of [ids] \<Rightarrow> Inr ids | _ \<Rightarrow> Inl ValueError) (\<lambda>ids.
       let computed = num_computed_tokens r - dict_get_default sched rid 0;
           n = (computed + block_size_of cfg - 1) div block_size_of cfg;
           st = fold (invalid_step cfg invalid evict ids) (zip [0..<nat n] ids)
                  \<lparr>is_request = r, is_affected = False, is_marked_one = False, is_marked = marked, is_evict = evs\<rparr>
       in if is_affected st
          then Inr ((if rid \<in> set affected then affected else affected @ [rid], is_marked st, is_evict st),
                    put_req (if is_marked_one st then is_request st else (is_request st)\<lparr>num_computed_tokens := computed\<rparr>) s)
          else Inr ((affected, is_marked st, is_evict st), s))))"

definition update_requests_with_invalid_blocks ::
  "'x sched_config \<Rightarrow> string list \<Rightarrow> int list \<Rightarrow> (string, int) dict \<Rightarrow> bool \<Rightarrow> 'x scheduler
   \<Rightarrow> (string list \<times> int set \<times> 'x scheduler) result" where
  "update_requests_with_invalid_blocks cfg ids invalid sched evict s =
     rbind (rfold (update_request_with_invalid_blocks cfg invalid sched evict) ids (([], {}, {}), s)) (\<lambda>((affected, _, evs), s1).
       Inr (affected, evs, s1))"

definition handle_invalid_blocks ::
  "'x sched_config \<Rightarrow> int list \<Rightarrow> (string, int) dict \<Rightarrow> 'x scheduler \<Rightarrow> (string list \<times> 'x scheduler) result" where
  "handle_invalid_blocks cfg invalid sched s =
     (let loading = filter (\<lambda>rid. map_option status (dict_get (requests s) rid) = Some WAITING_FOR_REMOTE_KVS)
                      (map request_id (rq_iter (skipped_waiting s)))
      in
      rbind (update_requests_with_invalid_blocks cfg loading invalid sched False s) (\<lambda>(async_failed, _, s1).
      rbind (update_requests_with_invalid_blocks cfg (running s1) invalid sched True s1) (\<lambda>(sync_failed, evict, s2).
        if async_failed = [] \<and> sync_failed = [] then Inr ([], s2)
        else
          rbind (if evict \<noteq> {} \<and> \<not> recompute_kv_load_failures cfg
                 then rbind (km_evict_blocks (id_order cfg evict) (kv_mgr s2)) (\<lambda>km. Inr (s2\<lparr>kv_mgr := km\<rparr>))
                 else Inr s2) (\<lambda>s3.
            if \<not> recompute_kv_load_failures cfg
            then Inr (async_failed @ filter (\<lambda>rid. rid \<notin> set async_failed) sync_failed, s3)
            else Inr (sync_failed, s3\<lparr>failed_recving := failed_recving s3 \<union> set async_failed\<rparr>)))))"

subsection \<open>The update as a whole\<close>

definition remove_stopped :: "output_acc \<Rightarrow> 'x scheduler \<Rightarrow> 'x scheduler" where
  "remove_stopped a s =
     (let s1 = (if oa_stopped_running a \<noteq> []
                then s\<lparr>running := remove_all (running s) (map request_id (oa_stopped_running a))\<rparr> else s)
      in if oa_stopped_preempted a \<noteq> []
         then s1\<lparr>waiting := rq_remove_requests (waiting s1) (oa_stopped_preempted a)\<rparr> else s1)"

text \<open>Requests that fail with their KV load; the status of the object is the one set by \<open>finish_requests\<close>.\<close>

definition fail_requests ::
  "'x sched_config \<Rightarrow> string list \<Rightarrow> output_acc \<Rightarrow> 'x scheduler \<Rightarrow> (output_acc \<times> 'x scheduler) result" where
  "fail_requests cfg failed a s =
     (if failed \<noteq> [] \<and> \<not> recompute_kv_load_failures cfg
      then
        rbind (rmap (get_req s) failed) (\<lambda>rs.
        rbind (finish_requests cfg failed FINISHED_ERROR s) (\<lambda>(_, s1).
          let out = (\<lambda>r. \<lparr>eo_request_id = request_id r, eo_new_token_ids = [],
                eo_finish_reason = status_finished_reason (if req_is_finished r then status r else FINISHED_ERROR),
                eo_pooling_output = False, eo_stop_reason = None, eo_events = fst (take_req_events r), eo_prefill_stats = None\<rparr>);
              clear = (\<lambda>r s. case dict_get (requests s) (request_id r) of
                         None \<Rightarrow> s | Some x \<Rightarrow> put_req (snd (take_req_events x)) s)
          in Inr (a\<lparr>oa_outputs := oa_outputs a @ map out rs\<rparr>, fold clear rs s1)))
      else Inr (a, s))"

definition make_stats :: "'x sched_config \<Rightarrow> 'x scheduler \<Rightarrow> 'x scheduler result" where
  "make_stats cfg s =
     (if \<not> log_stats cfg then Inr s
      else case make_prefix_cache_stats (kv_mgr s) of
             (None, km) \<Rightarrow> Inl AssertionError
           | (Some _, km) \<Rightarrow> Inr (s\<lparr>kv_mgr := km, connector_stats := map_option (\<lambda>_. new_prefix_cache_stats) (connector_stats s)\<rparr>))"

definition update_from_output ::
  "'x sched_config \<Rightarrow> rat \<Rightarrow> scheduler_output \<Rightarrow> model_runner_output \<Rightarrow> 'x scheduler
   \<Rightarrow> (engine_core_output list \<times> 'x scheduler) result" where
  "update_from_output cfg now out mro s =
     rbind (case mr_kv_connector_output mro of
              None \<Rightarrow> Inr ([], s)
            | Some ko \<Rightarrow> if ko_invalid_block_ids ko = [] then Inr ([], s)
                         else handle_invalid_blocks cfg (ko_invalid_block_ids ko) (so_num_scheduled_tokens out) s) (\<lambda>(failed, s1).
     rbind (rfold (output_step cfg now out mro failed) (so_num_scheduled_tokens out)
              (\<lparr>oa_outputs = [], oa_stopped_running = [], oa_stopped_preempted = []\<rparr>, s1)) (\<lambda>(a, s2).
     rbind (fail_requests cfg failed a (remove_stopped a s2)) (\<lambda>(a1, s3).
     rbind (case mr_kv_connector_output mro of None \<Rightarrow> Inr s3 | Some ko \<Rightarrow> update_from_kv_xfer_finished cfg ko s3) (\<lambda>s4.
     rbind (make_stats cfg (s4\<lparr>kv_mgr := snd (km_take_events (kv_mgr s4))\<rparr>)) (\<lambda>s5. Inr (oa_outputs a1, s5))))))"

subsection \<open>Draft tokens and structured output\<close>

text \<open>One pass of the loop of \<open>update_draft_token_ids\<close>.\<close>

definition draft_step :: "'x sched_config \<Rightarrow> string \<times> int list \<Rightarrow> 'x scheduler \<Rightarrow> 'x scheduler" where
  "draft_step cfg = (\<lambda>(rid, toks) s.
     case dict_get (requests s) rid of
       None \<Rightarrow> s
     | Some r \<Rightarrow>
         if req_is_finished r then s
         else if is_prefill_chunk r then put_req (r\<lparr>spec_token_ids := []\<rparr>) s
         else put_req (r\<lparr>spec_token_ids := (if should_advance cfg r (world s) then validate_tokens cfg r toks (world s) else toks)\<rparr>) s)"

definition update_draft_token_ids :: "'x sched_config \<Rightarrow> string list \<Rightarrow> int list list \<Rightarrow> 'x scheduler \<Rightarrow> 'x scheduler" where
  "update_draft_token_ids cfg ids drafts s = fold (draft_step cfg) (zip ids drafts) s"

definition draft_output_step ::
  "'x sched_config \<Rightarrow> 'x scheduler \<Rightarrow> string \<times> int list \<Rightarrow> (string, int list) dict \<times> (string, int) dict
   \<Rightarrow> ((string, int list) dict \<times> (string, int) dict) result" where
  "draft_output_step cfg s = (\<lambda>(rid, drafts) (spec, bad).
     case dict_get (requests s) rid of
       None \<Rightarrow> Inr (spec, bad)
     | Some r \<Rightarrow>
         if req_is_finished r then Inr (spec, bad)
         else
           let placeholder = dict_get_default spec rid []
           in if placeholder = [] then Inr (spec, bad)
              else
                let kept = take (length placeholder) drafts; adv = should_advance cfg r (world s)
                in rbind (rassert (adv \<longrightarrow> structured_output_request r \<noteq> None \<and> grammar_ready cfg r (world s))) (\<lambda>_.
                     let valid = (if adv then validate_tokens cfg r kept (world s) else kept);
                         n = length placeholder - length valid
                     in Inr (dict_set rid (valid @ replicate n (- 1)) spec,
                             if length placeholder \<noteq> length valid then dict_set rid (int (length placeholder) - int (length valid)) bad else bad)))"

definition update_draft_token_ids_in_output ::
  "'x sched_config \<Rightarrow> string list \<Rightarrow> int list list \<Rightarrow> 'x scheduler \<Rightarrow> scheduler_output \<Rightarrow> scheduler_output result" where
  "update_draft_token_ids_in_output cfg ids drafts s out =
     rbind (rfold (draft_output_step cfg s) (zip ids drafts) (so_spec_decode_tokens out, [])) (\<lambda>(spec, bad).
       Inr (out\<lparr>so_spec_decode_tokens := spec, so_num_invalid_spec_tokens := Some bad\<rparr>))"

text \<open>The rows of the grammar bitmask; the mask itself is computed by the structured output manager.\<close>

definition grammar_bitmask_rows :: "scheduler_output \<Rightarrow> 'x scheduler \<Rightarrow> string list option" where
  "grammar_bitmask_rows out s =
     (if \<not> so_has_structured_output out then None
      else let ids = filter (\<lambda>rid. case dict_get (requests s) rid of
                               None \<Rightarrow> False | Some r \<Rightarrow> use_structured_output r \<and> \<not> is_prefill_chunk r)
                       (map fst (so_num_scheduled_tokens out))
           in if ids = [] then None else Some ids)"

subsection \<open>Resets and counts\<close>

function preempt_all :: "'x sched_config \<Rightarrow> rat \<Rightarrow> 'x scheduler \<Rightarrow> 'x scheduler result" where
  "preempt_all cfg now s =
     (if running s = [] then Inr s
      else
        let rid = last (running s)
        in rbind (preempt_request cfg now rid (s\<lparr>running := butlast (running s)\<rparr>)) (\<lambda>s1.
           rbind (get_req s1 rid) (\<lambda>r.
             preempt_all cfg now
               (put_req (r\<lparr>async_tokens_to_discard := num_output_placeholders r, num_output_placeholders := 0\<rparr>) s1))))"
  by pat_completeness auto
termination
  by (relation "measure (\<lambda>(_, _, s). length (running s))") (auto simp: put_req_def dest!: preempt_request_running)

declare preempt_all.simps [simp del]

definition reset_connector_cache :: "'x sched_config \<Rightarrow> 'x scheduler \<Rightarrow> (bool \<times> 'x scheduler) result" where
  "reset_connector_cache cfg s =
     (case connector cfg of
        None \<Rightarrow> Inr (True, s)
      | Some c \<Rightarrow>
          (case kvc_reset_cache c (world s) of (ok, w) \<Rightarrow>
             let s1 = s\<lparr>world := w\<rparr>
             in if ok = Some False then Inr (False, s1)
                else if log_stats cfg
                then (case connector_stats s1 of
                        None \<Rightarrow> Inl AssertionError
                      | Some st \<Rightarrow> Inr (True, s1\<lparr>connector_stats := Some (st\<lparr>st_reset := True\<rparr>)\<rparr>))
                else Inr (True, s1)))"

definition sched_reset_prefix_cache ::
  "'x sched_config \<Rightarrow> rat \<Rightarrow> bool \<Rightarrow> bool \<Rightarrow> 'x scheduler \<Rightarrow> (bool \<times> 'x scheduler) result" where
  "sched_reset_prefix_cache cfg now reset_running reset_connector s =
     rbind (if reset_running
            then rbind (preempt_all cfg now s) (\<lambda>s1. Inr (s1\<lparr>prev_step_scheduled_req_ids := {}\<rparr>))
            else Inr s) (\<lambda>s1.
     rbind (km_reset_prefix_cache (kv_mgr s1)) (\<lambda>(ok, km).
       let s2 = s1\<lparr>kv_mgr := km\<rparr>
       in if reset_running \<and> \<not> ok then Inl RuntimeError
          else if reset_connector then rbind (reset_connector_cache cfg s2) (\<lambda>(okc, s3). Inr (okc \<and> ok, s3))
          else Inr (ok, s2)))"

definition reset_encoder_cache :: "'x scheduler \<Rightarrow> 'x scheduler" where
  "reset_encoder_cache s =
     s\<lparr>enc_mgr := (case enc_mgr s of
                    EncoderCacheManager m \<Rightarrow> EncoderCacheManager (enc_reset m)
                  | EncoderDecoderCacheManager m \<Rightarrow> EncoderDecoderCacheManager (ed_reset m))\<rparr>"

definition set_pause_state :: "pause_state \<Rightarrow> 'x scheduler \<Rightarrow> 'x scheduler" where
  "set_pause_state p s = s\<lparr>pause := p\<rparr>"

definition get_request_counts :: "'x scheduler \<Rightarrow> int \<times> int" where
  "get_request_counts s = (int (length (running s)), rq_len (waiting s) + rq_len (skipped_waiting s))"

definition get_num_unfinished_requests :: "'x scheduler \<Rightarrow> int" where
  "get_num_unfinished_requests s =
     (case pause s of
        PAUSED_ALL \<Rightarrow> 0
      | PAUSED_NEW \<Rightarrow> int (length (running s))
      | UNPAUSED \<Rightarrow> rq_len (waiting s) + rq_len (skipped_waiting s) - num_waiting_for_streaming_input s + int (length (running s)))"

definition has_finished_requests :: "'x sched_config \<Rightarrow> 'x scheduler \<Rightarrow> bool" where
  "has_finished_requests cfg s \<longleftrightarrow>
     finished_req_ids s \<noteq> {}
     \<or> (connector cfg \<noteq> None
         \<and> int (length (requests s)) > rq_len (waiting s) + rq_len (skipped_waiting s) + int (length (running s)))"

definition has_requests :: "'x sched_config \<Rightarrow> 'x scheduler \<Rightarrow> bool" where
  "has_requests cfg s \<longleftrightarrow>
     get_num_unfinished_requests s > 0 \<or> has_finished_requests cfg s
     \<or> (case connector cfg of None \<Rightarrow> False | Some c \<Rightarrow> kvc_has_pending_push_work c (world s))"

end
