(* ===== verification/Scheduler_Outcome.thy ===== *)
theory Scheduler_Outcome
  imports Scheduler_Properties Scheduler_Update
begin

section \<open>What becomes of the requests after a step\<close>

text \<open>
  The update with the output of the model runner removes exactly the requests that stopped, and resetting
  the prefix cache puts the running requests back in their order.
\<close>

subsection \<open>Updates that keep a request's identity\<close>

definition same_ident :: "request \<Rightarrow> request \<Rightarrow> bool" where
  "same_ident r r' \<longleftrightarrow> request_id r' = request_id r \<and> resumable r' = resumable r \<and> mm_features r' = mm_features r"

lemma same_ident_refl [simp]: "same_ident r r"
  by (simp add: same_ident_def)

lemma same_ident_trans: "same_ident r s \<Longrightarrow> same_ident s t \<Longrightarrow> same_ident r t"
  by (simp add: same_ident_def)

lemma same_ident_cache: "same_but_cache r r' \<Longrightarrow> same_ident r r' \<and> status r' = status r"
  by (auto simp: same_but_cache_def same_ident_def)

lemma append_output_ident:
  assumes "append_output_token_ids h r toks = Inr r'" "\<forall>f. h = Some f \<longrightarrow> hasher_frame f"
  shows "same_ident r r' \<and> status r' = status r"
  using update_block_hashes_frame[OF assms(1)[unfolded append_output_token_ids_def] assms(2)] by (auto simp: same_ident_def)

lemma check_stop_ident:
  assumes "check_stop r L = Inr (b, r')"
  shows "same_ident r r' \<and> (if b then status_is_finished (status r') else status r' = status r)"
proof -
  have p: "req_pooling_params r = None" using assms by (auto simp: check_stop_def rbind_eq_Inr_iff)
  obtain sp where sp: "req_sampling_params r = Some sp"
    using assms by (cases "req_sampling_params r") (simp_all add: check_stop_def p)
  show ?thesis
  proof (cases "output_token_ids r = []")
    case True
    then have "py_index (output_token_ids r) (- 1) = Inl IndexError" by (simp add: py_index_def)
    then show ?thesis using assms by (simp add: check_stop_def p sp same_ident_def split: if_splits)
  next
    case False
    from check_stop_cases[OF p sp False assms] show ?thesis
    proof (elim disjE conjE exE)
      fix st sr
      assume "b" "r' = stopped_as r st sr" "status_is_finished st"
      then show ?thesis by (simp add: stopped_as_def same_ident_def)
    qed simp
  qed
qed

lemma append_and_check_ident:
  assumes "append_and_check h L r toks = Inr (new, b, r')" "\<forall>f. h = Some f \<longrightarrow> hasher_frame f"
  shows "same_ident r r' \<and> (if b then status_is_finished (status r') else status r' = status r)"
  using assms
proof (induction h L r toks arbitrary: new b r' rule: append_and_check.induct)
  case (2 h L r t ts)
  from "2.prems"(1) obtain r1 st r2 where a: "append_output_token_ids h r [t] = Inr r1" "check_stop r1 L = Inr (st, r2)"
    and rest: "(if st then Inr ([t], True, r2) else rbind (append_and_check h L r2 ts) (\<lambda>(us, st, r3). Inr (t # us, st, r3))) = Inr (new, b, r')"
    by (auto simp: rbind_eq_Inr_iff)
  have i: "same_ident r r2" "if st then status_is_finished (status r2) else status r2 = status r"
    using append_output_ident[OF a(1) "2.prems"(2)] check_stop_ident[OF a(2)] same_ident_trans by auto
  show ?case
  proof (cases st)
    case False
    then obtain us where n: "append_and_check h L r2 ts = Inr (us, b, r')" using rest by (auto simp: rbind_eq_Inr_iff)
    from "2.IH"[OF a(1,2) refl False n "2.prems"(2)] show ?thesis using i False same_ident_trans by auto
  qed (use rest i in auto)
qed simp

text \<open>Requests without streaming input.\<close>

definition plain_store :: "'x scheduler \<Rightarrow> bool" where
  "plain_store s \<longleftrightarrow> (\<forall>rid r. dict_get (requests s) rid = Some r \<longrightarrow> \<not> resumable r)"

text \<open>One request was changed; \<open>b\<close> tells whether it has stopped.\<close>

definition touched :: "string \<Rightarrow> request_status \<Rightarrow> bool \<Rightarrow> 'x scheduler \<Rightarrow> 'x scheduler \<Rightarrow> bool" where
  "touched rid st0 b s s' \<longleftrightarrow> same_queues s s' \<and> store_ok s' \<and> plain_store s' \<and> (\<forall>x. x \<noteq> rid \<longrightarrow> stat s' x = stat s x)
     \<and> (\<exists>st. stat s' rid = Some st \<and> (if b then status_is_finished st else st = st0))"

lemma touched_put:
  assumes "same_queues s0 s" "store_ok s" "plain_store s" "\<forall>x. x \<noteq> rid \<longrightarrow> stat s x = stat s0 x"
    "request_id r = rid" "req_ok r" "\<not> resumable r" "if b then status_is_finished (status r) else status r = st0"
  shows "touched rid st0 b s0 (put_req r s)"
  using assms store_put[OF assms(2,6)]
  by (auto simp: touched_def stat_put plain_store_def intro: same_queues_trans) (auto simp: put_req_def split: if_splits)

lemma touched_core: "touched rid st0 b s0 s \<Longrightarrow> same_core s s' \<Longrightarrow> touched rid st0 b s0 s'"
  using store_core[of s s'] by (auto simp: touched_def same_core_def plain_store_def stat_def intro: same_queues_trans)

lemma touchedD:
  assumes "touched rid st0 b s0 s" "get_req s rid = Inr r"
  shows "request_id r = rid" "req_ok r" "\<not> resumable r" "same_queues s0 s" "store_ok s" "plain_store s"
    "\<forall>x. x \<noteq> rid \<longrightarrow> stat s x = stat s0 x" "if b then status_is_finished (status r) else status r = st0"
proof -
  have t: "same_queues s0 s" "store_ok s" "plain_store s" "\<forall>x. x \<noteq> rid \<longrightarrow> stat s x = stat s0 x"
    "\<exists>st. stat s rid = Some st \<and> (if b then status_is_finished st else st = st0)" using assms(1) by (simp_all add: touched_def)
  show "request_id r = rid" "req_ok r" using store_okD[OF t(2) assms(2)] by simp_all
  show "\<not> resumable r" using t(3) assms(2) by (simp add: plain_store_def get_req_iff)
  show "same_queues s0 s" "store_ok s" "plain_store s" "\<forall>x. x \<noteq> rid \<longrightarrow> stat s x = stat s0 x" by (fact t)+
  show "if b then status_is_finished (status r) else status r = st0" using t(5) stat_get[OF assms(2)] by auto
qed

lemma update_request_touched:
  assumes u: "update_request_with_output cfg r toks s = Inr (new, b, s')" and t: "touched rid st0 False s0 s"
    and r: "get_req s rid = Inr r" and h: "\<forall>f. hasher cfg = Some f \<longrightarrow> hasher_frame f"
  shows "touched rid st0 b s0 s'"
proof -
  note d = touchedD[OF t r]
  have put: "touched rid st0 b s0 (put_req r' (s\<lparr>kv_mgr := km\<rparr>))"
    if "same_ident r r'" "if b then status_is_finished (status r') else status r' = status r" for r' km b
    by (rule touched_put) (use d that in \<open>auto simp: same_ident_def req_ok_def plain_store_def same_queues_def\<close>)
  show ?thesis
  proof (cases "async_scheduling cfg \<and> async_tokens_to_discard r > 0")
    case True
    then show ?thesis using u put[of "r\<lparr>async_tokens_to_discard := async_tokens_to_discard r - 1\<rparr>" False "kv_mgr s"]
      by (auto simp: update_request_with_output_def same_ident_def)
  next
    case False
    then obtain r1 where a: "append_and_check (hasher cfg) (max_model_len cfg) r toks = Inr (new, b, r1)"
      using u by (auto simp: update_request_with_output_def rbind_eq_Inr_iff Let_def split: if_splits)
    note i = append_and_check_ident[OF a h]
    let ?r2 = "r1\<lparr>num_output_placeholders := num_output_placeholders r1 - int (length new)\<rparr>"
    consider "s' = put_req r1 s" | "s' = put_req ?r2 s"
      | r3 km where "km_cache_blocks ?r2 (num_computed_tokens ?r2 - num_output_placeholders ?r2) (kv_mgr s) = Inr (r3, km)" "s' = put_req r3 (s\<lparr>kv_mgr := km\<rparr>)"
      using u a False by (auto simp: update_request_with_output_def rbind_eq_Inr_iff Let_def split: if_splits)
    then show ?thesis
    proof cases
      case 1
      then show ?thesis using put[of r1 b "kv_mgr s"] i by simp
    next
      case 2
      then show ?thesis using put[of ?r2 b "kv_mgr s"] i by (simp add: same_ident_def)
    next
      case 3
      have "same_ident r r3 \<and> status r3 = status r1"
        using same_ident_cache[OF km_cache_request[OF 3(1)]] i by (simp add: same_ident_def)
      then show ?thesis using put[of r3 b km] i 3(2) by simp
    qed
  qed
qed

lemma check_output_touched:
  assumes "check_output cfg r gen pooled s = Inr (new, b, s')" "touched rid st0 False s0 s" "get_req s rid = Inr r"
    "\<forall>f. hasher cfg = Some f \<longrightarrow> hasher_frame f"
  shows "touched rid st0 b s0 s'"
proof -
  note d = touchedD[OF assms(2,3)]
  have "touched rid st0 True s0 (put_req (r\<lparr>status := FINISHED_STOPPED\<rparr>) s)"
    by (rule touched_put) (use d in \<open>auto simp: status_is_finished_def req_ok_def\<close>)
  then show ?thesis using assms update_request_touched by (auto simp: check_output_def split: if_splits)
qed

lemma advance_grammar_touched:
  assumes "advance_grammar cfg rid new b s = Inr (b', s')" "touched rid st0 b s0 s"
  shows "touched rid st0 b' s0 s'"
proof -
  obtain r where r: "get_req s rid = Inr r" using assms(1) by (auto simp: advance_grammar_def rbind_eq_Inr_iff)
  note d = touchedD[OF assms(2) r]
  have "touched rid st0 True s0 (put_req (r\<lparr>status := FINISHED_ERROR, resumable := False\<rparr>) (s\<lparr>world := w\<rparr>))" for w
    by (rule touched_put) (use d in \<open>auto simp: status_is_finished_def req_ok_def same_queues_def store_ok_def plain_store_def stat_def\<close>)
  moreover have "touched rid st0 b s0 (s\<lparr>world := w\<rparr>)" for w
    by (rule touched_core[OF assms(2)]) (simp add: same_core_def same_queues_def)
  ultimately show ?thesis using assms r by (auto simp: advance_grammar_def rbind_eq_Inr_iff Let_def split: if_splits prod.splits)
qed

lemma connector_finished_core:
  assumes "connector_finished cfg r s = Inr (d, s')"
  shows "same_core s s'"
proof (cases "connector cfg")
  case None
  then show ?thesis using assms by (simp add: connector_finished_def)
next
  case (Some c)
  then obtain km w where "s' = s\<lparr>kv_mgr := km, world := w\<rparr>"
    using assms unfolding connector_finished_def Let_def by (auto simp: rbind_eq_Inr_iff case_prod_unfold split: if_splits)
  then show ?thesis by (simp add: same_core_def same_queues_def)
qed

lemma free_request_effect:
  assumes "free_request cfg r delay s = Inr s'"
  shows "same_queues s s' \<and> (requests s' = requests s \<or> requests s' = dict_del (request_id r) (requests s))"
proof -
  obtain cd s1 s2 where c: "connector_finished cfg r (discard_inflight (request_id r) s) = Inr (cd, s1)" "enc_free_request cfg r s1 = Inr s2"
    and rest: "(let s3 = s2\<lparr>finished_req_ids := insert (request_id r) (finished_req_ids s2)\<rparr>
       in if delay \<or> cd then Inr s3 else free_blocks_of r s3) = Inr s'"
    using assms unfolding free_request_def rbind_eq_Inr_iff split_paired_Ex prod.case by (elim exE conjE) (rule that)
  have "same_core s s1" using connector_finished_core[OF c(1)] by (simp add: same_core_def same_queues_def discard_inflight_def)
  then have "same_core s s2" using enc_free_request_same[OF c(2)] same_core_trans by blast
  then show ?thesis using rest
    by (auto simp: Let_def free_blocks_of_def rbind_eq_Inr_iff same_core_def same_queues_def split: if_splits)
qed

lemma reject_drafts_ident: "same_ident r (reject_drafts cfg spec gen r) \<and> status (reject_drafts cfg spec gen r) = status r"
  by (simp add: reject_drafts_def same_ident_def Let_def)

lemma finished_has_reason: "status_is_finished st \<Longrightarrow> status_finished_reason st \<noteq> None"
  by (cases st) (simp_all add: status_is_finished_def status_finished_reason_def finished_reason_map_def)

text \<open>As \<open>touched\<close>, but a request that has stopped may have left the store.\<close>

definition settled :: "string \<Rightarrow> request_status \<Rightarrow> bool \<Rightarrow> 'x scheduler \<Rightarrow> 'x scheduler \<Rightarrow> bool" where
  "settled rid st0 b s s' \<longleftrightarrow> same_queues s s' \<and> store_ok s' \<and> plain_store s' \<and> (\<forall>x. x \<noteq> rid \<longrightarrow> stat s' x = stat s x)
     \<and> (if b then \<forall>st. stat s' rid = Some st \<longrightarrow> status_is_finished st else stat s' rid = Some st0)"

lemma touched_settled: "touched rid st0 b s0 s \<Longrightarrow> settled rid st0 b s0 s"
  by (auto simp: touched_def settled_def split: if_splits)

lemma settled_core: "settled rid st0 b s0 s \<Longrightarrow> same_core s s' \<Longrightarrow> settled rid st0 b s0 s'"
  using store_core[of s s'] by (auto simp: settled_def same_core_def plain_store_def stat_def intro: same_queues_trans)

definition answers :: "string \<Rightarrow> request_status \<Rightarrow> bool \<Rightarrow> request \<Rightarrow> bool" where
  "answers rid st0 b r \<longleftrightarrow> request_id r = rid \<and> req_ok r \<and> \<not> resumable r \<and> (if b then status_is_finished (status r) else status r = st0)"

lemma settled_put:
  assumes "settled rid st0 b s0 s" "answers rid st0 b r"
  shows "settled rid st0 b s0 (put_req r s)"
proof -
  have "store_ok (put_req r s)" using assms store_put[of s r] by (simp add: settled_def answers_def)
  moreover have "plain_store (put_req r s)" using assms by (simp add: settled_def answers_def plain_store_def put_req_def)
  moreover have "same_queues s0 (put_req r s)" using assms(1) by (auto simp: settled_def same_queues_def put_req_def)
  ultimately show ?thesis using assms by (auto simp: settled_def answers_def stat_put)
qed

lemma settled_free:
  assumes "touched rid st0 True s0 s" "request_id r = rid" "free_request cfg r False s = Inr s'"
  shows "settled rid st0 True s0 s'"
proof -
  note e = free_request_effect[OF assms(3)]
  have t: "settled rid st0 True s0 s" using touched_settled[OF assms(1)] by simp
  from e show ?thesis
  proof (elim conjE disjE)
    assume "same_queues s s'" "requests s' = requests s"
    then show ?thesis using settled_core[OF t] by (simp add: same_core_def)
  next
    assume q: "same_queues s s'" and "requests s' = dict_del (request_id r) (requests s)"
    then have g: "dict_get (requests s') x = (if x = rid then None else dict_get (requests s) x)" for x
      by (simp add: assms(2))
    have "store_ok s'" "plain_store s'" using t by (auto simp: settled_def store_ok_def plain_store_def g)
    moreover have "same_queues s0 s'" using t q same_queues_trans by (auto simp: settled_def)
    ultimately show ?thesis using t by (simp add: settled_def stat_def g)
  qed
qed

lemma stop_request_effect:
  assumes sr: "stop_request cfg now RUNNING rid b a s = Inr (reason, r, a', s')" and t: "touched rid st0 b s0 s"
  shows "settled rid st0 b s0 s' \<and> answers rid st0 b r \<and> (reason \<noteq> None \<longleftrightarrow> b)
    \<and> a' = (if b then a\<lparr>oa_stopped_running := oa_stopped_running a @ [r]\<rparr> else a)"
proof -
  obtain q where q: "get_req s rid = Inr q" using sr by (auto simp: stop_request_def rbind_eq_Inr_iff)
  note d = touchedD[OF t q]
  have ans: "answers rid st0 b q" using d by (simp add: answers_def)
  show ?thesis
  proof (cases b)
    case False
    then have "reason = None" "r = q" "a' = a" "s' = s" using sr q by (simp_all add: stop_request_def)
    then show ?thesis using touched_settled[OF t] ans False by simp
  next
    case True
    have h: "handle_stopped_request cfg now q s = Inr (True, q, s)" using d(3) by (simp add: handle_stopped_request_def)
    have "rbind (free_request cfg q False s) (\<lambda>s2. Inr (get_finished_reason q, q,
        a\<lparr>oa_stopped_running := oa_stopped_running a @ [q]\<rparr>, s2)) = Inr (reason, r, a', s')"
      using sr unfolding stop_request_def q h using True h by simp
    then obtain s2 where f: "free_request cfg q False s = Inr s2" "reason = get_finished_reason q" "r = q" "s' = s2"
      "a' = a\<lparr>oa_stopped_running := oa_stopped_running a @ [q]\<rparr>"
      unfolding rbind_eq_Inr_iff sum.inject prod.inject by (elim exE conjE) (rule that, assumption, (erule sym)+)
    have "settled rid st0 True s0 s2" by (rule settled_free[OF _ d(1) f(1)]) (use t True in simp)
    moreover have "get_finished_reason q \<noteq> None" using finished_has_reason d(8) True by (simp add: get_finished_reason_def)
    ultimately show ?thesis using f ans True by simp
  qed
qed

definition finishing :: "engine_core_output list \<Rightarrow> string set" where
  "finishing outs = eo_request_id ` {x \<in> set outs. eo_finish_reason x \<noteq> None}"

lemma finishing_append:
  "finishing (xs @ [x]) = finishing xs \<union> (if eo_finish_reason x \<noteq> None then {eo_request_id x} else {})"
  by (auto simp: finishing_def)

lemma take_events_answers: "answers rid st0 b r \<Longrightarrow> answers rid st0 b (snd (take_req_events r))"
  by (simp add: answers_def take_req_events_def req_ok_def)

lemma emit_output_effect:
  assumes em: "emit_output mro rid new pooled b reason r a s = Inr (a', s')"
    and st: "settled rid st0 b s0 s" "answers rid st0 b r" and rs: "reason \<noteq> None \<longleftrightarrow> b"
  shows "settled rid st0 b s0 s' \<and> finishing (oa_outputs a') = finishing (oa_outputs a) \<union> (if b then {rid} else {})
    \<and> oa_stopped_running a' = oa_stopped_running a \<and> oa_stopped_preempted a' = oa_stopped_preempted a"
proof (cases "new \<noteq> [] \<or> pooled \<or> b")
  case True
  obtain evs r1 where ev: "take_req_events r = (evs, r1)" by fastforce
  let ?s1 = "s\<lparr>prefill_stats_of := dict_del rid (prefill_stats_of s)\<rparr>"
  let ?out = "\<lparr>eo_request_id = rid, eo_new_token_ids = new, eo_finish_reason = reason, eo_pooling_output = pooled,
                        eo_stop_reason = stop_reason r, eo_events = evs, eo_prefill_stats = dict_get (prefill_stats_of s) rid\<rparr>"
  have e: "a' = a\<lparr>oa_outputs := oa_outputs a @ [?out]\<rparr>" "s' = (if dict_get (requests ?s1) rid = None then ?s1 else put_req r1 ?s1)"
    using em True ev by (simp_all add: emit_output_def Let_def)
  have "settled rid st0 b s0 ?s1" by (rule settled_core[OF st(1)]) (simp add: same_core_def same_queues_def)
  moreover have "answers rid st0 b r1" using take_events_answers[OF st(2)] ev by simp
  ultimately have "settled rid st0 b s0 s'" using settled_put unfolding e(2) by auto
  moreover have "finishing (oa_outputs a') = finishing (oa_outputs a) \<union> (if b then {rid} else {})"
    using rs by (simp add: finishing_append e(1))
  ultimately show ?thesis by (simp add: e(1))
next
  case False
  then show ?thesis using em st by (simp add: emit_output_def rbind_eq_Inr_iff)
qed

subsection \<open>One request of the output\<close>

lemma output_step_cases:
  assumes st: "output_step cfg now out mro [] (rid, n) (a, s) = Inr (a', s')"
    and ok: "store_ok s" "plain_store s" "\<forall>f. hasher cfg = Some f \<longrightarrow> hasher_frame f"
    and run: "\<And>x. stat s rid = Some x \<Longrightarrow> \<not> status_is_finished x \<Longrightarrow> x = RUNNING"
  shows "(a', s') = (a, s) \<or> (\<exists>b r. stat s rid = Some RUNNING \<and> settled rid RUNNING b s s' \<and> request_id r = rid
     \<and> finishing (oa_outputs a') = finishing (oa_outputs a) \<union> (if b then {rid} else {})
     \<and> oa_stopped_running a' = oa_stopped_running a @ (if b then [r] else []) \<and> oa_stopped_preempted a' = oa_stopped_preempted a)"
proof (cases "dict_get (requests s) rid")
  case None
  then show ?thesis using st by (simp add: output_step_def rbind_eq_Inr_iff)
next
  case (Some r)
  then have g: "get_req s rid = Inr r" by (simp add: get_req_iff)
  show ?thesis
  proof (cases "req_is_finished r")
    case True
    then show ?thesis using st Some by (simp add: output_step_def rbind_eq_Inr_iff)
  next
    case nf: False
    then have R: "status r = RUNNING" using run stat_get[OF g] by (simp add: req_is_finished_def)
    define spec where "spec = dict_get_default (so_spec_decode_tokens out) rid []"
    obtain i gen s2 pooled new b0 s3 b s4 reason r5 a5 s5 where
      e: "(if has_encoder_inputs (reject_drafts cfg spec gen r)
           then rbind (free_encoder_inputs (encoder_decoder cfg) (id_order cfg (ecm_cached_ids (reject_drafts cfg spec gen r)
                    (enc_mgr (put_req (reject_drafts cfg spec gen r) s)))) (reject_drafts cfg spec gen r) (enc_mgr (put_req (reject_drafts cfg spec gen r) s)))
                  (\<lambda>em. Inr ((put_req (reject_drafts cfg spec gen r) s)\<lparr>enc_mgr := em\<rparr>))
           else Inr (put_req (reject_drafts cfg spec gen r) s)) = Inr s2"
      and c: "check_output cfg (reject_drafts cfg spec gen r) gen pooled s2 = Inr (new, b0, s3)"
      and g4: "advance_grammar cfg rid new b0 s3 = Inr (b, s4)"
      and sr: "stop_request cfg now (status (reject_drafts cfg spec gen r)) rid b a s4 = Inr (reason, r5, a5, s5)"
      and em: "emit_output mro rid new pooled b reason r5 a5 s5 = Inr (a', s')"
      using st unfolding output_step_def spec_def[symmetric] Let_def prod.case list.set empty_iff if_False Some option.case if_not_P[OF nf]
        rbind_eq_Inr_iff split_paired_Ex prod.case
      by (elim exE conjE) (rule that)
    let ?r1 = "reject_drafts cfg spec gen r"
    note i = reject_drafts_ident[of r cfg spec gen]
    have id: "request_id ?r1 = rid" "req_ok ?r1" "\<not> resumable ?r1" "status ?r1 = RUNNING"
      using i R store_okD[OF ok(1) g] ok(2) Some by (auto simp: same_ident_def req_ok_def plain_store_def)
    have t1: "touched rid RUNNING False s (put_req ?r1 s)" by (rule touched_put) (use ok id in \<open>simp_all add: same_queues_def\<close>)
    have core: "same_core (put_req ?r1 s) s2"
      using e by (auto simp: rbind_eq_Inr_iff same_core_def same_queues_def split: if_splits)
    have g2: "get_req s2 rid = Inr ?r1" using core id(1) by (simp add: get_req_def same_core_def put_req_def dict_index_def)
    have t4: "touched rid RUNNING b s s4"
      by (rule advance_grammar_touched[OF g4 check_output_touched[OF c touched_core[OF t1 core] g2 ok(3)]])
    note s5 = stop_request_effect[OF sr[unfolded id(4)] t4]
    have f: "settled rid RUNNING b s s5" "answers rid RUNNING b r5" "(reason \<noteq> None) = b" using s5 by simp_all
    note em' = emit_output_effect[OF em f]
    have a5: "a5 = (if b then a\<lparr>oa_stopped_running := oa_stopped_running a @ [r5]\<rparr> else a)" using s5 by blast
    have "stat s rid = Some RUNNING" using stat_get[OF g] R by simp
    moreover have "request_id r5 = rid" using f(2) by (simp add: answers_def)
    moreover have "settled rid RUNNING b s s'" using em' by blast
    moreover have "finishing (oa_outputs a') = finishing (oa_outputs a) \<union> (if b then {rid} else {})"
      "oa_stopped_running a' = oa_stopped_running a @ (if b then [r5] else [])" "oa_stopped_preempted a' = oa_stopped_preempted a"
      using em' unfolding a5 by (simp_all split: if_splits)
    ultimately show ?thesis by blast
  qed
qed

subsection \<open>All requests of the output\<close>

definition outcome :: "'x scheduler \<Rightarrow> output_acc \<times> 'x scheduler \<Rightarrow> bool" where
  "outcome s0 = (\<lambda>(a, s). same_queues s0 s \<and> store_ok s \<and> plain_store s \<and> oa_stopped_preempted a = []
     \<and> request_id ` set (oa_stopped_running a) = finishing (oa_outputs a) \<and> finishing (oa_outputs a) \<subseteq> set (running s0)
     \<and> (\<forall>x. x \<notin> finishing (oa_outputs a) \<longrightarrow> stat s x = stat s0 x)
     \<and> (\<forall>x st. x \<in> finishing (oa_outputs a) \<longrightarrow> stat s x = Some st \<longrightarrow> status_is_finished st))"

lemma output_step_outcome:
  assumes st: "output_step cfg now out mro [] (rid, n) (a, s) = Inr (a', s')" and o: "outcome s0 (a, s)"
    and h: "\<forall>f. hasher cfg = Some f \<longrightarrow> hasher_frame f" and run: "rid \<in> set (running s0)" "stat s0 rid = Some RUNNING"
  shows "outcome s0 (a', s')"
proof -
  let ?D = "finishing (oa_outputs a)"
  have O: "same_queues s0 s" "store_ok s" "plain_store s" "oa_stopped_preempted a = []" "request_id ` set (oa_stopped_running a) = ?D"
    "?D \<subseteq> set (running s0)" "\<And>x. x \<notin> ?D \<Longrightarrow> stat s x = stat s0 x" "\<And>x st. x \<in> ?D \<Longrightarrow> stat s x = Some st \<Longrightarrow> status_is_finished st"
    using o by (simp_all add: outcome_def)
  have live: "x = RUNNING" if "stat s rid = Some x" "\<not> status_is_finished x" for x
    using O(7)[of rid] O(8)[of rid x] that run(2) by (cases "rid \<in> ?D") simp_all
  have "(a', s') = (a, s) \<or> (\<exists>b r. stat s rid = Some RUNNING \<and> settled rid RUNNING b s s' \<and> request_id r = rid
     \<and> finishing (oa_outputs a') = ?D \<union> (if b then {rid} else {})
     \<and> oa_stopped_running a' = oa_stopped_running a @ (if b then [r] else []) \<and> oa_stopped_preempted a' = oa_stopped_preempted a)"
    by (rule output_step_cases[OF st O(2,3) h]) (rule live)
  then show ?thesis
  proof (elim disjE exE conjE)
    fix b r
    assume e: "stat s rid = Some RUNNING" "settled rid RUNNING b s s'" "request_id r = rid"
      "finishing (oa_outputs a') = ?D \<union> (if b then {rid} else {})"
      "oa_stopped_running a' = oa_stopped_running a @ (if b then [r] else [])" "oa_stopped_preempted a' = oa_stopped_preempted a"
    have S: "same_queues s s'" "store_ok s'" "plain_store s'" "\<And>x. x \<noteq> rid \<Longrightarrow> stat s' x = stat s x"
      "if b then \<forall>st. stat s' rid = Some st \<longrightarrow> status_is_finished st else stat s' rid = Some RUNNING"
      using e(2) by (simp_all add: settled_def)
    have nD: "rid \<notin> ?D" using O(8)[of rid RUNNING] e(1) by (auto simp: status_is_finished_def)
    have "stat s' x = stat s0 x" if "x \<notin> finishing (oa_outputs a')" for x
      using that S(4)[of x] S(5) O(7)[of x] run(2) unfolding e(4) by (cases "x = rid") (simp_all split: if_splits)
    moreover have "status_is_finished st" if "x \<in> finishing (oa_outputs a')" "stat s' x = Some st" for x st
      using that S(4)[of x] S(5) O(8)[of x st] nD unfolding e(4) by (cases "x = rid") (simp_all split: if_splits)
    moreover have "same_queues s0 s'" using O(1) S(1) by (rule same_queues_trans)
    moreover have "request_id ` set (oa_stopped_running a') = finishing (oa_outputs a')" "finishing (oa_outputs a') \<subseteq> set (running s0)"
      using O(5,6) run(1) e(3) unfolding e(4,5) by auto
    ultimately show ?thesis using S(2,3) O(4) e(6) by (simp add: outcome_def)
  qed (use o in simp)
qed

lemma outputs_outcome:
  assumes f: "rfold (output_step cfg now out mro []) ts (\<lparr>oa_outputs = [], oa_stopped_running = [], oa_stopped_preempted = []\<rparr>, s) = Inr st"
    and h: "\<forall>f. hasher cfg = Some f \<longrightarrow> hasher_frame f" and ok: "scheduler_ok s" "plain_store s" "fst ` set ts \<subseteq> set (running s)"
  shows "outcome s st"
proof (rule rfold_invariant[OF f])
  have inv: "store_ok s" "\<forall>rid \<in> set (running s). stat s rid = Some RUNNING" using ok(1) by (simp_all add: scheduler_ok_def sched_inv_def)
  show "outcome s (\<lparr>oa_outputs = [], oa_stopped_running = [], oa_stopped_preempted = []\<rparr>, s)"
    using inv(1) ok(2) by (simp add: outcome_def finishing_def same_queues_def)
  fix p x y
  assume p: "p \<in> set ts" and x: "outcome s x" and y: "output_step cfg now out mro [] p x = Inr y"
  obtain rid n a1 s1 a2 s2 where e: "p = (rid, n)" "x = (a1, s1)" "y = (a2, s2)" by (metis surj_pair)
  have r: "rid \<in> set (running s)" using ok(3) p e(1) by force
  show "outcome s y" unfolding e(3)
    by (rule output_step_outcome[OF y[unfolded e] x[unfolded e(2)] h r]) (use inv(2) r in blast)
qed

lemma remove_all_distinct: "distinct xs \<Longrightarrow> remove_all xs ys = filter (\<lambda>x. x \<notin> set ys) xs"
  by (cases ys) (auto simp: remove_all_def distinct_remove1_removeAll removeAll_filter_not_eq intro!: filter_cong)

lemma running_distinct: "scheduler_ok s \<Longrightarrow> distinct (running s)"
proof -
  assume "scheduler_ok s"
  then have "count (mset (running s)) x \<le> 1" for x
    using holds_count[of "request_ids s" none_aside s x] holds_none[of "request_ids s" s] by simp
  then have "count (mset (running s)) x = (if x \<in> set (running s) then 1 else 0)" for x
    using count_greater_eq_one_iff[of "mset (running s)" x] by (simp add: le_antisym)
  then show ?thesis by (simp add: distinct_count_atmost_1)
qed

lemma finished_leave:
  assumes o: "outcome s (a, s1)" and ok: "scheduler_ok s"
  shows "scheduler_ok (remove_stopped a s1) \<and> waiting (remove_stopped a s1) = waiting s \<and> skipped_waiting (remove_stopped a s1) = skipped_waiting s
    \<and> running (remove_stopped a s1) = filter (\<lambda>rid. rid \<notin> finishing (oa_outputs a)) (running s)
    \<and> requests (remove_stopped a s1) = requests s1"
proof -
  let ?D = "finishing (oa_outputs a)" and ?s = "remove_stopped a s1"
  have O: "same_queues s s1" "store_ok s1" "oa_stopped_preempted a = []" "set (map request_id (oa_stopped_running a)) = ?D"
    "?D \<subseteq> set (running s)" "\<And>x. x \<notin> ?D \<Longrightarrow> stat s1 x = stat s x"
    using o by (simp_all add: outcome_def)
  have q: "running s1 = running s" "waiting s1 = waiting s" "skipped_waiting s1 = skipped_waiting s" using O(1) by (simp_all add: same_queues_def)
  have r: "running ?s = filter (\<lambda>rid. rid \<notin> ?D) (running s)"
    using O(3,4) remove_all_distinct[OF running_distinct[OF ok], of "map request_id (oa_stopped_running a)"]
    by (cases "oa_stopped_running a = []") (simp_all add: remove_stopped_def q)
  have w: "waiting ?s = waiting s" "skipped_waiting ?s = skipped_waiting s" "requests ?s = requests s1"
    using O(3) by (simp_all add: remove_stopped_def Let_def q)
  have inv: "rq_inv (waiting s)" "rq_inv (skipped_waiting s)" "rq_inv none_aside" "\<And>x. count (all_ids none_aside s) x \<le> 1"
    "\<forall>rid \<in> set (running s). stat s rid = Some RUNNING" "\<forall>rid \<in># queued_ids none_aside s. \<exists>st. stat s rid = Some st \<and> waits st"
    using ok by (simp_all add: scheduler_ok_def sched_inv_def)
  have qi: "queued_ids none_aside ?s = queued_ids none_aside s" by (simp add: queued_ids_def w)
  have st: "stat ?s x = stat s x" if "x \<notin> ?D" for x using O(6)[OF that] by (simp add: stat_def w)
  have nq: "x \<notin> ?D" if "x \<in># queued_ids none_aside s" for x
    using queued_not_running[OF that, of "running s"] inv(4)[of x] O(5) by (auto simp: all_ids_def)
  have "count (all_ids none_aside ?s) x \<le> 1" for x
    using inv(4)[of x] count_filter_mset[of "\<lambda>rid. rid \<notin> ?D" "mset (running s)" x] by (simp add: all_ids_def qi r split: if_splits)
  moreover have "store_ok ?s" using O(2) by (simp add: store_ok_def w)
  moreover have "\<forall>rid \<in> set (running ?s). stat ?s rid = Some RUNNING" using st inv(5) by (simp add: r)
  moreover have "\<forall>rid \<in># queued_ids none_aside ?s. \<exists>st. stat ?s rid = Some st \<and> waits st" using st nq inv(6) unfolding qi by metis
  ultimately have "scheduler_ok ?s" using inv(1-3) unfolding scheduler_ok_def sched_inv_def w by blast
  then show ?thesis using r w by simp
qed

lemma make_stats_core: "make_stats cfg s = Inr s' \<Longrightarrow> same_core s s'"
  by (cases "make_prefix_cache_stats (kv_mgr s)") (auto simp: make_stats_def same_core_def same_queues_def split: if_splits option.splits)

subsection \<open>Resetting the running requests\<close>

lemma preempt_request_front:
  assumes "preempt_request cfg now rid s = Inr s'" "store_ok s"
  shows "\<exists>r. request_id r = rid \<and> waiting s' = rq_prepend (waiting s) r"
proof -
  obtain r km s1 r2 where r: "get_req s rid = Inr r" and f: "enc_free_request cfg r (s\<lparr>kv_mgr := km\<rparr>) = Inr s1"
    and s': "waiting s' = rq_prepend (waiting s1) r2" "request_id r2 = request_id r"
    using assms(1) by (auto simp: preempt_request_def rbind_eq_Inr_iff Let_def record_event_def)
  have "waiting s1 = waiting s" using enc_free_request_same[OF f] by (simp add: same_core_def same_queues_def)
  then show ?thesis using s' store_okD[OF assms(2) r] by auto
qed

lemma preempt_all_queue:
  assumes "preempt_all cfg now s = Inr s'" "scheduler_ok s" "waiting s = FCFSRequestQueue q"
  shows "running s' = [] \<and> scheduler_ok s' \<and> request_ids s' = request_ids s \<and> skipped_waiting s' = skipped_waiting s
    \<and> (\<exists>q'. waiting s' = FCFSRequestQueue q' \<and> map request_id q' = running s @ map request_id q)"
  using assms
proof (induction cfg now s arbitrary: q rule: preempt_all.induct)
  case (1 cfg now s)
  show ?case
  proof (cases "running s = []")
    case True
    then show ?thesis using 1 by (simp add: preempt_all.simps)
  next
    case False
    let ?rid = "last (running s)" and ?rs = "butlast (running s)"
    let ?mark = "\<lambda>r. r\<lparr>async_tokens_to_discard := num_output_placeholders r, num_output_placeholders := 0\<rparr>"
    obtain s1 r where p: "preempt_request cfg now ?rid (s\<lparr>running := ?rs\<rparr>) = Inr s1" and g: "get_req s1 ?rid = Inr r"
      and rest: "preempt_all cfg now (put_req (?mark r) s1) = Inr s'"
      using 1(2) False unfolding preempt_all.simps[of cfg now s] by (auto simp: rbind_eq_Inr_iff Let_def)
    have inv: "sched_inv none_aside s" using 1(3) by (simp add: scheduler_ok_def)
    have ms: "mset (running s) = add_mset ?rid (mset ?rs)"
      using False by (cases "running s" rule: rev_cases) auto
    note i = preempt_inv[OF inv p ms]
    have st: "store_ok s1" using i by (simp add: sched_inv_def)
    have "keeps s1 (put_req (?mark r) s1)"
      by (rule put_keeps[OF st g]) (use store_okD[OF st g] in \<open>simp_all add: req_ok_def\<close>)
    then have k: "sched_inv none_aside (put_req (?mark r) s1) \<and> all_ids none_aside (put_req (?mark r) s1) = all_ids none_aside s1"
      using keeps_inv i by blast
    obtain r0 where r0: "request_id r0 = ?rid" "waiting s1 = rq_prepend (waiting s) r0"
      using preempt_request_front[OF p] inv by (auto simp: sched_inv_def)
    have sk: "skipped_waiting s1 = skipped_waiting s" using preempt_request_moves(2)[OF p] inv by (simp add: sched_inv_def)
    have f: "waiting (put_req (?mark r) s1) = FCFSRequestQueue (r0 # q)" "running (put_req (?mark r) s1) = ?rs"
      "skipped_waiting (put_req (?mark r) s1) = skipped_waiting s"
      using r0(2) 1(4) i sk by (simp_all add: put_req_def fcfs_prepend_request_def)
    have ok: "scheduler_ok (put_req (?mark r) s1)" "request_ids (put_req (?mark r) s1) = request_ids s"
      using k i by (simp_all add: scheduler_ok_def request_ids_def)
    from "1.IH"[OF False refl p g rest ok(1) f(1)] show ?thesis
      using f(2,3) ok(2) r0(1) append_butlast_last_id[OF False] by (auto simp: append_eq_append_conv2)
  qed
qed

text \<open>Two running requests, of which the first may sample one token only.\<close>

definition running_request :: "string \<Rightarrow> int \<Rightarrow> int list \<Rightarrow> int \<Rightarrow> request" where
  "running_request rid oid toks limit = (waiting_request rid oid toks)\<lparr>status := RUNNING, num_computed_tokens := int (length toks), max_tokens := limit\<rparr>"

definition two_running :: "kv_cache_manager \<Rightarrow> unit scheduler" where
  "two_running km =
     (let a = running_request ''a'' 0 [1, 2, 3] 1; b = running_request ''b'' 1 [5, 6] 8
      in put_req b (put_req a ((sample_scheduler FCFS km)\<lparr>running := [''a'', ''b'']\<rparr>)))"

lemma two_running_ok: "scheduler_ok (two_running km)" "plain_store (two_running km)" "running (two_running km) = [''a'', ''b'']"
  "waiting (two_running km) = FCFSRequestQueue []" "request_ids (two_running km) = {#''a'', ''b''#}"
proof -
  let ?a = "running_request ''a'' 0 [1, 2, 3] 1" and ?b = "running_request ''b'' 1 [5, 6] 8"
  have r: "request_id ?a = ''a''" "request_id ?b = ''b''" "status ?a = RUNNING" "status ?b = RUNNING" "mm_features ?a = []" "mm_features ?b = []"
    "\<not> resumable ?a" "\<not> resumable ?b"
    by (simp_all add: running_request_def waiting_request_def sample_request_def sample_ec_request_def request_fields_def)
  have f: "requests (two_running km) = [(''a'', ?a), (''b'', ?b)]" "skipped_waiting (two_running km) = FCFSRequestQueue []"
    by (simp_all add: two_running_def Let_def put_req_def sample_scheduler_def create_request_queue_def r)
  show run: "running (two_running km) = [''a'', ''b'']" and w: "waiting (two_running km) = FCFSRequestQueue []"
    by (simp_all add: two_running_def Let_def put_req_def sample_scheduler_def create_request_queue_def)
  have q: "queued_ids none_aside (two_running km) = {#}" by (simp add: queued_ids_def queue_ids_def f w fcfs_iter_def)
  show "request_ids (two_running km) = {#''a'', ''b''#}" by (simp add: request_ids_def all_ids_def q run)
  show "plain_store (two_running km)" by (simp add: plain_store_def f(1) r)
  have "store_ok (two_running km)" by (simp add: store_ok_def f(1) r req_ok_def)
  then show "scheduler_ok (two_running km)" unfolding scheduler_ok_def sched_inv_def all_ids_def q
    by (simp add: f w run stat_def r)
qed

definition sample_output :: "(string, int) dict \<Rightarrow> scheduler_output" where
  "sample_output toks =
     \<lparr>so_new_reqs = [], so_cached_reqs = \<lparr>cr_req_ids = [], cr_resumed_req_ids = {}, cr_new_token_ids = [], cr_all_token_ids = [],
        cr_new_block_ids = [], cr_num_computed_tokens = [], cr_num_output_tokens = []\<rparr>,
      so_num_scheduled_tokens = toks, so_total_num_scheduled_tokens = fsum toks, so_spec_decode_tokens = [], so_encoder_inputs = [],
      so_num_common_prefix_blocks = [], so_preempted_req_ids = {}, so_finished_req_ids = {}, so_free_encoder_mm_hashes = [],
      so_new_block_ids_to_zero = None, so_has_structured_output = False, so_pending_structured_output = False,
      so_num_invalid_spec_tokens = None\<rparr>"

definition sampled :: "(string \<times> int list) list \<Rightarrow> model_runner_output" where
  "sampled xs = \<lparr>mr_req_id_to_index = map (\<lambda>(i, rid, _). (rid, i)) (zip (map int [0..<length xs]) xs), mr_sampled_token_ids = map snd xs,
     mr_pooler_output = [], mr_prompt_logprobs = [], mr_kv_connector_output = None\<rparr>"

subsection \<open>Properties\<close>


text \<open>
  C4: Resetting the running requests keeps their order. Under FCFS, \<open>reset_prefix_cache\<close> with
  \<open>reset_running_requests\<close> moves every running request to the front of the waiting queue in the order in
  which they were running, ahead of the requests that waited before, and no request is lost.
\<close>

theorem reset_running_keeps_order:
  assumes "sched_reset_prefix_cache cfg now True reset_connector s = Inr (ok, s')" "scheduler_ok s" "waiting s = FCFSRequestQueue q"
  shows "running s' = [] \<and> scheduler_ok s' \<and> request_ids s' = request_ids s
    \<and> map request_id (rq_iter (waiting s')) = running s @ map request_id q"
proof -
  obtain s1 ok1 km okc s3 where p: "preempt_all cfg now s = Inr s1"
    and r: "s' = s3" "if reset_connector then reset_connector_cache cfg (s1\<lparr>prev_step_scheduled_req_ids := {}, kv_mgr := km\<rparr>) = Inr (okc, s3)
       else s3 = s1\<lparr>prev_step_scheduled_req_ids := {}, kv_mgr := km\<rparr>"
    using assms(1) by (auto simp: sched_reset_prefix_cache_def rbind_eq_Inr_iff Let_def split: if_splits)
  have "same_core (s1\<lparr>prev_step_scheduled_req_ids := {}, kv_mgr := km\<rparr>) s3"
    using r(2) by (auto simp: reset_connector_cache_def same_core_def same_queues_def Let_def split: option.splits prod.splits if_splits)
  then have c: "same_core s1 s'" using r(1) by (simp add: same_core_def same_queues_def)
  note q = preempt_all_queue[OF p assms(2,3)]
  have "holds_ids (request_ids s) none_aside s'" using holds_core[OF c, of "request_ids s" none_aside] q by (simp add: holds_none)
  then show ?thesis using q c by (auto simp: holds_none same_core_def same_queues_def fcfs_iter_def)
qed


theorem reset_running_keeps_order_witness:
  "\<exists>km ok s. sched_reset_prefix_cache (sample_config FCFS) 0 True False (two_running km) = Inr (ok, s) \<and> ok \<and> running s = []
     \<and> map request_id (rq_iter (waiting s)) = [''a'', ''b''] \<and> request_ids s = {#''a'', ''b''#}"
proof -
  have "rbind sample_manager (\<lambda>km. rbind (sched_reset_prefix_cache (sample_config FCFS) 0 True False (two_running km)) (\<lambda>(ok, s).
      Inr ok)) = Inr True" by code_simp
  then obtain km s where u: "sched_reset_prefix_cache (sample_config FCFS) 0 True False (two_running km) = Inr (True, s)"
    by (auto simp: rbind_eq_Inr_iff)
  show ?thesis using reset_running_keeps_order[OF u two_running_ok(1,4)] u
    by (intro exI[of _ km] exI[of _ True] exI[of _ s]) (simp add: two_running_ok(3,5))
qed

end
