(* ===== verification/Scheduler_Findings.thy ===== *)
theory Scheduler_Findings
  imports Scheduler_Outcome
begin

section \<open>Where the scheduler loses something\<close>

text \<open>
  Three situations in which the scheduler loses something, on small inputs: four usable blocks of two tokens and no
  connectors. Two are evaluated as they stand, one is a theorem on every preemption with a witness.
\<close>

definition four_blocks :: "kv_cache_manager result" where
  "four_blocks = kv_cache_manager_init sample_env (one_group (full_spec 2) 5) 100 2 2 None False False False False 1 1 None 0"

text \<open>
  Two requests under asynchronous scheduling. The second one is a streaming session with a queued update; it was
  preempted while its second token, the last one it may sample, was on the way.
\<close>

definition async_config :: "unit sched_config" where
  "async_config = (sample_config FCFS)\<lparr>async_scheduling := True\<rparr>"

definition preempted_session :: request where
  "preempted_session = (waiting_request ''b'' 1 [4, 5, 6])\<lparr>resumable := True, status := PREEMPTED, max_tokens := 2, num_preemptions := 1,
     output_token_ids := [8], all_token_ids := [4, 5, 6, 8], num_output_placeholders := 1\<rparr>"

definition session_scheduler :: "kv_cache_manager \<Rightarrow> unit scheduler" where
  "session_scheduler km =
     (let a = (running_request ''a'' 0 [1, 2, 3] 8)\<lparr>num_output_placeholders := 1\<rparr>
      in (put_req preempted_session (put_req a (sample_scheduler FCFS km)))
           \<lparr>running := [''a''], waiting := FCFSRequestQueue [preempted_session],
            streaming_queues := [(''b'', [streaming_from_request ((waiting_request ''b'' 2 [9])\<lparr>resumable := True\<rparr>)])]\<rparr>)"

text \<open>
  A request with an image of two tokens at position four that has four tokens computed, and one of higher priority with two
  tokens computed; one block is free.
\<close>

definition image_config :: "unit sched_config" where
  "image_config = (sample_config PRIORITY)\<lparr>long_prefill_token_threshold := 2\<rparr>"

definition image_prompt :: request where
  "image_prompt = (running_request ''a'' 0 [1, 2, 3, 4, 0, 0, 7, 8] 8)\<lparr>priority := 5, num_computed_tokens := 4,
     mm_features := [\<lparr>mm_identifier = ''image'', mm_position = \<lparr>pr_offset = 4, pr_length = 2, pr_is_embed = None\<rparr>\<rparr>]\<rparr>"

definition image_scheduler :: "unit scheduler result" where
  "image_scheduler =
     rbind four_blocks (\<lambda>km.
     rbind (allocate_slots (image_prompt\<lparr>num_computed_tokens := 0\<rparr>) (default_slot_args 4) km) (\<lambda>(_, _, km1).
     rbind (allocate_slots (waiting_request ''b'' 1 [4, 5, 6, 7]) (default_slot_args 2) km1) (\<lambda>(_, _, km2).
       Inr ((put_req ((running_request ''b'' 1 [4, 5, 6, 7] 8)\<lparr>num_computed_tokens := 2\<rparr>)
              (put_req image_prompt (sample_scheduler PRIORITY km2)))\<lparr>running := [''a'', ''b'']\<rparr>))))"

text \<open>A session that has sampled one token; the token fills a block.\<close>

definition session_config :: "unit sched_config" where
  "session_config = (sample_config FCFS)\<lparr>hasher := Some (request_block_hasher 2 toy_hash [0] toy_sha)\<rparr>"

definition session_update :: "request result" where
  "session_update =
     rbind four_blocks (\<lambda>km.
     rbind (request_init (hasher session_config) 0 0 ((sample_ec_request ''a'' [1, 2, 3] [] None None)\<lparr>ec_resumable := True\<rparr>)) (\<lambda>r.
     rbind (append_output_token_ids (hasher session_config) (r\<lparr>num_computed_tokens := 3\<rparr>) [4]) (\<lambda>r1.
     rbind (update_request_as_session session_config 0 (r1\<lparr>status := WAITING_FOR_STREAMING_REQ\<rparr>)
              \<lparr>su_mm_features = [], su_prompt_token_ids = Some [9], su_max_tokens = 16, su_arrival_time = 1, su_sampling_params = None\<rparr>
              (sample_scheduler FCFS km)) (\<lambda>(r2, _). Inr r2))))"

definition image_step :: "unit scheduler \<Rightarrow> step_acc" where
  "image_step s = (initial_acc image_config s)\<lparr>acc_running := [''a''], acc_tokens := [(''a'', 2)], acc_blocks := [(''a'', KVCacheBlocks [[]])],
     acc_encoder := [(''a'', [0])], token_budget := 2\<rparr>"

subsection \<open>Freeing a request keeps its inputs cached\<close>

lemma free_encoder_input_cached:
  "free_encoder_input r i m = Inr m' \<Longrightarrow> dict_get (cached m) h \<noteq> None \<Longrightarrow> dict_get (cached m') h \<noteq> None"
  by (auto simp: free_encoder_input_def drop_cached_id_def rbind_eq_Inr_iff Let_def split: if_splits option.splits)

lemma preempt_request_cached:
  assumes "preempt_request cfg now rid s = Inr s'" "enc_mgr s = EncoderCacheManager m" "dict_get (cached m) h \<noteq> None"
  shows "\<exists>m'. enc_mgr s' = EncoderCacheManager m' \<and> dict_get (cached m') h \<noteq> None"
proof -
  obtain r km s1 r2 where f: "enc_free_request cfg r (s\<lparr>kv_mgr := km\<rparr>) = Inr s1"
    and s': "enc_mgr s' = enc_mgr s1"
    using assms(1) by (auto simp: preempt_request_def rbind_eq_Inr_iff Let_def put_req_def discard_inflight_def)
  obtain ids m1 where m1: "enc_free ids r m = Inr m1" "enc_mgr s1 = EncoderCacheManager m1"
    using f assms(2) by (auto simp: enc_free_request_def rbind_eq_Inr_iff)
  have "dict_get (cached m1) h \<noteq> None"
    by (rule rfold_invariant[where P = "\<lambda>m. dict_get (cached m) h \<noteq> None", OF m1(1)[unfolded enc_free_def] assms(3)])
      (rule free_encoder_input_cached)
  then show ?thesis using m1(2) s' by simp
qed

subsection \<open>Properties\<close>


text \<open>
  C38: A scheduled encoder input can be dropped. Under priority scheduling a request that was given an encoder input in this
  step is preempted again by a request behind it; the input is taken out of the output of the step, but its entry stays in the
  encoder cache. When the request comes back the cache answers that the input is there, so the scheduler
  will not schedule it, though no step has run the encoder for it.
\<close>

theorem preempted_encoder_input_never_runs:
  assumes "preempt_lowest cfg now s a idx = Inr (vid, s', a', idx')" "policy cfg = PRIORITY" "vid \<in> set (acc_running a)"
    "enc_mgr s = EncoderCacheManager m" "dict_get (cached m) h \<noteq> None"
  shows "dict_get (acc_encoder a') vid = None
    \<and> (\<exists>m'. enc_mgr s' = EncoderCacheManager m'
        \<and> (\<forall>r i hit m2. feature_hash r i = Inr h \<longrightarrow> check_and_update_cache r i m' = Inr (hit, m2) \<longrightarrow> hit))"
proof -
  obtain s1 a1 where c: "choose_victim cfg s a idx = Inr (vid, s1, a1, idx')" "preempt_request cfg now vid s1 = Inr s'"
    and a': "a' = a1\<lparr>acc_preempted := acc_preempted a1 @ [vid]\<rparr>"
    using assms(1) by (auto simp: preempt_lowest_def rbind_eq_Inr_iff)
  obtain v where "unschedule vid v a = Inr a1" using choose_victim_acc[OF c(1)] assms(2,3) by auto
  then have "acc_encoder a1 = dict_del vid (acc_encoder a)" by (auto simp: unschedule_def rbind_eq_Inr_iff)
  then have e: "dict_get (acc_encoder a') vid = None" by (simp add: a')
  have "enc_mgr s1 = EncoderCacheManager m" using choose_victim_moves[OF c(1)] assms(4) by auto
  then obtain m' where m': "enc_mgr s' = EncoderCacheManager m'" "dict_get (cached m') h \<noteq> None"
    using preempt_request_cached[OF c(2)] assms(5) by blast
  have "hit" if "feature_hash r i = Inr h" "check_and_update_cache r i m' = Inr (hit, m2)" for r i hit m2
    using that m'(2) by (auto simp: check_and_update_cache_def rbind_eq_Inr_iff)
  then show ?thesis using e m'(1) by blast
qed


theorem preempted_encoder_input_never_runs_witness:
  "\<exists>s m s' a' idx m'. enc_mgr s = EncoderCacheManager m \<and> preempt_lowest image_config 0 s (image_step s) 1 = Inr (''a'', s', a', idx)
     \<and> dict_get (acc_encoder (image_step s)) ''a'' = Some [0] \<and> dict_get (acc_encoder a') ''a'' = None \<and> enc_mgr s' = EncoderCacheManager m'
     \<and> rbind (check_and_update_cache image_prompt 0 m') (\<lambda>(hit, _). Inr hit) = Inr True"
proof -
  have "rbind image_scheduler (\<lambda>s0. rbind (ecm_allocate image_prompt 0 (enc_mgr s0)) (\<lambda>em.
      case em of EncoderDecoderCacheManager _ \<Rightarrow> Inl ValueError | EncoderCacheManager m \<Rightarrow>
        rbind (preempt_lowest image_config 0 (s0\<lparr>enc_mgr := em\<rparr>) (image_step (s0\<lparr>enc_mgr := em\<rparr>)) 1) (\<lambda>(vid, s', a', idx).
        rbind (ecm_check image_prompt 0 (enc_mgr s')) (\<lambda>(hit, _). Inr (vid, dict_get (cached m) ''image'', ())))))
    = Inr (''a'', Some {''a''}, ())" by code_simp
  then obtain s0 m s' a' idx hit em2 where
    p: "preempt_lowest image_config 0 (s0\<lparr>enc_mgr := EncoderCacheManager m\<rparr>) (image_step (s0\<lparr>enc_mgr := EncoderCacheManager m\<rparr>)) 1 = Inr (''a'', s', a', idx)"
    and h: "dict_get (cached m) ''image'' = Some {''a''}" and c: "ecm_check image_prompt 0 (enc_mgr s') = Inr (hit, em2)"
    unfolding rbind_eq_Inr_iff[of image_scheduler] rbind_eq_Inr_iff[of "ecm_allocate _ _ _"]
    by (elim exE conjE) (case_tac xa; auto simp: rbind_eq_Inr_iff)
  let ?s = "s0\<lparr>enc_mgr := EncoderCacheManager m\<rparr>"
  have "policy image_config = PRIORITY" "''a'' \<in> set (acc_running (image_step ?s))" "enc_mgr ?s = EncoderCacheManager m"
    "dict_get (cached m) ''image'' \<noteq> None" "feature_hash image_prompt 0 = Inr ''image''" "dict_get (acc_encoder (image_step ?s)) ''a'' = Some [0]"
    using h by (simp_all add: image_config_def sample_config_def image_step_def image_prompt_def feature_hash_def py_index_def)
  note f = this
  obtain m' where m': "dict_get (acc_encoder a') ''a'' = None" "enc_mgr s' = EncoderCacheManager m'"
    "\<forall>r i hit m2. feature_hash r i = Inr ''image'' \<longrightarrow> check_and_update_cache r i m' = Inr (hit, m2) \<longrightarrow> hit"
    using preempted_encoder_input_never_runs[OF p f(1-4)] by blast
  obtain m2 where m2: "check_and_update_cache image_prompt 0 m' = Inr (hit, m2)" using c m'(2) by (auto simp: rbind_eq_Inr_iff)
  then have "hit" using m'(3) f(5) by blast
  then have "rbind (check_and_update_cache image_prompt 0 m') (\<lambda>(hit, _). Inr hit) = Inr True" by (simp add: m2)
  then show ?thesis using f(3,6) p m'(1,2) by blast
qed

end
