(* ===== verification/Kv_Cache_Planning.thy ===== *)
theory Kv_Cache_Planning
  imports Kv_Cache_Spec Complex_Main
begin

section \<open>Planning the KV cache\<close>

text \<open>
  The second half of \<open>vllm/v1/core/kv_cache_utils.py\<close>: how the layers of a model are put into KV cache groups, how many
  blocks the free memory gives, and the tensors each worker allocates. \<open>plan_config\<close> holds the fields of
  \<open>VllmConfig\<close> that are read; \<open>dsz\<close> are the sizes of the dtypes and \<open>reg\<close> is the registry of spec classes.
  Functions that change \<open>max_model_len\<close> or the specs in place return the changed value. Log messages are
  left out, and the concurrency, a float that is only logged, is the exact quotient. Every layer has a spec object of its own, so a
  page padded in place is that of one layer.
\<close>

record plan_config =
  pc_mem :: mem_config
  num_gpu_blocks_override :: "int option"
  disable_hybrid_kv_cache_manager :: bool
  pc_use_eagle :: bool
  original_max_model_len :: int
  pc_block_size :: int
  pc_hash_block_size :: "int option"
  pc_enable_prefix_caching :: bool
  pc_has_connector :: bool

type_synonym layer_specs = "(string, kv_cache_spec) dict"

text \<open>\<open>min(...)\<close>, floor division and \<open>xs[i::n]\<close>.\<close>

definition py_min :: "int list \<Rightarrow> int result" where
  "py_min xs = (if xs = [] then Inl ValueError else Inr (Min (set xs)))"

definition py_div :: "int \<Rightarrow> int \<Rightarrow> int result" where
  "py_div a b = (if b = 0 then Inl ZeroDivisionError else Inr (a div b))"

definition py_cdiv :: "int \<Rightarrow> int \<Rightarrow> int result" where
  "py_cdiv a b = (if b = 0 then Inl ZeroDivisionError else Inr (cdiv a b))"

definition py_stride :: "'a list \<Rightarrow> nat \<Rightarrow> nat \<Rightarrow> 'a list" where
  "py_stride xs i n = map ((!) xs) (filter (\<lambda>j. i \<le> j \<and> (j - i) mod n = 0) [0..<length xs])"

definition rsum :: "('a \<Rightarrow> int result) \<Rightarrow> 'a list \<Rightarrow> int result" where
  "rsum f xs = rbind (rmap f xs) (\<lambda>ys. Inr (sum_list ys))"

text \<open>An unconditional equation of the memory of a spec, for evaluation.\<close>

lemma max_memory_usage_bytes_code [code]:
  "max_memory_usage_bytes dsz cfg s =
     (case s of
        UniformTypeKVCacheSpecs n ss \<Rightarrow>
          rbind (uniform_max_pages (max_memory_usage_bytes dsz cfg) (page_size_bytes dsz) (map snd ss)) (\<lambda>pages.
          rbind (page_size_bytes dsz (UniformTypeKVCacheSpecs n ss)) (\<lambda>page. Inr (pages * page)))
      | _ \<Rightarrow> layer_max_memory dsz cfg s)"
  by (cases s) simp_all

subsection \<open>Block sizes\<close>

definition resolve_kv_cache_block_sizes :: "plan_config \<Rightarrow> kv_cache_config \<Rightarrow> (int \<times> int) result" where
  "resolve_kv_cache_block_sizes cfg kc =
     (let groups = kv_cache_groups kc; m = pc_mem cfg in
      if length groups \<le> 1
      then let bs = pc_block_size cfg * cfg_dcp_size m * cfg_pcp_size m in Inr (bs, bs)
      else if cfg_dcp_size m \<noteq> 1 \<or> cfg_pcp_size m \<noteq> 1 then Inl ValueError
      else
        let sizes = map (block_size \<circ> group_spec) groups; sbs = fold lcm sizes 1 in
        if \<not> (pc_enable_prefix_caching cfg \<or> pc_has_connector cfg) then Inr (sbs, sbs)
        else if list_ex (\<lambda>g. isinstance (group_spec g) C_MambaSpec \<and> block_size (group_spec g) \<noteq> pc_block_size cfg) groups
        then Inr (sbs, sbs)
        else
          let hbs = (case pc_hash_block_size cfg of Some n \<Rightarrow> n | None \<Rightarrow> fold gcd sizes 0)
          in if hbs = 0 then Inl ZeroDivisionError
             else if list_ex (\<lambda>bs. bs mod hbs \<noteq> 0) sizes then Inl ValueError
             else Inr (sbs, hbs))"

subsection \<open>How long a request fits\<close>

text \<open>
  The binary search of \<open>estimate_max_model_len\<close> and \<open>_estimate_max_model_len_from_groups\<close>; \<open>fits\<close> is the test on a
  model length.
\<close>

function search_len :: "(int \<Rightarrow> bool result) \<Rightarrow> int \<Rightarrow> int \<Rightarrow> int \<Rightarrow> int result" where
  "search_len fits left right res =
     (if left \<le> right
      then let mid = (left + right) div 2
           in rbind (fits mid) (\<lambda>ok. if ok then search_len fits (mid + 1) right mid else search_len fits left (mid - 1) res)
      else Inr res)"
  by pat_completeness auto
termination
  by (relation "measure (\<lambda>(_, left, right, _). nat (right - left + 1))") auto

declare search_len.simps [simp del]

definition longest_len :: "(int \<Rightarrow> bool result) \<Rightarrow> int \<Rightarrow> int result" where
  "longest_len fits limit = rbind (fits 1) (\<lambda>ok. if \<not> ok then Inr 0 else search_len fits 1 limit 1)"

definition with_max_len :: "int \<Rightarrow> mem_config \<Rightarrow> mem_config" where
  "with_max_len n m = m\<lparr>cfg_max_model_len := n\<rparr>"

definition total_max_memory :: "(string \<Rightarrow> int) \<Rightarrow> mem_config \<Rightarrow> kv_cache_spec list \<Rightarrow> int result" where
  "total_max_memory dsz m ss = rsum (max_memory_usage_bytes dsz m) ss"

definition estimate_max_model_len :: "(string \<Rightarrow> int) \<Rightarrow> mem_config \<Rightarrow> layer_specs \<Rightarrow> int \<Rightarrow> int result" where
  "estimate_max_model_len dsz m specs available =
     longest_len (\<lambda>n. rbind (total_max_memory dsz (with_max_len n m) (map snd specs)) (\<lambda>need. Inr (need \<le> available)))
       (cfg_max_model_len m)"

definition check_memory :: "int \<Rightarrow> int result \<Rightarrow> int result \<Rightarrow> unit result" where
  "check_memory available need estimate =
     (if available \<le> 0 then Inl ValueError
      else rbind need (\<lambda>n. if n > available then rbind estimate (\<lambda>_. Inl ValueError) else Inr ()))"

definition check_enough_kv_cache_memory :: "(string \<Rightarrow> int) \<Rightarrow> mem_config \<Rightarrow> layer_specs \<Rightarrow> int \<Rightarrow> unit result" where
  "check_enough_kv_cache_memory dsz m specs available =
     (if specs = [] then Inr ()
      else check_memory available (total_max_memory dsz m (map snd specs)) (estimate_max_model_len dsz m specs available))"

subsection \<open>Groups of one spec or one type\<close>

definition new_group :: "string list \<Rightarrow> kv_cache_spec \<Rightarrow> kv_cache_group_spec" where
  "new_group names s = \<lparr>layer_names = names, group_spec = s, is_eagle_group = False\<rparr>"

definition create_kv_cache_group_specs :: "layer_specs \<Rightarrow> string list list \<Rightarrow> kv_cache_group_spec list result" where
  "create_kv_cache_group_specs specs grouped =
     rmap (\<lambda>names. rbind (rmap (dict_index specs) names) (\<lambda>ss. rbind (spec_merge ss) (\<lambda>s. Inr (new_group names s)))) grouped"

definition is_kv_cache_spec_uniform :: "layer_specs \<Rightarrow> bool result" where
  "is_kv_cache_spec_uniform specs =
     (if specs = [] then Inr True
      else case spec_merge (map snd specs) of
             Inr _ \<Rightarrow> Inr True
           | Inl e \<Rightarrow> if e = AssertionError then Inr False else Inl e)"

definition get_kv_cache_groups_uniform_spec :: "layer_specs \<Rightarrow> kv_cache_group_spec list result" where
  "get_kv_cache_groups_uniform_spec specs = create_kv_cache_group_specs specs [map fst specs]"

text \<open>The layers of a \<open>UniformTypeKVCacheSpecs\<close>; other specs have no such field.\<close>

definition uniform_layers :: "kv_cache_spec \<Rightarrow> layer_specs result" where
  "uniform_layers s = (case s of UniformTypeKVCacheSpecs _ ss \<Rightarrow> Inr ss | _ \<Rightarrow> Inl AttributeError)"

definition get_kv_cache_groups_uniform_type :: "kv_cache_spec \<Rightarrow> kv_cache_group_spec list result" where
  "get_kv_cache_groups_uniform_type s = rbind (uniform_layers s) (\<lambda>ss. Inr [new_group (map fst ss) s])"

subsection \<open>Groups of one page size\<close>

definition get_uniform_page_size :: "(string \<Rightarrow> int) \<Rightarrow> kv_cache_spec list \<Rightarrow> int result" where
  "get_uniform_page_size dsz ss =
     rbind (rmap (page_size_bytes dsz) ss) (\<lambda>ps. rbind (rassert (card (set ps) = 1)) (\<lambda>_. Inr (hd ps)))"

definition is_kv_cache_page_size_uniform :: "(string \<Rightarrow> int) \<Rightarrow> layer_specs \<Rightarrow> bool result" where
  "is_kv_cache_page_size_uniform dsz specs =
     rbind (rmap (page_size_bytes dsz) (map snd specs)) (\<lambda>ps. Inr (card (set ps) = 1))"

text \<open>
  \<open>dataclasses.replace\<close> builds a new object, so \<open>__post_init__\<close> runs again: the MLA classes recompute their
  padding. \<open>edit\<close> changes the attention fields. The page of a Mamba layer does not depend on its block size.
\<close>

definition replace_attention ::
  "(string \<Rightarrow> int) \<Rightarrow> (attention_spec \<Rightarrow> attention_spec) \<Rightarrow> (mamba_spec \<Rightarrow> mamba_spec) \<Rightarrow> kv_cache_spec \<Rightarrow> kv_cache_spec result" where
  "replace_attention dsz edit edit_mamba s =
     (case s of
        FullAttentionSpec a f \<Rightarrow> Inr (FullAttentionSpec (edit a) f)
      | TQFullAttentionSpec a f slot \<Rightarrow> Inr (TQFullAttentionSpec (edit a) f slot)
      | MLAAttentionSpec a f m \<Rightarrow>
          Inr (MLAAttentionSpec (apply_alignment_padding (mla_alignment m) (mla_real_page_size dsz (edit a) m) (edit a)) f m)
      | HiddenStateCacheSpec a f m \<Rightarrow>
          Inr (HiddenStateCacheSpec (apply_alignment_padding (mla_alignment m) (mla_real_page_size dsz (edit a) m) (edit a)) f m)
      | SinkFullAttentionSpec a f k \<Rightarrow> Inr (SinkFullAttentionSpec (edit a) f k)
      | ChunkedLocalAttentionSpec a c \<Rightarrow> Inr (ChunkedLocalAttentionSpec (edit a) c)
      | SlidingWindowSpec a w hv \<Rightarrow> Inr (SlidingWindowSpec (edit a) w hv)
      | SlidingWindowMLASpec a w hv m \<Rightarrow> sliding_mla_post_init dsz (edit a) w hv m
      | MambaSpec ms \<Rightarrow> Inr (MambaSpec (edit_mamba ms))
      | EncoderOnlyAttentionSpec a \<Rightarrow> Inr (EncoderOnlyAttentionSpec (edit a))
      | CrossAttentionSpec a \<Rightarrow> Inr (CrossAttentionSpec (edit a))
      | UniformTypeKVCacheSpecs n ss \<Rightarrow> Inl TypeError)"

definition replace_block_size :: "(string \<Rightarrow> int) \<Rightarrow> int \<Rightarrow> kv_cache_spec \<Rightarrow> kv_cache_spec result" where
  "replace_block_size dsz n s =
     (case s of
        UniformTypeKVCacheSpecs _ ss \<Rightarrow> Inr (UniformTypeKVCacheSpecs n ss)
      | _ \<Rightarrow> replace_attention dsz (set_as_block_size n) (\<lambda>ms. ms\<lparr>ms_block_size := n\<rparr>) s)"

definition unify_layer :: "(string \<Rightarrow> int) \<Rightarrow> int \<Rightarrow> string \<times> kv_cache_spec \<Rightarrow> (string \<times> kv_cache_spec) result" where
  "unify_layer dsz max_page = (\<lambda>(name, s).
     rbind (page_size_bytes dsz s) (\<lambda>page.
       if page = max_page then Inr (name, s)
       else if page = 0 then Inl ZeroDivisionError
       else if max_page mod page \<noteq> 0 then Inl NotImplementedError
       else rbind (replace_block_size dsz (block_size s * (max_page div page)) s) (\<lambda>s'.
            rbind (page_size_bytes dsz s') (\<lambda>page'.
            rbind (rassert (page' = max_page)) (\<lambda>_. Inr (name, s'))))))"

definition unify_kv_cache_spec_page_size :: "(string \<Rightarrow> int) \<Rightarrow> layer_specs \<Rightarrow> layer_specs result" where
  "unify_kv_cache_spec_page_size dsz specs =
     rbind (rmap (page_size_bytes dsz) (map snd specs)) (\<lambda>ps.
       if card (set ps) \<le> 1 then Inr specs
       else rmap (unify_layer dsz (Max (set ps))) specs)"

text \<open>Layers with equal specs, in the order in which the specs appear.\<close>

definition add_layer :: "string \<times> kv_cache_spec \<Rightarrow> (kv_cache_spec, string list) dict \<Rightarrow> (kv_cache_spec, string list) dict" where
  "add_layer = (\<lambda>(name, s) d. dict_set s (dict_get_default d s [] @ [name]) d)"

definition same_type_layers :: "layer_specs \<Rightarrow> (kv_cache_spec, string list) dict" where
  "same_type_layers specs = fold add_layer specs []"

definition group_size_of :: "nat list \<Rightarrow> nat" where
  "group_size_of ns = (if 2 * Max (set ns) < 3 * Min (set ns) then Max (set ns) else Min (set ns))"

definition split_layers :: "nat \<Rightarrow> string list \<Rightarrow> string list list" where
  "split_layers gs layers =
     (let n = nat (cdiv (int (length layers)) (int gs)) in map (\<lambda>i. py_stride layers i n) [0..<n])"

definition get_kv_cache_groups_uniform_page_size :: "layer_specs \<Rightarrow> kv_cache_group_spec list result" where
  "get_kv_cache_groups_uniform_page_size specs =
     (let types = map snd (same_type_layers specs)
      in if types = [] then Inl ValueError
         else create_kv_cache_group_specs specs (concat (map (split_layers (group_size_of (map length types))) types)))"

subsection \<open>The tensors of a worker\<close>

definition is_uniform_spec :: "kv_cache_spec \<Rightarrow> bool" where
  "is_uniform_spec s = isinstance s C_UniformTypeKVCacheSpecs"

definition layer_page_size :: "(string \<Rightarrow> int) \<Rightarrow> kv_cache_spec \<Rightarrow> string \<Rightarrow> int result" where
  "layer_page_size dsz s name =
     (case s of
        UniformTypeKVCacheSpecs _ ss \<Rightarrow> rbind (dict_index ss name) (page_size_bytes dsz)
      | _ \<Rightarrow> page_size_bytes dsz s)"

text \<open>One layer goes to the next slot of its page size; the slots of a page size are counted per group.\<close>

definition bucket_layer ::
  "(string \<Rightarrow> int) \<Rightarrow> kv_cache_spec \<Rightarrow> string \<Rightarrow> (int, nat) dict \<times> (int, string list list) dict
   \<Rightarrow> ((int, nat) dict \<times> (int, string list list) dict) result" where
  "bucket_layer dsz s name = (\<lambda>(counts, buckets).
     rbind (layer_page_size dsz s name) (\<lambda>ps.
       let i = dict_get_default counts ps 0; slots = dict_get_default buckets ps [];
           slots' = (if i = length slots then slots @ [[]] else slots)
       in if i < length slots'
          then Inr (dict_set ps (i + 1) counts, dict_set ps (slots'[i := slots' ! i @ [name]]) buckets)
          else Inl IndexError))"

definition bucket_group ::
  "(string \<Rightarrow> int) \<Rightarrow> kv_cache_group_spec \<Rightarrow> (int, string list list) dict \<Rightarrow> (int, string list list) dict result" where
  "bucket_group dsz g buckets =
     rbind (rfold (bucket_layer dsz (group_spec g)) (layer_names g) ([], buckets)) (\<lambda>(_, b). Inr b)"

definition bucket_layers_by_page_size ::
  "(string \<Rightarrow> int) \<Rightarrow> kv_cache_group_spec list \<Rightarrow> (int, string list list) dict result" where
  "bucket_layers_by_page_size dsz groups = rfold (bucket_group dsz) groups []"

definition may_override_num_blocks :: "plan_config \<Rightarrow> int \<Rightarrow> int" where
  "may_override_num_blocks cfg n = (case num_gpu_blocks_override cfg of None \<Rightarrow> n | Some k \<Rightarrow> k)"

definition get_num_blocks :: "plan_config \<Rightarrow> int \<Rightarrow> int \<Rightarrow> int \<Rightarrow> int result" where
  "get_num_blocks cfg layers available page =
     rbind (py_div available page) (\<lambda>q. rbind (py_div q layers) (\<lambda>n. Inr (may_override_num_blocks cfg (max n 0))))"

definition max_layers :: "kv_cache_group_spec list \<Rightarrow> int result" where
  "max_layers groups = py_max (map (int \<circ> length \<circ> layer_names) groups)"

definition bucket_bytes :: "(int, string list list) dict \<Rightarrow> int" where
  "bucket_bytes buckets = (\<Sum>(ps, slots)\<leftarrow>buckets. ps * int (length slots))"

definition pool_bytes_per_block :: "(string \<Rightarrow> int) \<Rightarrow> kv_cache_group_spec list \<Rightarrow> int result" where
  "pool_bytes_per_block dsz groups =
     (if length groups = 1 \<and> is_uniform_spec (group_spec (hd groups)) then page_size_bytes dsz (group_spec (hd groups))
      else if list_all (\<lambda>g. is_uniform_spec (group_spec g)) groups
      then rbind (bucket_layers_by_page_size dsz groups) (\<lambda>b. Inr (bucket_bytes b))
      else rbind (max_layers groups) (\<lambda>n.
           rbind (get_uniform_page_size dsz (map group_spec groups)) (\<lambda>page. Inr (page * n))))"

definition new_tensor :: "int \<Rightarrow> string list \<Rightarrow> kv_cache_tensor" where
  "new_tensor sz names = \<lparr>kt_size = sz, kt_shared_by = names\<rparr>"

text \<open>The three layouts: one tensor per layer, one per slot and page size, one per position in the groups.\<close>

definition uniform_config :: "(string \<Rightarrow> int) \<Rightarrow> plan_config \<Rightarrow> kv_cache_group_spec \<Rightarrow> int \<Rightarrow> (int \<times> kv_cache_tensor list) result" where
  "uniform_config dsz cfg g available =
     rbind (page_size_bytes dsz (group_spec g)) (\<lambda>page.
     rbind (py_div available page) (\<lambda>q.
     rbind (uniform_layers (group_spec g)) (\<lambda>ss.
       let n = may_override_num_blocks cfg q
       in rbind (rmap (\<lambda>name. rbind (rbind (dict_index ss name) (page_size_bytes dsz)) (\<lambda>ps. Inr (new_tensor (ps * n) [name])))
                   (layer_names g)) (\<lambda>ts. Inr (n, ts)))))"

definition get_kv_cache_config_deepseek_v4 ::
  "(string \<Rightarrow> int) \<Rightarrow> plan_config \<Rightarrow> kv_cache_group_spec list \<Rightarrow> int \<Rightarrow> (int \<times> kv_cache_tensor list) result" where
  "get_kv_cache_config_deepseek_v4 dsz cfg groups available =
     rbind (bucket_layers_by_page_size dsz groups) (\<lambda>buckets.
     rbind (py_div available (bucket_bytes buckets)) (\<lambda>q.
       let n = may_override_num_blocks cfg q
       in Inr (n, concat (map (\<lambda>(ps, slots). map (new_tensor (ps * n)) slots) buckets))))"

definition at_position :: "nat \<Rightarrow> kv_cache_group_spec list \<Rightarrow> string list" where
  "at_position i groups = List.map_filter (\<lambda>g. if i < length (layer_names g) then Some (layer_names g ! i) else None) groups"

definition general_config ::
  "(string \<Rightarrow> int) \<Rightarrow> plan_config \<Rightarrow> kv_cache_group_spec list \<Rightarrow> int \<Rightarrow> (int \<times> kv_cache_tensor list) result" where
  "general_config dsz cfg groups available =
     rbind (max_layers groups) (\<lambda>gs.
     rbind (get_uniform_page_size dsz (map group_spec groups)) (\<lambda>page.
     rbind (rassert (gs > 0)) (\<lambda>_.
     rbind (get_num_blocks cfg gs available page) (\<lambda>n.
       Inr (n, map (\<lambda>i. new_tensor (page * n) (at_position i groups)) [0..<nat gs])))))"

definition get_kv_cache_config_from_groups ::
  "(string \<Rightarrow> int) \<Rightarrow> plan_config \<Rightarrow> kv_cache_group_spec list \<Rightarrow> int \<Rightarrow> kv_cache_config result" where
  "get_kv_cache_config_from_groups dsz cfg groups available =
     (if groups = [] then Inr \<lparr>num_blocks = 1, kv_cache_tensors = [], kv_cache_groups = groups\<rparr>
      else rbind (if length groups = 1 \<and> is_uniform_spec (group_spec (hd groups)) then uniform_config dsz cfg (hd groups) available
                  else if list_all (\<lambda>g. is_uniform_spec (group_spec g)) groups then get_kv_cache_config_deepseek_v4 dsz cfg groups available
                  else general_config dsz cfg groups available) (\<lambda>(n, ts).
             Inr \<lparr>num_blocks = n, kv_cache_tensors = ts, kv_cache_groups = groups\<rparr>))"

subsection \<open>One type for a hybrid model\<close>

text \<open>
  \<open>unify_hybrid_kv_cache_specs\<close>, for a disabled hybrid manager: window and chunk layers become full-attention
  layers. The constructors are called with the arguments the code passes; what it leaves out has its default.
\<close>

definition as_full_spec :: "(string \<Rightarrow> int) \<Rightarrow> int option \<Rightarrow> kv_cache_spec \<Rightarrow> kv_cache_spec" where
  "as_full_spec dsz ubs s =
     (case s of
        SlidingWindowMLASpec a w hv m \<Rightarrow>
          mla_post_init dsz (a\<lparr>as_block_size := (case ubs of None \<Rightarrow> as_block_size a | Some n \<Rightarrow> n), quant_mode := Q_NONE\<rparr>) None None None m
      | SlidingWindowSpec a w hv \<Rightarrow> FullAttentionSpec a (full_post_init a (Some hv) (Some w) None)
      | ChunkedLocalAttentionSpec a c \<Rightarrow>
          FullAttentionSpec (a\<lparr>quant_mode := Q_NONE\<rparr>) (full_post_init a None None (Some c))
      | _ \<Rightarrow> s)"

definition has_spec :: "spec_class \<Rightarrow> layer_specs \<Rightarrow> bool" where
  "has_spec c specs = list_ex (\<lambda>(_, s). isinstance s c) specs"

definition one_type :: "spec_registry \<Rightarrow> layer_specs \<Rightarrow> bool result" where
  "one_type reg specs =
     rbind (is_kv_cache_spec_uniform specs) (\<lambda>u. if u then Inr True else is_uniform_type reg specs)"

definition unify_hybrid_kv_cache_specs :: "(string \<Rightarrow> int) \<Rightarrow> spec_registry \<Rightarrow> layer_specs \<Rightarrow> layer_specs result" where
  "unify_hybrid_kv_cache_specs dsz reg specs =
     rbind (one_type reg specs) (\<lambda>u.
       if u then Inr specs
       else
         rbind (if has_spec C_SlidingWindowMLASpec specs
                then rbind (rassert (has_spec C_FullAttentionSpec specs)) (\<lambda>_.
                       Inr (map_option (block_size \<circ> snd) (List.find (\<lambda>(_, s). isinstance s C_FullAttentionSpec) specs)))
                else Inr None) (\<lambda>ubs.
         let specs' = (if has_spec C_FullAttentionSpec specs
                          \<and> (has_spec C_SlidingWindowSpec specs \<or> has_spec C_ChunkedLocalAttentionSpec specs)
                       then map (map_prod id (as_full_spec dsz ubs)) specs else specs)
         in rbind (one_type reg specs') (\<lambda>u'. if u' then Inr specs' else Inl ValueError)))"

subsection \<open>Several uniform types\<close>

text \<open>\<open>group_and_unify_kv_cache_specs\<close>: the MLA layers, then the sliding-window MLA layers by block size and window.\<close>

definition add_swa_layer ::
  "string \<times> kv_cache_spec \<Rightarrow> (int \<times> int option, layer_specs) dict \<Rightarrow> (int \<times> int option, layer_specs) dict" where
  "add_swa_layer = (\<lambda>(name, s) d.
     if isinstance s C_SlidingWindowMLASpec
     then let k = (block_size s, sliding_window_of s) in dict_set k (dict_set name s (dict_get_default d k [])) d
     else d)"

definition uniform_or_fail :: "spec_registry \<Rightarrow> layer_specs \<Rightarrow> kv_cache_spec result" where
  "uniform_or_fail reg specs =
     rbind (uniform_from_specs reg specs) (\<lambda>u. case u of None \<Rightarrow> Inl AssertionError | Some s \<Rightarrow> Inr s)"

definition group_and_unify_kv_cache_specs :: "spec_registry \<Rightarrow> layer_specs \<Rightarrow> kv_cache_spec list option result" where
  "group_and_unify_kv_cache_specs reg specs =
     (if \<not> has_spec C_SlidingWindowMLASpec specs then Inr None
      else
        let mla = filter (\<lambda>(_, s). \<not> isinstance s C_SlidingWindowMLASpec \<and> isinstance s C_MLAAttentionSpec) specs;
            swa = fold add_swa_layer specs []
        in rbind (rassert (mla \<noteq> [])) (\<lambda>_.
           rbind (uniform_or_fail reg mla) (\<lambda>m.
           rbind (rmap (uniform_or_fail reg) (map snd swa)) (\<lambda>ws. Inr (Some (m # ws))))))"

definition padding_of :: "int list \<Rightarrow> int \<Rightarrow> int" where
  "padding_of values d = (\<Sum>x\<leftarrow>values. (d - x mod d) mod d)"

definition gcd_step :: "int list \<Rightarrow> int \<Rightarrow> int \<times> int option \<Rightarrow> int \<times> int option" where
  "gcd_step values d = (\<lambda>(best, pad).
     let p = padding_of values d
     in if (case pad of None \<Rightarrow> True | Some q \<Rightarrow> p < q \<or> (p = q \<and> d > best)) then (d, Some p) else (best, pad))"

definition approximate_gcd :: "int list \<Rightarrow> int option \<Rightarrow> int result" where
  "approximate_gcd values lower =
     (if values = [] then Inl ValueError
      else if list_ex (\<lambda>x. x \<le> 0) values then Inl ValueError
      else
        let lo = max 1 (case lower of None \<Rightarrow> 1 | Some n \<Rightarrow> n); hi = Max (set values)
        in if lo > hi then Inr lo else Inr (fst (fold (gcd_step values) (py_range lo (hi + 1)) (lo, None))))"

text \<open>
  \<open>_get_kv_cache_groups_uniform_groups\<close>. A sliding-window layer is padded, in place, to the next larger page of the
  MLA layers; the layers of a type are then split by tuples of one layer per page size.
\<close>

definition set_page_padded :: "int \<Rightarrow> kv_cache_spec \<Rightarrow> kv_cache_spec" where
  "set_page_padded n s =
     (case s of SlidingWindowMLASpec a w hv m \<Rightarrow> SlidingWindowMLASpec (a\<lparr>page_size_padded := Some n\<rparr>) w hv m | _ \<Rightarrow> s)"

definition pad_layer ::
  "(string \<Rightarrow> int) \<Rightarrow> int set \<Rightarrow> string \<times> kv_cache_spec \<Rightarrow> layer_specs \<times> (int, string list) dict
   \<Rightarrow> (layer_specs \<times> (int, string list) dict) result" where
  "pad_layer dsz all_sizes = (\<lambda>(name, s) (specs, by_size).
     rbind (page_size_bytes dsz s) (\<lambda>cur.
       let cand = Min {x \<in> all_sizes. x \<ge> cur};
           s' = (if cur < cand then set_page_padded cand s else s)
       in Inr (specs @ [(name, s')], dict_set cand (dict_get_default by_size cand [] @ [name]) by_size)))"

definition split_swa_group ::
  "(string \<Rightarrow> int) \<Rightarrow> spec_registry \<Rightarrow> int set \<Rightarrow> int \<Rightarrow> kv_cache_spec \<Rightarrow> kv_cache_group_spec list result" where
  "split_swa_group dsz reg all_sizes tuples s =
     rbind (uniform_layers s) (\<lambda>ss.
     rbind (get_page_sizes dsz ss) (\<lambda>sizes.
     rbind (if sizes = {} \<or> all_sizes = {} then Inl ValueError else rassert (Max sizes \<le> Max all_sizes)) (\<lambda>_.
     rbind (rfold (pad_layer dsz all_sizes) ss ([], [])) (\<lambda>(padded, by_size).
     rbind (rassert (card (set (map (length \<circ> snd) by_size)) = 1)) (\<lambda>_.
       let n = length (snd (hd by_size)) in
       rbind (py_cdiv (int n) tuples) (\<lambda>k.
         let rows = map (\<lambda>j. map (\<lambda>(_, names). names ! j) by_size) [0..<n]
         in rmap (\<lambda>i. let names = concat (py_stride rows i (nat k))
                      in rbind (rmap (\<lambda>x. rbind (dict_index padded x) (\<lambda>p. Inr (x, p))) names) (\<lambda>sub.
                         rbind (uniform_or_fail reg sub) (\<lambda>u. Inr (new_group names u))))
              [0..<nat k]))))))"

definition get_kv_cache_groups_uniform_groups ::
  "(string \<Rightarrow> int) \<Rightarrow> spec_registry \<Rightarrow> kv_cache_spec list \<Rightarrow> kv_cache_group_spec list result" where
  "get_kv_cache_groups_uniform_groups dsz reg grouped =
     rbind (rassert (grouped \<noteq> [] \<and> list_all is_uniform_spec grouped)) (\<lambda>_.
     rbind (rmap uniform_layers grouped) (\<lambda>layers.
     let mla = hd layers in
     rbind (rassert (list_all (\<lambda>(_, s). isinstance s C_MLAAttentionSpec) mla)) (\<lambda>_.
     rbind (rmap (get_num_layer_tuples dsz) layers) (\<lambda>counts.
     rbind (approximate_gcd counts (Some (hd counts))) (\<lambda>tuples.
     rbind (rassert (list_all (\<lambda>ss. list_all (\<lambda>(_, s). isinstance s C_SlidingWindowMLASpec) ss) (tl layers))) (\<lambda>_.
     rbind (get_page_sizes dsz mla) (\<lambda>sizes.
     rbind (rmap (split_swa_group dsz reg sizes tuples) (tl grouped)) (\<lambda>gss.
       Inr (new_group (map fst mla) (hd grouped) # concat gss)))))))))"

definition spec_model_version :: "kv_cache_spec \<Rightarrow> string option" where
  "spec_model_version s =
     (case s of
        MLAAttentionSpec _ _ m \<Rightarrow> model_version m
      | HiddenStateCacheSpec _ _ m \<Rightarrow> model_version m
      | SlidingWindowMLASpec _ _ _ m \<Rightarrow> model_version m
      | _ \<Rightarrow> None)"

text \<open>The first group that holds the last layer.\<close>

fun mark_eagle :: "string \<Rightarrow> kv_cache_group_spec list \<Rightarrow> kv_cache_group_spec list" where
  "mark_eagle name [] = []"
| "mark_eagle name (g # gs) =
     (if name \<in> set (layer_names g) then g\<lparr>is_eagle_group := True\<rparr> # gs else g # mark_eagle name gs)"

definition annotate_eagle_groups_deepseek_v4 ::
  "plan_config \<Rightarrow> layer_specs \<Rightarrow> kv_cache_group_spec list \<Rightarrow> kv_cache_group_spec list" where
  "annotate_eagle_groups_deepseek_v4 cfg specs groups =
     (if \<not> pc_use_eagle cfg then groups
      else if \<not> list_ex (\<lambda>(_, s). spec_model_version s = Some ''deepseek_v4'') specs then groups
      else mark_eagle (fst (last specs)) groups)"

subsection \<open>The groups of a model\<close>

definition hidden_group ::
  "(string \<Rightarrow> int) \<Rightarrow> int \<Rightarrow> string \<times> kv_cache_spec \<Rightarrow> kv_cache_group_spec result" where
  "hidden_group dsz common = (\<lambda>(name, s).
     case s of
       HiddenStateCacheSpec a f m \<Rightarrow>
         rbind (py_div common (num_kv_heads a * head_size a * dsz (as_dtype a))) (\<lambda>q.
         rbind (replace_attention dsz (\<lambda>a. a\<lparr>as_block_size := max q 1, page_size_padded := Some common\<rparr>) id s) (\<lambda>s'.
           Inr (new_group [name] s')))
     | _ \<Rightarrow> Inl AttributeError)"

definition is_hidden :: "kv_cache_spec \<Rightarrow> bool" where
  "is_hidden s = isinstance s C_HiddenStateCacheSpec"

definition general_groups :: "(string \<Rightarrow> int) \<Rightarrow> layer_specs \<Rightarrow> kv_cache_group_spec list result" where
  "general_groups dsz specs =
     (let hidden = filter (\<lambda>(_, s). is_hidden s) specs in
      rbind (unify_kv_cache_spec_page_size dsz (filter (\<lambda>(_, s). \<not> is_hidden s) specs)) (\<lambda>rest.
      rbind (get_kv_cache_groups_uniform_page_size rest) (\<lambda>groups.
        if hidden = [] then Inr groups
        else rbind (get_uniform_page_size dsz (map group_spec groups)) (\<lambda>common.
             rbind (rmap (hidden_group dsz common) hidden) (\<lambda>hs. Inr (groups @ hs))))))"

definition get_kv_cache_groups ::
  "(string \<Rightarrow> int) \<Rightarrow> spec_registry \<Rightarrow> plan_config \<Rightarrow> layer_specs \<Rightarrow> kv_cache_group_spec list result" where
  "get_kv_cache_groups dsz reg cfg specs0 =
     rbind (if disable_hybrid_kv_cache_manager cfg then unify_hybrid_kv_cache_specs dsz reg specs0 else Inr specs0) (\<lambda>specs.
       if specs = [] then Inr []
       else
         rbind (is_kv_cache_spec_uniform specs) (\<lambda>uniform.
           if uniform then get_kv_cache_groups_uniform_spec specs
           else
             rbind (uniform_from_specs reg specs) (\<lambda>u.
               case u of
                 Some s \<Rightarrow> get_kv_cache_groups_uniform_type s
               | None \<Rightarrow>
                   rbind (group_and_unify_kv_cache_specs reg specs) (\<lambda>gs.
                     case gs of
                       Some grouped \<Rightarrow>
                         rbind (get_kv_cache_groups_uniform_groups dsz reg grouped) (\<lambda>groups.
                           Inr (annotate_eagle_groups_deepseek_v4 cfg specs groups))
                     | None \<Rightarrow> general_groups dsz specs))))"

subsection \<open>Memory of the groups\<close>

definition tuple_memory ::
  "(string \<Rightarrow> int) \<Rightarrow> mem_config \<Rightarrow> kv_cache_group_spec list \<Rightarrow> int result" where
  "tuple_memory dsz m groups =
     rbind (rmap (uniform_layers \<circ> group_spec) groups) (\<lambda>layers.
     rbind (get_page_sizes dsz (hd layers)) (\<lambda>sizes.
     rbind (rbind (rmap (get_num_layer_tuples dsz) layers) py_max) (\<lambda>tuples.
       rsum (\<lambda>ss. rbind (max_memory_usage_pages dsz m ss) (\<lambda>pages. Inr (tuples * pages * \<Sum>sizes))) layers)))"

definition max_memory_usage_bytes_from_groups ::
  "(string \<Rightarrow> int) \<Rightarrow> mem_config \<Rightarrow> kv_cache_group_spec list \<Rightarrow> int result" where
  "max_memory_usage_bytes_from_groups dsz m groups =
     (if groups = [] then Inr 0
      else if length groups = 1 \<and> is_uniform_spec (group_spec (hd groups))
      then rbind (uniform_layers (group_spec (hd groups))) (\<lambda>ss. total_max_memory dsz m (map snd ss))
      else if list_all (\<lambda>g. is_uniform_spec (group_spec g)) groups then tuple_memory dsz m groups
      else
        rbind (max_layers groups) (\<lambda>gs.
        rbind (get_uniform_page_size dsz (map group_spec groups)) (\<lambda>page.
        rbind (rsum (\<lambda>g. rbind (max_memory_usage_bytes dsz m (group_spec g)) (\<lambda>b. py_cdiv b page)) groups) (\<lambda>blocks.
          Inr (gs * page * blocks)))))"

definition estimate_max_model_len_from_groups ::
  "(string \<Rightarrow> int) \<Rightarrow> mem_config \<Rightarrow> kv_cache_group_spec list \<Rightarrow> int \<Rightarrow> int result" where
  "estimate_max_model_len_from_groups dsz m groups available =
     longest_len (\<lambda>n. rbind (max_memory_usage_bytes_from_groups dsz (with_max_len n m) groups) (\<lambda>need. Inr (need \<le> available)))
       (cfg_max_model_len m)"

definition fit_worker ::
  "(string \<Rightarrow> int) \<Rightarrow> mem_config \<Rightarrow> kv_cache_group_spec list \<times> int \<Rightarrow> int \<Rightarrow> int result" where
  "fit_worker dsz m = (\<lambda>(groups, available) best.
     if groups = [] then Inr best
     else rbind (estimate_max_model_len_from_groups dsz m groups available) (\<lambda>n. Inr (if n < best then n else best)))"

definition auto_fit_max_model_len ::
  "(string \<Rightarrow> int) \<Rightarrow> mem_config \<Rightarrow> kv_cache_group_spec list list \<Rightarrow> int list \<Rightarrow> mem_config result" where
  "auto_fit_max_model_len dsz m projected available =
     (if list_all (\<lambda>gs. gs = []) projected then Inr m
      else
        rbind (py_index available 0) (\<lambda>_.
        rbind (rfold (fit_worker dsz m) (zip projected available) (cfg_max_model_len m)) (\<lambda>best.
          if best \<le> 0 then Inl ValueError
          else if best \<ge> cfg_max_model_len m then Inr m
          else Inr (with_max_len best m))))"

subsection \<open>The configurations of all workers\<close>

definition project_group :: "layer_specs \<Rightarrow> kv_cache_group_spec \<Rightarrow> kv_cache_group_spec result" where
  "project_group worker g =
     (let names = filter (\<lambda>x. x \<in> fst ` set worker) (layer_names g) in
      rbind (if names \<noteq> [] \<and> is_uniform_spec (group_spec g)
             then rbind (uniform_layers (group_spec g)) (\<lambda>ss.
                  rbind (rmap (\<lambda>x. rbind (dict_index ss x) (\<lambda>s. Inr (x, s))) names) (\<lambda>sub.
                    Inr (UniformTypeKVCacheSpecs (block_size (group_spec g)) sub)))
             else Inr (group_spec g)) (\<lambda>s.
        Inr \<lparr>layer_names = names, group_spec = s, is_eagle_group = (is_eagle_group g \<and> names \<noteq> [])\<rparr>))"

definition project_kv_cache_groups_to_worker ::
  "kv_cache_group_spec list \<Rightarrow> layer_specs \<Rightarrow> kv_cache_group_spec list result" where
  "project_kv_cache_groups_to_worker groups worker = rmap (project_group worker) groups"

definition get_max_concurrency_for_kv_cache_config :: "(string \<Rightarrow> int) \<Rightarrow> mem_config \<Rightarrow> kv_cache_config \<Rightarrow> rat result" where
  "get_max_concurrency_for_kv_cache_config dsz m c =
     rbind (max_layers (kv_cache_groups c)) (\<lambda>layers.
     rbind (total_max_memory dsz m (map group_spec (kv_cache_groups c))) (\<lambda>mem.
     rbind (page_size_bytes dsz (group_spec (hd (kv_cache_groups c)))) (\<lambda>page.
     rbind (py_cdiv (layers * mem) (page * layers)) (\<lambda>per_request.
       if per_request = 0 then Inl ZeroDivisionError else Inr (of_int (num_blocks c) / of_int per_request)))))"

definition get_kv_cache_capacity :: "(string \<Rightarrow> int) \<Rightarrow> mem_config \<Rightarrow> kv_cache_config \<Rightarrow> (int \<times> rat) result" where
  "get_kv_cache_capacity dsz m c =
     rbind (get_max_concurrency_for_kv_cache_config dsz m c) (\<lambda>x. Inr (\<lfloor>x * of_int (cfg_max_model_len m)\<rfloor>, x))"

definition merge_layer :: "string \<times> kv_cache_spec \<Rightarrow> layer_specs \<Rightarrow> layer_specs result" where
  "merge_layer = (\<lambda>(name, s) merged.
     case dict_get merged name of
       None \<Rightarrow> Inr (dict_set name s merged)
     | Some s0 \<Rightarrow> rbind (rassert (s0 = s)) (\<lambda>_. Inr merged))"

definition override_memory ::
  "(string \<Rightarrow> int) \<Rightarrow> plan_config \<Rightarrow> kv_cache_group_spec list list \<Rightarrow> int list \<Rightarrow> int list result" where
  "override_memory dsz cfg projected available =
     (case num_gpu_blocks_override cfg of
        None \<Rightarrow> Inr available
      | Some k \<Rightarrow>
          rmap (\<lambda>(groups, avail).
                  if groups = [] then Inr avail
                  else rbind (pool_bytes_per_block dsz groups) (\<lambda>b. rbind (py_div avail b) (\<lambda>_. Inr (k * b))))
            (zip projected available))"

definition check_worker :: "(string \<Rightarrow> int) \<Rightarrow> mem_config \<Rightarrow> kv_cache_group_spec list \<times> int \<Rightarrow> unit \<Rightarrow> unit result" where
  "check_worker dsz m = (\<lambda>(groups, avail) _.
     if groups = [] then Inr ()
     else check_memory avail (max_memory_usage_bytes_from_groups dsz m groups) (estimate_max_model_len_from_groups dsz m groups avail))"

definition worker_config ::
  "(string \<Rightarrow> int) \<Rightarrow> plan_config \<Rightarrow> kv_cache_group_spec list \<times> layer_specs \<times> int \<Rightarrow> kv_cache_config result" where
  "worker_config dsz cfg = (\<lambda>(groups, specs, avail).
     rbind (rassert ((\<Sum>g\<leftarrow>groups. length (layer_names g)) = length specs)) (\<lambda>_. get_kv_cache_config_from_groups dsz cfg groups avail))"

definition shrink_tensor :: "int \<Rightarrow> int \<Rightarrow> kv_cache_tensor \<Rightarrow> kv_cache_tensor result" where
  "shrink_tensor old n t =
     (if old = 0 then Inl ZeroDivisionError
      else rbind (rassert (kt_size t mod old = 0)) (\<lambda>_. Inr (t\<lparr>kt_size := kt_size t div old * n\<rparr>)))"

definition shrink_config :: "(string \<Rightarrow> int) \<Rightarrow> mem_config \<Rightarrow> int \<Rightarrow> kv_cache_config \<Rightarrow> kv_cache_config result" where
  "shrink_config dsz m n c =
     rbind (rmap (shrink_tensor (num_blocks c) n) (kv_cache_tensors c)) (\<lambda>ts.
       let c' = c\<lparr>num_blocks := n, kv_cache_tensors := ts\<rparr>
       in if kv_cache_groups c = [] then Inr c' else rbind (get_kv_cache_capacity dsz m c') (\<lambda>_. Inr c'))"

definition get_kv_cache_configs ::
  "(string \<Rightarrow> int) \<Rightarrow> spec_registry \<Rightarrow> plan_config \<Rightarrow> layer_specs list \<Rightarrow> int list \<Rightarrow> (plan_config \<times> kv_cache_config list) result" where
  "get_kv_cache_configs dsz reg cfg workers available0 =
     rbind (rfold (\<lambda>w merged. rfold merge_layer w merged) workers []) (\<lambda>merged.
     rbind (check_kv_cache_spec_registry reg merged) (\<lambda>_.
     rbind (get_kv_cache_groups dsz reg cfg merged) (\<lambda>global.
     rbind (rmap (project_kv_cache_groups_to_worker global) workers) (\<lambda>projected.
     rbind (override_memory dsz cfg projected available0) (\<lambda>available.
     rbind (if original_max_model_len cfg = - 1 then auto_fit_max_model_len dsz (pc_mem cfg) projected available
            else Inr (pc_mem cfg)) (\<lambda>m.
     let cfg' = cfg\<lparr>pc_mem := m\<rparr> in
     rbind (rfold (check_worker dsz m) (zip projected available) ()) (\<lambda>_.
     rbind (rmap (worker_config dsz cfg') (zip projected (zip workers available))) (\<lambda>configs.
     rbind (py_min (map num_blocks configs)) (\<lambda>n.
     rbind (rmap (shrink_config dsz m n) configs) (\<lambda>cs. Inr (cfg', cs)))))))))))"

definition scheduler_group :: "kv_cache_group_spec \<Rightarrow> kv_cache_group_spec result" where
  "scheduler_group g =
     (case group_spec g of
        UniformTypeKVCacheSpecs _ ss \<Rightarrow> (case ss of [] \<Rightarrow> Inl StopIteration | (_, s) # _ \<Rightarrow> Inr (g\<lparr>group_spec := s\<rparr>))
      | _ \<Rightarrow> Inr g)"

definition generate_scheduler_kv_cache_config :: "kv_cache_config list \<Rightarrow> kv_cache_config result" where
  "generate_scheduler_kv_cache_config configs =
     (case configs of
        [] \<Rightarrow> Inl IndexError
      | c # _ \<Rightarrow>
          rbind (rassert (list_all (\<lambda>x. num_blocks x = num_blocks c) configs)) (\<lambda>_.
          rbind (rmap scheduler_group (kv_cache_groups c)) (\<lambda>gs. Inr (c\<lparr>kv_cache_groups := gs\<rparr>))))"

end
