(* ===== verification/Planning_Properties.thy ===== *)
theory Planning_Properties
  imports Kv_Cache_Planning Slot_Allocation
begin

section \<open>Properties of the KV cache plan\<close>

text \<open>
  Every layer is in one group, the tensors of every worker fit its memory and all workers have the same number of blocks,
  the search for the model length finds the longest one that fits, and a model with two window sizes cannot be
  planned without the hybrid manager.
\<close>

subsection \<open>Splitting a list into strides\<close>

lemma classes_partition:
  assumes "\<forall>j \<in> set js. c j < n"
  shows "mset (concat (map (\<lambda>i. filter (\<lambda>j. c j = i) js) [0..<n])) = mset js"
  using assms
proof (induction js)
  case (Cons j js)
  have "(\<Sum>i\<leftarrow>[0..<n]. if c j = i then {#j#} else {#}) = {#j#}"
    using Cons.prems by (simp add: sum_list_distinct_conv_sum_set)
  moreover have "mset (concat (map (\<lambda>i. filter (\<lambda>x. c x = i) (j # js)) [0..<n]))
      = (\<Sum>i\<leftarrow>[0..<n]. (if c j = i then {#j#} else {#}) + mset (filter (\<lambda>x. c x = i) js))"
    unfolding mset_concat by (intro arg_cong[where f = sum_list]) auto
  moreover have "\<dots> = (\<Sum>i\<leftarrow>[0..<n]. if c j = i then {#j#} else {#}) + mset (concat (map (\<lambda>i. filter (\<lambda>x. c x = i) js) [0..<n]))"
    unfolding mset_concat by (simp add: sum_list_addf comp_def)
  ultimately show ?case using Cons by simp
qed simp

lemma stride_filter: "i < n \<Longrightarrow> py_stride xs i n = map ((!) xs) (filter (\<lambda>j. j mod n = i) [0..<length xs])"
proof -
  assume i: "i < n"
  have "(i \<le> j \<and> (j - i) mod n = 0) = (j mod n = i)" for j
  proof
    assume "i \<le> j \<and> (j - i) mod n = 0"
    then have "j mod n = ((j - i) + i) mod n" "(j - i) mod n = 0" by simp_all
    then show "j mod n = i" using i by (metis add_0 mod_add_left_eq mod_less)
  next
    assume j: "j mod n = i"
    then have "i \<le> j" by auto
    moreover have "j - i = n * (j div n)" using j by (metis minus_mod_eq_mult_div)
    ultimately show "i \<le> j \<and> (j - i) mod n = 0" by simp
  qed
  then show ?thesis by (simp add: py_stride_def)
qed

lemma stride_partition: "0 < n \<Longrightarrow> mset (concat (map (\<lambda>i. py_stride xs i n) [0..<n])) = mset xs"
proof -
  assume n: "0 < n"
  have "concat (map (\<lambda>i. py_stride xs i n) [0..<n]) = map ((!) xs) (concat (map (\<lambda>i. filter (\<lambda>j. j mod n = i) [0..<length xs]) [0..<n]))"
    unfolding map_concat by (intro arg_cong[where f = concat]) (auto simp: stride_filter)
  moreover have "mset (concat (map (\<lambda>i. filter (\<lambda>j. j mod n = i) [0..<length xs]) [0..<n])) = mset [0..<length xs]"
    by (rule classes_partition) (use n in simp)
  ultimately show ?thesis by (metis map_nth mset_map)
qed

lemma stride_nonempty: "i < n \<Longrightarrow> n \<le> length xs \<Longrightarrow> py_stride xs i n \<noteq> []"
proof -
  assume "i < n" "n \<le> length xs"
  then have "i \<in> set (filter (\<lambda>j. j mod n = i) [0..<length xs])" by simp
  then have "filter (\<lambda>j. j mod n = i) [0..<length xs] \<noteq> []" by (metis empty_iff list.set(1))
  then show "py_stride xs i n \<noteq> []" by (simp add: stride_filter[OF \<open>i < n\<close>])
qed

lemma split_layers_partition:
  assumes "0 < gs" "layers \<noteq> []"
  shows "mset (concat (split_layers gs layers)) = mset layers" "[] \<notin> set (split_layers gs layers)"
proof -
  let ?n = "nat (cdiv (int (length layers)) (int gs))"
  have c: "0 < cdiv (int (length layers)) (int gs)" using cdiv_le_iff[of "int gs" "int (length layers)" 0] assms by fastforce
  have "int (length layers) \<le> int (length layers) * int gs" using assms by (simp add: mult_le_cancel_left1)
  then have "cdiv (int (length layers)) (int gs) \<le> int (length layers)" using cdiv_le_iff[of "int gs"] assms(1) by simp
  then have n: "?n \<le> length layers" "0 < ?n" using c by linarith+
  show "mset (concat (split_layers gs layers)) = mset layers" using stride_partition[OF n(2)] by (simp add: split_layers_def Let_def)
  show "[] \<notin> set (split_layers gs layers)" using stride_nonempty[OF _ n(1)] by (fastforce simp: split_layers_def Let_def)
qed

subsection \<open>Every layer is in one group\<close>

lemma add_layer_mset:
  "mset (concat (map snd (add_layer (x, s) d))) = add_mset x (mset (concat (map snd d)))"
proof -
  have "mset (concat (map snd (dict_set s (dict_get_default d s [] @ [x]) d))) = add_mset x (mset (concat (map snd d)))"
    by (induction d) (auto simp: dict_get_default_def)
  then show ?thesis by (simp add: add_layer_def)
qed

lemma add_layer_nonempty: "(\<forall>p \<in> set d. snd p \<noteq> []) \<Longrightarrow> \<forall>p \<in> set (add_layer x d). snd p \<noteq> []"
proof -
  have "p \<in> set (dict_set k v d) \<Longrightarrow> p \<in> set d \<or> p = (k, v)" for p and k :: kv_cache_spec and v :: "string list"
    by (induction d) (auto split: if_splits)
  then show "(\<forall>p \<in> set d. snd p \<noteq> []) \<Longrightarrow> \<forall>p \<in> set (add_layer x d). snd p \<noteq> []"
    by (fastforce simp: add_layer_def split: prod.splits)
qed

lemma same_type_partition:
  "mset (concat (map snd (same_type_layers specs))) = mset (map fst specs)" "\<forall>p \<in> set (same_type_layers specs). snd p \<noteq> []"
proof -
  have "mset (concat (map snd (fold add_layer specs d))) = mset (map fst specs) + mset (concat (map snd d))" for d
    by (induction specs arbitrary: d) (auto simp: add_layer_mset split: prod.splits)
  then show "mset (concat (map snd (same_type_layers specs))) = mset (map fst specs)" by (simp add: same_type_layers_def)
  have "(\<forall>p \<in> set d. snd p \<noteq> []) \<Longrightarrow> \<forall>p \<in> set (fold add_layer specs d). snd p \<noteq> []" for d
  proof (induction specs arbitrary: d)
    case (Cons x specs)
    show ?case using Cons.IH[OF add_layer_nonempty[OF Cons.prems]] by simp
  qed simp
  from this[of "[]"] show "\<forall>p \<in> set (same_type_layers specs). snd p \<noteq> []" by (simp add: same_type_layers_def)
qed

lemma create_names: "create_kv_cache_group_specs specs grouped = Inr groups \<Longrightarrow> map layer_names groups = grouped"
proof (induction grouped arbitrary: groups)
  case (Cons names grouped)
  then show ?case by (auto simp: create_kv_cache_group_specs_def rbind_eq_Inr_iff new_group_def)
qed (simp add: create_kv_cache_group_specs_def)

lemma group_size_pos: "\<forall>n \<in> set ns. 0 < n \<Longrightarrow> ns \<noteq> [] \<Longrightarrow> 0 < group_size_of ns"
  using Max_in[of "set ns"] Min_in[of "set ns"] by (auto simp: group_size_of_def)

definition partitions :: "kv_cache_group_spec list \<Rightarrow> string list \<Rightarrow> bool" where
  "partitions groups names \<longleftrightarrow> mset (concat (map layer_names groups)) = mset names \<and> (\<forall>g \<in> set groups. layer_names g \<noteq> [])"

lemma partitions_names: "map layer_names groups = gss \<Longrightarrow> mset (concat gss) = mset names \<Longrightarrow> [] \<notin> set gss \<Longrightarrow> partitions groups names"
  unfolding partitions_def by (metis image_eqI list.set_map)

lemma uniform_page_size_partition:
  assumes "get_kv_cache_groups_uniform_page_size specs = Inr groups"
  shows "partitions groups (map fst specs)"
proof -
  let ?types = "map snd (same_type_layers specs)" and ?gs = "group_size_of (map (length \<circ> snd) (same_type_layers specs))"
  have ne: "?types \<noteq> []" and c: "create_kv_cache_group_specs specs (concat (map (split_layers ?gs) ?types)) = Inr groups"
    using assms by (auto simp: get_kv_cache_groups_uniform_page_size_def Let_def comp_def split: if_splits)
  have l: "\<forall>t \<in> set ?types. t \<noteq> []" using same_type_partition(2)[of specs] by auto
  have "\<forall>n \<in> set (map (length \<circ> snd) (same_type_layers specs)). 0 < n" using same_type_partition(2)[of specs] by auto
  then have gs: "0 < ?gs" using ne by (intro group_size_pos) auto
  have "mset (concat (concat (map (split_layers ?gs) ts))) = mset (concat ts)" if "\<forall>t \<in> set ts. t \<noteq> []" for ts
    using that by (induction ts) (auto simp: split_layers_partition(1)[OF gs])
  then have "mset (concat (concat (map (split_layers ?gs) ?types))) = mset (map fst specs)" using l same_type_partition(1)[of specs] by metis
  moreover have "[] \<notin> set (concat (map (split_layers ?gs) ?types))" using l split_layers_partition(2)[OF gs] by fastforce
  ultimately show ?thesis using partitions_names[OF create_names[OF c]] by blast
qed

lemma unify_page_size_names:
  assumes "unify_kv_cache_spec_page_size dsz specs = Inr specs'"
  shows "map fst specs' = map fst specs"
proof -
  have "rmap (unify_layer dsz m) xs = Inr ys \<Longrightarrow> map fst ys = map fst xs" for m xs ys
    by (induction xs arbitrary: ys) (auto simp: unify_layer_def rbind_eq_Inr_iff split: if_splits)
  then show ?thesis using assms by (auto simp: unify_kv_cache_spec_page_size_def rbind_eq_Inr_iff split: if_splits)
qed

lemma hidden_group_name: "hidden_group dsz p x = Inr g \<Longrightarrow> layer_names g = [fst x]"
  by (auto simp: hidden_group_def rbind_eq_Inr_iff new_group_def split: prod.splits kv_cache_spec.splits)

lemma partitions_append: "partitions gs xs \<Longrightarrow> partitions hs ys \<Longrightarrow> partitions (gs @ hs) (xs @ ys)"
  by (auto simp: partitions_def)

lemma filter_split_mset: "mset (map fst (filter (\<lambda>(_, s). \<not> P s) xs) @ map fst (filter (\<lambda>(_, s). P s) xs)) = mset (map fst xs)"
  by (induction xs) auto

lemma general_groups_partition:
  assumes "general_groups dsz specs = Inr groups"
  shows "partitions groups (map fst specs)"
proof -
  let ?h = "filter (\<lambda>(_, s). is_hidden s) specs" and ?r = "filter (\<lambda>(_, s). \<not> is_hidden s) specs"
  obtain rest gs where u: "unify_kv_cache_spec_page_size dsz ?r = Inr rest" "get_kv_cache_groups_uniform_page_size rest = Inr gs"
    and e: "(if ?h = [] then Inr gs else rbind (get_uniform_page_size dsz (map group_spec gs)) (\<lambda>common.
              rbind (rmap (hidden_group dsz common) ?h) (\<lambda>hs. Inr (gs @ hs)))) = Inr groups"
    using assms by (auto simp: general_groups_def rbind_eq_Inr_iff Let_def)
  have p: "partitions gs (map fst ?r)" using uniform_page_size_partition[OF u(2)] unify_page_size_names[OF u(1)] by simp
  have "\<exists>hs. groups = gs @ hs \<and> map layer_names hs = map (\<lambda>x. [fst x]) ?h"
  proof (cases "?h = []")
    case True
    then show ?thesis using e by auto
  next
    case False
    then obtain common hs where hs: "rmap (hidden_group dsz common) ?h = Inr hs" "groups = gs @ hs"
      using e by (auto simp: rbind_eq_Inr_iff)
    have "rmap (hidden_group dsz common) xs = Inr ys \<Longrightarrow> map layer_names ys = map (\<lambda>x. [fst x]) xs" for xs ys
      by (induction xs arbitrary: ys) (auto simp: rbind_eq_Inr_iff dest: hidden_group_name)
    then show ?thesis using hs by blast
  qed
  then obtain hs where hs: "groups = gs @ hs" "map layer_names hs = map (\<lambda>x. [fst x]) ?h" by blast
  have c: "concat (map (\<lambda>x. [fst x]) ?h) = map fst ?h" by (simp add: concat_map_singleton flip: map_map[unfolded comp_def])
  have "partitions hs (map fst ?h)" by (rule partitions_names[OF hs(2)]) (simp_all only: c, auto)
  then have "partitions groups (map fst ?r @ map fst ?h)" using partitions_append[OF p] hs(1) by simp
  then show ?thesis using filter_split_mset[of is_hidden specs] by (simp add: partitions_def)
qed

lemma as_full_not_swa_mla: "\<not> isinstance s C_SlidingWindowMLASpec \<Longrightarrow> \<not> isinstance (as_full_spec dsz u s) C_SlidingWindowMLASpec"
  by (cases s) (simp_all add: as_full_spec_def isinstance_def issubclass_def)

lemma unify_hybrid_names:
  assumes "unify_hybrid_kv_cache_specs dsz reg specs = Inr specs'" "\<not> has_spec C_SlidingWindowMLASpec specs"
  shows "map fst specs' = map fst specs" "\<not> has_spec C_SlidingWindowMLASpec specs'"
proof -
  have "specs' = specs \<or> specs' = map (map_prod id (as_full_spec dsz None)) specs"
    using assms by (auto simp: unify_hybrid_kv_cache_specs_def rbind_eq_Inr_iff Let_def split: if_splits)
  moreover have "map fst (map (map_prod id (as_full_spec dsz None)) specs) = map fst specs" by simp
  moreover have "\<not> has_spec C_SlidingWindowMLASpec (map (map_prod id (as_full_spec dsz None)) specs)"
    using assms(2) as_full_not_swa_mla by (auto simp: has_spec_def list_ex_iff)
  ultimately show "map fst specs' = map fst specs" "\<not> has_spec C_SlidingWindowMLASpec specs'" using assms(2) by auto
qed

lemma uniform_from_layers: "uniform_from_specs reg specs = Inr (Some s) \<Longrightarrow> uniform_layers s = Inr specs"
  by (auto simp: uniform_from_specs_def rbind_eq_Inr_iff uniform_layers_def split: if_splits)

text \<open>
  C12: Every layer belongs to exactly one KV cache group and no group is empty: whichever way \<open>get_kv_cache_groups\<close> groups the
  layers (one spec, one type, or a hybrid model with page sizes unified and layers split into groups of equal
  size, with or without hidden-state layers and with the hybrid manager on or off), as long as no layer is of
  the sliding-window MLA class.
\<close>

theorem groups_partition_layers:
  assumes "get_kv_cache_groups dsz reg cfg specs = Inr groups" "\<not> has_spec C_SlidingWindowMLASpec specs"
  shows "mset (concat (map layer_names groups)) = mset (map fst specs) \<and> [] \<notin> set (map layer_names groups)"
proof -
  obtain sp where h: "(if disable_hybrid_kv_cache_manager cfg then unify_hybrid_kv_cache_specs dsz reg specs else Inr specs) = Inr sp"
    and rest: "(if sp = [] then Inr [] else rbind (is_kv_cache_spec_uniform sp) (\<lambda>uniform.
           if uniform then get_kv_cache_groups_uniform_spec sp
           else rbind (uniform_from_specs reg sp) (\<lambda>u. case u of Some s \<Rightarrow> get_kv_cache_groups_uniform_type s
               | None \<Rightarrow> rbind (group_and_unify_kv_cache_specs reg sp) (\<lambda>gs. case gs of
                       Some grouped \<Rightarrow> rbind (get_kv_cache_groups_uniform_groups dsz reg grouped) (\<lambda>groups.
                           Inr (annotate_eagle_groups_deepseek_v4 cfg sp groups))
                     | None \<Rightarrow> general_groups dsz sp)))) = Inr groups"
    using assms(1) unfolding get_kv_cache_groups_def rbind_eq_Inr_iff by blast
  have n: "map fst sp = map fst specs" "\<not> has_spec C_SlidingWindowMLASpec sp"
    using h assms(2) unify_hybrid_names[of dsz reg specs sp] by (auto split: if_splits)
  then have g: "group_and_unify_kv_cache_specs reg sp = Inr None" by (simp add: group_and_unify_kv_cache_specs_def)
  have "partitions groups (map fst sp)"
  proof (cases "sp = []")
    case False
    from rest False consider "create_kv_cache_group_specs sp [map fst sp] = Inr groups"
      | s where "uniform_from_specs reg sp = Inr (Some s)" "get_kv_cache_groups_uniform_type s = Inr groups"
      | "general_groups dsz sp = Inr groups"
      by (auto simp: rbind_eq_Inr_iff g get_kv_cache_groups_uniform_spec_def split: if_splits option.splits)
    then show ?thesis
    proof cases
      case 1
      show ?thesis by (rule partitions_names[OF create_names[OF 1]]) (use False in simp_all)
    next
      case 2
      then have "groups = [new_group (map fst sp) s]" using uniform_from_layers[OF 2(1)] by (simp add: get_kv_cache_groups_uniform_type_def)
      then show ?thesis using False by (simp add: partitions_def new_group_def)
    qed (rule general_groups_partition)
  qed (use rest in \<open>simp add: partitions_def\<close>)
  then show ?thesis unfolding n(1) partitions_def by auto
qed

subsection \<open>The tensors fit the memory\<close>

text \<open>The groups whose layers are those of their uniform spec.\<close>

definition uniform_keys :: "kv_cache_group_spec list \<Rightarrow> bool" where
  "uniform_keys groups \<longleftrightarrow>
     (\<forall>g \<in> set groups. \<forall>n ss. group_spec g = UniformTypeKVCacheSpecs n ss \<longrightarrow> layer_names g = map fst ss \<and> dict_ok ss)"

text \<open>The tensors of a layout: every page once per block, and the pages of a block together.\<close>

definition layout :: "(string \<Rightarrow> int) \<Rightarrow> plan_config \<Rightarrow> kv_cache_group_spec list \<Rightarrow> int \<Rightarrow> int \<times> kv_cache_tensor list \<Rightarrow> bool" where
  "layout dsz cfg groups available = (\<lambda>(n, ts). \<exists>pages B. map kt_size ts = map (\<lambda>p. p * n) pages
     \<and> pool_bytes_per_block dsz groups = Inr B \<and> sum_list pages = B
     \<and> (num_gpu_blocks_override cfg = None \<longrightarrow> 0 < B \<longrightarrow> 0 \<le> available \<longrightarrow> n * B \<le> available))"

lemma layoutI:
  assumes "map kt_size ts = map (\<lambda>p. p * n) pages" "pool_bytes_per_block dsz groups = Inr B" "sum_list pages = B"
    "num_gpu_blocks_override cfg = None \<Longrightarrow> 0 < B \<Longrightarrow> 0 \<le> available \<Longrightarrow> n * B \<le> available"
  shows "layout dsz cfg groups available (n, ts)"
  unfolding layout_def prod.case using assms by (intro exI[of _ pages] exI[of _ B]) simp

lemma div_mult_le: "0 < b \<Longrightarrow> a div b * b \<le> (a :: int)"
  using le_div_iff_mult_le_pos[of b "a div b" a] by simp

lemma rmap_keys:
  assumes "\<forall>(k, v) \<in> set xs. f k = g v"
  shows "rmap f (map fst xs) = rmap g (map snd xs)"
  using assms by (induction xs) auto

lemma tensors_of_pages:
  assumes "rmap (\<lambda>name. rbind (f name) (\<lambda>ps. Inr (new_tensor (ps * n) [name]))) xs = Inr ts" "rmap f xs = Inr pages"
  shows "map kt_size ts = map (\<lambda>p. p * n) pages"
  using assms by (induction xs arbitrary: pages ts) (auto simp: rbind_eq_Inr_iff new_tensor_def)

lemma uniform_layout:
  assumes c: "uniform_config dsz cfg g available = Inr r" and k: "uniform_keys [g]" and u: "is_uniform_spec (group_spec g)"
  shows "layout dsz cfg [g] available r"
proof -
  obtain page q ss ts where p: "page_size_bytes dsz (group_spec g) = Inr page" "py_div available page = Inr q" "uniform_layers (group_spec g) = Inr ss"
    and t: "rmap (\<lambda>name. rbind (rbind (dict_index ss name) (page_size_bytes dsz)) (\<lambda>ps. Inr (new_tensor (ps * may_override_num_blocks cfg q) [name])))
              (layer_names g) = Inr ts" and r: "r = (may_override_num_blocks cfg q, ts)"
    using c by (auto simp: uniform_config_def rbind_eq_Inr_iff Let_def)
  let ?n = "may_override_num_blocks cfg q"
  obtain bs where g: "group_spec g = UniformTypeKVCacheSpecs bs ss" using p(3) by (auto simp: uniform_layers_def split: kv_cache_spec.splits)
  have n: "layer_names g = map fst ss" "dict_ok ss" using k g by (auto simp: uniform_keys_def)
  have "\<forall>(x, s) \<in> set ss. rbind (dict_index ss x) (page_size_bytes dsz) = page_size_bytes dsz s"
    using n(2) by (auto simp: dict_index_def map_of_is_SomeI)
  then have e: "rmap (\<lambda>x. rbind (dict_index ss x) (page_size_bytes dsz)) (layer_names g) = rmap (page_size_bytes dsz) (map snd ss)"
    unfolding n(1) by (rule rmap_keys)
  obtain pages where pg: "rmap (page_size_bytes dsz) (map snd ss) = Inr pages" "page = sum_list pages"
    using p(1) by (auto simp: g rbind_eq_Inr_iff)
  have sz: "map kt_size ts = map (\<lambda>p. p * ?n) pages" by (rule tensors_of_pages[OF t]) (use e pg(1) in simp)
  have pool: "pool_bytes_per_block dsz [g] = Inr page" using u p(1) by (simp add: pool_bytes_per_block_def)
  have "?n * page \<le> available" if "num_gpu_blocks_override cfg = None" "0 < page"
    using that p(2) div_mult_le[of page available] by (simp add: may_override_num_blocks_def py_div_def)
  then show ?thesis unfolding r by (rule layoutI[OF sz pool pg(2)[symmetric]])
qed

lemma bucket_bytes_pages: "bucket_bytes b = sum_list (concat (map (\<lambda>(ps, slots). replicate (length slots) ps) b))"
  by (induction b) (auto simp: bucket_bytes_def sum_list_replicate)

lemma deepseek_layout:
  assumes "get_kv_cache_config_deepseek_v4 dsz cfg groups available = Inr r" "list_all (\<lambda>g. is_uniform_spec (group_spec g)) groups"
    "length groups \<noteq> 1"
  shows "layout dsz cfg groups available r"
proof -
  obtain b q where b: "bucket_layers_by_page_size dsz groups = Inr b" "py_div available (bucket_bytes b) = Inr q"
    and r: "r = (may_override_num_blocks cfg q, concat (map (\<lambda>(ps, slots). map (new_tensor (ps * may_override_num_blocks cfg q)) slots) b))"
    using assms(1) by (auto simp: get_kv_cache_config_deepseek_v4_def rbind_eq_Inr_iff Let_def)
  have sz: "map kt_size (concat (map (\<lambda>(ps, slots). map (new_tensor (ps * n)) slots) b))
      = map (\<lambda>p. p * n) (concat (map (\<lambda>(ps, slots). replicate (length slots) ps) b))" for n
    by (induction b) (auto simp: new_tensor_def map_replicate_const comp_def)
  have pool: "pool_bytes_per_block dsz groups = Inr (bucket_bytes b)" using assms(2,3) b(1) by (simp add: pool_bytes_per_block_def)
  have "may_override_num_blocks cfg q * bucket_bytes b \<le> available" if "num_gpu_blocks_override cfg = None" "0 < bucket_bytes b"
    using that b(2) div_mult_le[of "bucket_bytes b" available] by (simp add: may_override_num_blocks_def py_div_def)
  then show ?thesis unfolding r by (rule layoutI[OF sz pool bucket_bytes_pages[symmetric]])
qed

lemma general_layout:
  assumes c: "general_config dsz cfg groups available = Inr r" and u: "\<not> list_all (\<lambda>g. is_uniform_spec (group_spec g)) groups"
  shows "layout dsz cfg groups available r"
proof -
  obtain gs page n where g: "max_layers groups = Inr gs" "get_uniform_page_size dsz (map group_spec groups) = Inr page" "gs > 0"
    "get_num_blocks cfg gs available page = Inr n" and r: "r = (n, map (\<lambda>i. new_tensor (page * n) (at_position i groups)) [0..<nat gs])"
    using c by (auto simp: general_config_def rbind_eq_Inr_iff)
  have n: "n = may_override_num_blocks cfg (max (available div page div gs) 0)" "page \<noteq> 0"
    using g(4) by (auto simp: get_num_blocks_def rbind_eq_Inr_iff py_div_def split: if_splits)
  have u1: "\<not> (length groups = 1 \<and> is_uniform_spec (group_spec (hd groups)))" using u by (cases groups) auto
  have fit: "n * (page * gs) \<le> available" if "num_gpu_blocks_override cfg = None" "0 < page * gs" "0 \<le> available"
  proof -
    have pg: "0 < page" using that(2) g(3) by (simp add: zero_less_mult_iff)
    have "available div page div gs = available div (page * gs)" using g(3) by (simp add: zdiv_zmult2_eq)
    moreover have "0 \<le> available div (page * gs)" using that(2,3) by (simp add: pos_imp_zdiv_nonneg_iff)
    ultimately show ?thesis using that(1) n(1) div_mult_le[OF that(2), of available] by (simp add: may_override_num_blocks_def)
  qed
  have sz: "map kt_size (map (\<lambda>i. new_tensor (page * n) (at_position i groups)) [0..<nat gs]) = map (\<lambda>p. p * n) (replicate (nat gs) page)"
    by (simp add: new_tensor_def comp_def map_replicate_const)
  have pool: "pool_bytes_per_block dsz groups = Inr (page * gs)" using u u1 g(1,2) by (auto simp: pool_bytes_per_block_def)
  have sum: "sum_list (replicate (nat gs) page) = page * gs" using g(3) by (simp add: sum_list_replicate)
  show ?thesis unfolding r by (rule layoutI[OF sz pool sum fit])
qed

lemma config_layout:
  assumes c: "get_kv_cache_config_from_groups dsz cfg groups available = Inr c" and ne: "groups \<noteq> []" and k: "uniform_keys groups"
  shows "layout dsz cfg groups available (num_blocks c, kv_cache_tensors c)" "kv_cache_groups c = groups"
proof -
  obtain r where r: "(if length groups = 1 \<and> is_uniform_spec (group_spec (hd groups)) then uniform_config dsz cfg (hd groups) available
                  else if list_all (\<lambda>g. is_uniform_spec (group_spec g)) groups then get_kv_cache_config_deepseek_v4 dsz cfg groups available
                  else general_config dsz cfg groups available) = Inr r"
    and c': "c = \<lparr>num_blocks = fst r, kv_cache_tensors = snd r, kv_cache_groups = groups\<rparr>"
    using c ne by (auto simp: get_kv_cache_config_from_groups_def rbind_eq_Inr_iff)
  show "kv_cache_groups c = groups" by (simp add: c')
  have "layout dsz cfg groups available r"
  proof (cases "length groups = 1 \<and> is_uniform_spec (group_spec (hd groups))")
    case True
    then have "groups = [hd groups]" by (cases groups) auto
    then show ?thesis using uniform_layout[of dsz cfg "hd groups" available r] r k True by simp
  next
    case False
    then show ?thesis using r deepseek_layout[of dsz cfg groups available r] general_layout[of dsz cfg groups available r]
      by (cases groups) (auto split: if_splits)
  qed
  then show "layout dsz cfg groups available (num_blocks c, kv_cache_tensors c)" by (simp add: c')
qed

lemma shrink_layout:
  assumes "rmap (shrink_tensor old n) ts = Inr ts'" "map kt_size ts = map (\<lambda>p. p * old) pages"
  shows "map kt_size ts' = map (\<lambda>p. p * n) pages"
  using assms
proof (induction ts arbitrary: ts' pages)
  case (Cons t ts)
  then obtain p ps t' us where e: "pages = p # ps" "kt_size t = p * old" "map kt_size ts = map (\<lambda>p. p * old) ps"
    "shrink_tensor old n t = Inr t'" "rmap (shrink_tensor old n) ts = Inr us" "ts' = t' # us"
    by (cases pages) (auto simp: rbind_eq_Inr_iff)
  have "kt_size t' = p * n" using e(2,4) by (auto simp: shrink_tensor_def rbind_eq_Inr_iff split: if_splits)
  then show ?case using Cons.IH[OF e(5,3)] e(1,6) by simp
qed simp

lemma rfold_unit: "rfold f xs () = Inr () \<Longrightarrow> x \<in> set xs \<Longrightarrow> f x () = Inr ()"
  by (induction xs) (auto simp: rbind_eq_Inr_iff)

lemma shrink_effect:
  assumes "shrink_config dsz m n c = Inr c'"
  shows "num_blocks c' = n" "kv_cache_groups c' = kv_cache_groups c" "rmap (shrink_tensor (num_blocks c) n) (kv_cache_tensors c) = Inr (kv_cache_tensors c')"
  using assms by (auto simp: shrink_config_def rbind_eq_Inr_iff Let_def split: if_splits)

lemma worker_memory:
  assumes w: "worker_config dsz cfg (groups, specs, avail) = Inr c" and sh: "shrink_config dsz m n c = Inr c'" and le: "n \<le> num_blocks c"
    and ne: "kv_cache_groups c' \<noteq> []" and k: "uniform_keys (kv_cache_groups c')" and pos: "groups \<noteq> [] \<Longrightarrow> 0 < avail"
  shows "\<exists>B. pool_bytes_per_block dsz (kv_cache_groups c') = Inr B \<and> sum_list (map kt_size (kv_cache_tensors c')) = n * B
    \<and> (num_gpu_blocks_override cfg = None \<longrightarrow> 0 < B \<longrightarrow> n * B \<le> avail)"
proof -
  note e = shrink_effect[OF sh]
  have c: "get_kv_cache_config_from_groups dsz cfg groups avail = Inr c" using w by (simp add: worker_config_def rbind_eq_Inr_iff)
  have g: "kv_cache_groups c = groups" using c by (auto simp: get_kv_cache_config_from_groups_def rbind_eq_Inr_iff split: if_splits)
  have gn: "groups \<noteq> []" "uniform_keys groups" using ne k e(2) g by simp_all
  obtain pages B where l: "map kt_size (kv_cache_tensors c) = map (\<lambda>p. p * num_blocks c) pages" "pool_bytes_per_block dsz groups = Inr B"
    "sum_list pages = B" "num_gpu_blocks_override cfg = None \<longrightarrow> 0 < B \<longrightarrow> 0 \<le> avail \<longrightarrow> num_blocks c * B \<le> avail"
    using config_layout(1)[OF c gn] unfolding layout_def prod.case by (elim exE conjE) (rule that)
  have "map kt_size (kv_cache_tensors c') = map (\<lambda>p. p * n) pages" by (rule shrink_layout[OF e(3) l(1)])
  moreover have "sum_list (map (\<lambda>p. p * n) ps) = n * sum_list ps" for ps :: "int list" by (induction ps) (simp_all add: algebra_simps)
  ultimately have "sum_list (map kt_size (kv_cache_tensors c')) = n * B" using l(3) by simp
  moreover have "n * B \<le> avail" if "num_gpu_blocks_override cfg = None" "0 < B"
  proof -
    have "n * B \<le> num_blocks c * B" using le that(2) by simp
    also have "\<dots> \<le> avail" using l(4) that pos gn(1) by simp
    finally show ?thesis .
  qed
  ultimately show ?thesis using l(2) e(2) g by auto
qed


subsection \<open>Memory grows with the model length\<close>

text \<open>Two results with the same exception, or with values in order.\<close>

abbreviation rle :: "int result \<Rightarrow> int result \<Rightarrow> bool" where
  "rle \<equiv> rel_sum (=) (\<le>)"

lemma rle_refl [simp]: "rle x x"
  by (cases x) simp_all

lemma rel_bind:
  "rel_sum (=) R x y \<Longrightarrow> (\<And>a b. R a b \<Longrightarrow> x = Inr a \<Longrightarrow> y = Inr b \<Longrightarrow> rel_sum (=) S (f a) (g b)) \<Longrightarrow> rel_sum (=) S (rbind x f) (rbind y g)"
  by (cases x; cases y) simp_all

lemma rel_bind_same:
  "(\<And>a. x = Inr a \<Longrightarrow> rel_sum (=) S (f a) (g a)) \<Longrightarrow> rel_sum (=) S (rbind x f) (rbind x g)"
  by (cases x) simp_all

lemma rel_rmap: "(\<And>x. x \<in> set xs \<Longrightarrow> rle (f x) (g x)) \<Longrightarrow> rel_sum (=) (list_all2 (\<le>)) (rmap f xs) (rmap g xs)"
proof (induction xs)
  case (Cons x xs)
  have "rel_sum (=) (list_all2 (\<le>)) (rmap f xs) (rmap g xs)" by (rule Cons.IH) (simp add: Cons.prems)
  then show ?case using Cons.prems[of x] by (auto intro!: rel_bind)
qed simp

lemma rle_rsum: "(\<And>x. x \<in> set xs \<Longrightarrow> rle (f x) (g x)) \<Longrightarrow> rle (rsum f xs) (rsum g xs)"
proof -
  have "list_all2 (\<le>) ys zs \<Longrightarrow> sum_list ys \<le> sum_list zs" for ys zs :: "int list" by (induction rule: list_all2_induct) auto
  then show "(\<And>x. x \<in> set xs \<Longrightarrow> rle (f x) (g x)) \<Longrightarrow> rle (rsum f xs) (rsum g xs)"
    unfolding rsum_def by (intro rel_bind[OF rel_rmap]) simp_all
qed

lemma rle_py_max: "list_all2 (\<le>) xs ys \<Longrightarrow> rle (py_max xs) (py_max ys)"
proof (cases "xs = []")
  case False
  assume l: "list_all2 (\<le>) xs ys"
  then have y: "ys \<noteq> []" using False by auto
  have "x \<le> Max (set ys)" if x: "x \<in> set xs" for x
  proof -
    obtain i where i: "i < length xs" "x = xs ! i" using x by (auto simp: in_set_conv_nth)
    then have "x \<le> ys ! i" "ys ! i \<in> set ys" using l by (auto simp: list_all2_conv_all_nth)
    then show ?thesis by (meson List.finite_set Max_ge order_trans)
  qed
  then show ?thesis using False y by (simp add: py_max_def)
qed (auto simp: py_max_def)

definition layer_ok :: "(string \<Rightarrow> int) \<Rightarrow> kv_cache_spec \<Rightarrow> bool" where
  "layer_ok dsz s \<longleftrightarrow> \<not> is_uniform_spec s \<and> 0 < block_size s \<and> (\<forall>p. page_size_bytes dsz s = Inr p \<longrightarrow> 0 \<le> p)"

definition plan_ok :: "(string \<Rightarrow> int) \<Rightarrow> kv_cache_spec \<Rightarrow> bool" where
  "plan_ok dsz s \<longleftrightarrow> (case s of UniformTypeKVCacheSpecs _ ss \<Rightarrow> list_all (\<lambda>(_, t). layer_ok dsz t) ss | _ \<Rightarrow> layer_ok dsz s)"

lemma uniform_spec_iff: "is_uniform_spec s \<longleftrightarrow> (\<exists>n ss. s = UniformTypeKVCacheSpecs n ss)"
  by (cases s) (simp_all add: is_uniform_spec_def isinstance_def issubclass_def)

lemma layer_memory_mono:
  assumes s: "layer_ok dsz s" and l: "l \<le> l'"
  shows "rle (max_memory_usage_bytes dsz (with_max_len l m) s) (max_memory_usage_bytes dsz (with_max_len l' m) s)"
proof -
  have nu: "spec_type s \<noteq> C_UniformTypeKVCacheSpecs" using s uniform_spec_iff[of s] is_uniform_iff[of s] by (auto simp: layer_ok_def)
  have b: "0 < block_size s" and page: "\<And>p. page_size_bytes dsz s = Inr p \<Longrightarrow> 0 \<le> p" using s by (simp_all add: layer_ok_def)
  have full: "full_max_memory (with_max_len l m) bs p \<le> full_max_memory (with_max_len l' m) bs p" if "0 < bs" "0 \<le> p" for bs p
    unfolding full_max_memory_def Let_def with_max_len_def using that l
    by (auto intro!: mult_right_mono cdiv_mono)
  have adm: "cdiv (min k l) bs \<le> cdiv (min k l') bs" if "0 < bs" for bs k using that l by (intro cdiv_mono) auto
  have mamba: "mamba_max_memory (with_max_len l m) ms p \<le> mamba_max_memory (with_max_len l' m) ms p" if "0 < ms_block_size ms" "0 \<le> p" for ms p
    unfolding mamba_max_memory_def with_max_len_def using that l by (auto intro!: mult_right_mono cdiv_mono)
  have "rle (layer_max_memory dsz (with_max_len l m) s) (layer_max_memory dsz (with_max_len l' m) s)"
    using b page unfolding layer_max_memory_def
    by (cases s) (auto intro!: rel_bind_same full[unfolded with_max_len_def] mamba[unfolded with_max_len_def] mult_right_mono adm
        simp: chunked_max_memory_def sliding_max_memory_def chunked_max_admission_blocks_def sliding_max_admission_blocks_def
          cross_max_memory_def with_max_len_def)
  then show ?thesis using nu by simp
qed

lemma uniform_pages_mono:
  assumes "list_all (\<lambda>(_, t). layer_ok dsz t) ss" "l \<le> l'"
  shows "rle (max_memory_usage_pages dsz (with_max_len l m) ss) (max_memory_usage_pages dsz (with_max_len l' m) ss)"
  unfolding max_memory_usage_pages_def uniform_max_pages_def
proof (rule rel_bind[OF rel_rmap rle_py_max])
  fix s assume "s \<in> set (map snd ss)"
  then have ok: "layer_ok dsz s" using assms(1) by (auto simp: list_all_iff)
  then have page: "\<And>p. page_size_bytes dsz s = Inr p \<Longrightarrow> 0 \<le> p" by (simp add: layer_ok_def)
  show "rle (rbind (max_memory_usage_bytes dsz (with_max_len l m) s) (\<lambda>m. rbind (page_size_bytes dsz s) (\<lambda>pg. if pg = 0 then Inl ZeroDivisionError else Inr (cdiv m pg))))
            (rbind (max_memory_usage_bytes dsz (with_max_len l' m) s) (\<lambda>m. rbind (page_size_bytes dsz s) (\<lambda>pg. if pg = 0 then Inl ZeroDivisionError else Inr (cdiv m pg))))"
    by (rule rel_bind[OF layer_memory_mono[OF ok assms(2)]], rule rel_bind_same) (use page in \<open>fastforce intro: cdiv_mono\<close>)
qed

lemma uniform_page_nonneg:
  "list_all (\<lambda>(_, t). layer_ok dsz t) ss \<Longrightarrow> rmap (page_size_bytes dsz) (map snd ss) = Inr ps \<Longrightarrow> \<forall>p \<in> set ps. 0 \<le> p"
  by (induction ss arbitrary: ps) (auto simp: rbind_eq_Inr_iff layer_ok_def)

lemma plan_page_nonneg:
  assumes "plan_ok dsz s" "page_size_bytes dsz s = Inr p"
  shows "0 \<le> p"
proof (cases "is_uniform_spec s")
  case True
  then obtain n ss where s: "s = UniformTypeKVCacheSpecs n ss" using uniform_spec_iff by blast
  have "list_all (\<lambda>(_, t). layer_ok dsz t) ss" using assms(1) by (simp add: plan_ok_def s)
  then show ?thesis using assms(2) uniform_page_nonneg by (auto simp: s rbind_eq_Inr_iff intro!: sum_list_nonneg)
next
  case False
  then have "layer_ok dsz s" using assms(1) uniform_spec_iff[of s] by (cases s) (auto simp: plan_ok_def)
  then show ?thesis using assms(2) by (simp add: layer_ok_def)
qed

lemma memory_mono:
  assumes ok: "plan_ok dsz s" and l: "l \<le> l'"
  shows "rle (max_memory_usage_bytes dsz (with_max_len l m) s) (max_memory_usage_bytes dsz (with_max_len l' m) s)"
proof (cases "is_uniform_spec s")
  case True
  then obtain n ss where s: "s = UniformTypeKVCacheSpecs n ss" using uniform_spec_iff by blast
  have ss: "list_all (\<lambda>(_, t). layer_ok dsz t) ss" using ok by (simp add: plan_ok_def s)
  have "0 \<le> page" if "page_size_bytes dsz s = Inr page" for page by (rule plan_page_nonneg[OF ok that])
  then show ?thesis unfolding s max_memory_usage_bytes.simps
    by (intro rel_bind[OF uniform_pages_mono[OF ss l, unfolded max_memory_usage_pages_def]] rel_bind_same) (auto simp: s intro!: mult_right_mono)
next
  case False
  then have "layer_ok dsz s" using ok uniform_spec_iff[of s] by (cases s) (auto simp: plan_ok_def)
  then show ?thesis using layer_memory_mono l by blast
qed

lemma groups_memory_mono:
  assumes ok: "\<forall>g \<in> set groups. plan_ok dsz (group_spec g)" and l: "l \<le> l'"
  shows "rle (max_memory_usage_bytes_from_groups dsz (with_max_len l m) groups) (max_memory_usage_bytes_from_groups dsz (with_max_len l' m) groups)"
proof -
  have layers: "list_all (\<lambda>(_, t). layer_ok dsz t) ss" if "g \<in> set groups" "uniform_layers (group_spec g) = Inr ss" for g ss
    using ok that by (auto simp: uniform_layers_def plan_ok_def split: kv_cache_spec.splits)
  have total: "rle (total_max_memory dsz (with_max_len l m) (map snd ss)) (total_max_memory dsz (with_max_len l' m) (map snd ss))"
    if "list_all (\<lambda>(_, t). layer_ok dsz t) ss" for ss
    unfolding total_max_memory_def using that by (intro rle_rsum layer_memory_mono[OF _ l]) (auto simp: list_all_iff)
  have tuple: "rle (tuple_memory dsz (with_max_len l m) groups) (tuple_memory dsz (with_max_len l' m) groups)" if ne: "groups \<noteq> []"
    unfolding tuple_memory_def
  proof (intro rel_bind_same rle_rsum)
    fix ls sizes tuples ss
    assume ls: "rmap (uniform_layers \<circ> group_spec) groups = Inr ls" and sz: "get_page_sizes dsz (hd ls) = Inr sizes"
      and tp: "rbind (rmap (get_num_layer_tuples dsz) ls) py_max = Inr tuples" and ss: "ss \<in> set ls"
    have each: "list_all (\<lambda>(_, t). layer_ok dsz t) ss" if x: "ss \<in> set ls" for ss
    proof -
      obtain i where "i < length ls" "ss = ls ! i" using x by (auto simp: in_set_conv_nth)
      then have "i < length groups" "uniform_layers (group_spec (groups ! i)) = Inr ss"
        using rmap_length[OF ls] rmap_nth[OF ls, of i] by simp_all
      then show ?thesis using layers nth_mem by blast
    qed
    have "ls \<noteq> []" using rmap_length[OF ls] ne by auto
    then have h: "list_all (\<lambda>(_, t). layer_ok dsz t) (hd ls)" using each by simp
    obtain ps where "rmap (page_size_bytes dsz) (map snd (hd ls)) = Inr ps" "sizes = set ps"
      using sz unfolding get_page_sizes_def rbind_eq_Inr_iff by auto
    then have "\<forall>p \<in> sizes. 0 \<le> p" using uniform_page_nonneg[OF h] by simp
    then have "0 \<le> \<Sum>sizes" by (simp add: sum_nonneg)
    moreover have "0 \<le> tuples"
    proof -
      obtain cs where cs: "rmap (get_num_layer_tuples dsz) ls = Inr cs" "py_max cs = Inr tuples" using tp by (auto simp: rbind_eq_Inr_iff)
      have "0 \<le> c" if "get_num_layer_tuples dsz x = Inr c" for x c
        using that by (auto simp: get_num_layer_tuples_def rbind_eq_Inr_iff Max_ge_iff ex_in_conv split: if_splits)
      then have "\<forall>c \<in> set cs. 0 \<le> c" using rmap_nth[OF cs(1)] rmap_length[OF cs(1)] by (fastforce simp: in_set_conv_nth)
      then show ?thesis using cs(2) by (auto simp: py_max_def split: if_splits)
    qed
    ultimately show "rle (rbind (max_memory_usage_pages dsz (with_max_len l m) ss) (\<lambda>pages. Inr (tuples * pages * \<Sum>sizes)))
        (rbind (max_memory_usage_pages dsz (with_max_len l' m) ss) (\<lambda>pages. Inr (tuples * pages * \<Sum>sizes)))"
      by (intro rel_bind[OF uniform_pages_mono[OF each[OF ss] l]]) (auto intro!: mult_right_mono mult_left_mono)
  qed
  have gen: "rle (rbind (rsum (\<lambda>g. rbind (max_memory_usage_bytes dsz (with_max_len l m) (group_spec g)) (\<lambda>b. py_cdiv b page)) groups) (\<lambda>blocks. Inr (gs * page * blocks)))
      (rbind (rsum (\<lambda>g. rbind (max_memory_usage_bytes dsz (with_max_len l' m) (group_spec g)) (\<lambda>b. py_cdiv b page)) groups) (\<lambda>blocks. Inr (gs * page * blocks)))"
    if "0 \<le> gs" "0 \<le> page" for gs page
    using that ok by (intro rel_bind[OF rle_rsum[OF rel_bind[OF memory_mono[OF _ l]]]]) (auto simp: py_cdiv_def intro!: cdiv_mono mult_left_mono)
  have page: "0 \<le> page" if p: "get_uniform_page_size dsz (map group_spec groups) = Inr page" "groups \<noteq> []" for page
  proof -
    obtain ps where ps: "rmap (page_size_bytes dsz) (map group_spec groups) = Inr ps" "page = hd ps"
      using p(1) unfolding get_uniform_page_size_def rbind_eq_Inr_iff by auto
    then have "page_size_bytes dsz (group_spec (groups ! 0)) = Inr page"
      using rmap_nth[OF ps(1), of 0] rmap_length[OF ps(1)] p(2) by (cases ps) auto
    moreover have "plan_ok dsz (group_spec (groups ! 0))" using ok p(2) by simp
    ultimately show ?thesis using plan_page_nonneg by blast
  qed
  have size: "0 \<le> gs" if "max_layers groups = Inr gs" for gs
    using that by (auto simp: max_layers_def py_max_def Max_ge_iff ex_in_conv split: if_splits)
  consider "groups = []" | "groups \<noteq> []" "length groups = 1" "is_uniform_spec (group_spec (hd groups))"
    | "groups \<noteq> []" "\<not> (length groups = 1 \<and> is_uniform_spec (group_spec (hd groups)))" "list_all (\<lambda>g. is_uniform_spec (group_spec g)) groups"
    | "groups \<noteq> []" "\<not> (length groups = 1 \<and> is_uniform_spec (group_spec (hd groups)))" "\<not> list_all (\<lambda>g. is_uniform_spec (group_spec g)) groups"
    by blast
  then show ?thesis
  proof cases
    case 2
    then show ?thesis unfolding max_memory_usage_bytes_from_groups_def
      by (simp only: if_False if_True simp_thms) (intro rel_bind_same total layers[of "hd groups"]; simp)
  next
    case 4
    then show ?thesis unfolding max_memory_usage_bytes_from_groups_def
      by (simp only: if_False if_True simp_thms) (intro rel_bind_same gen size page; simp)
  qed (auto simp: max_memory_usage_bytes_from_groups_def intro: tuple)
qed

subsection \<open>The longest model length that fits\<close>

text \<open>
  The search keeps: \<open>res\<close> fits, everything below \<open>left\<close> is at most \<open>res\<close>, and nothing above \<open>right\<close> up to the
  limit fits.
\<close>

lemma search_len_correct:
  assumes fits: "\<And>n. 1 \<le> n \<Longrightarrow> fits n = Inr (P n)"
    and down: "\<And>a b. 1 \<le> a \<Longrightarrow> a \<le> b \<Longrightarrow> P b \<Longrightarrow> P a"
  shows "1 \<le> left \<Longrightarrow> left - 1 \<le> res \<Longrightarrow> 1 \<le> res \<Longrightarrow> P res \<Longrightarrow> res \<le> limit \<Longrightarrow> right \<le> limit
    \<Longrightarrow> \<forall>n. right < n \<longrightarrow> n \<le> limit \<longrightarrow> \<not> P n
    \<Longrightarrow> \<exists>r. search_len fits left right res = Inr r \<and> 1 \<le> r \<and> r \<le> limit \<and> (\<forall>n. 1 \<le> n \<longrightarrow> n \<le> limit \<longrightarrow> P n = (n \<le> r))"
proof (induction "nat (right - left + 1)" arbitrary: left right res rule: less_induct)
  case less
  define mid where "mid = (left + right) div 2"
  show ?case
  proof (cases "left \<le> right")
    case True
    then have m: "left \<le> mid" "mid \<le> right" by (simp_all add: mid_def)
    then have step: "search_len fits left right res = (if P mid then search_len fits (mid + 1) right mid else search_len fits left (mid - 1) res)"
      using True less.prems(1) fits[of mid] by (subst search_len.simps) (simp add: mid_def [symmetric] Let_def)
    show ?thesis
    proof (cases "P mid")
      case p: True
      have "nat (right - (mid + 1) + 1) < nat (right - left + 1)" using m True by simp
      then show ?thesis unfolding step if_P[OF p] using m p less.prems by (intro less.hyps) auto
    next
      case False
      have "nat (mid - 1 - left + 1) < nat (right - left + 1)" using m True by simp
      moreover have "\<not> P n" if "mid - 1 < n" for n using False down[of mid n] m less.prems(1) that by auto
      ultimately show ?thesis unfolding step if_not_P[OF False] using m less.prems by (intro less.hyps) auto
    qed
  next
    case False
    then have "search_len fits left right res = Inr res" by (simp add: search_len.simps[of fits left])
    moreover have "P n = (n \<le> res)" if "1 \<le> n" "n \<le> limit" for n
      using False that less.prems down[of n res] by force
    ultimately show ?thesis using less.prems by blast
  qed
qed

lemma longest_len_correct:
  assumes fits: "\<And>n. 1 \<le> n \<Longrightarrow> fits n = Inr (P n)"
    and down: "\<And>a b. 1 \<le> a \<Longrightarrow> a \<le> b \<Longrightarrow> P b \<Longrightarrow> P a" and limit: "1 \<le> limit"
  shows "\<exists>r. longest_len fits limit = Inr r \<and> 0 \<le> r \<and> r \<le> limit \<and> (\<forall>n. 1 \<le> n \<longrightarrow> n \<le> limit \<longrightarrow> P n = (n \<le> r))"
proof (cases "P 1")
  case True
  have "\<exists>r. search_len fits 1 limit 1 = Inr r \<and> 1 \<le> r \<and> r \<le> limit \<and> (\<forall>n. 1 \<le> n \<longrightarrow> n \<le> limit \<longrightarrow> P n = (n \<le> r))"
    using True limit by (intro search_len_correct[where P = P] fits) (auto intro: down)
  then show ?thesis using True fits[of 1] by (auto simp: longest_len_def)
next
  case False
  then have "\<not> P n" if "1 \<le> n" for n using down[of 1 n] that by auto
  then show ?thesis using False fits[of 1] limit by (auto simp: longest_len_def)
qed

text \<open>The memory a request of the given length needs on a worker, and whether it is there.\<close>

definition fits_worker :: "(string \<Rightarrow> int) \<Rightarrow> mem_config \<Rightarrow> kv_cache_group_spec list \<Rightarrow> int \<Rightarrow> int \<Rightarrow> bool" where
  "fits_worker dsz m groups available n \<longleftrightarrow>
     (\<exists>need. max_memory_usage_bytes_from_groups dsz (with_max_len n m) groups = Inr need \<and> need \<le> available)"

lemma estimate_correct:
  assumes ok: "\<forall>g \<in> set groups. plan_ok dsz (group_spec g)" and limit: "1 \<le> cfg_max_model_len m"
    and def: "max_memory_usage_bytes_from_groups dsz (with_max_len 1 m) groups = Inr need"
  shows "\<exists>r. estimate_max_model_len_from_groups dsz m groups available = Inr r \<and> 0 \<le> r \<and> r \<le> cfg_max_model_len m
    \<and> (\<forall>n. 1 \<le> n \<longrightarrow> n \<le> cfg_max_model_len m \<longrightarrow> fits_worker dsz m groups available n = (n \<le> r))"
  unfolding estimate_max_model_len_from_groups_def
proof (rule longest_len_correct[OF _ _ limit])
  have mono: "rle (max_memory_usage_bytes_from_groups dsz (with_max_len a m) groups) (max_memory_usage_bytes_from_groups dsz (with_max_len b m) groups)"
    if "a \<le> b" for a b by (rule groups_memory_mono[OF ok that])
  show "rbind (max_memory_usage_bytes_from_groups dsz (with_max_len n m) groups) (\<lambda>need. Inr (need \<le> available))
    = Inr (fits_worker dsz m groups available n)" if "1 \<le> n" for n
  proof -
    obtain k where "max_memory_usage_bytes_from_groups dsz (with_max_len n m) groups = Inr k"
      using mono[of 1 n] \<open>1 \<le> n\<close> def by (cases "max_memory_usage_bytes_from_groups dsz (with_max_len n m) groups") simp_all
    then show ?thesis by (simp add: fits_worker_def)
  qed
  show "fits_worker dsz m groups available a" if le: "a \<le> b" and b: "fits_worker dsz m groups available b" for a b
  proof -
    obtain k where k: "max_memory_usage_bytes_from_groups dsz (with_max_len b m) groups = Inr k" "k \<le> available"
      using b by (auto simp: fits_worker_def)
    then show ?thesis using mono[OF le] unfolding fits_worker_def
      by (cases "max_memory_usage_bytes_from_groups dsz (with_max_len a m) groups") auto
  qed
qed

definition measurable :: "(string \<Rightarrow> int) \<Rightarrow> mem_config \<Rightarrow> kv_cache_group_spec list \<Rightarrow> bool" where
  "measurable dsz m groups \<longleftrightarrow>
     list_all (plan_ok dsz \<circ> group_spec) groups \<and> \<not> isl (max_memory_usage_bytes_from_groups dsz (with_max_len 1 m) groups)"

definition all_fit :: "(string \<Rightarrow> int) \<Rightarrow> mem_config \<Rightarrow> (kv_cache_group_spec list \<times> int) list \<Rightarrow> int \<Rightarrow> bool" where
  "all_fit dsz m workers n \<longleftrightarrow> (\<forall>(groups, available) \<in> set workers. groups \<noteq> [] \<longrightarrow> fits_worker dsz m groups available n)"

lemma fit_fold:
  assumes limit: "1 \<le> cfg_max_model_len m"
  shows "\<forall>(groups, _) \<in> set ws. measurable dsz m groups \<Longrightarrow> best \<le> cfg_max_model_len m \<Longrightarrow>
    \<exists>b. rfold (fit_worker dsz m) ws best = Inr b \<and> b \<le> best
      \<and> (\<forall>n. 1 \<le> n \<longrightarrow> n \<le> cfg_max_model_len m \<longrightarrow> (n \<le> b) = (n \<le> best \<and> all_fit dsz m ws n))"
proof (induction ws arbitrary: best)
  case (Cons w ws)
  obtain groups available where w: "w = (groups, available)" by (cases w)
  obtain b' where b': "fit_worker dsz m w best = Inr b'" "b' \<le> best"
    "\<forall>n. 1 \<le> n \<longrightarrow> n \<le> cfg_max_model_len m \<longrightarrow> (n \<le> b') = (n \<le> best \<and> (groups \<noteq> [] \<longrightarrow> fits_worker dsz m groups available n))"
  proof (cases "groups = []")
    case False
    have ok: "\<forall>g \<in> set groups. plan_ok dsz (group_spec g)" "\<not> isl (max_memory_usage_bytes_from_groups dsz (with_max_len 1 m) groups)"
      using Cons.prems(1) by (simp_all add: w measurable_def list_all_iff)
    obtain need where "max_memory_usage_bytes_from_groups dsz (with_max_len 1 m) groups = Inr need" 
      using ok(2) by (cases "max_memory_usage_bytes_from_groups dsz (with_max_len 1 m) groups") auto
    then obtain r where r: "estimate_max_model_len_from_groups dsz m groups available = Inr r"
      "\<forall>n. 1 \<le> n \<longrightarrow> n \<le> cfg_max_model_len m \<longrightarrow> fits_worker dsz m groups available n = (n \<le> r)"
      using estimate_correct[OF ok(1) limit] by blast
    show ?thesis by (rule that[of "if r < best then r else best"]) (use False r in \<open>auto simp: w fit_worker_def\<close>)
  qed (use that[of best] in \<open>simp add: w fit_worker_def\<close>)
  have "\<exists>b. rfold (fit_worker dsz m) ws b' = Inr b \<and> b \<le> b'
      \<and> (\<forall>n. 1 \<le> n \<longrightarrow> n \<le> cfg_max_model_len m \<longrightarrow> (n \<le> b) = (n \<le> b' \<and> all_fit dsz m ws n))"
    using Cons.prems b'(2) by (intro Cons.IH) auto
  then show ?case using b' by (auto simp: w all_fit_def)
qed (simp add: all_fit_def)

text \<open>
  C11: Automatic fitting finds the longest model length the memory allows. When the specs of every worker are measurable,
  \<open>_auto_fit_max_model_len\<close> returns the greatest length, up to the model's own, at which a request fits on all workers,
  and raises \<open>ValueError\<close> exactly when not even one token fits.
\<close>

theorem auto_fit_longest:
  assumes "list_all (measurable dsz m) projected" "length available = length projected" "1 \<le> cfg_max_model_len m"
  shows "case auto_fit_max_model_len dsz m projected available of
      Inr m' \<Rightarrow> m' = with_max_len (cfg_max_model_len m') m \<and> 1 \<le> cfg_max_model_len m' \<and> cfg_max_model_len m' \<le> cfg_max_model_len m
        \<and> (\<forall>n. 1 \<le> n \<longrightarrow> n \<le> cfg_max_model_len m \<longrightarrow> all_fit dsz m (zip projected available) n = (n \<le> cfg_max_model_len m'))
    | Inl e \<Rightarrow> e = ValueError \<and> \<not> all_fit dsz m (zip projected available) 1"
proof -
  have same: "with_max_len (cfg_max_model_len m) m = m" by (simp add: with_max_len_def)
  have "\<forall>(groups, _) \<in> set (zip projected available). measurable dsz m groups" using assms(1) by (auto simp: list_all_iff dest: set_zip_leftD)
  from fit_fold[OF assms(3) this order_refl] obtain b where
    b: "rfold (fit_worker dsz m) (zip projected available) (cfg_max_model_len m) = Inr b" "b \<le> cfg_max_model_len m"
    "\<forall>n. 1 \<le> n \<longrightarrow> n \<le> cfg_max_model_len m \<longrightarrow> (n \<le> b) = (n \<le> cfg_max_model_len m \<and> all_fit dsz m (zip projected available) n)"
    by blast
  show ?thesis
  proof (cases "list_all (\<lambda>gs. gs = []) projected")
    case True
    then have "all_fit dsz m (zip projected available) n" for n by (auto simp: all_fit_def list_all_iff dest: set_zip_leftD)
    then show ?thesis using True same assms(3) by (simp add: auto_fit_max_model_len_def)
  next
    case False
    then have "projected \<noteq> []" by auto
    then obtain a where "py_index available 0 = Inr a" using assms(2) by (cases available) (auto simp: py_index_def)
    then have "auto_fit_max_model_len dsz m projected available = (if b \<le> 0 then Inl ValueError
        else if b \<ge> cfg_max_model_len m then Inr m else Inr (with_max_len b m))"
      using False b(1) by (simp add: auto_fit_max_model_len_def)
    moreover have "b = cfg_max_model_len m" if "cfg_max_model_len m \<le> b" using that b(2) by simp
    ultimately show ?thesis using b(2,3) same assms(3)
      by (cases "b \<le> 0"; cases "cfg_max_model_len m \<le> b") (auto simp: with_max_len_def)
  qed
qed

subsection \<open>Two windows without the hybrid manager\<close>

definition window_spec :: "int \<Rightarrow> kv_cache_spec" where
  "window_spec w = SlidingWindowSpec (sample_attention 16 Q_NONE) w 128"

definition two_windows :: layer_specs where
  "two_windows = [(''l0'', full_spec 16), (''l1'', window_spec 32), (''l2'', window_spec 64)]"


subsection \<open>A hybrid model on two workers\<close>

definition sample_mem :: mem_config where
  "sample_mem = \<lparr>cfg_max_model_len = 64, cfg_max_num_batched_tokens = 16, cfg_dcp_size = 1, cfg_pcp_size = 1,
     cfg_mamba_cache_mode = ''none'', cfg_max_num_encoder_input_tokens = 0\<rparr>"

definition sample_plan :: plan_config where
  "sample_plan = \<lparr>pc_mem = sample_mem, num_gpu_blocks_override = None, disable_hybrid_kv_cache_manager = False,
     pc_use_eagle = False, original_max_model_len = - 1, pc_block_size = 16, pc_hash_block_size = None,
     pc_enable_prefix_caching = True, pc_has_connector = False\<rparr>"

definition hybrid_layers :: layer_specs where
  "hybrid_layers = [(''l0'', full_spec 16), (''l1'', window_spec 32), (''l2'', full_spec 16), (''l3'', window_spec 32)]"

definition hybrid_groups :: "kv_cache_group_spec list" where
  "hybrid_groups = [new_group [''l0'', ''l2''] (full_spec 16), new_group [''l1'', ''l3''] (window_spec 32)]"

lemma Inr_of_map_sum: "map_sum f g x = Inr y \<Longrightarrow> \<exists>z. x = Inr z \<and> g z = y"
  by (cases x) auto

lemma hybrid_groups_eq: "get_kv_cache_groups (\<lambda>_. 2) builtin_registry sample_plan hybrid_layers = Inr hybrid_groups"
  by code_simp

theorem groups_partition_layers_witness:
  "mset (concat (map layer_names hybrid_groups)) = mset [''l0'', ''l1'', ''l2'', ''l3''] \<and> [] \<notin> set (map layer_names hybrid_groups)"
  using groups_partition_layers[OF hybrid_groups_eq]
  by (simp add: hybrid_layers_def has_spec_def full_spec_def window_spec_def isinstance_def issubclass_def)

definition hybrid_configs :: "(plan_config \<times> kv_cache_config list) result" where
  "hybrid_configs = get_kv_cache_configs (\<lambda>_. 2) builtin_registry sample_plan [hybrid_layers, hybrid_layers] [900000, 1200000]"

lemma hybrid_configs_eq:
  "map_sum id (map (\<lambda>c. (num_blocks c, kv_cache_groups c)) \<circ> snd) hybrid_configs = Inr [(6, hybrid_groups), (6, hybrid_groups)]"
  by code_simp


theorem auto_fit_longest_witness:
  "all_fit (\<lambda>_. 2) sample_mem [(hybrid_groups, 700000), (hybrid_groups, 800000)] 32
   \<and> \<not> all_fit (\<lambda>_. 2) sample_mem [(hybrid_groups, 700000), (hybrid_groups, 800000)] 33"
proof -
  have "page_size_bytes (\<lambda>_. 2) (full_spec 16) = Inr 65536" "page_size_bytes (\<lambda>_. 2) (window_spec 32) = Inr 65536" by code_simp+
  then have "layer_ok (\<lambda>_. 2) (full_spec 16)" "layer_ok (\<lambda>_. 2) (window_spec 32)"
    by (simp_all add: layer_ok_def) (simp_all add: full_spec_def window_spec_def sample_attention_def uniform_spec_iff)
  then have "plan_ok (\<lambda>_. 2) (full_spec 16)" "plan_ok (\<lambda>_. 2) (window_spec 32)"
    by (simp_all add: plan_ok_def full_spec_def window_spec_def)
  moreover have "max_memory_usage_bytes_from_groups (\<lambda>_. 2) (with_max_len 1 sample_mem) hybrid_groups = Inr 393216" by code_simp
  ultimately have m: "list_all (measurable (\<lambda>_. 2) sample_mem) [hybrid_groups, hybrid_groups]"
    by (simp add: measurable_def) (simp add: hybrid_groups_def new_group_def)
  have "map_sum id cfg_max_model_len (auto_fit_max_model_len (\<lambda>_. 2) sample_mem [hybrid_groups, hybrid_groups] [700000, 800000]) = Inr 32"
    by code_simp
  from Inr_of_map_sum[OF this] obtain m' where "auto_fit_max_model_len (\<lambda>_. 2) sample_mem [hybrid_groups, hybrid_groups] [700000, 800000] = Inr m'"
    "cfg_max_model_len m' = 32"
    by (elim exE conjE)
  moreover have "cfg_max_model_len sample_mem = 64" by (simp add: sample_mem_def)
  ultimately show ?thesis using auto_fit_longest[OF m, of "[700000, 800000]"] by simp
qed

end
