(* ===== verification/Spec2Isabelle.thy ===== *)
theory Spec2Isabelle
  imports Hybrid_Lookup Math_Utils Scheduler_Findings Planning_Properties
begin

text \<open>
  \<^bold>\<open>The scheduler and the KV cache of vLLM.\<close>

  The repository is vLLM with an experimental back end for mixtures of experts. Its own core logic, apart from tensor code, is
  the V1 scheduler and the management of the KV cache under \<open>src/vllm/vllm/v1\<close>; this development models that part. All
  file names below are relative to \<open>src/vllm/vllm\<close>.

  \<^bold>\<open>How the parts work together.\<close> At start-up the layers of the model are put into KV cache groups and every worker gets a
  number of blocks (planning). In each step \<open>Scheduler.schedule\<close> gives tokens to running and waiting requests. It asks the
  \<open>KVCacheManager\<close> for the cached prefix of a request and for slots; the manager passes the call to a coordinator, which
  runs one single-type manager per group over one shared \<open>BlockPool\<close>. The pool hands out blocks from the free queue, counts
  references, and finds cached blocks by the chained hashes of their tokens. If there is no room, the scheduler preempts
  requests. The encoder cache does the same for multi-modal inputs. After the model has run, \<open>update_from_output\<close>
  appends the sampled tokens, checks the stop criteria and frees what has finished.

  \<^bold>\<open>Theories and sources.\<close>

  \<^item> \<open>Prelude\<close>: Python results as \<open>py_error + 'a\<close>, loops that may raise, dictionaries as association lists in insertion order,
    list indices; the lemmas all theories share.
  \<^item> \<open>Math_Utils\<close> (\<open>utils/math_utils.py\<close>).
  \<^item> \<open>Free_Block_Queue\<close>, \<open>Block_Hash\<close>, \<open>Kv_Cache_Planning\<close> (\<open>v1/core/kv_cache_utils.py\<close>): the linked queue of free blocks on a
    heap of block objects; block hashes and extra keys; grouping of layers, memory checks, tensor layouts and
    \<open>get_kv_cache_configs\<close>. \<open>Planning_Properties\<close> has the theorems on the last.
  \<^item> \<open>Block_Hash_Map\<close>, \<open>Block_Pool\<close> (\<open>v1/core/block_pool.py\<close>), with \<open>Kv_Cache_Metrics\<close> (\<open>v1/core/kv_cache_metrics.py\<close>) and
    \<open>Prefix_Cache_Stats\<close> (\<open>v1/metrics/stats.py\<close>).
  \<^item> \<open>Requests\<close>, \<open>Request_Frame\<close> (\<open>v1/request.py\<close>, \<open>v1/core/sched/utils.py\<close>): requests, streaming updates, the stop criteria;
    which fields the cache operations leave alone.
  \<^item> \<open>Kv_Cache_Spec\<close> (\<open>v1/kv_cache_interface.py\<close>, \<open>v1/core/kv_cache_spec_registry.py\<close>): the spec classes and their registry.
  \<^item> \<open>Cache_Hits\<close>, \<open>Single_Type_Manager\<close> (\<open>v1/core/single_type_kv_cache_manager.py\<close>): the prefix lookups and the managers.
  \<^item> \<open>Coordinator\<close>, \<open>Hybrid_Lookup\<close> (\<open>v1/core/kv_cache_coordinator.py\<close>).
  \<^item> \<open>KV_Cache_Manager\<close>, \<open>Allocation_Budget\<close>, \<open>Slot_Allocation\<close> (\<open>v1/core/kv_cache_manager.py\<close>).
  \<^item> \<open>Encoder_Cache\<close> (\<open>v1/core/encoder_cache_manager.py\<close>), \<open>Encoder_Scheduling\<close> (its use in \<open>v1/core/sched/scheduler.py\<close> and
    the look-ups of \<open>v1/worker/gpu_model_runner.py\<close>).
  \<^item> \<open>Heapq\<close>, \<open>Request_Queue\<close> (\<open>v1/core/sched/request_queue.py\<close>): both policies, the second over Python's \<open>heapq\<close>.
  \<^item> \<open>Scheduler_State\<close>, \<open>Schedule_Running\<close>, \<open>Schedule_Waiting\<close>, \<open>Scheduler_Step\<close>, \<open>Scheduler_Update\<close>
    (\<open>v1/core/sched/scheduler.py\<close>, \<open>async_scheduler.py\<close>, \<open>output.py\<close>): the state of the scheduler, the two loops of
    \<open>schedule\<close>, the step as a whole, and every other entry point.
  \<^item> \<open>Scheduler_Invariant\<close>, \<open>Scheduler_Budget\<close>, \<open>Scheduler_Properties\<close>, \<open>Scheduler_Outcome\<close>, \<open>Scheduler_Findings\<close>: what is
    proved of the scheduler.

  \<^bold>\<open>State and effects.\<close> An object is a record, a class hierarchy a datatype with one constructor per class. A method takes the
  state and returns the new one; a raise is \<open>Inl\<close> with the exception. Block objects are shared by queue, hash map and tables, so
  they live in a heap of references. Requests are shared by the queues and the dictionary \<open>requests\<close>, which is their
  store. Integers are Python's unbounded ones; block hashes are lists of bytes (\<open>8 word\<close>). Floats that are computed with are
  exact rationals.

  \<^bold>\<open>What is proved.\<close>

  \<^item> \<^emph>\<open>Blocks.\<close> The linked queue refines plain lists (locale \<open>free_queue\<close>); in every reachable pool and manager the reference counts
    are the occurrences in the block tables and the free queue has exactly the unreferenced blocks; allocation never hands out
    a block in use; lookups are sound, and find what was registered.
  \<^item> \<^emph>\<open>Hashes.\<close> The incremental hasher computes the chain over the whole request, and equal hashes mean equal prefixes, for a hash
    function without collisions on the inputs at hand.
  \<^item> \<^emph>\<open>Prefix lookups.\<close> The full-attention lookup is the longest aligned prefix of cached blocks; a sliding-window hit covers the
    window; the mask keeps every block a later lookup can reach; the fixed-point iteration over several groups ends.
  \<^item> \<^emph>\<open>Allocation.\<close> The number of blocks asked for is never exceeded, group by group (locales \<open>manager_step\<close> and
    \<open>budgeted_step\<close>), so \<open>allocate_slots\<close> succeeds when it has started; other requests keep their tables; \<open>free\<close> releases
    exactly what the request held.
  \<^item> \<^emph>\<open>Scheduling.\<close> \<open>schedule\<close> loses and duplicates no request, keeps statuses and places together and stays within its limits;
    \<open>update_from_output\<close> removes exactly the finished requests; a reset keeps the order of the running ones. Both request queues
    meet one contract (locale \<open>queue_contract\<close>).
  \<^item> \<^emph>\<open>Encoder inputs.\<close> The slots are accounted for, and every output the model runner looks up is cached.
  \<^item> \<^emph>\<open>Planning.\<close> Each layer is in one group, all workers get the same number of blocks and their tensors fit the memory,
    and the automatic model length is the longest that fits.
  \<^item> \<^emph>\<open>Defects.\<close> Several theorems exhibit inputs on which the code does not do what it means to: a lost session, encoder inputs that
    never run, hits that overrun, a manager class that cannot be constructed, a model that cannot be planned.

  \<^bold>\<open>Parameters.\<close> Code outside the repository, or chosen at run time, is an argument or a field of a configuration: the hash
  function of a block and \<open>sha256\<close>, the sizes of torch dtypes, the hook that registers further specs, the KV and encoder
  connectors and the structured output manager with a state of their own, the order in which a Python set is iterated over, the
  clock and the random numbers. Hypotheses on them are in the theorems, and witnesses instantiate them.

  \<^bold>\<open>Termination.\<close> No definition has fuel. Loops are structural recursions or \<open>function\<close>s with a measure (the binary searches, the
  loops of \<open>schedule\<close>, the sifts of the heap). The fixed-point iteration of the hybrid lookup may run forever in the code: it is
  a \<open>partial_function\<close> in which not returning is \<open>None\<close>, and it is shown to return for positive block sizes. Where another
  operation calls it, \<open>None\<close> becomes the outcome \<open>Diverge\<close>, as does hashing with a block size that is not positive.

  \<^bold>\<open>Not modelled.\<close> The engine processes and front ends, argument parsing and the validation of settings: glue around the
  scheduler. Workers, model runner, models, layers and kernels, the mixture-of-experts back end included: tensor
  computations on the device. Connectors, grammars and samplers: parameters. In the modelled files: log messages, log
  probabilities, routed experts, publication of KV events and of statistics, shutdown.
\<close>

end
